(* ===== verification/Anna_Prelude.thy ===== *)
theory Anna_Prelude
  imports Complex_Main "HOL-Library.Word" "HOL-Library.Multiset" "HOL-Library.Signed_Division"
begin

text \<open>
  Shared vocabulary of the development: the machine types of the C++ sources, the result
  type that makes every abort of the program a value, bounds-checked access to
  \<^verbatim>\<open>std::vector\<close>, the container operations the sources use
  (\<^verbatim>\<open>std::multimap\<close>, \<^verbatim>\<open>std::multiset\<close>), and the
  generic interfaces (locales) that several components implement.
\<close>

text \<open>Quantifiers over bank identifiers stay quantifiers over triples.\<close>

declare split_paired_All [simp del] split_paired_Ex [simp del]

section \<open>Machine integers and aborts\<close>

text \<open>
  \<^verbatim>\<open>uint64_t\<close> is a 64-bit word, so additions wrap; \<^verbatim>\<open>int\<close>
  is a mathematical integer (signed overflow is undefined in C++ and every
  \<^verbatim>\<open>int\<close> of the sources holds a small configuration value or index).
\<close>

type_synonym u64 = "64 word"

text \<open>
  Everything that stops the program or makes it undefined: \<^verbatim>\<open>AbruptExit\<close>
  (with the file it is called from), \<^verbatim>\<open>exit(n)\<close>, a failed
  \<^verbatim>\<open>assert\<close>, a \<^verbatim>\<open>std::vector\<close> index out of range, the
  dereference of an \<^verbatim>\<open>end()\<close> iterator or of the front of an empty
  container, a missing key in \<^verbatim>\<open>std::map::at\<close>, and a division by zero.
  \<open>OutOfFuel\<close> says that a loop reached the bound on its iterations that its model carries.
\<close>

datatype error =
    AbruptExit string
  | ExitCode int
  | AssertFailed string
  | OutOfRange
  | EndIterator
  | MissingKey
  | DivisionByZero
  | OutOfFuel

type_synonym 'a res = "error + 'a"

named_theorems res_simps \<open>rewriting of results\<close>
named_theorems wf_intros \<open>introduction rules for well-formedness\<close>

definition res_bind :: "'a res \<Rightarrow> ('a \<Rightarrow> 'b res) \<Rightarrow> 'b res" where
  "res_bind m k = (case m of Inl e \<Rightarrow> Inl e | Inr x \<Rightarrow> k x)"

definition is_ok :: "'a res \<Rightarrow> bool" where
  "is_ok m = (case m of Inl _ \<Rightarrow> False | Inr _ \<Rightarrow> True)"

lemma res_bind_Inl [simp]: "res_bind (Inl e) k = Inl e"
  by (simp add: res_bind_def)

lemma res_bind_Inr [simp]: "res_bind (Inr x) k = k x"
  by (simp add: res_bind_def)

lemma res_bind_eq_Inr [res_simps]:
  "res_bind m k = Inr y \<longleftrightarrow> (\<exists>x. m = Inr x \<and> k x = Inr y)"
  by (cases m) auto

lemma is_ok_simps [simp]: "is_ok (Inl e) = False" "is_ok (Inr x) = True"
  by (simp_all add: is_ok_def)

lemma is_ok_iff: "is_ok m \<longleftrightarrow> (\<exists>x. m = Inr x)"
  by (cases m) auto

lemma is_ok_bind: "is_ok (res_bind m k) \<longleftrightarrow> (\<exists>x. m = Inr x \<and> is_ok (k x))"
  by (cases m) auto

lemma res_bind_cong [fundef_cong]:
  "m = m' \<Longrightarrow> (\<And>x. m' = Inr x \<Longrightarrow> k x = k' x) \<Longrightarrow> res_bind m k = res_bind m' k'"
  by (cases m') auto

lemma res_bind_assoc: "res_bind (res_bind m k) k' = res_bind m (\<lambda>x. res_bind (k x) k')"
  by (cases m) simp_all

text \<open>A C++ range \<^verbatim>\<open>for\<close> loop over a list of items whose body may abort.\<close>

fun res_fold :: "('a \<Rightarrow> 's \<Rightarrow> 's res) \<Rightarrow> 'a list \<Rightarrow> 's \<Rightarrow> 's res" where
  "res_fold f [] s = Inr s"
| "res_fold f (x # xs) s = res_bind (f x s) (res_fold f xs)"

lemma res_fold_append [simp]:
  "res_fold f (xs @ ys) s = res_bind (res_fold f xs s) (res_fold f ys)"
proof (induction xs arbitrary: s)
  case (Cons x xs)
  then show ?case by (cases "f x s") simp_all
qed simp

lemma res_bind_fold_Nil [simp]: "res_bind m (res_fold f []) = m"
  by (cases m) simp_all

lemma res_fold_map: "res_fold f (map h xs) s = res_fold (\<lambda>x. f (h x)) xs s"
proof (induction xs arbitrary: s)
  case (Cons x xs)
  then show ?case by (cases "f (h x) s") simp_all
qed simp

lemma res_fold_invariant:
  assumes step: "\<And>x s s'. x \<in> set xs \<Longrightarrow> P s \<Longrightarrow> f x s = Inr s' \<Longrightarrow> P s'"
    and run: "res_fold f xs s = Inr s'" and init: "P s"
  shows "P s'"
  using assms
proof (induction xs arbitrary: s)
  case (Cons x xs)
  from Cons.prems(2) obtain t where t: "f x s = Inr t" "res_fold f xs t = Inr s'"
    by (auto simp: res_simps)
  show ?case
  proof (rule Cons.IH [OF _ t(2)])
    show "P t" using Cons.prems(1) [of x s t] Cons.prems(3) t(1) by simp
    show "P u'" if "y \<in> set xs" "P u" "f y u = Inr u'" for y u u'
      using Cons.prems(1) [of y u u'] that by simp
  qed
qed simp

lemma res_fold_ok:
  assumes "\<And>x s. x \<in> set xs \<Longrightarrow> P s \<Longrightarrow> \<exists>s'. f x s = Inr s' \<and> P s'" and "P s"
  shows "\<exists>s'. res_fold f xs s = Inr s' \<and> P s'"
  using assms
proof (induction xs arbitrary: s)
  case (Cons x xs)
  from Cons.prems(1) [of x s] Cons.prems(2)
  obtain t where t: "f x s = Inr t" "P t" by auto
  have "\<exists>s'. res_fold f xs t = Inr s' \<and> P s'"
    by (rule Cons.IH [OF _ t(2)]) (use Cons.prems(1) in auto)
  with t show ?case by simp
qed simp

text \<open>A loop over the elements of a vector that updates each of them in place, alone or together
  with a state that all iterations share.\<close>

fun res_map :: "('a \<Rightarrow> 'b res) \<Rightarrow> 'a list \<Rightarrow> 'b list res" where
  "res_map f [] = Inr []"
| "res_map f (x # xs) = res_bind (f x) (\<lambda>y. res_bind (res_map f xs) (\<lambda>ys. Inr (y # ys)))"

fun res_map_state :: "('a \<Rightarrow> 's \<Rightarrow> ('b \<times> 's) res) \<Rightarrow> 'a list \<Rightarrow> 's \<Rightarrow> ('b list \<times> 's) res" where
  "res_map_state f [] s = Inr ([], s)"
| "res_map_state f (x # xs) s =
     res_bind (f x s) (\<lambda>(y, s'). res_bind (res_map_state f xs s') (\<lambda>(ys, s''). Inr (y # ys, s'')))"

lemma res_map_ok:
  assumes "\<And>x. x \<in> set xs \<Longrightarrow> \<exists>y. f x = Inr y \<and> R x y"
  shows "\<exists>ys. res_map f xs = Inr ys \<and> list_all2 R xs ys"
  using assms
proof (induction xs)
  case (Cons x xs)
  obtain y where "f x = Inr y" "R x y" using Cons.prems [of x] by auto
  moreover obtain ys where "res_map f xs = Inr ys" "list_all2 R xs ys" using Cons by auto
  ultimately show ?case by simp
qed simp

section \<open>Vectors\<close>

text \<open>
  \<^verbatim>\<open>v[i]\<close> with an \<^verbatim>\<open>int\<close> index: out of range is undefined in
  C++ and an error here.
\<close>

definition vget :: "'a list \<Rightarrow> int \<Rightarrow> 'a res" where
  "vget xs i = (if 0 \<le> i \<and> i < int (length xs) then Inr (xs ! nat i) else Inl OutOfRange)"

definition vset :: "'a list \<Rightarrow> int \<Rightarrow> 'a \<Rightarrow> 'a list res" where
  "vset xs i v = (if 0 \<le> i \<and> i < int (length xs) then Inr (xs[nat i := v]) else Inl OutOfRange)"

definition vupd :: "('a \<Rightarrow> 'a res) \<Rightarrow> 'a list \<Rightarrow> int \<Rightarrow> 'a list res" where
  "vupd f xs i = res_bind (vget xs i) (\<lambda>x. res_bind (f x) (vset xs i))"

text \<open>The loop \<^verbatim>\<open>for (int i = 0; i < n; i++)\<close> visits these indices.\<close>

definition irange :: "int \<Rightarrow> int list" where
  "irange n = map int [0..<nat n]"

lemma set_irange [simp]: "set (irange n) = {i. 0 \<le> i \<and> i < n}"
proof -
  have "i \<in> int ` {0..<nat n}" if "0 \<le> i" "i < n" for i
    using that by (intro image_eqI [of _ _ "nat i"]) auto
  then show ?thesis by (auto simp: irange_def)
qed

lemma distinct_irange [simp]: "distinct (irange n)"
  by (simp add: irange_def distinct_map)

lemma length_irange [simp]: "length (irange n) = nat n"
  by (simp add: irange_def)

lemma irange_nat: "irange (int n) = map int [0..<n]"
  by (simp add: irange_def)

lemma vget_eq_Inr [res_simps]:
  "vget xs i = Inr x \<longleftrightarrow> 0 \<le> i \<and> i < int (length xs) \<and> x = xs ! nat i"
  by (auto simp: vget_def)

lemma vset_eq_Inr [res_simps]:
  "vset xs i v = Inr ys \<longleftrightarrow> 0 \<le> i \<and> i < int (length xs) \<and> ys = xs[nat i := v]"
  by (auto simp: vset_def)

lemma vupd_eq_Inr [res_simps]:
  "vupd f xs i = Inr ys \<longleftrightarrow>
     0 \<le> i \<and> i < int (length xs) \<and> (\<exists>y. f (xs ! nat i) = Inr y \<and> ys = xs[nat i := y])"
  by (auto simp: vupd_def res_simps)

section \<open>Associative containers\<close>

text \<open>
  A \<^verbatim>\<open>std::multimap\<close> is an association list in insertion order: elements of
  equal key keep their order of insertion, \<^verbatim>\<open>find\<close> gives the first of them,
  and nothing in the sources depends on the order between different keys.
\<close>

type_synonym ('k, 'v) multimap = "('k \<times> 'v) list"

definition mm_insert :: "'k \<Rightarrow> 'v \<Rightarrow> ('k, 'v) multimap \<Rightarrow> ('k, 'v) multimap" where
  "mm_insert k v m = m @ [(k, v)]"

definition mm_count :: "'k \<Rightarrow> ('k, 'v) multimap \<Rightarrow> nat" where
  "mm_count k m = length (filter (\<lambda>e. fst e = k) m)"

definition mm_find :: "'k \<Rightarrow> ('k, 'v) multimap \<Rightarrow> 'v option" where
  "mm_find k m = map_of m k"

fun mm_erase_first :: "'k \<Rightarrow> ('k, 'v) multimap \<Rightarrow> ('k, 'v) multimap" where
  "mm_erase_first k [] = []"
| "mm_erase_first k (e # m) = (if fst e = k then m else e # mm_erase_first k m)"

definition mm_keys :: "('k, 'v) multimap \<Rightarrow> 'k multiset" where
  "mm_keys m = image_mset fst (mset m)"

lemma mm_keys_insert [simp]: "mm_keys (mm_insert k v m) = add_mset k (mm_keys m)"
  by (simp add: mm_keys_def mm_insert_def)

lemma mm_keys_Nil [simp]: "mm_keys [] = {#}"
  by (simp add: mm_keys_def)

lemma mm_count_insert: "mm_count k (mm_insert k' v m) = mm_count k m + (if k = k' then 1 else 0)"
  by (simp add: mm_count_def mm_insert_def)

lemma mm_count_keys: "mm_count k m = count (mm_keys m) k"
  by (induction m) (auto simp: mm_count_def mm_keys_def)

lemma mm_find_None: "mm_find k m = None \<longleftrightarrow> k \<notin># mm_keys m"
  by (auto simp: mm_find_def mm_keys_def map_of_eq_None_iff)

lemma mm_keys_erase_first:
  "k \<in># mm_keys m \<Longrightarrow> mm_keys (mm_erase_first k m) = mm_keys m - {#k#}"
  by (induction m) (auto simp: mm_keys_def)

lemma mm_erase_first_subset: "set (mm_erase_first a m) \<subseteq> set m"
  by (induction m) auto

lemma mm_find_mem: "mm_find a m = Some i \<Longrightarrow> (a, i) \<in> set m"
  by (simp add: mm_find_def map_of_SomeD)

lemma mset_mm_erase_first:
  "mm_find k m = Some v \<Longrightarrow> mset (mm_erase_first k m) = mset m - {#(k, v)#}"
  by (induction m) (auto simp: mm_find_def split: if_splits)


text \<open>
  A \<^verbatim>\<open>std::map\<close> is an association list with distinct keys in the order of
  their first insertion; the sources never depend on the order of two different keys.
  \<open>sm_put\<close> is \<^verbatim>\<open>m[k] = v\<close>, \<open>sm_emplace\<close> keeps an existing entry, and
  \<open>sm_get d\<close> reads \<^verbatim>\<open>m[k]\<close>, where a missing key has the value \<open>d\<close> of the
  default constructor.
\<close>

type_synonym ('k, 'v) smap = "('k \<times> 'v) list"

fun sm_put :: "'k \<Rightarrow> 'v \<Rightarrow> ('k, 'v) smap \<Rightarrow> ('k, 'v) smap" where
  "sm_put k v [] = [(k, v)]"
| "sm_put k v ((k', v') # m) = (if k' = k then (k, v) # m else (k', v') # sm_put k v m)"

definition sm_emplace :: "'k \<Rightarrow> 'v \<Rightarrow> ('k, 'v) smap \<Rightarrow> ('k, 'v) smap" where
  "sm_emplace k v m = (if map_of m k = None then m @ [(k, v)] else m)"

definition sm_get :: "'v \<Rightarrow> ('k, 'v) smap \<Rightarrow> 'k \<Rightarrow> 'v" where
  "sm_get d m k = (case map_of m k of None \<Rightarrow> d | Some v \<Rightarrow> v)"

definition sm_at :: "('k, 'v) smap \<Rightarrow> 'k \<Rightarrow> 'v res" where
  "sm_at m k = (case map_of m k of None \<Rightarrow> Inl MissingKey | Some v \<Rightarrow> Inr v)"

lemma map_of_sm_put [simp]: "map_of (sm_put k v m) = (map_of m)(k \<mapsto> v)"
  by (induction m) (auto simp: fun_eq_iff)

lemma keys_sm_put [simp]: "fst ` set (sm_put k v m) = insert k (fst ` set m)"
  by (induction k v m rule: sm_put.induct) (simp_all add: insert_commute)

lemma keys_sm_put_in: "k \<in> fst ` set m \<Longrightarrow> map fst (sm_put k v m) = map fst m"
  by (induction k v m rule: sm_put.induct) (simp_all, blast)

lemma distinct_sm_put [simp]: "distinct (map fst (sm_put k v m)) = distinct (map fst m)"
  by (induction k v m rule: sm_put.induct) simp_all

lemma sm_get_put [simp]: "sm_get d (sm_put k v m) k' = (if k' = k then v else sm_get d m k')"
  by (simp add: sm_get_def)


section \<open>Erasing from a vector\<close>

text \<open>The loop that looks for the first element with a property and erases it.\<close>

fun erase_first :: "('a \<Rightarrow> bool) \<Rightarrow> 'a list \<Rightarrow> 'a list" where
  "erase_first P [] = []"
| "erase_first P (x # xs) = (if P x then xs else x # erase_first P xs)"

lemma set_erase_first_subset: "set (erase_first P xs) \<subseteq> set xs"
  by (induction xs) auto

lemma erase_first_find:
  "find P xs = Some x \<Longrightarrow> mset (erase_first P xs) = mset xs - {#x#} \<and> x \<in># mset xs \<and> P x"
  by (induction xs) (auto split: if_splits)

lemma erase_first_id: "find P xs = None \<Longrightarrow> erase_first P xs = xs"
  by (induction xs) (auto split: if_splits)

section \<open>Round-robin counters\<close>

text \<open>
  The contract of a cyclic position, shared by the schedulers of the program: a step moves it
  to the next of \<open>N\<close> places. The client facts: after \<open>k\<close> steps it has moved \<open>k\<close> places, and a
  full round visits every place exactly once.
\<close>

lemma mod_add_cancel_left_nat:
  assumes "((a::nat) + b) mod n = (a + c) mod n"
  shows "b mod n = c mod n"
proof -
  have "int ((a + b) mod n) = int ((a + c) mod n)" using assms by simp
  then have "(int a + int b) mod int n = (int a + int c) mod int n" by (simp add: zmod_int)
  then have "int b mod int n = int c mod int n" by (simp add: mod_eq_dvd_iff)
  then show ?thesis by (simp flip: zmod_int)
qed

fun res_iter :: "('s \<Rightarrow> 's res) \<Rightarrow> nat \<Rightarrow> 's \<Rightarrow> 's res" where
  "res_iter f 0 s = Inr s"
| "res_iter f (Suc k) s = res_bind (res_iter f k s) f"

locale ring_counter =
  fixes nxt :: "'s \<Rightarrow> 's res" and inv :: "'s \<Rightarrow> bool" and pos :: "'s \<Rightarrow> nat" and N :: nat
  assumes pos_bound: "inv s \<Longrightarrow> pos s < N"
    and nxt_step: "inv s \<Longrightarrow> \<exists>s'. nxt s = Inr s' \<and> inv s' \<and> pos s' = Suc (pos s) mod N"
begin

lemma iter_pos: "inv s \<Longrightarrow> \<exists>s'. res_iter nxt k s = Inr s' \<and> inv s' \<and> pos s' = (pos s + k) mod N"
proof (induction k)
  case 0
  then show ?case using pos_bound by simp
next
  case (Suc k)
  then obtain s' where s': "res_iter nxt k s = Inr s'" "inv s'" "pos s' = (pos s + k) mod N" by auto
  from nxt_step [OF s'(2)] s' show ?case by (auto simp: mod_Suc_eq)
qed

lemma round_visits_once:
  assumes inv: "inv s" and p: "p < N"
  shows "\<exists>!k. k < N \<and> (\<exists>s'. res_iter nxt k s = Inr s' \<and> pos s' = p)"
proof
  let ?k = "(p + (N - pos s)) mod N"
  have b: "pos s < N" by (rule pos_bound [OF inv])
  have "(pos s + ?k) mod N = (pos s + (p + (N - pos s))) mod N" by (simp add: mod_add_right_eq)
  also have "\<dots> = (p + N) mod N" using b by (simp add: algebra_simps)
  finally have "(pos s + ?k) mod N = p" using p by simp
  with iter_pos [OF inv, of ?k] show "?k < N \<and> (\<exists>s'. res_iter nxt ?k s = Inr s' \<and> pos s' = p)"
    using p by auto
  fix k assume k: "k < N \<and> (\<exists>s'. res_iter nxt k s = Inr s' \<and> pos s' = p)"
  with iter_pos [OF inv, of k] have "(pos s + k) mod N = p" by auto
  with \<open>(pos s + ?k) mod N = p\<close> have "(pos s + k) mod N = (pos s + ?k) mod N" by simp
  then have "k mod N = ?k mod N" by (rule mod_add_cancel_left_nat)
  with k show "k = ?k" by simp
qed

end

end
