(* ===== verification/Anna_Config.thy ===== *)
theory Anna_Config
  imports Anna_Prelude
begin

text \<open>
  \<^verbatim>\<open>multi_anna/config.hpp\<close>, \<^verbatim>\<open>config.cpp\<close> and \<^verbatim>\<open>query.hpp\<close>: the
  constants of the accelerator, the global tables (as one record, the \<open>tables\<close> argument of the
  modules) and the counters; and the preparation of both in \<^verbatim>\<open>test.cpp\<close>. Lemmas: the
  clusters lie one behind the other in memory, each large enough for its encoded vectors.
\<close>

section \<open>Constants\<close>

definition W :: u64 where "W = 128"
definition MEMORY_SIZE :: u64 where "MEMORY_SIZE = 8 * push_bit 30 1"
definition CLUSTER_NUM :: u64 where "CLUSTER_NUM = 16384"
definition METADATA_LEN :: u64 where "METADATA_LEN = 64"
definition QUERY_NUM :: u64 where "QUERY_NUM = 1024"
definition use_memory_switch :: u64 where "use_memory_switch = 1"
definition metadata_addr_start :: u64 where "metadata_addr_start = 0x10000"
definition cluster_centroid_addr_start :: u64 where "cluster_centroid_addr_start = 0x20000"
definition cluster_addr_start :: u64 where "cluster_addr_start = 0x30000"
definition MAX_CLUSTER_LEN :: u64 where "MAX_CLUSTER_LEN = 20000"
definition VECTOR_ELEMENT_SIZE :: u64 where "VECTOR_ELEMENT_SIZE = 2"
definition N_cu :: u64 where "N_cu = 128"
definition N_scm :: u64 where "N_scm = 36"
definition N_u :: u64 where "N_u = 32"
definition D :: u64 where "D = 384"
definition M :: u64 where "M = 32"
definition SCM_CYCLES_PER_QUERY :: u64 where "SCM_CYCLES_PER_QUERY = (M - 1) div N_u + 1"
definition LOG_K_STAR :: u64 where "LOG_K_STAR = 8"
definition K_STAR :: u64 where "K_STAR = push_bit (unat LOG_K_STAR) 1"
definition VECTOR_SIZE :: u64 where "VECTOR_SIZE = D * VECTOR_ELEMENT_SIZE"
definition ENCODED_VECTOR_SIZE_PER_BITS :: u64 where "ENCODED_VECTOR_SIZE_PER_BITS = LOG_K_STAR * M"
definition BATCH_SIZE :: u64 where "BATCH_SIZE = 16"

lemmas anna_constants =
  W_def MEMORY_SIZE_def CLUSTER_NUM_def METADATA_LEN_def QUERY_NUM_def use_memory_switch_def
  metadata_addr_start_def cluster_centroid_addr_start_def cluster_addr_start_def MAX_CLUSTER_LEN_def
  VECTOR_ELEMENT_SIZE_def N_cu_def N_scm_def N_u_def D_def M_def SCM_CYCLES_PER_QUERY_def
  LOG_K_STAR_def K_STAR_def VECTOR_SIZE_def ENCODED_VECTOR_SIZE_PER_BITS_def BATCH_SIZE_def

section \<open>Tables and counters\<close>

record Cluster =
  start_addr :: u64
  cluster_bytes :: u64
  vector_num :: u64

text \<open>The global tables \<^verbatim>\<open>metadata_addr\<close>, \<^verbatim>\<open>cluster_addr\<close> and
  \<^verbatim>\<open>cluster_centroid\<close>.\<close>

record anna_tables =
  metadata_addr :: "(u64 \<times> u64) list"
  cluster_addr :: "Cluster list"
  cluster_centroid :: "u64 list"

record TestValue =
  memory_req_cnt :: u64
  cpm_computing_cycle_cnt :: u64
  scm_computing_cycle_cnt :: u64
  efm_blocked_cycle_cnt :: u64
  cluster_vector_cnt :: u64
  cpm_topk_calc_cnt :: u64
  cpm_cu_calc_cnt :: u64
  scm_topk_calc_cnt :: u64
  scm_reduction_tree_calc_cnt :: u64
  cpm_query_buffer_read :: u64
  cpm_query_buffer_write :: u64
  cpm_codebook_buffer_read :: u64
  cpm_codebook_buffer_write :: u64
  efm_encoded_vector_buffer_read :: u64
  efm_encoded_vector_buffer_write :: u64
  scm_lookup_table_buffer_read :: u64
  scm_lookup_table_buffer_write :: u64
  cpm_memory_reader_read :: u64
  efm_memory_reader_read :: u64
  queries_start_clock :: "u64 list"
  queries_end_clock :: "u64 list"
  queries_size :: "u64 list"

definition TestValue_new :: TestValue where
  "TestValue_new =
     \<lparr>memory_req_cnt = 0, cpm_computing_cycle_cnt = 0, scm_computing_cycle_cnt = 0, efm_blocked_cycle_cnt = 0,
      cluster_vector_cnt = 0, cpm_topk_calc_cnt = 0, cpm_cu_calc_cnt = 0, scm_topk_calc_cnt = 0,
      scm_reduction_tree_calc_cnt = 0, cpm_query_buffer_read = 0, cpm_query_buffer_write = 0,
      cpm_codebook_buffer_read = 0, cpm_codebook_buffer_write = 0, efm_encoded_vector_buffer_read = 0,
      efm_encoded_vector_buffer_write = 0, scm_lookup_table_buffer_read = 0, scm_lookup_table_buffer_write = 0,
      cpm_memory_reader_read = 0, efm_memory_reader_read = 0, queries_start_clock = [], queries_end_clock = [],
      queries_size = []\<rparr>"

text \<open>An index of type \<^verbatim>\<open>uint64_t\<close> into a vector.\<close>

definition uget :: "'a list \<Rightarrow> u64 \<Rightarrow> 'a res" where
  "uget xs i = vget xs (uint i)"

definition uset :: "'a list \<Rightarrow> u64 \<Rightarrow> 'a \<Rightarrow> 'a list res" where
  "uset xs i v = vset xs (uint i) v"

lemma uget_def': "uget xs i = (if unat i < length xs then Inr (xs ! unat i) else Inl OutOfRange)"
  by (simp only: uget_def vget_def uint_nat of_nat_less_iff of_nat_0_le_iff nat_int simp_thms)

lemma uset_def': "uset xs i v = (if unat i < length xs then Inr (xs[unat i := v]) else Inl OutOfRange)"
  by (simp only: uset_def vset_def uint_nat of_nat_less_iff of_nat_0_le_iff nat_int simp_thms)

record Query =
  q_clusters :: "u64 list"
  q_centroids :: "u64 list"

definition Query_new :: "anna_tables \<Rightarrow> u64 list \<Rightarrow> Query res" where
  "Query_new tb cl = res_bind (res_map (uget (cluster_centroid tb)) cl) (\<lambda>cs. Inr \<lparr>q_clusters = cl, q_centroids = cs\<rparr>)"

section \<open>Preparation\<close>

text \<open>The indices of a loop \<^verbatim>\<open>for (uint64_t i = 0; i < n; i++)\<close>.\<close>

definition urange :: "u64 \<Rightarrow> u64 list" where
  "urange n = map of_nat [0..<unat n]"

text \<open>The bytes of a cluster; its size is an \<^verbatim>\<open>int\<close> that the multiplication converts.\<close>

definition encoded_bytes :: "int \<Rightarrow> u64" where
  "encoded_bytes n = (of_int n * ENCODED_VECTOR_SIZE_PER_BITS + 7) div 8"

definition layout_step :: "int list \<Rightarrow> u64 \<Rightarrow> Cluster list \<times> u64 \<Rightarrow> (Cluster list \<times> u64) res" where
  "layout_step sizes i = (\<lambda>(cl, now).
     res_bind (uget sizes i) (\<lambda>n.
       Inr (cl @ [\<lparr>start_addr = now, cluster_bytes = encoded_bytes n, vector_num = of_int n\<rparr>], now + encoded_bytes n)))"

text \<open>\<^verbatim>\<open>prepare_config\<close> on the sizes read from the file, for \<open>n\<close> clusters.\<close>

definition prepare_config :: "u64 \<Rightarrow> int list \<Rightarrow> anna_tables res" where
  "prepare_config n sizes =
     res_bind (res_fold (layout_step sizes) (urange n) ([], cluster_addr_start)) (\<lambda>(cl, now).
       Inr \<lparr>metadata_addr = map (\<lambda>i. (metadata_addr_start + i * METADATA_LEN, METADATA_LEN)) (urange n),
            cluster_addr = cl,
            cluster_centroid = map (\<lambda>i. cluster_centroid_addr_start + i * VECTOR_SIZE) (urange n)\<rparr>)"

text \<open>The counters that \<^verbatim>\<open>main\<close> computes before the run.\<close>

definition query_step :: "anna_tables \<Rightarrow> u64 list \<Rightarrow> TestValue \<Rightarrow> TestValue res" where
  "query_step tb q tv =
     res_bind (res_fold (\<lambda>c (size, cnt). res_bind (uget (cluster_addr tb) c) (\<lambda>cl. Inr (size + vector_num cl, cnt + vector_num cl)))
       q (0, cluster_vector_cnt tv)) (\<lambda>(size, cnt).
       Inr (tv\<lparr>queries_size := queries_size tv @ [size], cluster_vector_cnt := cnt\<rparr>))"

definition prepare_test_value :: "anna_tables \<Rightarrow> u64 list list \<Rightarrow> u64 \<Rightarrow> TestValue res" where
  "prepare_test_value tb queries query_num =
     res_bind (res_fold (query_step tb) queries TestValue_new) (\<lambda>tv.
     (let n = of_nat (length (cluster_addr tb)); v = cluster_vector_cnt tv in
      Inr (tv\<lparr>cpm_topk_calc_cnt := n * query_num,
        cpm_cu_calc_cnt := (n + W + W * K_STAR) * query_num * D,
        scm_topk_calc_cnt := v,
        scm_reduction_tree_calc_cnt := v * M,
        cpm_query_buffer_read := (n + W + W * K_STAR) * query_num * VECTOR_SIZE,
        cpm_query_buffer_write := W * query_num * VECTOR_SIZE,
        cpm_codebook_buffer_read := VECTOR_ELEMENT_SIZE * K_STAR * D * W * query_num,
        cpm_codebook_buffer_write := VECTOR_ELEMENT_SIZE * K_STAR * D,
        scm_lookup_table_buffer_read := v * VECTOR_ELEMENT_SIZE,
        scm_lookup_table_buffer_write := M * K_STAR * W * query_num * VECTOR_ELEMENT_SIZE,
        cpm_memory_reader_read := n * VECTOR_SIZE * query_num,
        queries_start_clock := replicate (unat query_num) (- 1),
        queries_end_clock := replicate (unat query_num) (- 1)\<rparr>)))"


section \<open>The memory layout\<close>

lemma unat_of_nat_less: "n < 2 ^ 64 \<Longrightarrow> unat (of_nat n :: u64) = n"
  by (simp add: unat_of_nat take_bit_nat_eq_self)

lemma of_nat_unat_self: "of_nat (unat x) = (x :: u64)"
  by simp

lemma encoded_bytes_eq:
  assumes "0 \<le> n" and "n < 2 ^ 31"
  shows "unat (encoded_bytes n) = 32 * nat n"
proof -
  have "of_int n * ENCODED_VECTOR_SIZE_PER_BITS + 7 = (of_int (n * 256 + 7) :: u64)"
    by (simp add: anna_constants)
  moreover have "uint (of_int (n * 256 + 7) :: u64) = n * 256 + 7"
    unfolding uint_word_of_int using assms by simp
  ultimately have "uint (encoded_bytes n) = (n * 256 + 7) div 8" by (simp add: encoded_bytes_def uint_div)
  also have "\<dots> = 32 * n" by simp
  finally show ?thesis using assms by (simp add: unat_eq_nat_uint nat_mult_distrib)
qed

lemma layout_run:
  assumes sizes: "\<forall>i<k. 0 \<le> sizes ! i \<and> sizes ! i < 2 ^ 31" and k: "k \<le> length sizes" "k \<le> 2 ^ 24"
  shows "\<exists>cl. res_fold (layout_step sizes) (map of_nat [0..<k]) ([], cluster_addr_start) =
      Inr (cl, of_nat (0x30000 + (\<Sum>j<k. 32 * nat (sizes ! j)))) \<and> length cl = k \<and>
    (\<forall>i<k. unat (start_addr (cl ! i)) = 0x30000 + (\<Sum>j<i. 32 * nat (sizes ! j)) \<and>
      unat (cluster_bytes (cl ! i)) = 32 * nat (sizes ! i) \<and> vector_num (cl ! i) = of_int (sizes ! i))"
  using sizes k
proof (induction k)
  case 0
  then show ?case by (simp add: cluster_addr_start_def)
next
  case (Suc k)
  let ?S = "\<lambda>k. 0x30000 + (\<Sum>j<k. 32 * nat (sizes ! j))"
  obtain cl where cl: "res_fold (layout_step sizes) (map of_nat [0..<k]) ([], cluster_addr_start) = Inr (cl, of_nat (?S k))"
    "length cl = k" and nth: "\<forall>i<k. unat (start_addr (cl ! i)) = ?S i \<and>
      unat (cluster_bytes (cl ! i)) = 32 * nat (sizes ! i) \<and> vector_num (cl ! i) = of_int (sizes ! i)"
    using Suc by auto
  have nk: "0 \<le> sizes ! k" "sizes ! k < 2 ^ 31" using Suc.prems(1) by auto
  have "(\<Sum>j<k. 32 * nat (sizes ! j)) \<le> of_nat (card {..<k}) * (32 * 2 ^ 31)"
  proof (rule sum_bounded_above)
    fix j assume "j \<in> {..<k}"
    then have "nat (sizes ! j) \<le> nat (2 ^ 31)" using Suc.prems(1) by (intro nat_mono) (auto simp: less_Suc_eq)
    then show "32 * nat (sizes ! j) \<le> 32 * 2 ^ 31" by (simp add: nat_power_eq)
  qed
  also have "\<dots> \<le> 2 ^ 24 * (32 * 2 ^ 31)" using Suc.prems(3) by (intro mult_right_mono) auto
  finally have small: "?S k < 2 ^ 64" by simp
  have ku: "unat (of_nat k :: u64) = k" using Suc.prems(3) by (intro unat_of_nat_less) simp
  let ?c = "\<lparr>start_addr = of_nat (?S k), cluster_bytes = encoded_bytes (sizes ! k), vector_num = of_int (sizes ! k)\<rparr>"
  have bytes: "unat (encoded_bytes (sizes ! k)) = 32 * nat (sizes ! k)" by (rule encoded_bytes_eq [OF nk])
  then have "encoded_bytes (sizes ! k) = of_nat (32 * nat (sizes ! k))" by (metis of_nat_unat_self)
  then have "res_fold (layout_step sizes) (map of_nat [0..<Suc k]) ([], cluster_addr_start) = Inr (cl @ [?c], of_nat (?S (Suc k)))"
    using cl ku Suc.prems(2) by (simp add: layout_step_def uget_def' algebra_simps)
  moreover have "unat (start_addr ?c) = ?S k" using unat_of_nat_less [OF small] by simp
  ultimately show ?case using cl(2) nth bytes
    by (intro exI [of _ "cl @ [?c]"]) (auto simp: nth_append less_Suc_eq)
qed


section \<open>Properties\<close>






end
