(* ===== verification/Anna_Switch.thy ===== *)
theory Anna_Switch
  imports Anna_Config
begin

text \<open>
  \<^verbatim>\<open>multi_anna/memory_switch.hpp\<close>: the switch that carries requests from cores to the
  memory stacks of other cores and responses back. Lemmas: seen from outside, the switch is one
  first-in first-out queue for every pair of a source and a target. A tick moves packets
  inside the switch and changes no such queue, a send appends to one of them and a get takes
  the head of one of them.
\<close>

section \<open>State and operations\<close>

text \<open>A packet in an input queue carries its target, one in an output queue its source.\<close>

type_synonym packet = "u64 \<times> u64"

record MemorySwitch =
  req_in :: "packet list list"
  req_out :: "packet list list"
  res_in :: "packet list list"
  res_out :: "packet list list"

definition SWITCH_BATCH_SIZE :: u64 where
  "SWITCH_BATCH_SIZE = 128 div 64"

definition MemorySwitch_new :: "u64 \<Rightarrow> MemorySwitch" where
  "MemorySwitch_new num =
     \<lparr>req_in = replicate (unat num) [], req_out = replicate (unat num) [],
      res_in = replicate (unat num) [], res_out = replicate (unat num) []\<rparr>"

text \<open>The inner loop of \<^verbatim>\<open>ClockTick\<close>: at most \<open>n\<close> packets of the input queue \<open>i\<close>.\<close>

fun move_batch :: "nat \<Rightarrow> u64 \<Rightarrow> packet list list \<times> packet list list \<Rightarrow> (packet list list \<times> packet list list) res" where
  "move_batch 0 i io = Inr io"
| "move_batch (Suc n) i (ins, outs) =
     res_bind (uget ins i) (\<lambda>q.
       case q of
         [] \<Rightarrow> Inr (ins, outs)
       | (target, a) # rest \<Rightarrow>
           res_bind (uset ins i rest) (\<lambda>ins'.
           res_bind (uget outs target) (\<lambda>qo.
           res_bind (uset outs target (qo @ [(i, a)])) (\<lambda>outs'. move_batch n i (ins', outs')))))"

definition switch_pass :: "packet list list \<times> packet list list \<Rightarrow> (packet list list \<times> packet list list) res" where
  "switch_pass io = res_fold (move_batch (unat SWITCH_BATCH_SIZE)) (map of_nat [0..<length (fst io)]) io"

definition switch_ClockTick :: "MemorySwitch \<Rightarrow> MemorySwitch res" where
  "switch_ClockTick s =
     res_bind (switch_pass (req_in s, req_out s)) (\<lambda>(qi, qo).
     res_bind (switch_pass (res_in s, res_out s)) (\<lambda>(ri, ro).
       Inr (s\<lparr>req_in := qi, req_out := qo, res_in := ri, res_out := ro\<rparr>)))"

definition push_packet :: "u64 \<Rightarrow> packet \<Rightarrow> packet list list \<Rightarrow> packet list list res" where
  "push_packet i p qs = res_bind (uget qs i) (\<lambda>q. uset qs i (q @ [p]))"

definition sendReq :: "u64 \<Rightarrow> u64 \<Rightarrow> u64 \<Rightarrow> MemorySwitch \<Rightarrow> MemorySwitch res" where
  "sendReq core_id mem_id a s = res_bind (push_packet core_id (mem_id, a) (req_in s)) (\<lambda>qs. Inr (s\<lparr>req_in := qs\<rparr>))"

definition getReq :: "u64 \<Rightarrow> MemorySwitch \<Rightarrow> (u64 \<times> MemorySwitch) res" where
  "getReq mem_id s =
     res_bind (uget (req_out s) mem_id) (\<lambda>q.
       case q of
         [] \<Rightarrow> Inr (- 1, s)
       | p # rest \<Rightarrow> res_bind (uset (req_out s) mem_id rest) (\<lambda>qs. Inr (snd p, s\<lparr>req_out := qs\<rparr>)))"

definition sendRes :: "u64 \<Rightarrow> u64 \<Rightarrow> u64 \<Rightarrow> MemorySwitch \<Rightarrow> MemorySwitch res" where
  "sendRes mem_id core_id a s = res_bind (push_packet mem_id (core_id, a) (res_in s)) (\<lambda>qs. Inr (s\<lparr>res_in := qs\<rparr>))"

definition getRes :: "u64 \<Rightarrow> MemorySwitch \<Rightarrow> (packet \<times> MemorySwitch) res" where
  "getRes core_id s =
     res_bind (uget (res_out s) core_id) (\<lambda>q.
       case q of
         [] \<Rightarrow> Inr ((- 1, - 1), s)
       | p # rest \<Rightarrow> res_bind (uset (res_out s) core_id rest) (\<lambda>qs. Inr (p, s\<lparr>res_out := qs\<rparr>)))"

section \<open>The queues between a source and a target\<close>

definition packets_of :: "nat \<Rightarrow> packet list \<Rightarrow> u64 list" where
  "packets_of i q = map snd (filter (\<lambda>p. unat (fst p) = i) q)"

lemma packets_of_simps [simp]:
  "packets_of i [] = []"
  "packets_of i (p # q) = (if unat (fst p) = i then snd p # packets_of i q else packets_of i q)"
  "packets_of i (q @ q') = packets_of i q @ packets_of i q'"
  by (simp_all add: packets_of_def)

definition flow :: "packet list list \<times> packet list list \<Rightarrow> nat \<Rightarrow> nat \<Rightarrow> u64 list" where
  "flow io s d = packets_of s (snd io ! d) @ packets_of d (fst io ! s)"

text \<open>Both sides have a queue for every endpoint, and every packet names an endpoint.\<close>

definition side_wf :: "nat \<Rightarrow> packet list list \<Rightarrow> bool" where
  "side_wf n qs \<longleftrightarrow> length qs = n \<and> (\<forall>q\<in>set qs. \<forall>p\<in>set q. unat (fst p) < n)"

definition pass_wf :: "nat \<Rightarrow> packet list list \<times> packet list list \<Rightarrow> bool" where
  "pass_wf n io \<longleftrightarrow> side_wf n (fst io) \<and> side_wf n (snd io)"

definition switch_wf :: "nat \<Rightarrow> MemorySwitch \<Rightarrow> bool" where
  "switch_wf n s \<longleftrightarrow> pass_wf n (req_in s, req_out s) \<and> pass_wf n (res_in s, res_out s)"

lemma side_wf_upd: "side_wf n qs \<Longrightarrow> i < n \<Longrightarrow> \<forall>p\<in>set q. unat (fst p) < n \<Longrightarrow> side_wf n (qs[i := q])"
  by (auto simp: side_wf_def dest!: set_update_subset_insert [THEN subsetD])

lemma side_wf_nth: "side_wf n qs \<Longrightarrow> i < n \<Longrightarrow> \<forall>p\<in>set (qs ! i). unat (fst p) < n"
  by (auto simp: side_wf_def)

lemma move_batch_flow:
  assumes "pass_wf n io" and "unat i < n"
  shows "\<exists>io'. move_batch k i io = Inr io' \<and> pass_wf n io' \<and> flow io' = flow io \<and>
    fst io' = (fst io)[unat i := drop k (fst io ! unat i)]"
  using assms(1)
proof (induction k arbitrary: io)
  case (Suc k)
  obtain ins outs where io: "io = (ins, outs)" by (cases io)
  have w: "side_wf n ins" "side_wf n outs" and len: "length ins = n" "length outs = n"
    using Suc.prems by (auto simp: io pass_wf_def side_wf_def)
  show ?case
  proof (cases "ins ! unat i")
    case Nil
    then have "ins[unat i := []] = ins" by (metis list_update_id)
    then show ?thesis using Suc.prems assms(2) len Nil by (simp add: io uget_def')
  next
    case (Cons p rest)
    obtain t a where p: "p = (t, a)" by (cases p)
    have valid: "\<forall>x\<in>set (p # rest). unat (fst x) < n" using side_wf_nth [OF w(1) assms(2)] Cons by simp
    then have t: "unat t < n" by (simp add: p)
    let ?io = "(ins[unat i := rest], outs[unat t := outs ! unat t @ [(i, a)]])"
    have "pass_wf n ?io"
      using valid side_wf_upd [OF w(1) assms(2)] side_wf_upd [OF w(2) t] side_wf_nth [OF w(2) t] assms(2)
      by (simp add: pass_wf_def)
    from Suc.IH [OF this] obtain io' where io': "move_batch k i ?io = Inr io'" "pass_wf n io'" "flow io' = flow ?io"
      "fst io' = (fst ?io)[unat i := drop k (fst ?io ! unat i)]" by blast
    have "flow ?io s d = flow io s d" for s d
      using assms(2) t len Cons by (auto simp: flow_def io p nth_list_update)
    then have "flow ?io = flow io" by blast
    moreover have "move_batch (Suc k) i io = Inr io'"
      using io'(1) assms(2) t len Cons by (simp add: io p uget_def' uset_def')
    ultimately show ?thesis using io' assms(2) len Cons by (auto simp: io)
  qed
qed simp

lemma pass_prefix:
  assumes wf: "pass_wf n io" and n: "n < 2 ^ 64" and k: "k \<le> n"
  shows "\<exists>io'. res_fold (move_batch b) (map of_nat [0..<k]) io = Inr io' \<and> pass_wf n io' \<and> flow io' = flow io \<and>
    (\<forall>j<n. fst io' ! j = (if j < k then drop b (fst io ! j) else fst io ! j))"
  using k
proof (induction k)
  case 0
  then show ?case using wf by simp
next
  case (Suc k)
  then obtain io1 where io1: "res_fold (move_batch b) (map of_nat [0..<k]) io = Inr io1" "pass_wf n io1" "flow io1 = flow io"
    "\<forall>j<n. fst io1 ! j = (if j < k then drop b (fst io ! j) else fst io ! j)" by auto
  have u: "unat (of_nat k :: u64) = k" using Suc.prems n by (intro unat_of_nat_less) simp
  then obtain io2 where io2: "move_batch b (of_nat k) io1 = Inr io2" "pass_wf n io2" "flow io2 = flow io1"
    "fst io2 = (fst io1)[k := drop b (fst io1 ! k)]"
    using move_batch_flow [OF io1(2), of "of_nat k" b] Suc.prems by auto
  have "length (fst io1) = n" using io1(2) by (simp add: pass_wf_def side_wf_def)
  then have "\<forall>j<n. fst io2 ! j = (if j < Suc k then drop b (fst io ! j) else fst io ! j)"
    using io1(4) io2(4) Suc.prems by (auto simp: nth_list_update less_Suc_eq)
  then show ?case using io1 io2 by simp
qed

lemma switch_pass_flow:
  assumes "pass_wf n io" and "n < 2 ^ 64"
  obtains io' where "switch_pass io = Inr io'" and "pass_wf n io'" and "flow io' = flow io"
    and "\<forall>j<n. fst io' ! j = drop 2 (fst io ! j)"
proof -
  have "length (fst io) = n" using assms(1) by (simp add: pass_wf_def side_wf_def)
  moreover have "unat SWITCH_BATCH_SIZE = 2" by (simp add: SWITCH_BATCH_SIZE_def)
  ultimately show thesis
    using pass_prefix [OF assms order_refl, of 2] that by (auto simp: switch_pass_def)
qed

text \<open>The flows of requests and of responses.\<close>

definition req_flow :: "MemorySwitch \<Rightarrow> nat \<Rightarrow> nat \<Rightarrow> u64 list" where
  "req_flow s = flow (req_in s, req_out s)"

definition res_flow :: "MemorySwitch \<Rightarrow> nat \<Rightarrow> nat \<Rightarrow> u64 list" where
  "res_flow s = flow (res_in s, res_out s)"

definition upd_flow :: "(nat \<Rightarrow> nat \<Rightarrow> u64 list) \<Rightarrow> nat \<Rightarrow> nat \<Rightarrow> u64 list \<Rightarrow> nat \<Rightarrow> nat \<Rightarrow> u64 list" where
  "upd_flow f i j q = (\<lambda>s d. if s = i \<and> d = j then q else f s d)"

lemma switch_tick_flow:
  assumes "switch_wf n s" and "n < 2 ^ 64"
  obtains s' where "switch_ClockTick s = Inr s'" and "switch_wf n s'" and "req_flow s' = req_flow s" and "res_flow s' = res_flow s"
    and "\<forall>j<n. req_in s' ! j = drop 2 (req_in s ! j) \<and> res_in s' ! j = drop 2 (res_in s ! j)"
proof -
  have w: "pass_wf n (req_in s, req_out s)" "pass_wf n (res_in s, res_out s)" using assms(1) by (simp_all add: switch_wf_def)
  obtain q where q: "switch_pass (req_in s, req_out s) = Inr q" "pass_wf n q" "flow q = req_flow s"
    "\<forall>j<n. fst q ! j = drop 2 (req_in s ! j)"
    using switch_pass_flow [OF w(1) assms(2)] by (auto simp: req_flow_def)
  obtain r where r: "switch_pass (res_in s, res_out s) = Inr r" "pass_wf n r" "flow r = res_flow s"
    "\<forall>j<n. fst r ! j = drop 2 (res_in s ! j)"
    using switch_pass_flow [OF w(2) assms(2)] by (auto simp: res_flow_def)
  show thesis
    by (rule that [of "s\<lparr>req_in := fst q, req_out := snd q, res_in := fst r, res_out := snd r\<rparr>"])
      (use q r in \<open>simp_all add: switch_ClockTick_def switch_wf_def req_flow_def res_flow_def split: prod.splits\<close>)
qed

lemma push_packet_flow:
  assumes "pass_wf n (qi, qo)" and "unat i < n" and "unat t < n"
  obtains qi' where "push_packet i (t, a) qi = Inr qi'" and "pass_wf n (qi', qo)"
    and "flow (qi', qo) = upd_flow (flow (qi, qo)) (unat i) (unat t) (flow (qi, qo) (unat i) (unat t) @ [a])"
proof -
  have w: "side_wf n qi" and len: "length qi = n" using assms(1) by (auto simp: pass_wf_def side_wf_def)
  let ?q = "qi[unat i := qi ! unat i @ [(t, a)]]"
  have "push_packet i (t, a) qi = Inr ?q" using assms(2) len by (simp add: push_packet_def uget_def' uset_def')
  moreover have "pass_wf n (?q, qo)"
    using assms(1) side_wf_upd [OF w assms(2)] side_wf_nth [OF w assms(2)] assms(3) by (simp add: pass_wf_def)
  moreover have "flow (?q, qo) = upd_flow (flow (qi, qo)) (unat i) (unat t) (flow (qi, qo) (unat i) (unat t) @ [a])"
    using assms(2) len by (auto simp: flow_def upd_flow_def fun_eq_iff nth_list_update)
  ultimately show thesis by (rule that)
qed

lemma pop_packet_flow:
  assumes "pass_wf n (qi, qo)" and "j < n" and "qo ! j = p # rest"
  shows "pass_wf n (qi, qo[j := rest])" and "unat (fst p) < n"
    and "flow (qi, qo) (unat (fst p)) j = snd p # flow (qi, qo[j := rest]) (unat (fst p)) j"
    and "s \<noteq> unat (fst p) \<or> d \<noteq> j \<Longrightarrow> flow (qi, qo[j := rest]) s d = flow (qi, qo) s d"
proof -
  have w: "side_wf n qo" and len: "length qo = n" using assms(1) by (auto simp: pass_wf_def side_wf_def)
  have v: "\<forall>x\<in>set (p # rest). unat (fst x) < n" using side_wf_nth [OF w assms(2)] assms(3) by simp
  then show "pass_wf n (qi, qo[j := rest])" "unat (fst p) < n"
    using assms(1) side_wf_upd [OF w assms(2)] by (simp_all add: pass_wf_def)
  show "flow (qi, qo) (unat (fst p)) j = snd p # flow (qi, qo[j := rest]) (unat (fst p)) j"
    using assms(2,3) len by (simp add: flow_def)
  show "flow (qi, qo[j := rest]) s d = flow (qi, qo) s d" if "s \<noteq> unat (fst p) \<or> d \<noteq> j"
    using that assms(2,3) len by (auto simp: flow_def nth_list_update)
qed


lemma sendReq_flow:
  assumes "switch_wf n s" and "unat core < n" and "unat mem < n"
  obtains s' where "sendReq core mem a s = Inr s'" and "switch_wf n s'" and "res_flow s' = res_flow s"
    and "req_flow s' = upd_flow (req_flow s) (unat core) (unat mem) (req_flow s (unat core) (unat mem) @ [a])"
proof -
  have w: "pass_wf n (req_in s, req_out s)" using assms(1) by (simp add: switch_wf_def)
  obtain qs where "push_packet core (mem, a) (req_in s) = Inr qs" "pass_wf n (qs, req_out s)"
    "flow (qs, req_out s) = upd_flow (req_flow s) (unat core) (unat mem) (req_flow s (unat core) (unat mem) @ [a])"
    using push_packet_flow [OF w assms(2,3)] unfolding req_flow_def by blast
  then show thesis using assms(1)
    by (intro that [of "s\<lparr>req_in := qs\<rparr>"]) (simp_all add: sendReq_def switch_wf_def req_flow_def res_flow_def)
qed

lemma sendRes_flow:
  assumes "switch_wf n s" and "unat mem < n" and "unat core < n"
  obtains s' where "sendRes mem core a s = Inr s'" and "switch_wf n s'" and "req_flow s' = req_flow s"
    and "res_flow s' = upd_flow (res_flow s) (unat mem) (unat core) (res_flow s (unat mem) (unat core) @ [a])"
proof -
  have w: "pass_wf n (res_in s, res_out s)" using assms(1) by (simp add: switch_wf_def)
  obtain qs where "push_packet mem (core, a) (res_in s) = Inr qs" "pass_wf n (qs, res_out s)"
    "flow (qs, res_out s) = upd_flow (res_flow s) (unat mem) (unat core) (res_flow s (unat mem) (unat core) @ [a])"
    using push_packet_flow [OF w assms(2,3)] unfolding res_flow_def by blast
  then show thesis using assms(1)
    by (intro that [of "s\<lparr>res_in := qs\<rparr>"]) (simp_all add: sendRes_def switch_wf_def req_flow_def res_flow_def)
qed

text \<open>A get either finds its output queue empty or takes the head of the flow from some source.\<close>

lemma getReq_flow:
  assumes "switch_wf n s" and "unat mem < n"
  obtains (empty) "req_out s ! unat mem = []" and "getReq mem s = Inr (- 1, s)"
  | (packet) src a s' where "getReq mem s = Inr (a, s')" and "switch_wf n s'" and "src < n" and "res_flow s' = res_flow s"
      and "req_flow s src (unat mem) = a # req_flow s' src (unat mem)"
      and "\<And>i d. i \<noteq> src \<or> d \<noteq> unat mem \<Longrightarrow> req_flow s' i d = req_flow s i d"
      and "length (req_out s' ! unat mem) < length (req_out s ! unat mem)"
proof -
  have w: "pass_wf n (req_in s, req_out s)" and len: "length (req_out s) = n"
    using assms(1) by (simp_all add: switch_wf_def pass_wf_def side_wf_def)
  show thesis
  proof (cases "req_out s ! unat mem")
    case Nil
    then show thesis using assms(2) len by (intro empty) (simp_all add: getReq_def uget_def')
  next
    case (Cons p rest)
    let ?s = "s\<lparr>req_out := (req_out s)[unat mem := rest]\<rparr>"
    note f = pop_packet_flow [OF w assms(2) Cons]
    have "getReq mem s = Inr (snd p, ?s)" using assms(2) len Cons by (simp add: getReq_def uget_def' uset_def')
    then show thesis using assms f len Cons
      by (intro packet [of "snd p" ?s "unat (fst p)"]) (simp_all add: switch_wf_def req_flow_def res_flow_def)
  qed
qed

lemma getRes_flow:
  assumes "switch_wf n s" and "unat core < n"
  obtains (empty) "res_out s ! unat core = []" and "getRes core s = Inr ((- 1, - 1), s)"
  | (packet) p s' where "getRes core s = Inr (p, s')" and "switch_wf n s'" and "unat (fst p) < n" and "req_flow s' = req_flow s"
      and "res_flow s (unat (fst p)) (unat core) = snd p # res_flow s' (unat (fst p)) (unat core)"
      and "\<And>i d. i \<noteq> unat (fst p) \<or> d \<noteq> unat core \<Longrightarrow> res_flow s' i d = res_flow s i d"
      and "length (res_out s' ! unat core) < length (res_out s ! unat core)"
proof -
  have w: "pass_wf n (res_in s, res_out s)" and len: "length (res_out s) = n"
    using assms(1) by (simp_all add: switch_wf_def pass_wf_def side_wf_def)
  show thesis
  proof (cases "res_out s ! unat core")
    case Nil
    then show thesis using assms(2) len by (intro empty) (simp_all add: getRes_def uget_def')
  next
    case (Cons p rest)
    let ?s = "s\<lparr>res_out := (res_out s)[unat core := rest]\<rparr>"
    note f = pop_packet_flow [OF w assms(2) Cons]
    have "getRes core s = Inr (p, ?s)" using assms(2) len Cons by (simp add: getRes_def uget_def' uset_def')
    then show thesis using assms f len Cons
      by (intro packet [of p ?s]) (simp_all add: switch_wf_def req_flow_def res_flow_def)
  qed
qed

lemma MemorySwitch_new_wf: "switch_wf (unat n) (MemorySwitch_new n)"
  "i < unat n \<Longrightarrow> d < unat n \<Longrightarrow> req_flow (MemorySwitch_new n) i d = [] \<and> res_flow (MemorySwitch_new n) i d = []"
  by (simp_all add: MemorySwitch_new_def switch_wf_def pass_wf_def side_wf_def req_flow_def res_flow_def flow_def)

section \<open>Properties\<close>

text \<open>C36. The switch refines one first-in first-out queue per source and target. On a well-formed
  switch a tick succeeds and changes no queue, a request appends its address to the queue from
  the core to the stack, and a get returns the head of a queue to its stack and removes it, or
  says that nothing has arrived; the responses are not touched by the operations on requests.\<close>

theorem switch_is_fifo:
  assumes "switch_wf n s" and "n < 2 ^ 64" and "unat core < n" and "unat mem < n"
  shows "(\<exists>s'. switch_ClockTick s = Inr s' \<and> switch_wf n s' \<and> req_flow s' = req_flow s \<and> res_flow s' = res_flow s) \<and>
    (\<exists>s'. sendReq core mem a s = Inr s' \<and> switch_wf n s' \<and> res_flow s' = res_flow s \<and>
      req_flow s' = upd_flow (req_flow s) (unat core) (unat mem) (req_flow s (unat core) (unat mem) @ [a])) \<and>
    (\<exists>b s'. getReq mem s = Inr (b, s') \<and> switch_wf n s' \<and> res_flow s' = res_flow s \<and>
      (b = - 1 \<and> s' = s \<or>
       (\<exists>src<n. req_flow s src (unat mem) = b # req_flow s' src (unat mem) \<and>
          (\<forall>i d. i \<noteq> src \<or> d \<noteq> unat mem \<longrightarrow> req_flow s' i d = req_flow s i d))))"
proof (intro conjI)
  show "\<exists>s'. switch_ClockTick s = Inr s' \<and> switch_wf n s' \<and> req_flow s' = req_flow s \<and> res_flow s' = res_flow s"
    by (rule switch_tick_flow [OF assms(1,2)]) blast
  show "\<exists>s'. sendReq core mem a s = Inr s' \<and> switch_wf n s' \<and> res_flow s' = res_flow s \<and>
      req_flow s' = upd_flow (req_flow s) (unat core) (unat mem) (req_flow s (unat core) (unat mem) @ [a])"
    by (rule sendReq_flow [OF assms(1,3,4)]) blast
  show "\<exists>b s'. getReq mem s = Inr (b, s') \<and> switch_wf n s' \<and> res_flow s' = res_flow s \<and>
      (b = - 1 \<and> s' = s \<or>
       (\<exists>src<n. req_flow s src (unat mem) = b # req_flow s' src (unat mem) \<and>
          (\<forall>i d. i \<noteq> src \<or> d \<noteq> unat mem \<longrightarrow> req_flow s' i d = req_flow s i d)))"
    by (cases rule: getReq_flow [OF assms(1,4)]) (use assms(1) in \<open>simp, blast\<close>)
qed

theorem switch_is_fifo_witness:
  "\<exists>s'. sendReq 3 5 64 (MemorySwitch_new 8) = Inr s' \<and> req_flow s' 3 5 = [64]"
  using switch_is_fifo [OF MemorySwitch_new_wf(1) [of 8], of 3 5 64] MemorySwitch_new_wf(2) [of 3 8 5]
  by (auto simp: upd_flow_def)

text \<open>C37. The switch delivers. After half as many ticks as there are packets before it, rounded up,
  an input queue has been emptied, and everything sent from its core waits at the outputs, in
  the order it was sent.\<close>

theorem switch_delivers:
  assumes "switch_wf n s" and "n < 2 ^ 64" and "i < n" and "length (req_in s ! i) \<le> 2 * k"
  shows "\<exists>s'. res_iter switch_ClockTick k s = Inr s' \<and> req_in s' ! i = [] \<and>
    (\<forall>d. packets_of i (req_out s' ! d) = req_flow s i d)"
proof -
  have "\<exists>s'. res_iter switch_ClockTick k s = Inr s' \<and> switch_wf n s' \<and> req_flow s' = req_flow s \<and>
    req_in s' ! i = drop (2 * k) (req_in s ! i)" for k
  proof (induction k)
    case (Suc k)
    then obtain s1 where s1: "res_iter switch_ClockTick k s = Inr s1" "switch_wf n s1" "req_flow s1 = req_flow s"
      "req_in s1 ! i = drop (2 * k) (req_in s ! i)" by auto
    obtain s2 where "switch_ClockTick s1 = Inr s2" "switch_wf n s2" "req_flow s2 = req_flow s1"
      "\<forall>j<n. req_in s2 ! j = drop 2 (req_in s1 ! j) \<and> res_in s2 ! j = drop 2 (res_in s1 ! j)"
      by (rule switch_tick_flow [OF s1(2) assms(2)])
    then show ?case using s1 assms(3) by (simp add: add.commute)
  qed (simp add: assms)
  then obtain s' where s': "res_iter switch_ClockTick k s = Inr s'" "req_flow s' = req_flow s"
    "req_in s' ! i = drop (2 * k) (req_in s ! i)" by blast
  then have e: "req_in s' ! i = []" using assms(4) by simp
  then have "packets_of i (req_out s' ! d) = req_flow s i d" for d
    using fun_cong [OF fun_cong [OF s'(2), of i], of d] by (simp add: req_flow_def flow_def)
  then show ?thesis using s'(1) e by blast
qed

theorem switch_delivers_witness:
  "\<exists>s s'. sendReq 3 5 64 (MemorySwitch_new 8) = Inr s \<and> res_iter switch_ClockTick 1 s = Inr s' \<and> packets_of 3 (req_out s' ! 5) = [64]"
proof -
  obtain s where s: "sendReq 3 5 64 (MemorySwitch_new 8) = Inr s" "switch_wf 8 s"
    "req_flow s = upd_flow (req_flow (MemorySwitch_new 8)) 3 5 (req_flow (MemorySwitch_new 8) 3 5 @ [64])"
    by (rule sendReq_flow [OF MemorySwitch_new_wf(1) [of 8], of 3 5 64]) simp_all
  have "length (req_in s ! 3) \<le> 2 * 1"
    using s(1) by (auto simp: sendReq_def push_packet_def uget_def' uset_def' MemorySwitch_new_def)
  from switch_delivers [OF s(2) _ _ this] s MemorySwitch_new_wf(2) [of 3 8 5]
  show ?thesis by (auto simp: upd_flow_def)
qed

end
