(* ===== verification/Dram_Common.thy ===== *)
theory Dram_Common
  imports Anna_Prelude
begin

text \<open>
  \<^verbatim>\<open>dramsim3/src/common.h\<close> and \<^verbatim>\<open>common.cc\<close>: the DRAM address, the
  command and transaction types every other component exchanges, and the bit and string
  helpers. Lemmas: \<^verbatim>\<open>LogBase2\<close> is the floor of the binary logarithm,
  \<^verbatim>\<open>ModuloWidth\<close> extracts a bit field, \<^verbatim>\<open>StringSplit\<close>
  returns exactly the non-empty tokens.
\<close>

section \<open>Addresses\<close>

record Address =
  channel :: int
  rank :: int
  bankgroup :: int
  bank :: int
  row :: int
  column :: int
  special_hex_addr :: u64

text \<open>The default constructor, the constructor with six fields and the one with seven.\<close>

definition Address_default :: Address where
  "Address_default = \<lparr>channel = -1, rank = -1, bankgroup = -1, bank = -1, row = -1, column = -1,
     special_hex_addr = -1\<rparr>"

definition Address6 :: "int \<Rightarrow> int \<Rightarrow> int \<Rightarrow> int \<Rightarrow> int \<Rightarrow> int \<Rightarrow> Address" where
  "Address6 ch ra bg ba ro co = \<lparr>channel = ch, rank = ra, bankgroup = bg, bank = ba, row = ro,
     column = co, special_hex_addr = -1\<rparr>"

definition Address7 :: "int \<Rightarrow> int \<Rightarrow> int \<Rightarrow> int \<Rightarrow> int \<Rightarrow> int \<Rightarrow> u64 \<Rightarrow> Address" where
  "Address7 ch ra bg ba ro co h = \<lparr>channel = ch, rank = ra, bankgroup = bg, bank = ba, row = ro,
     column = co, special_hex_addr = h\<rparr>"

section \<open>Bit and string helpers\<close>

text \<open>
  The shift amounts are the source's 32-bit values; the result is cut to 32 bits.
\<close>

definition ModuloWidth :: "u64 \<Rightarrow> nat \<Rightarrow> nat \<Rightarrow> 32 word" where
  "ModuloWidth address bit_width pos =
     (let store = drop_bit pos address;
          high = push_bit bit_width (drop_bit bit_width store)
      in ucast (xor store high))"

definition GetBitInPos :: "u64 \<Rightarrow> nat \<Rightarrow> int" where
  "GetBitInPos bits pos = uint (and (drop_bit pos bits) 1)"

function LogBase2_loop :: "int \<Rightarrow> int \<Rightarrow> int" where
  "LogBase2_loop power_of_two i =
     (if power_of_two > 1 then LogBase2_loop (power_of_two sdiv 2) (i + 1) else i)"
  by pat_completeness auto
termination
  by (relation "measure (\<lambda>(p, i). nat p)") (auto simp: signed_divide_int_def)

declare LogBase2_loop.simps [simp del]

definition LogBase2 :: "int \<Rightarrow> int" where
  "LogBase2 power_of_two = LogBase2_loop power_of_two 0"

text \<open>
  \<^verbatim>\<open>StringSplit\<close>: \<^verbatim>\<open>std::getline\<close> reads up to the delimiter and
  drops it; empty items are not stored.
\<close>

function StringSplit :: "string \<Rightarrow> char \<Rightarrow> string list" where
  "StringSplit s delim =
     (if s = [] then []
      else let item = takeWhile (\<lambda>c. c \<noteq> delim) s;
               rest = drop 1 (dropWhile (\<lambda>c. c \<noteq> delim) s)
           in (if item \<noteq> [] then [item] else []) @ StringSplit rest delim)"
  by pat_completeness auto
termination
proof (relation "measure (\<lambda>(s, d). length s)")
  fix s :: string and delim :: char and x xa
  assume "s \<noteq> []" and xa: "xa = drop 1 (dropWhile (\<lambda>c. c \<noteq> delim) s)"
  have "length (dropWhile (\<lambda>c. c \<noteq> delim) s) \<le> length s"
    by (rule length_dropWhile_le)
  moreover have "0 < length s" using \<open>s \<noteq> []\<close> by simp
  ultimately have "length (dropWhile (\<lambda>c. c \<noteq> delim) s) - 1 < length s" by linarith
  then have "length xa < length s" by (simp add: xa)
  then show "((xa, delim), s, delim) \<in> measure (\<lambda>(s, d). length s)" by simp
qed simp

declare StringSplit.simps [simp del]

section \<open>Commands and transactions\<close>

datatype CommandType =
    READ
  | READ_PRECHARGE
  | WRITE
  | WRITE_PRECHARGE
  | ACTIVATE
  | PRECHARGE
  | REFRESH_BANK
  | REFRESH
  | SREF_ENTER
  | SREF_EXIT
  | CommandType_SIZE

definition all_CommandType :: "CommandType list" where
  "all_CommandType = [READ, READ_PRECHARGE, WRITE, WRITE_PRECHARGE, ACTIVATE, PRECHARGE,
     REFRESH_BANK, REFRESH, SREF_ENTER, SREF_EXIT, CommandType_SIZE]"

instantiation CommandType :: enum
begin

definition enum_CommandType_def: "Enum.enum = all_CommandType"

definition enum_all_CommandType_def: "Enum.enum_all P = list_all P all_CommandType"

definition enum_ex_CommandType_def: "Enum.enum_ex P = list_ex P all_CommandType"

instance
proof
  show "(UNIV :: CommandType set) = set Enum.enum"
  proof
    show "(UNIV :: CommandType set) \<subseteq> set Enum.enum"
    proof
      fix x :: CommandType
      show "x \<in> set Enum.enum"
        by (cases x) (simp_all add: enum_CommandType_def all_CommandType_def)
    qed
  qed simp
  show "distinct (Enum.enum :: CommandType list)"
    by (simp add: enum_CommandType_def all_CommandType_def)
  show "Enum.enum_all P = Ball UNIV P" for P :: "CommandType \<Rightarrow> bool"
  proof -
    have "P x" if "list_all P all_CommandType" for x
      using that by (cases x) (simp_all add: all_CommandType_def)
    then show ?thesis by (auto simp: enum_all_CommandType_def list_all_iff)
  qed
  show "Enum.enum_ex P = Bex UNIV P" for P :: "CommandType \<Rightarrow> bool"
  proof -
    have "list_ex P all_CommandType" if "P x" for x
      using that by (cases x) (simp_all add: all_CommandType_def)
    then show ?thesis by (auto simp: enum_ex_CommandType_def list_ex_iff)
  qed
qed

end

record Command =
  cmd_type :: CommandType
  addr :: Address
  hex_addr :: u64

text \<open>The default command, whose type marks it invalid, and the three-argument constructor.\<close>

definition Command_default :: Command where
  "Command_default = \<lparr>cmd_type = CommandType_SIZE, addr = Address_default, hex_addr = 0\<rparr>"

definition mk_Command :: "CommandType \<Rightarrow> Address \<Rightarrow> u64 \<Rightarrow> Command" where
  "mk_Command t a h = \<lparr>cmd_type = t, addr = a, hex_addr = h\<rparr>"

definition IsValid :: "Command \<Rightarrow> bool" where
  "IsValid c \<longleftrightarrow> cmd_type c \<noteq> CommandType_SIZE"

definition IsRefresh :: "Command \<Rightarrow> bool" where
  "IsRefresh c \<longleftrightarrow> cmd_type c = REFRESH \<or> cmd_type c = REFRESH_BANK"

definition IsRead :: "Command \<Rightarrow> bool" where
  "IsRead c \<longleftrightarrow> cmd_type c = READ \<or> cmd_type c = READ_PRECHARGE"

definition IsWrite :: "Command \<Rightarrow> bool" where
  "IsWrite c \<longleftrightarrow> cmd_type c = WRITE \<or> cmd_type c = WRITE_PRECHARGE"

definition IsReadWrite :: "Command \<Rightarrow> bool" where
  "IsReadWrite c \<longleftrightarrow> IsRead c \<or> IsWrite c"

definition IsRankCMD :: "Command \<Rightarrow> bool" where
  "IsRankCMD c \<longleftrightarrow> cmd_type c = REFRESH \<or> cmd_type c = SREF_ENTER \<or> cmd_type c = SREF_EXIT"

definition Channel :: "Command \<Rightarrow> int" where "Channel c = channel (addr c)"

definition Rank :: "Command \<Rightarrow> int" where "Rank c = rank (addr c)"

definition Bankgroup :: "Command \<Rightarrow> int" where "Bankgroup c = bankgroup (addr c)"

definition Bank :: "Command \<Rightarrow> int" where "Bank c = bank (addr c)"

definition Row :: "Command \<Rightarrow> int" where "Row c = row (addr c)"

definition Column :: "Command \<Rightarrow> int" where "Column c = column (addr c)"

record Transaction =
  t_addr :: u64
  added_cycle :: u64
  complete_cycle :: u64
  is_write :: bool

definition mk_Transaction :: "u64 \<Rightarrow> bool \<Rightarrow> Transaction" where
  "mk_Transaction a w = \<lparr>t_addr = a, added_cycle = 0, complete_cycle = 0, is_write = w\<rparr>"

lemmas command_query_defs =
  IsValid_def IsRefresh_def IsRead_def IsWrite_def IsReadWrite_def IsRankCMD_def

lemmas command_addr_defs = Channel_def Rank_def Bankgroup_def Bank_def Row_def Column_def

lemma mk_Command_simps [simp]:
  "cmd_type (mk_Command t a h) = t" "addr (mk_Command t a h) = a" "hex_addr (mk_Command t a h) = h"
  by (simp_all add: mk_Command_def)

lemma mk_Command_sel [simp]:
  "Rank (mk_Command t a h) = rank a" "Bankgroup (mk_Command t a h) = bankgroup a"
  "Bank (mk_Command t a h) = bank a" "Row (mk_Command t a h) = row a"
  "Column (mk_Command t a h) = column a"
  by (simp_all add: command_addr_defs)

lemma Command_default_type [simp]: "cmd_type Command_default = CommandType_SIZE"
  by (simp add: Command_default_def)

lemma IsValid_default [simp]: "\<not> IsValid Command_default"
  by (simp add: IsValid_def)

lemma IsReadWrite_not_rank: "IsReadWrite c \<Longrightarrow> \<not> IsRankCMD c"
  by (auto simp: command_query_defs)

lemma IsReadWrite_valid: "IsReadWrite c \<Longrightarrow> IsValid c"
  by (auto simp: command_query_defs)

section \<open>Lemmas on the helpers\<close>

lemma LogBase2_loop_shift: "LogBase2_loop p (i + j) = LogBase2_loop p i + j"
proof (induction p i rule: LogBase2_loop.induct)
  case (1 p i)
  have "LogBase2_loop (p sdiv 2) (i + 1 + j) = LogBase2_loop (p sdiv 2) (i + 1) + j" if "p > 1"
    using 1 that by simp
  then show ?case
    by (simp add: LogBase2_loop.simps [of p] algebra_simps)
qed

lemma LogBase2_unfold: "LogBase2 p = (if p > 1 then LogBase2 (p div 2) + 1 else 0)"
  using LogBase2_loop_shift [of "p div 2" 0 1]
  by (simp add: LogBase2_def LogBase2_loop.simps [of p] signed_divide_int_def)

lemma LogBase2_nonneg: "0 \<le> LogBase2 p"
proof (induction "nat p" arbitrary: p rule: less_induct)
  case less
  show ?case
  proof (cases "p > 1")
    case True
    then have "0 \<le> LogBase2 (p div 2)" by (intro less) auto
    then show ?thesis by (simp add: LogBase2_unfold [of p])
  qed (simp add: LogBase2_unfold [of p])
qed

lemma LogBase2_bounds:
  "1 \<le> p \<Longrightarrow> 2 ^ nat (LogBase2 p) \<le> p \<and> p < 2 * 2 ^ nat (LogBase2 p)"
proof (induction "nat p" arbitrary: p rule: less_induct)
  case less
  show ?case
  proof (cases "p > 1")
    case True
    then have IH: "2 ^ nat (LogBase2 (p div 2)) \<le> p div 2 \<and>
        p div 2 < 2 * 2 ^ nat (LogBase2 (p div 2))"
      by (intro less) auto
    have "nat (LogBase2 p) = Suc (nat (LogBase2 (p div 2)))"
      using True LogBase2_nonneg [of "p div 2"] by (simp add: LogBase2_unfold [of p] nat_add_distrib)
    moreover have "2 * (p div 2) \<le> p" "p < 2 * (p div 2) + 2" by auto
    ultimately show ?thesis using IH by simp
  next
    case False
    with less.prems have "p = 1" by simp
    moreover have "LogBase2 1 = 0" by (simp add: LogBase2_unfold [of 1])
    ultimately show ?thesis by simp
  qed
qed

lemma LogBase2_power: "LogBase2 (2 ^ k) = int k"
proof (induction k)
  case (Suc k)
  have "(2::int) ^ Suc k > 1" by (rule one_less_power) auto
  with Suc show ?case by (simp add: LogBase2_unfold [of "2 * 2 ^ k"])
qed (simp add: LogBase2_unfold)

text \<open>\<^verbatim>\<open>ModuloWidth\<close> reads \<open>bit_width\<close> bits at position \<open>pos\<close>.\<close>

lemma ModuloWidth_take_bit:
  "ModuloWidth a w p = ucast (take_bit w (drop_bit p a) :: u64)"
proof -
  have "xor s (push_bit w (drop_bit w s)) = take_bit w s" for s :: u64
  proof (rule bit_eqI)
    fix n assume "possible_bit TYPE(u64) n"
    then show "bit (xor s (push_bit w (drop_bit w s))) n = bit (take_bit w s) n"
      by (cases "n < w") (auto simp: bit_xor_iff bit_push_bit_iff bit_drop_bit_eq bit_take_bit_iff)
  qed
  then show ?thesis by (simp add: ModuloWidth_def Let_def)
qed

lemma StringSplit_concat: "concat (StringSplit s d) = filter (\<lambda>c. c \<noteq> d) s"
proof (induction s d rule: StringSplit.induct)
  case (1 s d)
  let ?i = "takeWhile (\<lambda>c. c \<noteq> d) s" and ?r = "dropWhile (\<lambda>c. c \<noteq> d) s"
  have tail: "filter (\<lambda>c. c \<noteq> d) (drop 1 ?r) = filter (\<lambda>c. c \<noteq> d) ?r"
  proof (cases ?r)
    case (Cons a r)
    then have "a = d" using hd_dropWhile [of "\<lambda>c. c \<noteq> d" s] by simp
    with Cons show ?thesis by simp
  next
    case Nil
    then show ?thesis by (simp only:) simp
  qed
  have "filter (\<lambda>c. c \<noteq> d) s = filter (\<lambda>c. c \<noteq> d) (?i @ ?r)" by simp
  also have "\<dots> = ?i @ filter (\<lambda>c. c \<noteq> d) ?r"
    by (simp only: filter_append) (auto simp: filter_id_conv dest: set_takeWhileD)
  finally have split: "filter (\<lambda>c. c \<noteq> d) s = ?i @ filter (\<lambda>c. c \<noteq> d) ?r" .
  show ?case
  proof (cases "s = []")
    case False
    with 1 have "concat (StringSplit (drop 1 ?r) d) = filter (\<lambda>c. c \<noteq> d) (drop 1 ?r)" by simp
    with False show ?thesis
      by (subst StringSplit.simps) (simp add: Let_def split tail [simplified])
  qed (simp add: StringSplit.simps)
qed

lemma StringSplit_items:
  "item \<in> set (StringSplit s d) \<Longrightarrow> item \<noteq> [] \<and> d \<notin> set item"
proof (induction s d rule: StringSplit.induct)
  case (1 s d)
  show ?case
  proof (cases "s = []")
    case False
    with "1.prems" consider "item = takeWhile (\<lambda>c. c \<noteq> d) s" "item \<noteq> []"
      | "item \<in> set (StringSplit (drop 1 (dropWhile (\<lambda>c. c \<noteq> d) s)) d)"
      by (subst (asm) StringSplit.simps) (auto simp: Let_def split: if_splits)
    then show ?thesis
    proof cases
      case 1
      then show ?thesis by (auto dest: set_takeWhileD)
    next
      case 2
      with "1.IH" False show ?thesis by simp
    qed
  qed (use "1.prems" in \<open>simp add: StringSplit.simps\<close>)
qed

end
