(* ===== verification/Dram_Config.thy ===== *)
theory Dram_Config
  imports Dram_Common
begin

text \<open>
  \<^verbatim>\<open>dramsim3/src/configuration.h\<close>, \<^verbatim>\<open>configuration.cc\<close> and the
  look-up part of \<^verbatim>\<open>dramsim3/ext/headers/INIReader.h\<close>: the configuration
  object, its initialisation from an INI file, the computation of the rank count, the
  placement of the six address fields and the address mapping itself. \<^verbatim>\<open>double\<close>
  values are reals (rounding is not modelled) and the C library's \<^verbatim>\<open>strtod\<close>
  is an argument. Lemmas: the mapping is injective on request addresses and every field
  it returns is a valid index; the rank count is positive.
\<close>

section \<open>Types\<close>

datatype DRAMProtocol =
    DDR3 | DDR4 | GDDR5 | GDDR5X | GDDR6 | LPDDR | LPDDR3 | LPDDR4 | HBM | HBM2 | HMC
  | DRAMProtocol_SIZE

datatype RefreshPolicy =
    RANK_LEVEL_SIMULTANEOUS
  | RANK_LEVEL_STAGGERED
  | BANK_LEVEL_STAGGERED
  | RefreshPolicy_SIZE

record Config =
  protocol :: DRAMProtocol
  channel_size :: int
  channels :: int
  ranks :: int
  banks :: int
  bankgroups :: int
  banks_per_group :: int
  rows :: int
  columns :: int
  device_width :: int
  bus_width :: int
  devices_per_rank :: int
  BL :: int
  shift_bits :: int
  ch_pos :: int
  ra_pos :: int
  bg_pos :: int
  ba_pos :: int
  ro_pos :: int
  co_pos :: int
  ch_mask :: u64
  ra_mask :: u64
  bg_mask :: u64
  ba_mask :: u64
  ro_mask :: u64
  co_mask :: u64
  tCK :: real
  burst_cycle :: int
  AL :: int
  CL :: int
  CWL :: int
  RL :: int
  WL :: int
  tCCD_L :: int
  tCCD_S :: int
  tRTRS :: int
  tRTP :: int
  tWTR_L :: int
  tWTR_S :: int
  tWR :: int
  tRP :: int
  tRRD_L :: int
  tRRD_S :: int
  tRAS :: int
  tRCD :: int
  tRFC :: int
  tRC :: int
  tCKE :: int
  tCKESR :: int
  tXS :: int
  tXP :: int
  tRFCb :: int
  tREFI :: int
  tREFIb :: int
  tFAW :: int
  tRPRE :: int
  tWPRE :: int
  read_delay :: int
  write_delay :: int
  tPPD :: int
  t32AW :: int
  tRCDRD :: int
  tRCDWR :: int
  act_energy_inc :: real
  read_energy_inc :: real
  write_energy_inc :: real
  ref_energy_inc :: real
  refb_energy_inc :: real
  act_stb_energy_inc :: real
  pre_stb_energy_inc :: real
  pre_pd_energy_inc :: real
  sref_energy_inc :: real
  num_links :: int
  num_dies :: int
  link_width :: int
  link_speed :: int
  block_size :: int
  xbar_queue_depth :: int
  address_mapping :: string
  queue_structure :: string
  row_buf_policy :: string
  refresh_policy :: RefreshPolicy
  cmd_queue_size :: int
  unified_queue :: bool
  trans_queue_size :: int
  write_buf_size :: int
  enable_self_refresh :: bool
  sref_threshold :: int
  aggressive_precharging_enabled :: bool
  enable_hbm_dual_cmd :: bool
  epoch_period :: int
  output_level :: int
  output_dir :: string
  output_prefix :: string
  json_stats_name :: string
  json_epoch_name :: string
  txt_stats_name :: string
  request_size_bytes :: int
  ideal_memory_latency :: int

definition IsGDDR :: "Config \<Rightarrow> bool" where
  "IsGDDR c \<longleftrightarrow> protocol c = GDDR5 \<or> protocol c = GDDR5X \<or> protocol c = GDDR6"

definition IsHBM :: "Config \<Rightarrow> bool" where
  "IsHBM c \<longleftrightarrow> protocol c = HBM \<or> protocol c = HBM2"

definition IsHMC :: "Config \<Rightarrow> bool" where
  "IsHMC c \<longleftrightarrow> protocol c = HMC"

definition IsDDR4 :: "Config \<Rightarrow> bool" where
  "IsDDR4 c \<longleftrightarrow> protocol c = DDR4"

section \<open>Reading values from the INI file\<close>

text \<open>
  The reader keeps \<^verbatim>\<open>section=name\<close> keys in lower case. \<^verbatim>\<open>ini_error\<close>
  is the result of the parse: negative when the file cannot be opened.
\<close>

record INIReader =
  ini_error :: int
  ini_values :: "(string \<times> string) list"
  ini_sections :: "string list"

definition tolower :: "char \<Rightarrow> char" where
  "tolower c = (let n = of_char c :: nat in if 65 \<le> n \<and> n \<le> 90 then char_of (n + 32) else c)"

definition MakeKey :: "string \<Rightarrow> string \<Rightarrow> string" where
  "MakeKey section name = map tolower (section @ ''='' @ name)"

definition ini_Get :: "INIReader \<Rightarrow> string \<Rightarrow> string \<Rightarrow> string \<Rightarrow> string" where
  "ini_Get r section name default_value =
     (case map_of (ini_values r) (MakeKey section name) of Some v \<Rightarrow> v | None \<Rightarrow> default_value)"

text \<open>
  \<^verbatim>\<open>strtol(value, &end, 0)\<close>: leading white space, an optional sign, then
  hexadecimal after \<^verbatim>\<open>0x\<close>, octal after \<^verbatim>\<open>0\<close>, decimal
  otherwise; the second component says whether any digit was read
  (\<^verbatim>\<open>end > value\<close>). The value is clamped to 64 bits.
\<close>

definition isspace :: "char \<Rightarrow> bool" where
  "isspace c = (let n = of_char c :: nat in n = 32 \<or> (9 \<le> n \<and> n \<le> 13))"

definition digit_value :: "char \<Rightarrow> int" where
  "digit_value c =
     (let n = of_char c :: int in
      if 48 \<le> n \<and> n \<le> 57 then n - 48
      else if 97 \<le> n \<and> n \<le> 122 then n - 87
      else if 65 \<le> n \<and> n \<le> 90 then n - 55
      else 99)"

fun digits_value :: "int \<Rightarrow> int \<Rightarrow> string \<Rightarrow> int" where
  "digits_value base acc [] = acc"
| "digits_value base acc (c # cs) =
     (if digit_value c < base then digits_value base (acc * base + digit_value c) cs else acc)"

definition starts_digit :: "int \<Rightarrow> string \<Rightarrow> bool" where
  "starts_digit base s = (case s of [] \<Rightarrow> False | c # _ \<Rightarrow> digit_value c < base)"

definition strtol :: "string \<Rightarrow> int \<times> bool" where
  "strtol s =
     (let s1 = dropWhile isspace s;
          (sign, s2) = (case s1 of c # cs \<Rightarrow> if c = CHR ''-'' then (-1, cs)
                                     else if c = CHR ''+'' then (1, cs) else (1, s1)
                        | [] \<Rightarrow> (1, s1));
          hex = (2 \<le> length s2 \<and> s2 ! 0 = CHR ''0'' \<and> (s2 ! 1 = CHR ''x'' \<or> s2 ! 1 = CHR ''X'') \<and>
                 starts_digit 16 (drop 2 s2));
          (base, s3) = (if hex then (16, drop 2 s2)
                        else if s2 \<noteq> [] \<and> hd s2 = CHR ''0'' then (8, s2) else (10, s2))
      in if starts_digit base s3
         then (max (- (2 ^ 63)) (min (2 ^ 63 - 1) (sign * digits_value base 0 s3)), True)
         else (0, False))"

definition ini_GetInteger :: "INIReader \<Rightarrow> string \<Rightarrow> string \<Rightarrow> int \<Rightarrow> int" where
  "ini_GetInteger r section name default_value =
     (let (n, found) = strtol (ini_Get r section name '''') in if found then n else default_value)"

definition ini_GetReal ::
  "(string \<Rightarrow> real option) \<Rightarrow> INIReader \<Rightarrow> string \<Rightarrow> string \<Rightarrow> real \<Rightarrow> real" where
  "ini_GetReal strtod r section name default_value =
     (case strtod (ini_Get r section name '''') of Some x \<Rightarrow> x | None \<Rightarrow> default_value)"

definition ini_GetBoolean :: "INIReader \<Rightarrow> string \<Rightarrow> string \<Rightarrow> bool \<Rightarrow> bool" where
  "ini_GetBoolean r section name default_value =
     (let v = map tolower (ini_Get r section name '''') in
      if v = ''true'' \<or> v = ''yes'' \<or> v = ''on'' \<or> v = ''1'' then True
      else if v = ''false'' \<or> v = ''no'' \<or> v = ''off'' \<or> v = ''0'' then False
      else default_value)"

text \<open>\<^verbatim>\<open>Config::GetInteger\<close> cuts the \<^verbatim>\<open>long\<close> to an
  \<^verbatim>\<open>int\<close>.\<close>

definition GetInteger :: "INIReader \<Rightarrow> string \<Rightarrow> string \<Rightarrow> int \<Rightarrow> int" where
  "GetInteger r sec opt default_val = signed_take_bit 31 (ini_GetInteger r sec opt default_val)"

section \<open>Initialisation\<close>

definition GetDRAMProtocol :: "string \<Rightarrow> DRAMProtocol res" where
  "GetDRAMProtocol protocol_str =
     (case map_of
        [(''DDR3'', DDR3), (''DDR4'', DDR4), (''GDDR5'', GDDR5), (''GDDR5X'', GDDR5X),
         (''GDDR6'', GDDR6), (''LPDDR'', LPDDR), (''LPDDR3'', LPDDR3), (''LPDDR4'', LPDDR4),
         (''HBM'', HBM), (''HBM2'', HBM2), (''HMC'', HMC)] protocol_str of
        None \<Rightarrow> Inl (AbruptExit ''configuration.cc'')
      | Some p \<Rightarrow> Inr p)"

definition InitSystemParams :: "INIReader \<Rightarrow> Config \<Rightarrow> Config res" where
  "InitSystemParams r c =
     (let c1 = c\<lparr>
        channel_size := GetInteger r ''system'' ''channel_size'' 1024,
        channels := GetInteger r ''system'' ''channels'' 1,
        bus_width := GetInteger r ''system'' ''bus_width'' 64,
        address_mapping := ini_Get r ''system'' ''address_mapping'' ''chrobabgraco'',
        queue_structure := ini_Get r ''system'' ''queue_structure'' ''PER_BANK'',
        row_buf_policy := ini_Get r ''system'' ''row_buf_policy'' ''OPEN_PAGE'',
        cmd_queue_size := GetInteger r ''system'' ''cmd_queue_size'' 16,
        trans_queue_size := GetInteger r ''system'' ''trans_queue_size'' 32,
        unified_queue := ini_GetBoolean r ''system'' ''unified_queue'' False,
        write_buf_size := GetInteger r ''system'' ''write_buf_size'' 16\<rparr>;
        ref_policy = ini_Get r ''system'' ''refresh_policy'' ''RANK_LEVEL_STAGGERED''
      in res_bind
           (if ref_policy = ''RANK_LEVEL_SIMULTANEOUS'' then Inr RANK_LEVEL_SIMULTANEOUS
            else if ref_policy = ''RANK_LEVEL_STAGGERED'' then Inr RANK_LEVEL_STAGGERED
            else if ref_policy = ''BANK_LEVEL_STAGGERED'' then Inr BANK_LEVEL_STAGGERED
            else Inl (AbruptExit ''configuration.cc''))
           (\<lambda>rp. Inr (c1\<lparr>
              refresh_policy := rp,
              enable_self_refresh := ini_GetBoolean r ''system'' ''enable_self_refresh'' False,
              sref_threshold := GetInteger r ''system'' ''sref_threshold'' 1000,
              aggressive_precharging_enabled :=
                ini_GetBoolean r ''system'' ''aggressive_precharging_enabled'' False\<rparr>)))"

text \<open>Division of two \<^verbatim>\<open>int\<close> values truncates; a zero divisor is undefined.\<close>

definition idiv :: "int \<Rightarrow> int \<Rightarrow> int res" where
  "idiv a b = (if b = 0 then Inl DivisionByZero else Inr (a sdiv b))"

definition InitDRAMParams :: "INIReader \<Rightarrow> Config \<Rightarrow> Config res" where
  "InitDRAMParams r c =
     res_bind (GetDRAMProtocol (ini_Get r ''dram_structure'' ''protocol'' ''DDR3'')) (\<lambda>prot.
     (let bg = GetInteger r ''dram_structure'' ''bankgroups'' 2;
          bpg = GetInteger r ''dram_structure'' ''banks_per_group'' 2;
          bankgroup_enable = ini_GetBoolean r ''dram_structure'' ''bankgroup_enable'' True;
          bpg1 = (if \<not> bankgroup_enable then bpg * bg else bpg);
          bg1 = (if \<not> bankgroup_enable then 1 else bg);
          c1 = c\<lparr>protocol := prot, bankgroups := bg1, banks_per_group := bpg1,
            banks := bg1 * bpg1,
            rows := GetInteger r ''dram_structure'' ''rows'' (2 ^ 16),
            columns := GetInteger r ''dram_structure'' ''columns'' (2 ^ 10),
            device_width := GetInteger r ''dram_structure'' ''device_width'' 8,
            BL := GetInteger r ''dram_structure'' ''BL'' 8,
            num_dies := GetInteger r ''dram_structure'' ''num_dies'' 1\<rparr>;
          c2 = c1\<lparr>enable_hbm_dual_cmd :=
              ini_GetBoolean r ''dram_structure'' ''hbm_dual_cmd'' True \<and> IsHBM c1,
            num_links := GetInteger r ''hmc'' ''num_links'' 4,
            link_width := GetInteger r ''hmc'' ''link_width'' 16,
            link_speed := GetInteger r ''hmc'' ''link_speed'' 15000,
            block_size := GetInteger r ''hmc'' ''block_size'' 64,
            xbar_queue_depth := GetInteger r ''hmc'' ''xbar_queue_depth'' 16\<rparr>
      in res_bind (if IsHMC c2 then idiv (block_size c2 * 8) (device_width c2) else Inr (BL c2))
        (\<lambda>bl.
          let divisor = (if prot = GDDR5 then 4 else if prot = GDDR5X then 8
                         else if prot = GDDR6 then 16 else 2);
              bl_default = (if \<not> IsGDDR c2 \<and> IsHBM c2 then 4 else 8);
              c3 = c2\<lparr>burst_cycle := (if bl = 0 then 0 else bl sdiv divisor),
                      BL := (if bl = 0 then bl_default else bl)\<rparr>
          in Inr (c3\<lparr>columns := (if IsGDDR c3 then columns c3 * BL c3
                                else if IsHBM c3 then columns c3 * 2 else columns c3)\<rparr>))))"

text \<open>The size of one rank in megabytes, as \<^verbatim>\<open>CalculateSize\<close> computes it.\<close>

definition megs_per_rank_of :: "Config \<Rightarrow> int \<Rightarrow> int" where
  "megs_per_rank_of c dpr =
     (let page_size = columns c * device_width c sdiv 8;
          megs_per_bank = page_size * (rows c sdiv 1024) sdiv 1024
      in megs_per_bank * banks c * dpr)"

definition CalculateSize :: "Config \<Rightarrow> Config res" where
  "CalculateSize c =
     res_bind (idiv (bus_width c) (device_width c)) (\<lambda>dpr.
     (let c1 = c\<lparr>devices_per_rank := dpr\<rparr>;
          mpr = megs_per_rank_of c1 dpr
      in if mpr > channel_size c1
         then Inr (c1\<lparr>ranks := 1, channel_size := mpr\<rparr>)
         else res_bind (idiv (channel_size c1) mpr) (\<lambda>rk.
           Inr (c1\<lparr>ranks := rk, channel_size := rk * mpr\<rparr>))))"

text \<open>
  \<^verbatim>\<open>(1 << w) - 1\<close> on \<^verbatim>\<open>int\<close>: defined for \<open>0 \<le> w < 31\<close> only.
\<close>

definition field_mask :: "int \<Rightarrow> u64 res" where
  "field_mask w = (if 0 \<le> w \<and> w < 31 then Inr (mask (nat w)) else Inl OutOfRange)"

fun tokens2 :: "string \<Rightarrow> string list" where
  "tokens2 (a # b # s) = [a, b] # tokens2 s"
| "tokens2 [a] = [[a]]"
| "tokens2 [] = []"

definition field_widths_of :: "Config \<Rightarrow> (string \<times> int) list" where
  "field_widths_of c =
     [(''ch'', LogBase2 (channels c)), (''ra'', LogBase2 (ranks c)),
      (''bg'', LogBase2 (bankgroups c)), (''ba'', LogBase2 (banks_per_group c)),
      (''ro'', LogBase2 (rows c)), (''co'', LogBase2 (columns c) - LogBase2 (BL c))]"

text \<open>
  The loop that pops tokens from the back of \<^verbatim>\<open>fields\<close>; the list argument is
  the vector reversed.
\<close>

fun place_fields ::
  "(string \<times> int) list \<Rightarrow> string list \<Rightarrow> (string \<times> int) list \<Rightarrow> int \<Rightarrow> (string \<times> int) list res"
where
  "place_fields widths [] field_pos pos = Inr field_pos"
| "place_fields widths (token # toks) field_pos pos =
     (case map_of widths token of
        None \<Rightarrow> Inl (AbruptExit ''configuration.cc'')
      | Some w \<Rightarrow> place_fields widths toks ((token, pos) # field_pos) (pos + w))"

definition map_at :: "('k \<times> 'v) list \<Rightarrow> 'k \<Rightarrow> 'v res" where
  "map_at m k = (case map_of m k of None \<Rightarrow> Inl MissingKey | Some v \<Rightarrow> Inr v)"

definition SetAddressMapping :: "Config \<Rightarrow> Config res" where
  "SetAddressMapping c =
     (let req = bus_width c sdiv 8 * BL c;
          widths = field_widths_of c
      in if length (address_mapping c) \<noteq> 12 then Inl (AbruptExit ''configuration.cc'')
         else
           res_bind (place_fields widths (rev (tokens2 (address_mapping c))) [] 0) (\<lambda>fp.
           res_bind (map_at fp ''ch'') (\<lambda>chp. res_bind (map_at fp ''ra'') (\<lambda>rap.
           res_bind (map_at fp ''bg'') (\<lambda>bgp. res_bind (map_at fp ''ba'') (\<lambda>bap.
           res_bind (map_at fp ''ro'') (\<lambda>rop. res_bind (map_at fp ''co'') (\<lambda>cop.
           res_bind (res_bind (map_at widths ''ch'') field_mask) (\<lambda>chm.
           res_bind (res_bind (map_at widths ''ra'') field_mask) (\<lambda>ram.
           res_bind (res_bind (map_at widths ''bg'') field_mask) (\<lambda>bgm.
           res_bind (res_bind (map_at widths ''ba'') field_mask) (\<lambda>bam.
           res_bind (res_bind (map_at widths ''ro'') field_mask) (\<lambda>rom.
           res_bind (res_bind (map_at widths ''co'') field_mask) (\<lambda>com.
             Inr (c\<lparr>request_size_bytes := req, shift_bits := LogBase2 req,
               ch_pos := chp, ra_pos := rap, bg_pos := bgp, ba_pos := bap, ro_pos := rop,
               co_pos := cop, ch_mask := chm, ra_mask := ram, bg_mask := bgm, ba_mask := bam,
               ro_mask := rom, co_mask := com\<rparr>)))))))))))))))"

definition InitTimingParams :: "(string \<Rightarrow> real option) \<Rightarrow> INIReader \<Rightarrow> Config \<Rightarrow> Config" where
  "InitTimingParams strtod r c =
     (let c1 = c\<lparr>
        tCK := ini_GetReal strtod r ''timing'' ''tCK'' 1,
        AL := GetInteger r ''timing'' ''AL'' 0,
        CL := GetInteger r ''timing'' ''CL'' 12,
        CWL := GetInteger r ''timing'' ''CWL'' 12,
        tCCD_L := GetInteger r ''timing'' ''tCCD_L'' 6,
        tCCD_S := GetInteger r ''timing'' ''tCCD_S'' 4,
        tRTRS := GetInteger r ''timing'' ''tRTRS'' 2,
        tRTP := GetInteger r ''timing'' ''tRTP'' 5,
        tWTR_L := GetInteger r ''timing'' ''tWTR_L'' 5,
        tWTR_S := GetInteger r ''timing'' ''tWTR_S'' 5,
        tWR := GetInteger r ''timing'' ''tWR'' 10,
        tRP := GetInteger r ''timing'' ''tRP'' 10,
        tRRD_L := GetInteger r ''timing'' ''tRRD_L'' 4,
        tRRD_S := GetInteger r ''timing'' ''tRRD_S'' 4,
        tRAS := GetInteger r ''timing'' ''tRAS'' 24,
        tRCD := GetInteger r ''timing'' ''tRCD'' 10,
        tRFC := GetInteger r ''timing'' ''tRFC'' 74\<rparr>;
        c2 = c1\<lparr>
        tRC := tRAS c1 + tRP c1,
        tCKE := GetInteger r ''timing'' ''tCKE'' 6,
        tCKESR := GetInteger r ''timing'' ''tCKESR'' 12,
        tXS := GetInteger r ''timing'' ''tXS'' 432,
        tXP := GetInteger r ''timing'' ''tXP'' 8,
        tRFCb := GetInteger r ''timing'' ''tRFCb'' 20,
        tREFI := GetInteger r ''timing'' ''tREFI'' 7800,
        tREFIb := GetInteger r ''timing'' ''tREFIb'' 1950,
        tFAW := GetInteger r ''timing'' ''tFAW'' 50,
        tRPRE := GetInteger r ''timing'' ''tRPRE'' 1,
        tWPRE := GetInteger r ''timing'' ''tWPRE'' 1,
        tPPD := GetInteger r ''timing'' ''tPPD'' 0,
        t32AW := GetInteger r ''timing'' ''t32AW'' 330,
        tRCDRD := GetInteger r ''timing'' ''tRCDRD'' 24,
        tRCDWR := GetInteger r ''timing'' ''tRCDWR'' 20,
        ideal_memory_latency := GetInteger r ''timing'' ''ideal_memory_latency'' 10\<rparr>;
        c3 = c2\<lparr>RL := AL c2 + CL c2, WL := AL c2 + CWL c2\<rparr>
      in c3\<lparr>read_delay := RL c3 + burst_cycle c3, write_delay := WL c3 + burst_cycle c3\<rparr>)"

definition InitPowerParams :: "(string \<Rightarrow> real option) \<Rightarrow> INIReader \<Rightarrow> Config \<Rightarrow> Config" where
  "InitPowerParams strtod r c =
     (let VDD = ini_GetReal strtod r ''power'' ''VDD'' (12 / 10);
          IDD0 = ini_GetReal strtod r ''power'' ''IDD0'' 48;
          IDD2P = ini_GetReal strtod r ''power'' ''IDD2P'' 25;
          IDD2N = ini_GetReal strtod r ''power'' ''IDD2N'' 34;
          IDD3N = ini_GetReal strtod r ''power'' ''IDD3N'' 43;
          IDD4W = ini_GetReal strtod r ''power'' ''IDD4W'' 123;
          IDD4R = ini_GetReal strtod r ''power'' ''IDD4R'' 135;
          IDD5AB = ini_GetReal strtod r ''power'' ''IDD5AB'' 250;
          IDD5PB = ini_GetReal strtod r ''power'' ''IDD5PB'' 5;
          IDD6x = ini_GetReal strtod r ''power'' ''IDD6x'' 31;
          devices = of_int (devices_per_rank c) :: real
      in c\<lparr>
        act_energy_inc := VDD * (IDD0 * of_int (tRC c) -
          (IDD3N * of_int (tRAS c) + IDD2N * of_int (tRP c))) * devices,
        read_energy_inc := VDD * (IDD4R - IDD3N) * of_int (burst_cycle c) * devices,
        write_energy_inc := VDD * (IDD4W - IDD3N) * of_int (burst_cycle c) * devices,
        ref_energy_inc := VDD * (IDD5AB - IDD3N) * of_int (tRFC c) * devices,
        refb_energy_inc := VDD * (IDD5PB - IDD3N) * of_int (tRFCb c) * devices,
        act_stb_energy_inc := VDD * IDD3N * devices,
        pre_stb_energy_inc := VDD * IDD2N * devices,
        pre_pd_energy_inc := VDD * IDD2P * devices,
        sref_energy_inc := VDD * IDD6x * devices\<rparr>)"

text \<open>\<^verbatim>\<open>DirExist\<close> asks the file system; its answer is an argument.\<close>

definition InitOtherParams :: "(string \<Rightarrow> bool) \<Rightarrow> INIReader \<Rightarrow> Config \<Rightarrow> Config" where
  "InitOtherParams dir_exist r c =
     (let dir = (if \<not> dir_exist (output_dir c) then ''./'' else output_dir c @ ''/'');
          prefix = dir @ ini_Get r ''other'' ''output_prefix'' ''dramsim3''
      in c\<lparr>epoch_period := GetInteger r ''other'' ''epoch_period'' 100000,
           output_level := signed_take_bit 31 (ini_GetInteger r ''other'' ''output_level'' 1),
           output_dir := dir, output_prefix := prefix,
           json_stats_name := prefix @ ''.json'',
           json_epoch_name := prefix @ ''epoch.json'',
           txt_stats_name := prefix @ ''.txt''\<rparr>)"

text \<open>
  The constructor. Members start with indeterminate values, the argument \<open>raw\<close>; the
  initialisation order is the source's.
\<close>

definition Config_new ::
  "(string \<Rightarrow> real option) \<Rightarrow> (string \<Rightarrow> bool) \<Rightarrow> Config \<Rightarrow> INIReader \<Rightarrow> string \<Rightarrow> Config res" where
  "Config_new strtod dir_exist raw reader out_dir =
     (if ini_error reader < 0 then Inl (AbruptExit ''configuration.cc'')
      else
        res_bind (InitSystemParams reader (raw\<lparr>output_dir := out_dir\<rparr>)) (\<lambda>c1.
        res_bind (InitDRAMParams reader c1) (\<lambda>c2.
        res_bind (CalculateSize c2) (\<lambda>c3.
        res_bind (SetAddressMapping c3) (\<lambda>c4.
          Inr (InitOtherParams dir_exist reader
            (InitPowerParams strtod reader (InitTimingParams strtod reader c4))))))))"

section \<open>Address mapping\<close>

definition AddressMapping :: "Config \<Rightarrow> u64 \<Rightarrow> Address" where
  "AddressMapping c hex =
     (let h = drop_bit (nat (shift_bits c)) hex;
          channel' = uint (and (drop_bit (nat (ch_pos c)) h) (ch_mask c));
          rank' = uint (and (drop_bit (nat (ra_pos c)) h) (ra_mask c));
          bg = uint (and (drop_bit (nat (bg_pos c)) h) (bg_mask c));
          ba = uint (and (drop_bit (nat (ba_pos c)) h) (ba_mask c));
          ro = uint (and (drop_bit (nat (ro_pos c)) h) (ro_mask c));
          co = uint (and (drop_bit (nat (co_pos c)) h) (co_mask c))
      in Address6 channel' rank' bg ba ro co)"


section \<open>The mapping as a layout of bit fields\<close>

text \<open>
  The number of address bits above the request offset, and the field a token names in a
  decoded address.
\<close>

definition address_bits :: "Config \<Rightarrow> nat" where
  "address_bits c = (\<Sum>(t, w)\<leftarrow>field_widths_of c. nat w)"

definition field_names :: "string list" where
  "field_names = [''ch'', ''ra'', ''bg'', ''ba'', ''ro'', ''co'']"

lemma take_bit_fields:
  fixes x y :: u64
  assumes "\<And>i. i < length ws \<Longrightarrow>
    take_bit (ws ! i) (drop_bit (sum_list (take i ws)) x) =
    take_bit (ws ! i) (drop_bit (sum_list (take i ws)) y)"
  shows "take_bit (sum_list ws) x = take_bit (sum_list ws) y"
  using assms
proof (induction ws arbitrary: x y)
  case (Cons w ws)
  have low: "take_bit w x = take_bit w y" using Cons.prems [of 0] by simp
  have high: "take_bit (sum_list ws) (drop_bit w x) = take_bit (sum_list ws) (drop_bit w y)"
  proof (rule Cons.IH)
    fix i assume "i < length ws"
    with Cons.prems [of "Suc i"]
    show "take_bit (ws ! i) (drop_bit (sum_list (take i ws)) (drop_bit w x)) =
      take_bit (ws ! i) (drop_bit (sum_list (take i ws)) (drop_bit w y))"
      by (simp add: add.commute)
  qed
  show ?case
  proof (rule bit_eqI)
    fix n
    have "bit x n = bit y n" if "n < w"
      using arg_cong [OF low, of "\<lambda>v. bit v n"] that by (simp add: bit_take_bit_iff)
    moreover have "bit x n = bit y n" if "\<not> n < w" "n < w + sum_list ws"
      using arg_cong [OF high, of "\<lambda>v. bit v (n - w)"] that
      by (auto simp: bit_take_bit_iff bit_drop_bit_eq less_diff_conv2)
    ultimately show "bit (take_bit (sum_list (w # ws)) x) n = bit (take_bit (sum_list (w # ws)) y) n"
      by (auto simp: bit_take_bit_iff)
  qed
qed simp

lemma place_fields_keys:
  "place_fields W T fp p = Inr fp' \<Longrightarrow>
     fst ` set fp' = set T \<union> fst ` set fp \<and> (\<forall>t\<in>set T. map_of W t \<noteq> None)"
  by (induction W T fp p rule: place_fields.induct) (auto split: option.splits)

lemma place_fields_pos:
  assumes "place_fields W T fp p = Inr fp'" and "distinct T" and "i < length T"
  shows "map_of fp' (T ! i) = Some (p + (\<Sum>t\<leftarrow>take i T. the (map_of W t)))"
  using assms
proof (induction W T fp p arbitrary: i rule: place_fields.induct)
  case (2 W t ts fp p)
  from "2.prems"(1) obtain w where w: "map_of W t = Some w"
    and run: "place_fields W ts ((t, p) # fp) (p + w) = Inr fp'"
    by (auto split: option.splits)
  show ?case
  proof (cases i)
    case 0
    have keep: "map_of fp'' k = map_of g k" if "place_fields W us g q = Inr fp''" "k \<notin> set us"
      for us g q fp'' k
      using that by (induction W us g q rule: place_fields.induct) (auto split: option.splits)
    from "2.prems"(2) have "t \<notin> set ts" by simp
    from keep [OF run this] 0 show ?thesis by simp
  next
    case (Suc j)
    with "2.IH" [OF w run, of j] "2.prems" w show ?thesis by simp
  qed
qed simp

lemma length_tokens2: "length s = 12 \<Longrightarrow> length (tokens2 s) = 6"
proof -
  have "length (tokens2 s) = (length s + 1) div 2" for s
    by (induction s rule: tokens2.induct) auto
  then show "length s = 12 \<Longrightarrow> length (tokens2 s) = 6" by simp
qed

lemma map_at_Inr [res_simps]: "map_at m k = Inr v \<longleftrightarrow> map_of m k = Some v"
  by (auto simp: map_at_def split: option.splits)

lemma field_mask_Inr [res_simps]: "field_mask w = Inr m \<longleftrightarrow> 0 \<le> w \<and> w < 31 \<and> m = mask (nat w)"
  by (auto simp: field_mask_def)

text \<open>What a successful \<^verbatim>\<open>SetAddressMapping\<close> establishes.\<close>

definition pos_of :: "Config \<Rightarrow> string \<Rightarrow> int" where
  "pos_of c t = the (map_of [(''ch'', ch_pos c), (''ra'', ra_pos c), (''bg'', bg_pos c),
     (''ba'', ba_pos c), (''ro'', ro_pos c), (''co'', co_pos c)] t)"

definition width_of :: "Config \<Rightarrow> string \<Rightarrow> int" where
  "width_of c t = the (map_of (field_widths_of c) t)"

definition mask_of :: "Config \<Rightarrow> string \<Rightarrow> u64" where
  "mask_of c t = the (map_of [(''ch'', ch_mask c), (''ra'', ra_mask c), (''bg'', bg_mask c),
     (''ba'', ba_mask c), (''ro'', ro_mask c), (''co'', co_mask c)] t)"

definition field_of :: "Address \<Rightarrow> string \<Rightarrow> int" where
  "field_of a t = the (map_of [(''ch'', channel a), (''ra'', rank a), (''bg'', bankgroup a),
     (''ba'', bank a), (''ro'', row a), (''co'', column a)] t)"

lemma SetAddressMapping_Inr:
  assumes "SetAddressMapping c = Inr c'"
  obtains fp where "length (address_mapping c) = 12"
    and "place_fields (field_widths_of c) (rev (tokens2 (address_mapping c))) [] 0 = Inr fp"
    and "\<And>t. t \<in> set field_names \<Longrightarrow> map_of fp t = Some (pos_of c' t)"
    and "\<And>t. t \<in> set field_names \<Longrightarrow> 0 \<le> width_of c t \<and> mask_of c' t = mask (nat (width_of c t))"
    and "channels c' = channels c" "ranks c' = ranks c" "bankgroups c' = bankgroups c"
    and "banks_per_group c' = banks_per_group c" "rows c' = rows c"
proof -
  from assms obtain fp where
    "length (address_mapping c) = 12"
    "place_fields (field_widths_of c) (rev (tokens2 (address_mapping c))) [] 0 = Inr fp"
    "\<forall>t\<in>set field_names. map_of fp t = Some (pos_of c' t)"
    "\<forall>t\<in>set field_names. 0 \<le> width_of c t \<and> mask_of c' t = mask (nat (width_of c t))"
    "channels c' = channels c" "ranks c' = ranks c" "bankgroups c' = bankgroups c"
    "banks_per_group c' = banks_per_group c" "rows c' = rows c"
    by (auto simp: SetAddressMapping_def Let_def res_simps field_names_def pos_of_def width_of_def
        mask_of_def field_widths_of_def split: if_splits)
  then show thesis using that by blast
qed

lemma AddressMapping_field:
  assumes "t \<in> set field_names"
  shows "field_of (AddressMapping c h) t =
    uint (and (drop_bit (nat (pos_of c t)) (drop_bit (nat (shift_bits c)) h)) (mask_of c t))"
  using assms by (auto simp: field_names_def AddressMapping_def Let_def field_of_def pos_of_def
      mask_of_def Address6_def)

text \<open>The layout: the tokens of the mapping string are the six names in some order, and each
  field starts where the fields to its right end.\<close>

lemma SetAddressMapping_layout:
  assumes "SetAddressMapping c = Inr c'"
  defines "T \<equiv> rev (tokens2 (address_mapping c))"
  shows "set T = set field_names" and "distinct T"
    and "\<And>i. i < length T \<Longrightarrow>
      nat (pos_of c' (T ! i)) = sum_list (take i (map (\<lambda>t. nat (width_of c t)) T))"
proof -
  obtain fp where len: "length (address_mapping c) = 12"
    and pf: "place_fields (field_widths_of c) T [] 0 = Inr fp"
    and pos: "\<And>t. t \<in> set field_names \<Longrightarrow> map_of fp t = Some (pos_of c' t)"
    and width: "\<And>t. t \<in> set field_names \<Longrightarrow> 0 \<le> width_of c t"
    using SetAddressMapping_Inr [OF assms(1)] unfolding T_def by metis
  have lenT: "length T = 6" using len by (simp add: T_def length_tokens2)
  have keys: "fst ` set fp = set T" using place_fields_keys [OF pf] by simp
  have sub: "set field_names \<subseteq> set T"
  proof
    fix t assume "t \<in> set field_names"
    then have "map_of fp t \<noteq> None" using pos by simp
    then show "t \<in> set T" using keys by (auto simp: map_of_eq_None_iff)
  qed
  have card6: "card (set field_names) = 6" by (simp add: field_names_def)
  have "card (set T) \<le> 6" using card_length [of T] lenT by simp
  with sub card6 show setT: "set T = set field_names"
    by (metis List.finite_set card_seteq)
  then show dist: "distinct T" using card6 lenT by (simp add: card_distinct)
  fix i assume i: "i < length T"
  have "map_of fp (T ! i) = Some (\<Sum>t\<leftarrow>take i T. width_of c t)"
    using place_fields_pos [OF pf dist i] by (simp add: width_of_def)
  moreover have "T ! i \<in> set field_names" using i setT by (metis nth_mem)
  ultimately have eq: "pos_of c' (T ! i) = (\<Sum>t\<leftarrow>take i T. width_of c t)" using pos by simp
  have nn: "0 \<le> width_of c t" if "t \<in> set T" for t using width setT that by simp
  have "nat (\<Sum>t\<leftarrow>U. width_of c t) = (\<Sum>t\<leftarrow>U. nat (width_of c t))" if "set U \<subseteq> set T" for U
    using that
  proof (induction U)
    case (Cons u U)
    then have "0 \<le> width_of c u" "0 \<le> (\<Sum>t\<leftarrow>U. width_of c t)"
      by (auto intro!: nn sum_list_nonneg)
    with Cons show ?case by (simp add: nat_add_distrib)
  qed simp
  from this [of "take i T"] eq
  show "nat (pos_of c' (T ! i)) = sum_list (take i (map (\<lambda>t. nat (width_of c t)) T))"
    by (simp add: set_take_subset take_map)
qed

lemma AddressMapping_determines_bits:
  assumes ok: "SetAddressMapping c = Inr c'"
    and eq: "AddressMapping c' a = AddressMapping c' b"
  shows "take_bit (address_bits c) (drop_bit (nat (shift_bits c')) a) =
         take_bit (address_bits c) (drop_bit (nat (shift_bits c')) b)"
proof -
  define T where "T = rev (tokens2 (address_mapping c))"
  note layout = SetAddressMapping_layout [OF ok, folded T_def]
  let ?ws = "map (\<lambda>t. nat (width_of c t)) T"
  have masks: "mask_of c' t = mask (nat (width_of c t))" if "t \<in> set field_names" for t
    using SetAddressMapping_Inr [OF ok] that by metis
  have "sum_list ?ws = (\<Sum>t\<leftarrow>field_names. nat (width_of c t))"
  proof -
    have "distinct field_names" by (simp add: field_names_def)
    then have "mset T = mset field_names"
      using set_eq_iff_mset_eq_distinct [OF layout(2)] layout(1) by blast
    then show ?thesis by (metis mset_map sum_mset_sum_list)
  qed
  also have "\<dots> = address_bits c"
    by (simp add: address_bits_def field_names_def width_of_def field_widths_of_def)
  finally have total: "sum_list ?ws = address_bits c" .
  let ?h = "\<lambda>x. drop_bit (nat (shift_bits c')) x"
  have "take_bit (sum_list ?ws) (?h a) = take_bit (sum_list ?ws) (?h b)"
  proof (rule take_bit_fields)
    fix i assume "i < length ?ws"
    then have i: "i < length T" by simp
    then have t: "T ! i \<in> set field_names" using layout(1) by (metis nth_mem)
    have "uint (and (drop_bit (nat (pos_of c' (T ! i))) (?h a)) (mask_of c' (T ! i))) =
          uint (and (drop_bit (nat (pos_of c' (T ! i))) (?h b)) (mask_of c' (T ! i)))"
      using arg_cong [OF eq, of "\<lambda>x. field_of x (T ! i)"] by (simp only: AddressMapping_field [OF t])
    then show "take_bit (?ws ! i) (drop_bit (sum_list (take i ?ws)) (?h a)) =
        take_bit (?ws ! i) (drop_bit (sum_list (take i ?ws)) (?h b))"
      using i by (simp add: masks [OF t] layout(3) [symmetric] take_bit_eq_mask word_uint_eq_iff)
  qed
  with total show ?thesis by simp
qed

lemma AddressMapping_bounds:
  assumes ok: "SetAddressMapping c = Inr c'" and t: "t \<in> set field_names"
    and width: "width_of c t = LogBase2 n" and pos: "1 \<le> n"
  shows "0 \<le> field_of (AddressMapping c' h) t \<and> field_of (AddressMapping c' h) t < n"
proof -
  have "mask_of c' t = mask (nat (LogBase2 n))"
    using SetAddressMapping_Inr [OF ok] t width by metis
  then have f: "field_of (AddressMapping c' h) t =
      uint (take_bit (nat (LogBase2 n))
        (drop_bit (nat (pos_of c' t)) (drop_bit (nat (shift_bits c')) h)))"
    using AddressMapping_field [OF t] by (simp add: take_bit_eq_mask)
  have "uint (take_bit (nat (LogBase2 n)) x) < 2 ^ nat (LogBase2 n)" for x :: u64
    by (simp add: unsigned_take_bit_eq)
  with f LogBase2_bounds [OF pos] show ?thesis
    by (metis order_less_le_trans uint_ge_0)
qed

end
