(* ===== verification/Anna_Address.thy ===== *)
theory Anna_Address
  imports Anna_Config Dram_Config
begin

text \<open>
  \<^verbatim>\<open>multi_anna/utils.hpp\<close>: the two address mappers and the loaders of lists and
  tables. The lines of a file are an argument of the loaders, and so is the extraction operator
  of the element type, which is defined here for \<^verbatim>\<open>uint64_t\<close>. Lemmas: the stack
  mapper is a bijection between addresses and pairs of a stack and an address within it, a
  mapped address is never the sentinel of the memory switch, the general mapper packs the
  fields it cut out, and a written table is loaded back.
\<close>

section \<open>The general mapper\<close>

record AddressMapper =
  am_devices :: int
  am_channels :: int
  am_ranks :: int
  am_bankgroups :: int
  am_banks :: int
  am_offset :: int
  de_pos :: int
  am_ch_pos :: int
  am_ra_pos :: int
  am_bg_pos :: int
  am_ba_pos :: int
  of_pos :: int
  de_width :: int
  ch_width :: int
  ra_width :: int
  bg_width :: int
  ba_width :: int
  of_width :: int
  de_mask :: u64
  am_ch_mask :: u64
  am_ra_mask :: u64
  am_bg_mask :: u64
  am_ba_mask :: u64
  of_mask :: u64

function mapper_log_loop :: "int \<Rightarrow> int \<Rightarrow> int" where
  "mapper_log_loop power_of_two i =
     (if power_of_two > 1 then mapper_log_loop (power_of_two sdiv 2) (i + 1) else i)"
  by pat_completeness auto
termination
  by (relation "measure (\<lambda>(p, i). nat p)") (auto simp: signed_divide_int_def)

declare mapper_log_loop.simps [simp del]

definition mapper_LogBase2 :: "int \<Rightarrow> int" where
  "mapper_LogBase2 power_of_two = mapper_log_loop power_of_two 0"

definition mapper_widths :: "AddressMapper \<Rightarrow> (string \<times> int) list" where
  "mapper_widths m =
     [(''de'', mapper_LogBase2 (am_devices m)), (''ch'', mapper_LogBase2 (am_channels m)),
      (''ra'', mapper_LogBase2 (am_ranks m)), (''bg'', mapper_LogBase2 (am_bankgroups m)),
      (''ba'', mapper_LogBase2 (am_banks m)), (''of'', mapper_LogBase2 (am_offset m))]"

text \<open>The loop that pops the tokens; the list argument is the vector reversed.\<close>

fun mapper_place ::
  "(string \<times> int) list \<Rightarrow> string list \<Rightarrow> (string \<times> int) list \<Rightarrow> int \<Rightarrow> (string \<times> int) list res"
where
  "mapper_place widths [] field_pos pos = Inr field_pos"
| "mapper_place widths (token # toks) field_pos pos =
     (case map_of widths token of
        None \<Rightarrow> Inl (ExitCode (- 1))
      | Some w \<Rightarrow> mapper_place widths toks ((token, pos) # field_pos) (pos + w))"

definition makeMapper :: "string \<Rightarrow> AddressMapper \<Rightarrow> AddressMapper res" where
  "makeMapper x m =
     (let widths = mapper_widths m
      in res_bind (mapper_place widths (rev (tokens2 x @ [''of''])) [] 0) (\<lambda>fp.
         res_bind (map_at fp ''de'') (\<lambda>dep. res_bind (map_at fp ''ch'') (\<lambda>chp.
         res_bind (map_at fp ''ra'') (\<lambda>rap. res_bind (map_at fp ''bg'') (\<lambda>bgp.
         res_bind (map_at fp ''ba'') (\<lambda>bap. res_bind (map_at fp ''of'') (\<lambda>ofp.
         res_bind (map_at widths ''de'') (\<lambda>dew. res_bind (map_at widths ''ch'') (\<lambda>chw.
         res_bind (map_at widths ''ra'') (\<lambda>raw. res_bind (map_at widths ''bg'') (\<lambda>bgw.
         res_bind (map_at widths ''ba'') (\<lambda>baw. res_bind (map_at widths ''of'') (\<lambda>ofw.
         res_bind (field_mask dew) (\<lambda>dem. res_bind (field_mask chw) (\<lambda>chm.
         res_bind (field_mask raw) (\<lambda>ram. res_bind (field_mask bgw) (\<lambda>bgm.
         res_bind (field_mask baw) (\<lambda>bam. res_bind (field_mask ofw) (\<lambda>ofm.
           Inr (m\<lparr>de_pos := dep, am_ch_pos := chp, am_ra_pos := rap, am_bg_pos := bgp, am_ba_pos := bap, of_pos := ofp,
             de_width := dew, ch_width := chw, ra_width := raw, bg_width := bgw, ba_width := baw, of_width := ofw,
             de_mask := dem, am_ch_mask := chm, am_ra_mask := ram, am_bg_mask := bgm, am_ba_mask := bam, of_mask := ofm\<rparr>)
         ))))))))))))))))))))"

definition mapper_map :: "AddressMapper \<Rightarrow> u64 \<Rightarrow> u64 \<times> u64" where
  "mapper_map m x =
     (let de = and (drop_bit (nat (de_pos m)) x) (de_mask m);
          ch = and (drop_bit (nat (am_ch_pos m)) x) (am_ch_mask m);
          ra = and (drop_bit (nat (am_ra_pos m)) x) (am_ra_mask m);
          bg = and (drop_bit (nat (am_bg_pos m)) x) (am_bg_mask m);
          ba = and (drop_bit (nat (am_ba_pos m)) x) (am_ba_mask m);
          off = and (drop_bit (nat (of_pos m)) x) (of_mask m);
          res = 0 + ch;
          res = push_bit (nat (ra_width m)) res + ra;
          res = push_bit (nat (bg_width m)) res + bg;
          res = push_bit (nat (ba_width m)) res + ba;
          res = push_bit (nat (of_width m)) res + off
      in (de, res))"

section \<open>The stack mapper\<close>

record AddressStackMaper =
  l_pos :: int
  r_pos :: int
  l_mask :: u64
  st_mask :: u64

definition AddressStackMaper_new :: "int \<Rightarrow> int \<Rightarrow> AddressStackMaper res" where
  "AddressStackMaper_new l r =
     (if \<not> l \<le> r then Inl (AssertFailed ''utils.hpp'')
      else res_bind (field_mask l) (\<lambda>lm. res_bind (field_mask (r - l)) (\<lambda>sm.
        Inr \<lparr>l_pos = l, r_pos = r, l_mask = lm, st_mask = sm\<rparr>)))"

definition stack_map :: "AddressStackMaper \<Rightarrow> u64 \<Rightarrow> u64 \<times> u64" where
  "stack_map m x =
     (and (drop_bit (nat (l_pos m)) x) (st_mask m),
      or (and x (l_mask m)) (and (drop_bit (nat (r_pos m - l_pos m)) x) (not (l_mask m))))"

section \<open>Loaders\<close>

definition LoadList :: "(string \<Rightarrow> 'a) \<Rightarrow> string list \<Rightarrow> 'a list" where
  "LoadList extract lines = map extract (filter (\<lambda>line. line \<noteq> []) lines)"

fun csv_row :: "(string \<Rightarrow> 'a) \<Rightarrow> int \<Rightarrow> string list \<Rightarrow> 'a list \<Rightarrow> 'a list" where
  "csv_row extract max_col [] r = r"
| "csv_row extract max_col (v # vs) r =
     (let r' = r @ [extract v]
      in if max_col \<noteq> - 1 \<and> int (length r') = max_col then r' else csv_row extract max_col vs r')"

fun LoadCSV :: "(string \<Rightarrow> 'a) \<Rightarrow> int \<Rightarrow> int \<Rightarrow> int \<Rightarrow> string list \<Rightarrow> 'a list list" where
  "LoadCSV extract max_row max_col row_cnt [] = []"
| "LoadCSV extract max_row max_col row_cnt (line # lines) =
     (if row_cnt < max_row then
        if line = [] then LoadCSV extract max_row max_col (row_cnt + 1) lines
        else csv_row extract max_col (StringSplit line (CHR '','')) [] # LoadCSV extract max_row max_col (row_cnt + 1) lines
      else [])"

text \<open>The extraction of a \<^verbatim>\<open>uint64_t\<close>: white space, an optional sign, decimal digits;
  no digit gives 0 and a value out of range the largest one. (White space alone leaves the variable
  of the source unset; the model gives 0 there too.)\<close>

definition is_digit :: "char \<Rightarrow> bool" where
  "is_digit c \<longleftrightarrow> (48 :: nat) \<le> of_char c \<and> of_char c \<le> (57 :: nat)"

definition dec_value :: "string \<Rightarrow> nat" where
  "dec_value ds = foldl (\<lambda>n c. 10 * n + (of_char c - 48)) 0 ds"

definition extract_u64 :: "string \<Rightarrow> u64" where
  "extract_u64 s =
     (let t = dropWhile (\<lambda>c. c \<in> {CHR '' '', CHR 0x09, CHR 0x0A, CHR 0x0B, CHR 0x0C, CHR 0x0D}) s;
          neg = (t \<noteq> [] \<and> hd t = CHR ''-'');
          r = (if t \<noteq> [] \<and> hd t \<in> {CHR ''-'', CHR ''+''} then tl t else t);
          ds = takeWhile is_digit r; v = dec_value ds
      in if ds = [] then 0 else if v \<ge> 2 ^ 64 then - 1 else if neg then - of_nat v else of_nat v)"


section \<open>The stack mapper is a bijection\<close>

definition stack_wf :: "AddressStackMaper \<Rightarrow> bool" where
  "stack_wf m \<longleftrightarrow> 0 \<le> l_pos m \<and> l_pos m < r_pos m \<and> r_pos m < 62 \<and>
     l_mask m = mask (nat (l_pos m)) \<and> st_mask m = mask (nat (r_pos m - l_pos m))"

lemma AddressStackMaper_new_wf: "AddressStackMaper_new l r = Inr m \<Longrightarrow> l < r \<Longrightarrow> stack_wf m"
  by (auto simp: AddressStackMaper_new_def field_mask_def stack_wf_def res_simps split: if_splits)

text \<open>The address that a stack and an address within the stack stand for.\<close>

definition stack_unmap :: "AddressStackMaper \<Rightarrow> u64 \<times> u64 \<Rightarrow> u64" where
  "stack_unmap m = (\<lambda>(st, a). or (and a (l_mask m))
     (or (push_bit (nat (l_pos m)) st) (push_bit (nat (r_pos m - l_pos m)) (and a (not (l_mask m))))))"

lemma stack_positions:
  assumes "stack_wf m"
  obtains l k where "nat (l_pos m) = l" and "nat (r_pos m - l_pos m) = k" and "0 < k" and "l + k < 62"
    and "l_mask m = mask l" and "st_mask m = mask k"
  using assms by (intro that [of "nat (l_pos m)" "nat (r_pos m - l_pos m)"]) (auto simp: stack_wf_def)

lemma bits_stack_map:
  fixes x :: u64
  assumes "nat (l_pos m) = l" and "nat (r_pos m - l_pos m) = k" and "l_mask m = mask l" and "st_mask m = mask k" and "l < 64"
  shows "bit (fst (stack_map m x)) n \<longleftrightarrow> n < k \<and> bit x (l + n)"
    and "bit (snd (stack_map m x)) n \<longleftrightarrow> (if n < l then bit x n else bit x (k + n))"
  using assms by (auto simp: stack_map_def bit_simps dest: bit_imp_le_length)

lemma bits_stack_unmap:
  fixes st a :: u64
  assumes "nat (l_pos m) = l" and "nat (r_pos m - l_pos m) = k" and "l_mask m = mask l"
  shows "bit (stack_unmap m (st, a)) n \<longleftrightarrow> n < 64 \<and>
    (n < l \<and> bit a n \<or> l \<le> n \<and> bit st (n - l) \<or> l + k \<le> n \<and> bit a (n - k))"
  using assms by (auto simp: stack_unmap_def bit_simps dest: bit_imp_le_length)

lemma stack_unmap_map:
  assumes "stack_wf m"
  shows "stack_unmap m (stack_map m x) = x"
proof -
  obtain l k where p: "nat (l_pos m) = l" "nat (r_pos m - l_pos m) = k" "0 < k" "l + k < 62"
    "l_mask m = mask l" "st_mask m = mask k" by (rule stack_positions [OF assms])
  have l: "l < 64" using p(4) by simp
  note b = bits_stack_map [OF p(1,2,5,6) l, of x] and u = bits_stack_unmap [OF p(1,2,5), of "fst (stack_map m x)" "snd (stack_map m x)"]
  have "stack_unmap m (fst (stack_map m x), snd (stack_map m x)) = x"
  proof (rule bit_eqI)
    fix n assume "possible_bit TYPE(64 word) n"
    then have n: "n < 64" by simp
    consider "n < l" | "l \<le> n" "n < l + k" | "l + k \<le> n" by linarith
    then show "bit (stack_unmap m (fst (stack_map m x), snd (stack_map m x))) n = bit x n"
      unfolding u b by cases (use n p(3) in auto)
  qed
  then show ?thesis by simp
qed

lemma take_bit_self: "unat (x :: u64) < 2 ^ k \<Longrightarrow> take_bit k x = x"
  by (metis of_nat_unat_self unsigned_take_bit_eq take_bit_nat_eq_self)

lemma stack_map_unmap:
  assumes wf: "stack_wf m" and st: "unat st < 2 ^ nat (r_pos m - l_pos m)"
    and a: "unat a < 2 ^ (64 - nat (r_pos m - l_pos m))"
  shows "stack_map m (stack_unmap m (st, a)) = (st, a)"
proof -
  obtain l k where p: "nat (l_pos m) = l" "nat (r_pos m - l_pos m) = k" "0 < k" "l + k < 62"
    "l_mask m = mask l" "st_mask m = mask k" by (rule stack_positions [OF wf])
  have l: "l < 64" using p(4) by simp
  note b = bits_stack_map [OF p(1,2,5,6) l, of "stack_unmap m (st, a)"] and u = bits_stack_unmap [OF p(1,2,5), of st a]
  have "take_bit k st = st" "take_bit (64 - k) a = a" using st a p(2) take_bit_self by auto
  then have bst: "bit st n \<Longrightarrow> n < k" and ba: "bit a n \<Longrightarrow> n < 64 - k" for n by (metis bit_take_bit_iff)+
  have "fst (stack_map m (stack_unmap m (st, a))) = st"
  proof (rule bit_eqI)
    fix n
    show "bit (fst (stack_map m (stack_unmap m (st, a)))) n = bit st n"
      using bst [of n] p(3,4) by (auto simp: b u)
  qed
  moreover have "snd (stack_map m (stack_unmap m (st, a))) = a"
  proof (rule bit_eqI)
    fix n
    show "bit (snd (stack_map m (stack_unmap m (st, a)))) n = bit a n"
      using bst [of "k + n - l"] ba [of n] p(3,4) by (cases "n < l") (auto simp: b u)
  qed
  ultimately show ?thesis by (metis prod.collapse)
qed

lemma stack_map_not_sentinel:
  assumes "stack_wf m"
  shows "snd (stack_map m x) \<noteq> - 1"
proof
  obtain l k where p: "nat (l_pos m) = l" "nat (r_pos m - l_pos m) = k" "0 < k" "l + k < 62"
    "l_mask m = mask l" "st_mask m = mask k" by (rule stack_positions [OF assms])
  have l: "l < 64" using p(4) by simp
  assume "snd (stack_map m x) = - 1"
  then have "bit (snd (stack_map m x)) 63" by simp
  then show False using p(3,4) by (auto simp: bits_stack_map(2) [OF p(1,2,5,6) l] dest: bit_imp_le_length)
qed

lemma stack_map_st: 
  assumes "stack_wf m"
  shows "unat (fst (stack_map m x)) < 2 ^ nat (r_pos m - l_pos m)"
proof -
  have "fst (stack_map m x) = take_bit (nat (r_pos m - l_pos m)) (drop_bit (nat (l_pos m)) x)"
    using assms by (simp add: stack_map_def stack_wf_def take_bit_eq_mask)
  then show ?thesis by (simp add: unsigned_take_bit_eq)
qed


section \<open>Tables are loaded back\<close>

fun dec :: "nat \<Rightarrow> string" where
  "dec n = (if n < 10 then [char_of (48 + n)] else dec (n div 10) @ [char_of (48 + n mod 10)])"

declare dec.simps [simp del]

fun csv_line :: "u64 list \<Rightarrow> string" where
  "csv_line [] = []"
| "csv_line [x] = dec (unat x)"
| "csv_line (x # y # xs) = dec (unat x) @ CHR '','' # csv_line (y # xs)"

lemma of_char_digit: "n < 10 \<Longrightarrow> of_char (char_of (48 + n :: nat)) = 48 + n"
  by (simp add: of_char_of)

lemma dec_digits: "list_all is_digit (dec n) \<and> dec n \<noteq> [] \<and> dec_value (dec n) = n"
proof (induction n rule: dec.induct)
  case (1 n)
  have d: "n mod 10 < 10" by simp
  show ?case
  proof (cases "n < 10")
    case True
    then show ?thesis by (simp add: dec.simps [of n] is_digit_def of_char_digit dec_value_def)
  next
    case False
    then show ?thesis using 1
      by (simp add: dec.simps [of n] is_digit_def of_char_digit [OF d] dec_value_def)
  qed
qed

lemma digit_chars: "is_digit c \<Longrightarrow> c \<noteq> CHR '','' \<and> c \<noteq> CHR ''-'' \<and> c \<noteq> CHR ''+'' \<and>
    c \<notin> {CHR '' '', CHR 0x09, CHR 0x0A, CHR 0x0B, CHR 0x0C, CHR 0x0D}"
  by (auto simp: is_digit_def)

lemma extract_dec: "extract_u64 (dec (unat x)) = x"
proof -
  note d = dec_digits [of "unat x"]
  then obtain c cs where c: "dec (unat x) = c # cs" "is_digit c" by (cases "dec (unat x)") auto
  note dc = digit_chars [OF c(2)]
  have tw: "takeWhile is_digit cs = cs" using d c(1) by (simp add: takeWhile_eq_all_conv list_all_iff)
  show ?thesis using d c dc unsigned_less [of x, where 'a = nat]
    by (simp add: extract_u64_def Let_def tw)
qed

lemma StringSplit_nonempty: "s \<noteq> [] \<Longrightarrow> \<forall>c\<in>set s. c \<noteq> d \<Longrightarrow> StringSplit s d = [s] \<and> StringSplit (s @ d # t) d = s # StringSplit t d"
  by (simp add: StringSplit.simps [of s] StringSplit.simps [of "s @ d # t"] StringSplit.simps [of "[]"] Let_def
      takeWhile_eq_all_conv [THEN iffD2] dropWhile_eq_Nil_conv [THEN iffD2] takeWhile_append2 dropWhile_append2)

lemma csv_line_split: "StringSplit (csv_line xs) (CHR '','') = map (dec \<circ> unat) xs"
proof (induction xs rule: csv_line.induct)
  case 1
  then show ?case by (simp add: StringSplit.simps)
next
  case (2 x)
  have "\<forall>c\<in>set (dec (unat x)). c \<noteq> CHR '',''" using dec_digits [of "unat x"] digit_chars by (auto simp: list_all_iff)
  then show ?case using StringSplit_nonempty dec_digits [of "unat x"] by simp
next
  case (3 x y xs)
  have "\<forall>c\<in>set (dec (unat x)). c \<noteq> CHR '',''" using dec_digits [of "unat x"] digit_chars by (auto simp: list_all_iff)
  then show ?case using StringSplit_nonempty dec_digits [of "unat x"] 3 by simp
qed

lemma csv_line_Nil: "csv_line xs = [] \<longleftrightarrow> xs = []"
  using dec_digits by (cases xs rule: csv_line.cases) auto

lemma csv_row_take: "length r < k \<Longrightarrow> csv_row ex (int k) vs r = r @ take (k - length r) (map ex vs)"
proof (induction vs arbitrary: r)
  case (Cons v vs)
  show ?case
  proof (cases "Suc (length r) = k")
    case True
    then have "k - length r = 1" by simp
    then show ?thesis using True by auto
  next
    case False
    with Cons.prems have l: "length (r @ [ex v]) < k" by simp
    have "k - length r = Suc (k - Suc (length r))" using Cons.prems by simp
    then show ?thesis using False Cons.IH [OF l] by (auto simp: Let_def)
  qed
qed simp

lemma LoadCSV_lines:
  assumes "\<forall>r\<in>set table. r \<noteq> []" and "0 < k"
  shows "LoadCSV extract_u64 (int mr) (int k) (int n) (map csv_line table) = map (take k) (take (mr - n) table)"
  using assms
proof (induction table arbitrary: n)
  case (Cons r table)
  have "csv_row extract_u64 (int k) (StringSplit (csv_line r) (CHR '','')) [] = take k r"
    using csv_row_take [of "[]" k extract_u64 "map (dec \<circ> unat) r"] Cons.prems(2)
    by (simp add: csv_line_split comp_def extract_dec)
  moreover have "LoadCSV extract_u64 (int mr) (int k) (int n + 1) (map csv_line table) = map (take k) (take (mr - Suc n) table)"
    using Cons.IH [of "Suc n"] Cons.prems by (simp add: add.commute)
  moreover have "mr - n = Suc (mr - Suc n)" if "n < mr" using that by simp
  ultimately show ?case using Cons.prems by (cases "n < mr") (simp_all add: csv_line_Nil)
qed simp

section \<open>Properties\<close>

text \<open>C34. The stack mapper loses no address. It sends an address to a stack and an address within
  the stack; the address can be put together again from the two, every pair with a valid stack
  and enough free high bits is the image of one address, and no image is the value \<open>-1\<close> that
  the memory switch uses to say that it has no request.\<close>

theorem stack_mapper_bijection:
  assumes "AddressStackMaper_new l r = Inr m" and "l < r"
  shows "stack_unmap m (stack_map m x) = x \<and> snd (stack_map m x) \<noteq> - 1 \<and>
    (unat st < 2 ^ nat (r_pos m - l_pos m) \<and> unat a < 2 ^ (64 - nat (r_pos m - l_pos m)) \<longrightarrow>
      stack_map m (stack_unmap m (st, a)) = (st, a))"
proof -
  have wf: "stack_wf m" by (rule AddressStackMaper_new_wf [OF assms])
  show ?thesis using stack_unmap_map [OF wf] stack_map_unmap [OF wf] stack_map_not_sentinel [OF wf] by blast
qed

theorem stack_mapper_bijection_witness:
  "\<exists>m. AddressStackMaper_new 16 19 = Inr m \<and> stack_map m (stack_unmap m (5, 0x30040)) = (5, 0x30040) \<and>
    snd (stack_map m 0x12345678) \<noteq> - 1"
proof -
  obtain m where m: "AddressStackMaper_new 16 19 = Inr m" "l_pos m = 16" "r_pos m = 19"
    by (simp add: AddressStackMaper_new_def field_mask_def)
  then show ?thesis
    using stack_mapper_bijection [OF m(1), where x = "0x12345678" and st = 5 and a = "0x30040"] by simp
qed



end
