(* ===== verification/Dram_Bank.thy ===== *)
theory Dram_Bank
  imports Dram_Common
begin

text \<open>
  \<^verbatim>\<open>dramsim3/src/bankstate.h\<close> and \<^verbatim>\<open>bankstate.cc\<close>: one DRAM bank,
  its row state and the earliest time of each command. Lemmas: the state is well formed and
  stays so, the command the bank asks for is always one it can execute, and the earliest
  times only grow.
\<close>

section \<open>State\<close>

datatype BankStatus = OPEN | CLOSED | SREF | PD | BankStatus_SIZE

text \<open>
  \<^verbatim>\<open>cmd_timing_\<close> is a vector with one entry per command type, indexed by the
  enumeration: a function on \<open>CommandType\<close>.
\<close>

record BankState =
  bank_state :: BankStatus
  cmd_timing :: "CommandType \<Rightarrow> u64"
  open_row :: int
  row_hit_count :: int

definition BankState_new :: BankState where
  "BankState_new = \<lparr>bank_state = CLOSED, cmd_timing = (\<lambda>_. 0), open_row = -1, row_hit_count = 0\<rparr>"

definition IsRowOpen :: "BankState \<Rightarrow> bool" where
  "IsRowOpen b \<longleftrightarrow> bank_state b = OPEN"

section \<open>Operations\<close>

text \<open>
  The command type the bank has to receive next for \<open>cmd\<close> to make progress: the two nested
  switches of \<^verbatim>\<open>GetReadyCommand\<close>.
\<close>

definition required_type :: "BankState \<Rightarrow> Command \<Rightarrow> CommandType res" where
  "required_type b cmd =
     (case bank_state b of
        CLOSED \<Rightarrow>
          (case cmd_type cmd of
             READ \<Rightarrow> Inr ACTIVATE
           | READ_PRECHARGE \<Rightarrow> Inr ACTIVATE
           | WRITE \<Rightarrow> Inr ACTIVATE
           | WRITE_PRECHARGE \<Rightarrow> Inr ACTIVATE
           | REFRESH \<Rightarrow> Inr (cmd_type cmd)
           | REFRESH_BANK \<Rightarrow> Inr (cmd_type cmd)
           | SREF_ENTER \<Rightarrow> Inr (cmd_type cmd)
           | _ \<Rightarrow> Inl (AbruptExit ''bankstate.cc''))
      | OPEN \<Rightarrow>
          (case cmd_type cmd of
             READ \<Rightarrow> Inr (if Row cmd = open_row b then cmd_type cmd else PRECHARGE)
           | READ_PRECHARGE \<Rightarrow> Inr (if Row cmd = open_row b then cmd_type cmd else PRECHARGE)
           | WRITE \<Rightarrow> Inr (if Row cmd = open_row b then cmd_type cmd else PRECHARGE)
           | WRITE_PRECHARGE \<Rightarrow> Inr (if Row cmd = open_row b then cmd_type cmd else PRECHARGE)
           | REFRESH \<Rightarrow> Inr PRECHARGE
           | REFRESH_BANK \<Rightarrow> Inr PRECHARGE
           | SREF_ENTER \<Rightarrow> Inr PRECHARGE
           | _ \<Rightarrow> Inl (AbruptExit ''bankstate.cc''))
      | SREF \<Rightarrow>
          (case cmd_type cmd of
             READ \<Rightarrow> Inr SREF_EXIT
           | READ_PRECHARGE \<Rightarrow> Inr SREF_EXIT
           | WRITE \<Rightarrow> Inr SREF_EXIT
           | WRITE_PRECHARGE \<Rightarrow> Inr SREF_EXIT
           | _ \<Rightarrow> Inl (AbruptExit ''bankstate.cc''))
      | PD \<Rightarrow> Inl (AbruptExit ''bankstate.cc'')
      | BankStatus_SIZE \<Rightarrow> Inl (AbruptExit ''bankstate.cc''))"

definition bank_GetReadyCommand :: "BankState \<Rightarrow> Command \<Rightarrow> u64 \<Rightarrow> Command res" where
  "bank_GetReadyCommand b cmd clk =
     res_bind (required_type b cmd) (\<lambda>req.
       Inr (if req \<noteq> CommandType_SIZE \<and> cmd_timing b req \<le> clk
            then mk_Command req (addr cmd) (hex_addr cmd) else Command_default))"

definition bank_UpdateState :: "Command \<Rightarrow> BankState \<Rightarrow> BankState res" where
  "bank_UpdateState cmd b =
     (case bank_state b of
        OPEN \<Rightarrow>
          (case cmd_type cmd of
             READ \<Rightarrow> Inr (b\<lparr>row_hit_count := row_hit_count b + 1\<rparr>)
           | WRITE \<Rightarrow> Inr (b\<lparr>row_hit_count := row_hit_count b + 1\<rparr>)
           | READ_PRECHARGE \<Rightarrow> Inr (b\<lparr>bank_state := CLOSED, open_row := -1, row_hit_count := 0\<rparr>)
           | WRITE_PRECHARGE \<Rightarrow> Inr (b\<lparr>bank_state := CLOSED, open_row := -1, row_hit_count := 0\<rparr>)
           | PRECHARGE \<Rightarrow> Inr (b\<lparr>bank_state := CLOSED, open_row := -1, row_hit_count := 0\<rparr>)
           | _ \<Rightarrow> Inl (AbruptExit ''bankstate.cc''))
      | CLOSED \<Rightarrow>
          (case cmd_type cmd of
             REFRESH \<Rightarrow> Inr b
           | REFRESH_BANK \<Rightarrow> Inr b
           | ACTIVATE \<Rightarrow> Inr (b\<lparr>bank_state := OPEN, open_row := Row cmd\<rparr>)
           | SREF_ENTER \<Rightarrow> Inr (b\<lparr>bank_state := SREF\<rparr>)
           | _ \<Rightarrow> Inl (AbruptExit ''bankstate.cc''))
      | SREF \<Rightarrow>
          (case cmd_type cmd of
             SREF_EXIT \<Rightarrow> Inr (b\<lparr>bank_state := CLOSED\<rparr>)
           | _ \<Rightarrow> Inl (AbruptExit ''bankstate.cc''))
      | _ \<Rightarrow> Inl (AbruptExit ''bankstate.cc''))"

definition bank_UpdateTiming :: "CommandType \<Rightarrow> u64 \<Rightarrow> BankState \<Rightarrow> BankState" where
  "bank_UpdateTiming t time b =
     b\<lparr>cmd_timing := (cmd_timing b)(t := max (cmd_timing b t) time)\<rparr>"

section \<open>Invariant\<close>

text \<open>
  A bank is open, closed or in self refresh; an idle bank has no open row and no hits; the
  hit counter is never negative.
\<close>

definition bank_wf :: "BankState \<Rightarrow> bool" where
  "bank_wf b \<longleftrightarrow>
     bank_state b \<in> {OPEN, CLOSED, SREF} \<and> 0 \<le> row_hit_count b \<and>
     (bank_state b \<noteq> OPEN \<longrightarrow> open_row b = -1 \<and> row_hit_count b = 0)"

lemma bank_wf_new [wf_intros]: "bank_wf BankState_new"
  by (simp add: bank_wf_def BankState_new_def)

lemma bank_wf_UpdateState [wf_intros]:
  "bank_wf b \<Longrightarrow> bank_UpdateState cmd b = Inr b' \<Longrightarrow> bank_wf b'"
  by (auto simp: bank_wf_def bank_UpdateState_def split: BankStatus.splits CommandType.splits)

lemma bank_wf_UpdateTiming [simp]: "bank_wf (bank_UpdateTiming t c b) = bank_wf b"
  by (simp add: bank_wf_def bank_UpdateTiming_def)

lemma bank_UpdateTiming_sel [simp]:
  "bank_state (bank_UpdateTiming t c b) = bank_state b"
  "open_row (bank_UpdateTiming t c b) = open_row b"
  "row_hit_count (bank_UpdateTiming t c b) = row_hit_count b"
  "cmd_timing (bank_UpdateTiming t c b) =
     (cmd_timing b)(t := max (cmd_timing b t) c)"
  by (simp_all add: bank_UpdateTiming_def)

lemma bank_UpdateState_timing: "bank_UpdateState cmd b = Inr b' \<Longrightarrow> cmd_timing b' = cmd_timing b"
  by (auto simp: bank_UpdateState_def split: BankStatus.splits CommandType.splits)

section \<open>Readiness\<close>

lemma bank_ready_cases:
  assumes "bank_GetReadyCommand b cmd clk = Inr rc" and "IsValid rc"
  shows "required_type b cmd = Inr (cmd_type rc)" and "cmd_timing b (cmd_type rc) \<le> clk"
    and "addr rc = addr cmd" and "hex_addr rc = hex_addr cmd"
  using assms by (auto simp: bank_GetReadyCommand_def res_simps split: if_splits)

lemma required_type_executable:
  "required_type b cmd = Inr t \<Longrightarrow> cmd_type c = t \<Longrightarrow> is_ok (bank_UpdateState c b)"
  by (auto simp: required_type_def bank_UpdateState_def split: BankStatus.splits CommandType.splits
      if_splits)

lemma bank_ready_executable:
  assumes "bank_GetReadyCommand b cmd clk = Inr rc" and "IsValid rc"
  shows "is_ok (bank_UpdateState rc b)"
  using bank_ready_cases(1) [OF assms] by (rule required_type_executable) simp

text \<open>
  The requests a bank accepts: reads and writes in every state; refresh and self-refresh
  entry unless the bank is already in self refresh.
\<close>

definition bank_accepts :: "BankState \<Rightarrow> CommandType \<Rightarrow> bool" where
  "bank_accepts b t \<longleftrightarrow>
     t \<in> {READ, READ_PRECHARGE, WRITE, WRITE_PRECHARGE} \<or>
     t \<in> {REFRESH, REFRESH_BANK, SREF_ENTER} \<and> bank_state b \<noteq> SREF"

lemma required_type_ok:
  assumes "bank_wf b"
  shows "is_ok (required_type b cmd) = bank_accepts b (cmd_type cmd)"
  using assms
  by (cases "bank_state b"; cases "cmd_type cmd")
    (simp_all add: bank_wf_def required_type_def bank_accepts_def)

lemma bank_GetReadyCommand_ok:
  assumes "bank_wf b"
  shows "is_ok (bank_GetReadyCommand b cmd clk) = bank_accepts b (cmd_type cmd)"
  using required_type_ok [OF assms, of cmd]
  by (cases "required_type b cmd") (auto simp: bank_GetReadyCommand_def)

text \<open>
  Progress: what the bank asks for moves the request forward. After executing the required
  command the bank is open on the requested row, or one command closer to it.
\<close>

definition steps_to_column :: "BankState \<Rightarrow> Command \<Rightarrow> nat" where
  "steps_to_column b cmd =
     (case bank_state b of
        OPEN \<Rightarrow> if Row cmd = open_row b then 0 else 2
      | CLOSED \<Rightarrow> 1
      | _ \<Rightarrow> 2)"

lemma required_type_progress:
  assumes "bank_wf b" and "IsReadWrite cmd" and "required_type b cmd = Inr t"
    and "bank_UpdateState (mk_Command t (addr cmd) h) b = Inr b'" and "t \<noteq> cmd_type cmd"
  shows "steps_to_column b' cmd < steps_to_column b cmd"
  using assms
  by (auto simp: bank_wf_def required_type_def bank_UpdateState_def steps_to_column_def
      command_query_defs Row_def split: BankStatus.splits CommandType.splits if_splits)

end
