(* ===== verification/Dram_Channel.thy ===== *)
theory Dram_Channel
  imports Dram_Bank Dram_Timing
begin

text \<open>
  \<^verbatim>\<open>dramsim3/src/channel_state.h\<close> and \<^verbatim>\<open>channel_state.cc\<close>: the banks of one
  channel, the queue of pending refreshes and the activation windows. The references to the
  configuration and the timing tables are the arguments \<open>cfg\<close> and \<open>tim\<close>.
\<close>

section \<open>State\<close>

type_synonym banks = "BankState list list list"
type_synonym bank_id = "int \<times> int \<times> int"

record ChannelState =
  rank_idle_cycles :: "int list"
  rank_is_sref :: "bool list"
  bank_states :: banks
  refresh_q :: "Command list"
  four_aw :: "u64 list list"
  thirty_two_aw :: "u64 list list"

definition ChannelState_new :: "Config \<Rightarrow> ChannelState" where
  "ChannelState_new cfg =
     \<lparr>rank_idle_cycles = replicate (nat (ranks cfg)) 0,
      rank_is_sref = replicate (nat (ranks cfg)) False,
      bank_states = replicate (nat (ranks cfg)) (replicate (nat (bankgroups cfg))
        (replicate (nat (banks_per_group cfg)) BankState_new)),
      refresh_q = [],
      four_aw = replicate (nat (ranks cfg)) [],
      thirty_two_aw = replicate (nat (ranks cfg)) []\<rparr>"

text \<open>\<^verbatim>\<open>bank_states_[i][j][k]\<close>, read and updated in place.\<close>

fun bank_get :: "banks \<Rightarrow> bank_id \<Rightarrow> BankState res" where
  "bank_get bs (i, j, k) = res_bind (vget bs i) (\<lambda>r. res_bind (vget r j) (\<lambda>g. vget g k))"

fun bank_upd :: "(BankState \<Rightarrow> BankState res) \<Rightarrow> bank_id \<Rightarrow> banks \<Rightarrow> banks res" where
  "bank_upd f (i, j, k) bs = vupd (\<lambda>r. vupd (\<lambda>g. vupd f g k) r j) bs i"

text \<open>The banks of a rank in the order of the nested loops.\<close>

definition rank_banks :: "Config \<Rightarrow> int \<Rightarrow> bank_id list" where
  "rank_banks cfg r = [(r, j, k). j \<leftarrow> irange (bankgroups cfg), k \<leftarrow> irange (banks_per_group cfg)]"

definition cmd_bank :: "Command \<Rightarrow> bank_id" where
  "cmd_bank cmd = (Rank cmd, Bankgroup cmd, Bank cmd)"

section \<open>Queries\<close>

fun idle_loop :: "banks \<Rightarrow> bank_id list \<Rightarrow> bool res" where
  "idle_loop bs [] = Inr True"
| "idle_loop bs (b # ids) =
     res_bind (bank_get bs b) (\<lambda>s. if IsRowOpen s then Inr False else idle_loop bs ids)"

definition IsAllBankIdleInRank :: "Config \<Rightarrow> ChannelState \<Rightarrow> int \<Rightarrow> bool res" where
  "IsAllBankIdleInRank cfg s r = idle_loop (bank_states s) (rank_banks cfg r)"

definition IsRankSelfRefreshing :: "ChannelState \<Rightarrow> int \<Rightarrow> bool res" where
  "IsRankSelfRefreshing s r = vget (rank_is_sref s) r"

definition IsRefreshWaiting :: "ChannelState \<Rightarrow> bool" where
  "IsRefreshWaiting s \<longleftrightarrow> refresh_q s \<noteq> []"

definition PendingRefCommand :: "ChannelState \<Rightarrow> Command res" where
  "PendingRefCommand s = (case refresh_q s of [] \<Rightarrow> Inl EndIterator | c # _ \<Rightarrow> Inr c)"

definition OpenRow :: "ChannelState \<Rightarrow> int \<Rightarrow> int \<Rightarrow> int \<Rightarrow> int res" where
  "OpenRow s r bg ba = res_bind (bank_get (bank_states s) (r, bg, ba)) (\<lambda>b. Inr (open_row b))"

definition RowHitCount :: "ChannelState \<Rightarrow> int \<Rightarrow> int \<Rightarrow> int \<Rightarrow> int res" where
  "RowHitCount s r bg ba = res_bind (bank_get (bank_states s) (r, bg, ba)) (\<lambda>b. Inr (row_hit_count b))"

definition IsRWPendingOnRef :: "ChannelState \<Rightarrow> Command \<Rightarrow> bool res" where
  "IsRWPendingOnRef s cmd =
     res_bind (bank_get (bank_states s) (cmd_bank cmd)) (\<lambda>b.
       Inr (IsRowOpen b \<and> row_hit_count b = 0 \<and> open_row b = Row cmd))"

section \<open>Refresh queue\<close>

definition BankNeedRefresh :: "int \<Rightarrow> int \<Rightarrow> int \<Rightarrow> bool \<Rightarrow> ChannelState \<Rightarrow> ChannelState" where
  "BankNeedRefresh r bg ba need s =
     (if need then
        s\<lparr>refresh_q := refresh_q s @ [mk_Command REFRESH_BANK (Address6 (-1) r bg ba (-1) (-1)) (-1)]\<rparr>
      else
        s\<lparr>refresh_q := erase_first (\<lambda>c. Rank c = r \<and> Bankgroup c = bg \<and> Bank c = ba) (refresh_q s)\<rparr>)"

definition RankNeedRefresh :: "int \<Rightarrow> bool \<Rightarrow> ChannelState \<Rightarrow> ChannelState" where
  "RankNeedRefresh r need s =
     (if need then
        s\<lparr>refresh_q := refresh_q s @ [mk_Command REFRESH (Address6 (-1) r (-1) (-1) (-1) (-1)) (-1)]\<rparr>
      else
        s\<lparr>refresh_q := erase_first (\<lambda>c. Rank c = r) (refresh_q s)\<rparr>)"

section \<open>Activation windows\<close>

definition IsFAWReady :: "ChannelState \<Rightarrow> int \<Rightarrow> u64 \<Rightarrow> bool res" where
  "IsFAWReady s r curr_time =
     res_bind (vget (four_aw s) r) (\<lambda>aw.
       Inr (\<not> (aw \<noteq> [] \<and> curr_time < hd aw \<and> 4 \<le> length aw)))"

definition Is32AWReady :: "ChannelState \<Rightarrow> int \<Rightarrow> u64 \<Rightarrow> bool res" where
  "Is32AWReady s r curr_time =
     res_bind (vget (thirty_two_aw s) r) (\<lambda>aw.
       Inr (\<not> (aw \<noteq> [] \<and> curr_time < hd aw \<and> 32 \<le> length aw)))"

definition ActivationWindowOk :: "Config \<Rightarrow> ChannelState \<Rightarrow> int \<Rightarrow> u64 \<Rightarrow> bool res" where
  "ActivationWindowOk cfg s r curr_time =
     res_bind (IsFAWReady s r curr_time) (\<lambda>tfaw_ok.
       if IsGDDR cfg then (if \<not> tfaw_ok then Inr False else Is32AWReady s r curr_time)
       else Inr tfaw_ok)"

definition aw_push :: "int \<Rightarrow> u64 \<Rightarrow> u64 list \<Rightarrow> u64 list" where
  "aw_push delay curr_time aw =
     (if aw \<noteq> [] \<and> hd aw \<le> curr_time then tl aw else aw) @ [curr_time + of_int delay]"

definition UpdateActivationTimes :: "Config \<Rightarrow> int \<Rightarrow> u64 \<Rightarrow> ChannelState \<Rightarrow> ChannelState res" where
  "UpdateActivationTimes cfg r curr_time s =
     res_bind (vupd (\<lambda>aw. Inr (aw_push (tFAW cfg) curr_time aw)) (four_aw s) r) (\<lambda>faw.
       let s1 = s\<lparr>four_aw := faw\<rparr> in
       if IsGDDR cfg then
         res_bind (vupd (\<lambda>aw. Inr (aw_push (t32AW cfg) curr_time aw)) (thirty_two_aw s1) r) (\<lambda>taw.
           Inr (s1\<lparr>thirty_two_aw := taw\<rparr>))
       else Inr s1)"

section \<open>Readiness\<close>

text \<open>
  The loop over the banks of a rank. \<open>rc\<close> is the variable \<^verbatim>\<open>ready_cmd\<close>, which keeps
  the answer of the last bank.
\<close>

fun rank_ready_loop ::
  "Config \<Rightarrow> banks \<Rightarrow> Command \<Rightarrow> u64 \<Rightarrow> bank_id list \<Rightarrow> Command \<Rightarrow> int \<Rightarrow> Command res" where
  "rank_ready_loop cfg bs cmd clk [] rc num_ready =
     Inr (if num_ready = banks cfg then rc else Command_default)"
| "rank_ready_loop cfg bs cmd clk (b # ids) rc num_ready =
     res_bind (bank_get bs b) (\<lambda>s.
     res_bind (bank_GetReadyCommand s cmd clk) (\<lambda>rc'.
       if \<not> IsValid rc' then rank_ready_loop cfg bs cmd clk ids rc' num_ready
       else if cmd_type rc' \<noteq> cmd_type cmd
       then (case b of (r, j, k) \<Rightarrow> Inr (rc'\<lparr>addr := Address6 (-1) (Rank cmd) j k (-1) (-1)\<rparr>))
       else rank_ready_loop cfg bs cmd clk ids rc' (num_ready + 1)))"

definition GetReadyCommand :: "Config \<Rightarrow> ChannelState \<Rightarrow> Command \<Rightarrow> u64 \<Rightarrow> Command res" where
  "GetReadyCommand cfg s cmd clk =
     (if IsRankCMD cmd then
        rank_ready_loop cfg (bank_states s) cmd clk (rank_banks cfg (Rank cmd)) Command_default 0
      else
        res_bind (bank_get (bank_states s) (cmd_bank cmd)) (\<lambda>b.
        res_bind (bank_GetReadyCommand b cmd clk) (\<lambda>rc.
          if \<not> IsValid rc then Inr Command_default
          else if cmd_type rc = ACTIVATE then
            res_bind (ActivationWindowOk cfg s (Rank rc) clk) (\<lambda>ok.
              Inr (if \<not> ok then Command_default else rc))
          else Inr rc)))"

section \<open>Updates\<close>

definition UpdateState :: "Config \<Rightarrow> Command \<Rightarrow> ChannelState \<Rightarrow> ChannelState res" where
  "UpdateState cfg cmd s =
     (if IsRankCMD cmd then
        res_bind (res_fold (bank_upd (bank_UpdateState cmd)) (rank_banks cfg (Rank cmd)) (bank_states s))
          (\<lambda>bs. let s1 = s\<lparr>bank_states := bs\<rparr> in
            if IsRefresh cmd then Inr (RankNeedRefresh (Rank cmd) False s1)
            else if cmd_type cmd = SREF_ENTER then
              res_bind (vset (rank_is_sref s1) (Rank cmd) True) (\<lambda>v. Inr (s1\<lparr>rank_is_sref := v\<rparr>))
            else if cmd_type cmd = SREF_EXIT then
              res_bind (vset (rank_is_sref s1) (Rank cmd) False) (\<lambda>v. Inr (s1\<lparr>rank_is_sref := v\<rparr>))
            else Inr s1)
      else
        res_bind (bank_upd (bank_UpdateState cmd) (cmd_bank cmd) (bank_states s)) (\<lambda>bs.
          let s1 = s\<lparr>bank_states := bs\<rparr> in
          if IsRefresh cmd then Inr (BankNeedRefresh (Rank cmd) (Bankgroup cmd) (Bank cmd) False s1)
          else Inr s1))"

text \<open>The inner loop of the five timing updates: all entries of a list on one bank.\<close>

definition upd_timings :: "timing_list \<Rightarrow> u64 \<Rightarrow> bank_id \<Rightarrow> banks \<Rightarrow> banks res" where
  "upd_timings cmd_timing_list clk b bs =
     res_fold (\<lambda>(t, d). bank_upd (\<lambda>s. Inr (bank_UpdateTiming t (clk + of_int d) s)) b)
       cmd_timing_list bs"

definition UpdateSameBankTiming :: "Address \<Rightarrow> timing_list \<Rightarrow> u64 \<Rightarrow> banks \<Rightarrow> banks res" where
  "UpdateSameBankTiming a l clk bs = upd_timings l clk (rank a, bankgroup a, bank a) bs"

definition UpdateOtherBanksSameBankgroupTiming ::
  "Config \<Rightarrow> Address \<Rightarrow> timing_list \<Rightarrow> u64 \<Rightarrow> banks \<Rightarrow> banks res" where
  "UpdateOtherBanksSameBankgroupTiming cfg a l clk bs =
     res_fold (upd_timings l clk)
       [(rank a, bankgroup a, k). k \<leftarrow> irange (banks_per_group cfg), k \<noteq> bank a] bs"

definition UpdateOtherBankgroupsSameRankTiming ::
  "Config \<Rightarrow> Address \<Rightarrow> timing_list \<Rightarrow> u64 \<Rightarrow> banks \<Rightarrow> banks res" where
  "UpdateOtherBankgroupsSameRankTiming cfg a l clk bs =
     res_fold (upd_timings l clk)
       [(rank a, j, k). j \<leftarrow> irange (bankgroups cfg), j \<noteq> bankgroup a, k \<leftarrow> irange (banks_per_group cfg)] bs"

definition UpdateOtherRanksTiming ::
  "Config \<Rightarrow> Address \<Rightarrow> timing_list \<Rightarrow> u64 \<Rightarrow> banks \<Rightarrow> banks res" where
  "UpdateOtherRanksTiming cfg a l clk bs =
     res_fold (upd_timings l clk)
       [(i, j, k). i \<leftarrow> irange (ranks cfg), i \<noteq> rank a, j \<leftarrow> irange (bankgroups cfg),
          k \<leftarrow> irange (banks_per_group cfg)] bs"

definition UpdateSameRankTiming ::
  "Config \<Rightarrow> Address \<Rightarrow> timing_list \<Rightarrow> u64 \<Rightarrow> banks \<Rightarrow> banks res" where
  "UpdateSameRankTiming cfg a l clk bs = res_fold (upd_timings l clk) (rank_banks cfg (rank a)) bs"

definition UpdateTiming :: "Config \<Rightarrow> Timing \<Rightarrow> Command \<Rightarrow> u64 \<Rightarrow> ChannelState \<Rightarrow> ChannelState res" where
  "UpdateTiming cfg tim cmd clk s =
     (let t = cmd_type cmd; a = addr cmd in
      if t = ACTIVATE \<or> t = READ \<or> t = READ_PRECHARGE \<or> t = WRITE \<or> t = WRITE_PRECHARGE \<or>
         t = PRECHARGE \<or> t = REFRESH_BANK then
        res_bind (if t = ACTIVATE then UpdateActivationTimes cfg (Rank cmd) clk s else Inr s) (\<lambda>s1.
        res_bind (UpdateSameBankTiming a (same_bank tim t) clk (bank_states s1)) (\<lambda>b1.
        res_bind (UpdateOtherBanksSameBankgroupTiming cfg a (other_banks_same_bankgroup tim t) clk b1) (\<lambda>b2.
        res_bind (UpdateOtherBankgroupsSameRankTiming cfg a (other_bankgroups_same_rank tim t) clk b2) (\<lambda>b3.
        res_bind (UpdateOtherRanksTiming cfg a (other_ranks tim t) clk b3) (\<lambda>b4.
          Inr (s1\<lparr>bank_states := b4\<rparr>))))))
      else if t = REFRESH \<or> t = SREF_ENTER \<or> t = SREF_EXIT then
        res_bind (UpdateSameRankTiming cfg a (same_rank tim t) clk (bank_states s)) (\<lambda>b1.
          Inr (s\<lparr>bank_states := b1\<rparr>))
      else Inl (AbruptExit ''channel_state.cc''))"

definition UpdateTimingAndStates ::
  "Config \<Rightarrow> Timing \<Rightarrow> Command \<Rightarrow> u64 \<Rightarrow> ChannelState \<Rightarrow> ChannelState res" where
  "UpdateTimingAndStates cfg tim cmd clk s =
     res_bind (UpdateState cfg cmd s) (UpdateTiming cfg tim cmd clk)"


section \<open>The grid of banks\<close>

fun valid_bank :: "Config \<Rightarrow> bank_id \<Rightarrow> bool" where
  "valid_bank cfg (i, j, k) \<longleftrightarrow> 0 \<le> i \<and> i < ranks cfg \<and> 0 \<le> j \<and> j < bankgroups cfg \<and>
     0 \<le> k \<and> k < banks_per_group cfg"

definition grid :: "Config \<Rightarrow> banks \<Rightarrow> bool" where
  "grid cfg bs \<longleftrightarrow> length bs = nat (ranks cfg) \<and>
     (\<forall>r\<in>set bs. length r = nat (bankgroups cfg) \<and>
       (\<forall>g\<in>set r. length g = nat (banks_per_group cfg)))"

fun bank_at :: "banks \<Rightarrow> bank_id \<Rightarrow> BankState" where
  "bank_at bs (i, j, k) = bs ! nat i ! nat j ! nat k"

fun bank_put :: "banks \<Rightarrow> bank_id \<Rightarrow> BankState \<Rightarrow> banks" where
  "bank_put bs (i, j, k) x =
     bs[nat i := (bs ! nat i)[nat j := (bs ! nat i ! nat j)[nat k := x]]]"

lemma grid_lengths:
  assumes "grid cfg bs" and "valid_bank cfg (i, j, k)"
  shows "nat i < length bs" "nat j < length (bs ! nat i)" "nat k < length (bs ! nat i ! nat j)"
    "length bs = nat (ranks cfg)" "length (bs ! nat i) = nat (bankgroups cfg)"
    "length (bs ! nat i ! nat j) = nat (banks_per_group cfg)"
proof -
  show *: "nat i < length bs" "length bs = nat (ranks cfg)"
    using assms by (auto simp: grid_def)
  then have r: "bs ! nat i \<in> set bs" by simp
  with assms show **: "nat j < length (bs ! nat i)" "length (bs ! nat i) = nat (bankgroups cfg)"
    by (auto simp: grid_def)
  then have "bs ! nat i ! nat j \<in> set (bs ! nat i)" by simp
  with r assms(1) show ***: "length (bs ! nat i ! nat j) = nat (banks_per_group cfg)"
    unfolding grid_def by blast
  with assms(2) show "nat k < length (bs ! nat i ! nat j)" by auto
qed

lemma bank_get_valid:
  assumes "grid cfg bs" and "valid_bank cfg b"
  shows "bank_get bs b = Inr (bank_at bs b)"
proof -
  obtain i j k where b: "b = (i, j, k)" by (cases b)
  with grid_lengths [OF assms(1) assms(2) [unfolded b]] assms(2) show ?thesis
    by (auto simp: vget_def)
qed

lemma bank_upd_valid:
  assumes "grid cfg bs" and "valid_bank cfg b"
  shows "bank_upd f b bs = res_bind (f (bank_at bs b)) (\<lambda>x. Inr (bank_put bs b x))"
proof -
  obtain i j k where b: "b = (i, j, k)" by (cases b)
  with grid_lengths [OF assms(1) assms(2) [unfolded b]] assms(2) show ?thesis
    by (cases "f (bank_at bs b)") (auto simp: vupd_def vget_def vset_def)
qed

lemma grid_put:
  assumes "grid cfg bs" and "valid_bank cfg b"
  shows "grid cfg (bank_put bs b x)"
proof -
  obtain i j k where b: "b = (i, j, k)" by (cases b)
  note l = grid_lengths [OF assms(1) assms(2) [unfolded b]]
  have g: "length y = nat (banks_per_group cfg)"
    if "y \<in> set ((bs ! nat i)[nat j := (bs ! nat i ! nat j)[nat k := x]])" for y
    using set_update_subset_insert that assms(1) l by (fastforce simp: grid_def)
  have "length r = nat (bankgroups cfg) \<and> (\<forall>y\<in>set r. length y = nat (banks_per_group cfg))"
    if "r \<in> set (bank_put bs b x)" for r
    using set_update_subset_insert that assms(1) l g unfolding b by (fastforce simp: grid_def)
  with l b show ?thesis by (auto simp: grid_def)
qed

lemma bank_at_put:
  assumes "grid cfg bs" and "valid_bank cfg b" and "valid_bank cfg b'"
  shows "bank_at (bank_put bs b x) b' = (if b' = b then x else bank_at bs b')"
proof -
  obtain i j k where b: "b = (i, j, k)" by (cases b)
  obtain i' j' k' where b': "b' = (i', j', k')" by (cases b')
  from grid_lengths [OF assms(1) assms(2) [unfolded b]] assms(2,3) show ?thesis
    unfolding b b' by (auto simp: nth_list_update nat_eq_iff)
qed

lemma res_fold_bank_upd:
  assumes "grid cfg bs" and "distinct ids" and "\<And>b. b \<in> set ids \<Longrightarrow> valid_bank cfg b"
    and "\<And>b. b \<in> set ids \<Longrightarrow> f (bank_at bs b) = Inr (g b (bank_at bs b))"
  shows "\<exists>bs'. res_fold (bank_upd f) ids bs = Inr bs' \<and> grid cfg bs' \<and>
    (\<forall>b. valid_bank cfg b \<longrightarrow>
       bank_at bs' b = (if b \<in> set ids then g b (bank_at bs b) else bank_at bs b))"
  using assms
proof (induction ids arbitrary: bs)
  case (Cons b ids)
  let ?bs = "bank_put bs b (g b (bank_at bs b))"
  have vb: "valid_bank cfg b" using Cons.prems(3) by simp
  have step: "bank_upd f b bs = Inr ?bs"
    using bank_upd_valid [OF Cons.prems(1) vb] Cons.prems(4) [of b] by simp
  have at: "bank_at ?bs c = (if c = b then g b (bank_at bs b) else bank_at bs c)"
    if "valid_bank cfg c" for c
    by (rule bank_at_put [OF Cons.prems(1) vb that])
  have "\<exists>bs'. res_fold (bank_upd f) ids ?bs = Inr bs' \<and> grid cfg bs' \<and>
    (\<forall>c. valid_bank cfg c \<longrightarrow>
       bank_at bs' c = (if c \<in> set ids then g c (bank_at ?bs c) else bank_at ?bs c))"
  proof (rule Cons.IH [OF grid_put [OF Cons.prems(1) vb]])
    show "distinct ids" using Cons.prems(2) by simp
    fix c assume c: "c \<in> set ids"
    then show "valid_bank cfg c" using Cons.prems(3) by simp
    moreover have "c \<noteq> b" using c Cons.prems(2) by auto
    ultimately show "f (bank_at ?bs c) = Inr (g c (bank_at ?bs c))"
      using Cons.prems(4) [of c] c by (simp add: at)
  qed
  then obtain bs' where run: "res_fold (bank_upd f) ids ?bs = Inr bs'" and g: "grid cfg bs'"
    and res: "\<And>c. valid_bank cfg c \<Longrightarrow>
      bank_at bs' c = (if c \<in> set ids then g c (bank_at ?bs c) else bank_at ?bs c)"
    by blast
  have "bank_at bs' c = (if c \<in> set (b # ids) then g c (bank_at bs c) else bank_at bs c)"
    if "valid_bank cfg c" for c
    using res [OF that] at [OF that] Cons.prems(2) by auto
  with step run g show ?case by auto
qed simp

lemma set_rank_banks:
  "b \<in> set (rank_banks cfg r) \<longleftrightarrow>
     (\<exists>j k. b = (r, j, k) \<and> 0 \<le> j \<and> j < bankgroups cfg \<and> 0 \<le> k \<and> k < banks_per_group cfg)"
  by (auto simp: rank_banks_def)

lemma rank_banks_valid:
  "0 \<le> r \<Longrightarrow> r < ranks cfg \<Longrightarrow> b \<in> set (rank_banks cfg r) \<Longrightarrow> valid_bank cfg b"
  by (auto simp: set_rank_banks)

lemma rank_banks_iff:
  "0 \<le> r \<Longrightarrow> r < ranks cfg \<Longrightarrow> b \<in> set (rank_banks cfg r) \<longleftrightarrow> valid_bank cfg b \<and> fst b = r"
  by (cases b) (auto simp: set_rank_banks)

lemma distinct_product_lists:
  "distinct xs \<Longrightarrow> distinct ys \<Longrightarrow> distinct [(r, j, k). j \<leftarrow> xs, k \<leftarrow> ys]"
  by (induction xs) (auto simp: distinct_map inj_on_def)

lemma distinct_rank_banks: "distinct (rank_banks cfg r)"
  unfolding rank_banks_def by (rule distinct_product_lists) simp_all

lemma length_rank_banks: "length (rank_banks cfg r) = nat (bankgroups cfg) * nat (banks_per_group cfg)"
proof -
  have "length [(r, j, k). j \<leftarrow> xs, k \<leftarrow> ys] = length xs * length ys" for xs ys :: "int list"
    by (induction xs) auto
  then show ?thesis by (simp add: rank_banks_def)
qed


section \<open>What the timing updates do to one bank\<close>

definition apply_timings :: "timing_list \<Rightarrow> u64 \<Rightarrow> BankState \<Rightarrow> BankState" where
  "apply_timings l clk b = fold (\<lambda>(t, d). bank_UpdateTiming t (clk + of_int d)) l b"

lemma apply_timings_simps [simp]:
  "apply_timings [] clk b = b"
  "apply_timings ((t, d) # l) clk b = apply_timings l clk (bank_UpdateTiming t (clk + of_int d) b)"
  by (simp_all add: apply_timings_def)

lemma apply_timings_frame [simp]:
  "bank_state (apply_timings l clk b) = bank_state b"
  "open_row (apply_timings l clk b) = open_row b"
  "row_hit_count (apply_timings l clk b) = row_hit_count b"
  "bank_wf (apply_timings l clk b) = bank_wf b"
  by (induction l arbitrary: b) auto

lemma apply_timings_mono: "cmd_timing b t \<le> cmd_timing (apply_timings l clk b) t"
proof (induction l arbitrary: b)
  case (Cons e l)
  obtain t' d where e: "e = (t', d)" by (cases e)
  have "cmd_timing b t \<le> cmd_timing (bank_UpdateTiming t' (clk + of_int d) b) t" by simp
  also have "\<dots> \<le> cmd_timing (apply_timings l clk (bank_UpdateTiming t' (clk + of_int d) b)) t"
    by (rule Cons.IH)
  finally show ?case by (simp add: e)
qed simp

lemma apply_timings_entry:
  "(t, d) \<in> set l \<Longrightarrow> clk + of_int d \<le> cmd_timing (apply_timings l clk b) t"
proof (induction l arbitrary: b)
  case (Cons e l)
  show ?case
  proof (cases "e = (t, d)")
    case True
    have "clk + of_int d \<le> cmd_timing (bank_UpdateTiming t (clk + of_int d) b) t" by simp
    also have "\<dots> \<le> cmd_timing (apply_timings (e # l) clk b) t"
      using apply_timings_mono [of "bank_UpdateTiming t (clk + of_int d) b" t l clk] True by simp
    finally show ?thesis .
  next
    case False
    with Cons show ?thesis by (cases e) auto
  qed
qed simp

lemma bank_put_put [simp]:
  "grid cfg bs \<Longrightarrow> valid_bank cfg b \<Longrightarrow> bank_put (bank_put bs b x) b y = bank_put bs b y"
  using grid_lengths by (cases b) fastforce

lemma bank_put_at:
  "grid cfg bs \<Longrightarrow> valid_bank cfg b \<Longrightarrow> bank_put bs b (bank_at bs b) = bs"
  by (cases b) auto

lemma upd_timings_valid:
  assumes "grid cfg bs" and "valid_bank cfg b"
  shows "upd_timings l clk b bs = bank_upd (\<lambda>s. Inr (apply_timings l clk s)) b bs"
  using assms
proof (induction l arbitrary: bs)
  case Nil
  then show ?case by (simp add: upd_timings_def bank_upd_valid bank_put_at)
next
  case (Cons e l)
  obtain t d where e: "e = (t, d)" by (cases e)
  let ?bs = "bank_put bs b (bank_UpdateTiming t (clk + of_int d) (bank_at bs b))"
  have "upd_timings (e # l) clk b bs = upd_timings l clk b ?bs"
    using Cons.prems by (simp add: upd_timings_def e bank_upd_valid)
  also have "\<dots> = bank_upd (\<lambda>s. Inr (apply_timings l clk s)) b ?bs"
    using Cons.prems by (intro Cons.IH grid_put)
  also have "\<dots> = bank_upd (\<lambda>s. Inr (apply_timings (e # l) clk s)) b bs"
    using Cons.prems bank_upd_valid [OF grid_put [OF Cons.prems] Cons.prems(2)]
    by (simp add: bank_upd_valid [OF Cons.prems] bank_at_put [OF Cons.prems Cons.prems(2)] e)
  finally show ?case .
qed

lemma res_fold_upd_timings:
  assumes "grid cfg bs" and "distinct ids" and "\<And>b. b \<in> set ids \<Longrightarrow> valid_bank cfg b"
  shows "\<exists>bs'. res_fold (upd_timings l clk) ids bs = Inr bs' \<and> grid cfg bs' \<and>
    (\<forall>b. valid_bank cfg b \<longrightarrow> bank_at bs' b =
       (if b \<in> set ids then apply_timings l clk (bank_at bs b) else bank_at bs b))"
proof -
  let ?f = "\<lambda>s. Inr (apply_timings l clk s) :: BankState res"
  have "res_fold (upd_timings l clk) ids bs = res_fold (bank_upd ?f) ids bs"
    using assms(1,3)
  proof (induction ids arbitrary: bs)
    case (Cons b ids)
    then have vb: "valid_bank cfg b" by simp
    have "upd_timings l clk b bs = Inr (bank_put bs b (apply_timings l clk (bank_at bs b)))"
      using Cons.prems(1) vb by (simp add: upd_timings_valid bank_upd_valid)
    moreover have "bank_upd ?f b bs = Inr (bank_put bs b (apply_timings l clk (bank_at bs b)))"
      using Cons.prems(1) vb by (simp add: bank_upd_valid)
    ultimately show ?case
      using Cons.IH [OF grid_put [OF Cons.prems(1) vb]] Cons.prems(2) by simp
  qed simp
  then show ?thesis
    using res_fold_bank_upd [OF assms, of ?f "\<lambda>_. apply_timings l clk"] by simp
qed

text \<open>
  The specification of \<^verbatim>\<open>UpdateTiming\<close>: the entries a command leaves on a bank, by the
  relation between the command's address and the bank.
\<close>

fun imposed :: "Timing \<Rightarrow> Command \<Rightarrow> bank_id \<Rightarrow> timing_list" where
  "imposed tim cmd (i, j, k) =
     (if IsRankCMD cmd then (if i = Rank cmd then same_rank tim (cmd_type cmd) else [])
      else if i \<noteq> Rank cmd then other_ranks tim (cmd_type cmd)
      else if j \<noteq> Bankgroup cmd then other_bankgroups_same_rank tim (cmd_type cmd)
      else if k \<noteq> Bank cmd then other_banks_same_bankgroup tim (cmd_type cmd)
      else same_bank tim (cmd_type cmd))"

text \<open>The valid banks a command addresses: its bank, or any bank of its rank.\<close>

definition valid_target :: "Config \<Rightarrow> Command \<Rightarrow> bool" where
  "valid_target cfg cmd \<longleftrightarrow>
     (if IsRankCMD cmd then 0 \<le> Rank cmd \<and> Rank cmd < ranks cfg else valid_bank cfg (cmd_bank cmd))"

lemma distinct_concat_map_filter:
  "distinct xs \<Longrightarrow> distinct ys \<Longrightarrow> distinct [(r, j, k). j \<leftarrow> xs, P j, k \<leftarrow> ys]"
  by (induction xs) (auto simp: distinct_map inj_on_def)

lemma distinct_concat_map3:
  "distinct xs \<Longrightarrow> distinct ys \<Longrightarrow> distinct zs \<Longrightarrow>
     distinct [(i, j, k). i \<leftarrow> xs, P i, j \<leftarrow> ys, k \<leftarrow> zs]"
proof (induction xs)
  case (Cons x xs)
  have "distinct [(x, j, k). j \<leftarrow> ys, k \<leftarrow> zs]"
    using Cons.prems by (intro distinct_product_lists)
  with Cons show ?case by auto
qed simp

lemma bank_timings_spec:
  assumes g: "grid cfg bs" and v: "valid_bank cfg (cmd_bank cmd)" and nr: "\<not> IsRankCMD cmd"
    and t: "t = cmd_type cmd" and a: "a = addr cmd"
  shows "\<exists>b4. res_bind (UpdateSameBankTiming a (same_bank tim t) clk bs) (\<lambda>b1.
      res_bind (UpdateOtherBanksSameBankgroupTiming cfg a (other_banks_same_bankgroup tim t) clk b1) (\<lambda>b2.
      res_bind (UpdateOtherBankgroupsSameRankTiming cfg a (other_bankgroups_same_rank tim t) clk b2) (\<lambda>b3.
        UpdateOtherRanksTiming cfg a (other_ranks tim t) clk b3))) = Inr b4 \<and> grid cfg b4 \<and>
    (\<forall>b. valid_bank cfg b \<longrightarrow> bank_at b4 b = apply_timings (imposed tim cmd b) clk (bank_at bs b))"
proof -
  define i j k where ijk: "i = rank a" "j = bankgroup a" "k = bank a"
  have cb: "cmd_bank cmd = (i, j, k)" by (simp add: cmd_bank_def command_addr_defs ijk a)
  with v have vi: "valid_bank cfg (i, j, k)" by simp
  let ?l1 = "[(i, j, k)]"
  let ?l2 = "[(i, j, y). y \<leftarrow> irange (banks_per_group cfg), y \<noteq> k]"
  let ?l3 = "[(i, x, y). x \<leftarrow> irange (bankgroups cfg), x \<noteq> j, y \<leftarrow> irange (banks_per_group cfg)]"
  let ?l4 = "[(w, x, y). w \<leftarrow> irange (ranks cfg), w \<noteq> i, x \<leftarrow> irange (bankgroups cfg),
    y \<leftarrow> irange (banks_per_group cfg)]"
  have op1: "UpdateSameBankTiming a l clk x = res_fold (upd_timings l clk) ?l1 x" for l x
    by (cases "upd_timings l clk (i, j, k) x") (simp_all add: UpdateSameBankTiming_def ijk)
  have ops: "UpdateOtherBanksSameBankgroupTiming cfg a l clk x = res_fold (upd_timings l clk) ?l2 x"
    "UpdateOtherBankgroupsSameRankTiming cfg a l clk x = res_fold (upd_timings l clk) ?l3 x"
    "UpdateOtherRanksTiming cfg a l clk x = res_fold (upd_timings l clk) ?l4 x" for l x
    unfolding UpdateOtherBanksSameBankgroupTiming_def UpdateOtherBankgroupsSameRankTiming_def
      UpdateOtherRanksTiming_def ijk by (rule refl)+
  have d1: "distinct ?l1" by simp
  have d2: "distinct ?l2" by (auto simp: irange_def distinct_map inj_on_def intro!: distinct_concat)
  have d3: "distinct ?l3" by (intro distinct_concat_map_filter) simp_all
  have d4: "distinct ?l4" by (intro distinct_concat_map3) simp_all
  obtain b1 where b1: "UpdateSameBankTiming a (same_bank tim t) clk bs = Inr b1" "grid cfg b1"
    "\<And>b. valid_bank cfg b \<Longrightarrow> bank_at b1 b =
      (if b \<in> set ?l1 then apply_timings (same_bank tim t) clk (bank_at bs b) else bank_at bs b)"
    using res_fold_upd_timings [OF g d1, of "same_bank tim t" clk] vi unfolding op1 by fastforce
  obtain b2 where b2: "UpdateOtherBanksSameBankgroupTiming cfg a (other_banks_same_bankgroup tim t) clk b1 = Inr b2"
    "grid cfg b2"
    "\<And>b. valid_bank cfg b \<Longrightarrow> bank_at b2 b =
      (if b \<in> set ?l2 then apply_timings (other_banks_same_bankgroup tim t) clk (bank_at b1 b) else bank_at b1 b)"
    using res_fold_upd_timings [OF b1(2) d2, of "other_banks_same_bankgroup tim t" clk] vi
    unfolding ops by fastforce
  obtain b3 where b3: "UpdateOtherBankgroupsSameRankTiming cfg a (other_bankgroups_same_rank tim t) clk b2 = Inr b3"
    "grid cfg b3"
    "\<And>b. valid_bank cfg b \<Longrightarrow> bank_at b3 b =
      (if b \<in> set ?l3 then apply_timings (other_bankgroups_same_rank tim t) clk (bank_at b2 b) else bank_at b2 b)"
    using res_fold_upd_timings [OF b2(2) d3, of "other_bankgroups_same_rank tim t" clk] vi
    unfolding ops by fastforce
  obtain b4 where b4: "UpdateOtherRanksTiming cfg a (other_ranks tim t) clk b3 = Inr b4"
    "grid cfg b4"
    "\<And>b. valid_bank cfg b \<Longrightarrow> bank_at b4 b =
      (if b \<in> set ?l4 then apply_timings (other_ranks tim t) clk (bank_at b3 b) else bank_at b3 b)"
    using res_fold_upd_timings [OF b3(2) d4, of "other_ranks tim t" clk] vi
    unfolding ops by fastforce
  have "bank_at b4 b = apply_timings (imposed tim cmd b) clk (bank_at bs b)" if vb: "valid_bank cfg b" for b
  proof -
    obtain w x y where b: "b = (w, x, y)" by (cases b)
    have r: "Rank cmd = i" "Bankgroup cmd = j" "Bank cmd = k"
      using cb by (simp_all add: cmd_bank_def)
    have m: "b \<in> set ?l1 \<longleftrightarrow> w = i \<and> x = j \<and> y = k" "b \<in> set ?l2 \<longleftrightarrow> w = i \<and> x = j \<and> y \<noteq> k"
      "b \<in> set ?l3 \<longleftrightarrow> w = i \<and> x \<noteq> j" "b \<in> set ?l4 \<longleftrightarrow> w \<noteq> i"
      using vb by (auto simp: b)
    have i: "imposed tim cmd b = (if w \<noteq> i then other_ranks tim t
      else if x \<noteq> j then other_bankgroups_same_rank tim t
      else if y \<noteq> k then other_banks_same_bankgroup tim t else same_bank tim t)"
      using nr by (simp add: b r t)
    show ?thesis
      unfolding b4(3) [OF vb] b3(3) [OF vb] b2(3) [OF vb] b1(3) [OF vb] m i by simp
  qed
  then show ?thesis
    using b1(1) b2(1) b3(1) b4(1,2) by (intro exI [of _ b4]) (simp del: bank_at.simps valid_bank.simps)
qed


section \<open>Invariant and effect of the updates\<close>

definition cfg_wf :: "Config \<Rightarrow> bool" where
  "cfg_wf cfg \<longleftrightarrow> 1 \<le> ranks cfg \<and> 1 \<le> bankgroups cfg \<and> 1 \<le> banks_per_group cfg \<and>
     banks cfg = bankgroups cfg * banks_per_group cfg"

definition bank_of :: "ChannelState \<Rightarrow> bank_id \<Rightarrow> BankState" where
  "bank_of s b = bank_at (bank_states s) b"

text \<open>
  The channel invariant: the grid has the configured shape, every bank is well formed, the
  self-refresh flag of a rank says whether its banks are in self refresh, and the refresh
  queue holds refresh commands for existing ranks and banks.
\<close>

definition ch_wf :: "Config \<Rightarrow> ChannelState \<Rightarrow> bool" where
  "ch_wf cfg s \<longleftrightarrow>
     grid cfg (bank_states s) \<and>
     length (rank_is_sref s) = nat (ranks cfg) \<and>
     length (rank_idle_cycles s) = nat (ranks cfg) \<and>
     length (four_aw s) = nat (ranks cfg) \<and>
     length (thirty_two_aw s) = nat (ranks cfg) \<and>
     (\<forall>b. valid_bank cfg b \<longrightarrow> bank_wf (bank_of s b) \<and>
        (bank_state (bank_of s b) = SREF \<longleftrightarrow> rank_is_sref s ! nat (fst b))) \<and>
     (\<forall>c\<in>set (refresh_q s). cmd_type c \<in> {REFRESH, REFRESH_BANK} \<and> valid_target cfg c)"

lemma ch_wf_grid: "ch_wf cfg s \<Longrightarrow> grid cfg (bank_states s)"
  by (simp add: ch_wf_def)

lemma ch_wf_bank: "ch_wf cfg s \<Longrightarrow> valid_bank cfg b \<Longrightarrow> bank_wf (bank_of s b)"
  by (simp add: ch_wf_def)

lemma ch_wf_sref:
  "ch_wf cfg s \<Longrightarrow> valid_bank cfg b \<Longrightarrow>
     bank_state (bank_of s b) = SREF \<longleftrightarrow> rank_is_sref s ! nat (fst b)"
  by (simp add: ch_wf_def)

lemma ch_get [simp]:
  "ch_wf cfg s \<Longrightarrow> valid_bank cfg b \<Longrightarrow> bank_get (bank_states s) b = Inr (bank_of s b)"
  by (simp add: bank_get_valid [OF ch_wf_grid] bank_of_def)

lemma bank_at_new:
  "valid_bank cfg b \<Longrightarrow> bank_of (ChannelState_new cfg) b = BankState_new"
  by (cases b) (auto simp: ChannelState_new_def bank_of_def nat_less_iff)

lemma ch_wf_new [wf_intros]: "ch_wf cfg (ChannelState_new cfg)"
proof -
  have "grid cfg (bank_states (ChannelState_new cfg))"
    by (auto simp: grid_def ChannelState_new_def)
  moreover have "bank_state BankState_new \<noteq> SREF" by (simp add: BankState_new_def)
  moreover have "\<not> rank_is_sref (ChannelState_new cfg) ! nat (fst b)" if "valid_bank cfg b" for b
    using that by (cases b) (auto simp: ChannelState_new_def)
  ultimately show ?thesis
    by (auto simp: ch_wf_def bank_at_new bank_wf_new) (auto simp: ChannelState_new_def)
qed

text \<open>The banks whose state a command changes.\<close>

definition cmd_targets :: "Config \<Rightarrow> Command \<Rightarrow> bank_id list" where
  "cmd_targets cfg cmd = (if IsRankCMD cmd then rank_banks cfg (Rank cmd) else [cmd_bank cmd])"

lemma cmd_targets_valid:
  "valid_target cfg cmd \<Longrightarrow> b \<in> set (cmd_targets cfg cmd) \<Longrightarrow> valid_bank cfg b"
  by (auto simp: valid_target_def cmd_targets_def rank_banks_valid split: if_splits)

lemma distinct_cmd_targets: "distinct (cmd_targets cfg cmd)"
  by (simp add: cmd_targets_def distinct_rank_banks)

definition next_bank :: "Command \<Rightarrow> BankState \<Rightarrow> BankState" where
  "next_bank cmd b = (case bank_UpdateState cmd b of Inr b' \<Rightarrow> b' | Inl _ \<Rightarrow> b)"

lemma next_bank_Inr: "is_ok (bank_UpdateState cmd b) \<Longrightarrow> bank_UpdateState cmd b = Inr (next_bank cmd b)"
  by (auto simp: is_ok_iff next_bank_def)

lemma next_bank_timing [simp]: "cmd_timing (next_bank cmd b) = cmd_timing b"
  by (auto simp: next_bank_def bank_UpdateState_timing split: sum.splits)

lemma next_bank_wf: "bank_wf b \<Longrightarrow> bank_wf (next_bank cmd b)"
  by (auto simp: next_bank_def bank_wf_UpdateState split: sum.splits)

lemma UpdateState_spec:
  assumes wf: "ch_wf cfg s" and vt: "valid_target cfg cmd"
    and ok: "\<And>b. b \<in> set (cmd_targets cfg cmd) \<Longrightarrow> is_ok (bank_UpdateState cmd (bank_of s b))"
  obtains s' where "UpdateState cfg cmd s = Inr s'" and "grid cfg (bank_states s')"
    and "\<And>b. valid_bank cfg b \<Longrightarrow> bank_of s' b =
      (if b \<in> set (cmd_targets cfg cmd) then next_bank cmd (bank_of s b) else bank_of s b)"
    and "rank_is_sref s' = (if cmd_type cmd = SREF_ENTER then (rank_is_sref s)[nat (Rank cmd) := True]
      else if cmd_type cmd = SREF_EXIT then (rank_is_sref s)[nat (Rank cmd) := False] else rank_is_sref s)"
    and "refresh_q s' = (if cmd_type cmd = REFRESH then erase_first (\<lambda>c. Rank c = Rank cmd) (refresh_q s)
      else if cmd_type cmd = REFRESH_BANK then erase_first (\<lambda>c. Rank c = Rank cmd \<and>
        Bankgroup c = Bankgroup cmd \<and> Bank c = Bank cmd) (refresh_q s) else refresh_q s)"
    and "rank_idle_cycles s' = rank_idle_cycles s" "four_aw s' = four_aw s"
      "thirty_two_aw s' = thirty_two_aw s"
proof -
  have "\<exists>bs'. res_fold (bank_upd (bank_UpdateState cmd)) (cmd_targets cfg cmd) (bank_states s) = Inr bs' \<and>
    grid cfg bs' \<and> (\<forall>b. valid_bank cfg b \<longrightarrow> bank_at bs' b = (if b \<in> set (cmd_targets cfg cmd)
      then next_bank cmd (bank_at (bank_states s) b) else bank_at (bank_states s) b))"
    by (rule res_fold_bank_upd [OF ch_wf_grid [OF wf] distinct_cmd_targets cmd_targets_valid [OF vt]])
      (use ok in \<open>auto simp: bank_of_def intro!: next_bank_Inr\<close>)
  then obtain bs' where run: "res_fold (bank_upd (bank_UpdateState cmd)) (cmd_targets cfg cmd) (bank_states s) = Inr bs'"
    and g: "grid cfg bs'"
    and at: "\<And>b. valid_bank cfg b \<Longrightarrow> bank_at bs' b = (if b \<in> set (cmd_targets cfg cmd)
      then next_bank cmd (bank_at (bank_states s) b) else bank_at (bank_states s) b)"
    by blast
  have rk: "0 \<le> Rank cmd \<and> Rank cmd < int (length (rank_is_sref s))" if "IsRankCMD cmd"
    using vt wf that by (auto simp: valid_target_def ch_wf_def)
  show thesis
  proof (cases "IsRankCMD cmd")
    case True
    let ?s = "s\<lparr>bank_states := bs',
      rank_is_sref := (if cmd_type cmd = SREF_ENTER then (rank_is_sref s)[nat (Rank cmd) := True]
        else if cmd_type cmd = SREF_EXIT then (rank_is_sref s)[nat (Rank cmd) := False] else rank_is_sref s),
      refresh_q := (if cmd_type cmd = REFRESH then erase_first (\<lambda>c. Rank c = Rank cmd) (refresh_q s)
        else refresh_q s)\<rparr>"
    have "UpdateState cfg cmd s = Inr ?s"
      using True run rk by (auto simp: UpdateState_def cmd_targets_def vset_def RankNeedRefresh_def
          command_query_defs)
    then show thesis
      by (rule that) (use True g at in \<open>auto simp: bank_of_def command_query_defs\<close>)
  next
    case False
    let ?s = "s\<lparr>bank_states := bs',
      refresh_q := (if cmd_type cmd = REFRESH_BANK then erase_first (\<lambda>c. Rank c = Rank cmd \<and>
        Bankgroup c = Bankgroup cmd \<and> Bank c = Bank cmd) (refresh_q s) else refresh_q s)\<rparr>"
    have "bank_upd (bank_UpdateState cmd) (cmd_bank cmd) (bank_states s) = Inr bs'"
      using False run by (simp add: cmd_targets_def res_simps)
    then have "UpdateState cfg cmd s = Inr ?s"
      using False by (auto simp: UpdateState_def BankNeedRefresh_def command_query_defs)
    then show thesis
      by (rule that) (use False g at in \<open>auto simp: bank_of_def command_query_defs\<close>)
  qed
qed


lemma UpdateActivationTimes_spec:
  assumes "0 \<le> r" "r < int (length (four_aw s))" "length (thirty_two_aw s) = length (four_aw s)"
  shows "UpdateActivationTimes cfg r clk s =
    Inr (s\<lparr>four_aw := (four_aw s)[nat r := aw_push (tFAW cfg) clk (four_aw s ! nat r)],
           thirty_two_aw := (if IsGDDR cfg
             then (thirty_two_aw s)[nat r := aw_push (t32AW cfg) clk (thirty_two_aw s ! nat r)]
             else thirty_two_aw s)\<rparr>)"
  using assms by (simp add: UpdateActivationTimes_def vupd_def vget_def vset_def)

lemma UpdateTiming_spec:
  assumes g: "grid cfg (bank_states s)" and vt: "valid_target cfg cmd" and v: "IsValid cmd"
    and len: "length (four_aw s) = nat (ranks cfg)" "length (thirty_two_aw s) = nat (ranks cfg)"
  obtains s' where "UpdateTiming cfg tim cmd clk s = Inr s'" and "grid cfg (bank_states s')"
    and "\<And>b. valid_bank cfg b \<Longrightarrow> bank_of s' b = apply_timings (imposed tim cmd b) clk (bank_of s b)"
    and "rank_is_sref s' = rank_is_sref s" "refresh_q s' = refresh_q s"
      "rank_idle_cycles s' = rank_idle_cycles s"
    and "four_aw s' = (if cmd_type cmd = ACTIVATE
      then (four_aw s)[nat (Rank cmd) := aw_push (tFAW cfg) clk (four_aw s ! nat (Rank cmd))]
      else four_aw s)"
    and "thirty_two_aw s' = (if cmd_type cmd = ACTIVATE \<and> IsGDDR cfg
      then (thirty_two_aw s)[nat (Rank cmd) := aw_push (t32AW cfg) clk (thirty_two_aw s ! nat (Rank cmd))]
      else thirty_two_aw s)"
proof (cases "IsRankCMD cmd")
  case True
  then have rk: "0 \<le> Rank cmd" "Rank cmd < ranks cfg" using vt by (auto simp: valid_target_def)
  obtain bs' where run: "UpdateSameRankTiming cfg (addr cmd) (same_rank tim (cmd_type cmd)) clk (bank_states s) = Inr bs'"
    and g': "grid cfg bs'"
    and at: "\<And>b. valid_bank cfg b \<Longrightarrow> bank_at bs' b = (if b \<in> set (rank_banks cfg (Rank cmd))
      then apply_timings (same_rank tim (cmd_type cmd)) clk (bank_at (bank_states s) b)
      else bank_at (bank_states s) b)"
    using res_fold_upd_timings [OF g distinct_rank_banks rank_banks_valid [OF rk],
        where l = "same_rank tim (cmd_type cmd)" and clk = clk]
    unfolding UpdateSameRankTiming_def Rank_def by blast
  show thesis
  proof (rule that [of "s\<lparr>bank_states := bs'\<rparr>"])
    show "UpdateTiming cfg tim cmd clk s = Inr (s\<lparr>bank_states := bs'\<rparr>)"
      using True run by (auto simp: UpdateTiming_def command_query_defs)
    fix b assume "valid_bank cfg b"
    then show "bank_of (s\<lparr>bank_states := bs'\<rparr>) b = apply_timings (imposed tim cmd b) clk (bank_of s b)"
      using at True rank_banks_iff [OF rk] by (cases b) (auto simp: bank_of_def)
  qed (use True g' in \<open>auto simp: command_query_defs\<close>)
next
  case False
  let ?t = "cmd_type cmd"
  have vb: "valid_bank cfg (cmd_bank cmd)" using vt False by (simp add: valid_target_def)
  then have rk: "0 \<le> Rank cmd" "Rank cmd < int (length (four_aw s))"
    using len by (auto simp: cmd_bank_def)
  define s1 where "s1 = (if ?t = ACTIVATE then s\<lparr>four_aw := (four_aw s)[nat (Rank cmd) :=
      aw_push (tFAW cfg) clk (four_aw s ! nat (Rank cmd))],
    thirty_two_aw := (if IsGDDR cfg then (thirty_two_aw s)[nat (Rank cmd) :=
      aw_push (t32AW cfg) clk (thirty_two_aw s ! nat (Rank cmd))] else thirty_two_aw s)\<rparr> else s)"
  have act: "(if ?t = ACTIVATE then UpdateActivationTimes cfg (Rank cmd) clk s else Inr s) = Inr s1"
    using UpdateActivationTimes_spec [OF rk] len by (simp add: s1_def)
  have same: "bank_states s1 = bank_states s" by (simp add: s1_def)
  from bank_timings_spec [OF g vb False refl refl, of tim clk] obtain b4 where
    seq: "res_bind (UpdateSameBankTiming (addr cmd) (same_bank tim ?t) clk (bank_states s)) (\<lambda>b1.
      res_bind (UpdateOtherBanksSameBankgroupTiming cfg (addr cmd) (other_banks_same_bankgroup tim ?t) clk b1) (\<lambda>b2.
      res_bind (UpdateOtherBankgroupsSameRankTiming cfg (addr cmd) (other_bankgroups_same_rank tim ?t) clk b2) (\<lambda>b3.
        UpdateOtherRanksTiming cfg (addr cmd) (other_ranks tim ?t) clk b3))) = Inr b4"
    and g4: "grid cfg b4"
    and at: "\<And>b. valid_bank cfg b \<Longrightarrow>
      bank_at b4 b = apply_timings (imposed tim cmd b) clk (bank_at (bank_states s) b)"
    by blast
  from seq obtain b1 b2 b3 where
    run: "UpdateSameBankTiming (addr cmd) (same_bank tim ?t) clk (bank_states s) = Inr b1"
      "UpdateOtherBanksSameBankgroupTiming cfg (addr cmd) (other_banks_same_bankgroup tim ?t) clk b1 = Inr b2"
      "UpdateOtherBankgroupsSameRankTiming cfg (addr cmd) (other_bankgroups_same_rank tim ?t) clk b2 = Inr b3"
      "UpdateOtherRanksTiming cfg (addr cmd) (other_ranks tim ?t) clk b3 = Inr b4"
    by (auto simp: res_simps)
  have ty: "?t = ACTIVATE \<or> ?t = READ \<or> ?t = READ_PRECHARGE \<or> ?t = WRITE \<or> ?t = WRITE_PRECHARGE \<or>
    ?t = PRECHARGE \<or> ?t = REFRESH_BANK"
    using False v by (cases ?t) (auto simp: command_query_defs)
  have "UpdateTiming cfg tim cmd clk s = Inr (s1\<lparr>bank_states := b4\<rparr>)"
    unfolding UpdateTiming_def Let_def act if_P [OF ty] res_bind_Inr same run ..
  then show thesis
    by (rule that) (use g4 at in \<open>auto simp: s1_def bank_of_def\<close>)
qed

section \<open>Readiness of a channel command\<close>

text \<open>A bank of the list answered with another command (a precharge).\<close>

definition other_answer :: "banks \<Rightarrow> Command \<Rightarrow> u64 \<Rightarrow> bank_id list \<Rightarrow> Command \<Rightarrow> bool" where
  "other_answer bs cmd clk ids rc \<longleftrightarrow>
     (\<exists>r j k. (r, j, k) \<in> set ids \<and> required_type (bank_at bs (r, j, k)) cmd = Inr (cmd_type rc) \<and>
        cmd_type rc \<noteq> cmd_type cmd \<and> cmd_timing (bank_at bs (r, j, k)) (cmd_type rc) \<le> clk \<and>
        addr rc = Address6 (-1) (Rank cmd) j k (-1) (-1))"

lemma rank_ready_loop_valid:
  assumes "rank_ready_loop cfg bs cmd clk ids rc n = Inr rc'" and "IsValid rc'"
    and "grid cfg bs" and "\<And>b. b \<in> set ids \<Longrightarrow> valid_bank cfg b"
    and "n + int (length ids) \<le> banks cfg"
  shows "other_answer bs cmd clk ids rc' \<or>
    n + int (length ids) = banks cfg \<and>
    (\<forall>b\<in>set ids. required_type (bank_at bs b) cmd = Inr (cmd_type cmd) \<and>
       cmd_timing (bank_at bs b) (cmd_type cmd) \<le> clk) \<and>
    rc' = (if ids = [] then rc else mk_Command (cmd_type cmd) (addr cmd) (hex_addr cmd))"
  using assms
proof (induction ids arbitrary: rc n)
  case Nil
  then show ?case by (auto split: if_splits)
next
  case (Cons b ids)
  have vb: "valid_bank cfg b" using Cons.prems(4) by simp
  from Cons.prems(1) bank_get_valid [OF Cons.prems(3) vb]
  obtain r0 where r0: "bank_GetReadyCommand (bank_at bs b) cmd clk = Inr r0"
    by (auto simp: res_simps)
  have IH: "other_answer bs cmd clk ids rc' \<or> n' + int (length ids) = banks cfg \<and>
    (\<forall>b\<in>set ids. required_type (bank_at bs b) cmd = Inr (cmd_type cmd) \<and>
       cmd_timing (bank_at bs b) (cmd_type cmd) \<le> clk) \<and>
    rc' = (if ids = [] then r0 else mk_Command (cmd_type cmd) (addr cmd) (hex_addr cmd))"
    if "rank_ready_loop cfg bs cmd clk ids r0 n' = Inr rc'" "n' + int (length ids) \<le> banks cfg" for n'
    using Cons.IH [OF that(1) Cons.prems(2,3) _ that(2)] Cons.prems(4) by auto
  have more: "other_answer bs cmd clk ids rc' \<Longrightarrow> other_answer bs cmd clk (b # ids) rc'"
    by (auto simp: other_answer_def)
  show ?case
  proof (cases "IsValid r0")
    case False
    with Cons.prems(1) r0 bank_get_valid [OF Cons.prems(3) vb]
    have "rank_ready_loop cfg bs cmd clk ids r0 n = Inr rc'" by simp
    from IH [OF this] Cons.prems(5) more show ?thesis by auto
  next
    case True
    note rd = bank_ready_cases [OF r0 True]
    show ?thesis
    proof (cases "cmd_type r0 = cmd_type cmd")
      case same: True
      with Cons.prems(1) r0 True bank_get_valid [OF Cons.prems(3) vb]
      have run: "rank_ready_loop cfg bs cmd clk ids r0 (n + 1) = Inr rc'" by simp
      have "r0 = mk_Command (cmd_type cmd) (addr cmd) (hex_addr cmd)"
        using rd same by (cases r0) (simp add: mk_Command_def)
      with IH [OF run] Cons.prems(5) rd same more show ?thesis
        by (cases "other_answer bs cmd clk ids rc'") (simp_all del: bank_at.simps)
    next
      case False
      obtain r j k where b: "b = (r, j, k)" by (cases b)
      with False Cons.prems(1) r0 True bank_get_valid [OF Cons.prems(3) vb]
      have "rc' = r0\<lparr>addr := Address6 (-1) (Rank cmd) j k (-1) (-1)\<rparr>"
        by (simp del: bank_get.simps bank_at.simps)
      then show ?thesis using False rd by (auto simp: other_answer_def b)
    qed
  qed
qed


text \<open>
  The banks whose timing a returned command has been checked against, and what
  \<^verbatim>\<open>GetReadyCommand\<close> guarantees for a valid answer.
\<close>

definition issue_banks :: "Config \<Rightarrow> Command \<Rightarrow> bank_id list" where
  "issue_banks cfg rc =
     (if cmd_type rc \<in> {REFRESH, SREF_ENTER} then rank_banks cfg (Rank rc) else [cmd_bank rc])"

definition ready_spec :: "Config \<Rightarrow> ChannelState \<Rightarrow> u64 \<Rightarrow> Command \<Rightarrow> bool" where
  "ready_spec cfg s clk rc \<longleftrightarrow>
     IsValid rc \<and> valid_target cfg rc \<and>
     (\<forall>b\<in>set (cmd_targets cfg rc). is_ok (bank_UpdateState rc (bank_of s b))) \<and>
     (\<forall>b\<in>set (issue_banks cfg rc). valid_bank cfg b \<and> cmd_timing (bank_of s b) (cmd_type rc) \<le> clk) \<and>
     (cmd_type rc = ACTIVATE \<longrightarrow> ActivationWindowOk cfg s (Rank rc) clk = Inr True)"

text \<open>The requests that never abort: reads and writes, and the rank or bank maintenance
  commands on ranks that are not in self refresh.\<close>

definition request_ok :: "Config \<Rightarrow> ChannelState \<Rightarrow> Command \<Rightarrow> bool" where
  "request_ok cfg s req \<longleftrightarrow> valid_target cfg req \<and>
     (IsReadWrite req \<or>
      cmd_type req \<in> {REFRESH, REFRESH_BANK, SREF_ENTER} \<and> \<not> rank_is_sref s ! nat (Rank req))"

lemma required_type_rank:
  "IsRankCMD cmd \<Longrightarrow> required_type b cmd = Inr t \<Longrightarrow>
     t = cmd_type cmd \<and> bank_state b = CLOSED \<or> t = PRECHARGE \<and> bank_state b = OPEN"
  by (auto simp: required_type_def command_query_defs split: BankStatus.splits CommandType.splits)

lemma required_type_bank:
  "\<not> IsRankCMD cmd \<Longrightarrow> required_type b cmd = Inr t \<Longrightarrow>
     IsReadWrite cmd \<and> (t = SREF_EXIT \<and> bank_state b = SREF \<or> t = ACTIVATE \<or> t = PRECHARGE \<or> t = cmd_type cmd) \<or>
     cmd_type cmd = REFRESH_BANK \<and> (t = PRECHARGE \<or> t = REFRESH_BANK)"
  by (auto simp: required_type_def command_query_defs split: BankStatus.splits CommandType.splits if_splits)

lemma cfg_wf_banks:
  "cfg_wf cfg \<Longrightarrow> banks cfg = int (length (rank_banks cfg r)) \<and> rank_banks cfg r \<noteq> []"
proof -
  assume wf: "cfg_wf cfg"
  then have "banks cfg = int (nat (bankgroups cfg) * nat (banks_per_group cfg))"
    by (simp add: cfg_wf_def)
  then have "banks cfg = int (length (rank_banks cfg r))" by (simp add: length_rank_banks)
  moreover have "0 < banks cfg" using wf by (simp add: cfg_wf_def)
  ultimately show ?thesis by auto
qed

lemma ready_spec_rank:
  assumes cw: "cfg_wf cfg" and wf: "ch_wf cfg s" and vt: "valid_target cfg req" and rk: "IsRankCMD req"
    and run: "GetReadyCommand cfg s req clk = Inr rc" and v: "IsValid rc"
  shows "ready_spec cfg s clk rc \<and> (cmd_type rc = PRECHARGE \<or>
    rc = mk_Command (cmd_type req) (addr req) (hex_addr req) \<and>
    (\<forall>b\<in>set (rank_banks cfg (Rank req)). bank_state (bank_of s b) = CLOSED))"
proof -
  let ?ids = "rank_banks cfg (Rank req)"
  have r: "0 \<le> Rank req" "Rank req < ranks cfg" using vt rk by (auto simp: valid_target_def)
  have vb: "\<And>b. b \<in> set ?ids \<Longrightarrow> valid_bank cfg b" using rank_banks_valid [OF r] .
  have loop: "rank_ready_loop cfg (bank_states s) req clk ?ids Command_default 0 = Inr rc"
    using run rk by (simp add: GetReadyCommand_def)
  have len: "(0::int) + int (length ?ids) \<le> banks cfg" and ne: "?ids \<noteq> []"
    using cfg_wf_banks [OF cw, of "Rank req"] by auto
  have "other_answer (bank_states s) req clk ?ids rc \<or> 0 + int (length ?ids) = banks cfg \<and>
    (\<forall>b\<in>set ?ids. required_type (bank_at (bank_states s) b) req = Inr (cmd_type req) \<and>
       cmd_timing (bank_at (bank_states s) b) (cmd_type req) \<le> clk) \<and>
    rc = (if ?ids = [] then Command_default else mk_Command (cmd_type req) (addr req) (hex_addr req))"
    by (rule rank_ready_loop_valid [OF loop v ch_wf_grid [OF wf] _ len]) (rule vb)
  then show ?thesis
  proof (elim disjE conjE)
    assume "other_answer (bank_states s) req clk ?ids rc"
    then obtain x j k where b: "(x, j, k) \<in> set ?ids"
      and req: "required_type (bank_of s (x, j, k)) req = Inr (cmd_type rc)"
      and ty: "cmd_type rc \<noteq> cmd_type req" "cmd_timing (bank_of s (x, j, k)) (cmd_type rc) \<le> clk"
      and a: "addr rc = Address6 (-1) (Rank req) j k (-1) (-1)"
      unfolding other_answer_def bank_of_def by blast
    have x: "x = Rank req" using b by (auto simp: set_rank_banks)
    have pre: "cmd_type rc = PRECHARGE" using required_type_rank [OF rk req] ty by auto
    have cb: "cmd_bank rc = (x, j, k)" using a x by (simp add: cmd_bank_def command_addr_defs Address6_def)
    show ?thesis using pre cb vb [OF b] ty(2) v required_type_executable [OF req]
      by (simp add: ready_spec_def valid_target_def cmd_targets_def issue_banks_def IsRankCMD_def
          del: valid_bank.simps)
  next
    assume all: "\<forall>b\<in>set ?ids. required_type (bank_at (bank_states s) b) req = Inr (cmd_type req) \<and>
        cmd_timing (bank_at (bank_states s) b) (cmd_type req) \<le> clk"
      and "rc = (if ?ids = [] then Command_default else mk_Command (cmd_type req) (addr req) (hex_addr req))"
    with ne have rc: "rc = mk_Command (cmd_type req) (addr req) (hex_addr req)" by simp
    have eq: "Rank rc = Rank req" "IsRankCMD rc"
      using rk by (simp_all add: rc Rank_def IsRankCMD_def)
    have exec: "is_ok (bank_UpdateState rc (bank_of s b))" if "b \<in> set ?ids" for b
      using all that by (auto simp: bank_of_def rc intro!: required_type_executable)
    have cl: "bank_state (bank_of s b) = CLOSED" if "b \<in> set ?ids" for b
    proof -
      have "required_type (bank_of s b) req = Inr (cmd_type req)" using all that by (simp add: bank_of_def)
      from required_type_rank [OF rk this] rk show ?thesis by (auto simp: IsRankCMD_def)
    qed
    have notx: "cmd_type req \<noteq> SREF_EXIT"
    proof
      assume x: "cmd_type req = SREF_EXIT"
      obtain b where "b \<in> set ?ids" using ne by (cases ?ids) auto
      with all have "required_type (bank_at (bank_states s) b) req = Inr SREF_EXIT" by (simp add: x)
      then show False by (auto simp: required_type_def x split: BankStatus.splits)
    qed
    have "issue_banks cfg rc = ?ids" using rk notx eq
      by (auto simp: issue_banks_def IsRankCMD_def rc)
    moreover have "cmd_targets cfg rc = ?ids" using eq by (simp add: cmd_targets_def)
    ultimately show ?thesis
      using v r all exec cl eq rk vb unfolding ready_spec_def valid_target_def
      by (auto simp: rc bank_of_def IsRankCMD_def)
  qed
qed

lemma ready_spec_bank:
  assumes wf: "ch_wf cfg s" and vt: "valid_target cfg req" and nr: "\<not> IsRankCMD req"
    and run: "GetReadyCommand cfg s req clk = Inr rc" and v: "IsValid rc"
  shows "ready_spec cfg s clk rc \<and> required_type (bank_of s (cmd_bank req)) req = Inr (cmd_type rc) \<and>
    rc = mk_Command (cmd_type rc) (addr req) (hex_addr req)"
proof -
  let ?b = "cmd_bank req"
  have vb: "valid_bank cfg ?b" using vt nr by (simp add: valid_target_def)
  from run wf vb nr v obtain r0 where r0: "bank_GetReadyCommand (bank_of s ?b) req clk = Inr r0"
    "IsValid r0" and rc: "rc = r0"
    and act: "cmd_type rc = ACTIVATE \<longrightarrow> ActivationWindowOk cfg s (Rank rc) clk = Inr True"
    by (auto simp: GetReadyCommand_def res_simps split: if_splits)
  note rd = bank_ready_cases [OF r0]
  have cmd: "rc = mk_Command (cmd_type rc) (addr req) (hex_addr req)"
    using rd rc by (cases rc) (simp add: mk_Command_def)
  have cb: "cmd_bank rc = ?b" by (simp add: cmd_bank_def command_addr_defs rc rd)
  have req: "required_type (bank_of s ?b) req = Inr (cmd_type rc)" using rd rc by simp
  have exec: "is_ok (bank_UpdateState rc (bank_of s b))" if "b \<in> set (cmd_targets cfg rc)" for b
  proof (cases "IsRankCMD rc")
    case True
    with required_type_bank [OF nr req] have x: "cmd_type rc = SREF_EXIT" "bank_state (bank_of s ?b) = SREF"
      by (auto simp: IsRankCMD_def command_query_defs)
    from True that have "fst b = Rank rc" "valid_bank cfg b"
      using vb cb by (auto simp: cmd_targets_def set_rank_banks cmd_bank_def)
    with x ch_wf_sref [OF wf vb] ch_wf_sref [OF wf, of b] cb have "bank_state (bank_of s b) = SREF"
      by (simp add: cmd_bank_def)
    with x show ?thesis by (simp add: bank_UpdateState_def)
  next
    case False
    with that cb have "b = ?b" by (simp add: cmd_targets_def)
    then show ?thesis using required_type_executable [OF req] by simp
  qed
  have "cmd_type rc \<notin> {REFRESH, SREF_ENTER}" using required_type_bank [OF nr req] nr
    by (auto simp: command_query_defs)
  then have "issue_banks cfg rc = [?b]" by (simp add: issue_banks_def cb)
  moreover have "valid_target cfg rc" using vb cb by (auto simp: valid_target_def cmd_bank_def)
  ultimately have "ready_spec cfg s clk rc"
    using v act exec rd rc vb by (auto simp: ready_spec_def)
  with req cmd show ?thesis by blast
qed

end
