(* ===== verification/Dram_Sample.thy ===== *)
theory Dram_Sample
  imports Dram_Config Dram_Timing
begin

text \<open>
  The configuration \<^verbatim>\<open>configs/HBM2_8Gb_x128.ini\<close> that
  \<^verbatim>\<open>MultiANNA\<close> opens: the key and value pairs the reader holds after parsing
  it, and the \<^verbatim>\<open>Config\<close> object its constructor builds from them. The concrete
  instances of the later theories use it.
\<close>

definition hbm2_ini :: INIReader where
  "hbm2_ini = \<lparr>ini_error = 0, ini_values =
     [
      (''dram_structure=protocol'', ''HBM''),
      (''dram_structure=bankgroups'', ''4''),
      (''dram_structure=banks_per_group'', ''4''),
      (''dram_structure=rows'', ''32768''),
      (''dram_structure=columns'', ''64''),
      (''dram_structure=device_width'', ''128''),
      (''dram_structure=bl'', ''4''),
      (''dram_structure=num_dies'', ''4''),
      (''timing=tck'', ''1''),
      (''timing=cl'', ''14''),
      (''timing=cwl'', ''4''),
      (''timing=trcdrd'', ''14''),
      (''timing=trcdwr'', ''14''),
      (''timing=trp'', ''14''),
      (''timing=tras'', ''34''),
      (''timing=trfc'', ''260''),
      (''timing=trefi'', ''3900''),
      (''timing=trefib'', ''128''),
      (''timing=trpre'', ''1''),
      (''timing=twpre'', ''1''),
      (''timing=trrd_s'', ''4''),
      (''timing=trrd_l'', ''6''),
      (''timing=twtr_s'', ''6''),
      (''timing=twtr_l'', ''8''),
      (''timing=tfaw'', ''30''),
      (''timing=twr'', ''16''),
      (''timing=tccd_s'', ''1''),
      (''timing=tccd_l'', ''2''),
      (''timing=txs'', ''268''),
      (''timing=tcke'', ''8''),
      (''timing=tcksre'', ''10''),
      (''timing=txp'', ''8''),
      (''timing=trtp_l'', ''6''),
      (''timing=trtp_s'', ''4''),
      (''power=vdd'', ''1.2''),
      (''power=idd0'', ''65''),
      (''power=idd2p'', ''28''),
      (''power=idd2n'', ''40''),
      (''power=idd3p'', ''40''),
      (''power=idd3n'', ''55''),
      (''power=idd4w'', ''500''),
      (''power=idd4r'', ''390''),
      (''power=idd5ab'', ''250''),
      (''power=idd6x'', ''31''),
      (''system=channel_size'', ''1024''),
      (''system=channels'', ''8''),
      (''system=bus_width'', ''128''),
      (''system=address_mapping'', ''rorabgbachco''),
      (''system=queue_structure'', ''PER_BANK''),
      (''system=row_buf_policy'', ''OPEN_PAGE''),
      (''system=cmd_queue_size'', ''8''),
      (''system=trans_queue_size'', ''32''),
      (''system=unified_queue'', ''False''),
      (''other=epoch_period'', ''1000000''),
      (''other=output_level'', ''1'')],
     ini_sections = [''dram_structure'', ''timing'', ''power'', ''system'', ''other'']\<rparr>"

definition hbm2_config :: Config where
  "hbm2_config =
     \<lparr>protocol = HBM,
      channel_size = 1024,
      channels = 8,
      ranks = 1,
      banks = 16,
      bankgroups = 4,
      banks_per_group = 4,
      rows = 32768,
      columns = 128,
      device_width = 128,
      bus_width = 128,
      devices_per_rank = 1,
      BL = 4,
      shift_bits = 6,
      ch_pos = 5,
      ra_pos = 12,
      bg_pos = 10,
      ba_pos = 8,
      ro_pos = 12,
      co_pos = 0,
      ch_mask = 7,
      ra_mask = 0,
      bg_mask = 3,
      ba_mask = 3,
      ro_mask = 32767,
      co_mask = 31,
      tCK = 1,
      burst_cycle = 2,
      AL = 0,
      CL = 14,
      CWL = 4,
      RL = 14,
      WL = 4,
      tCCD_L = 2,
      tCCD_S = 1,
      tRTRS = 2,
      tRTP = 5,
      tWTR_L = 8,
      tWTR_S = 6,
      tWR = 16,
      tRP = 14,
      tRRD_L = 6,
      tRRD_S = 4,
      tRAS = 34,
      tRCD = 10,
      tRFC = 260,
      tRC = 48,
      tCKE = 8,
      tCKESR = 12,
      tXS = 268,
      tXP = 8,
      tRFCb = 20,
      tREFI = 3900,
      tREFIb = 128,
      tFAW = 30,
      tRPRE = 1,
      tWPRE = 1,
      read_delay = 16,
      write_delay = 6,
      tPPD = 0,
      t32AW = 330,
      tRCDRD = 14,
      tRCDWR = 14,
      act_energy_inc = (6 / 5) * (65 * 48 - (55 * 34 + 40 * 14)),
      read_energy_inc = (6 / 5) * (390 - 55) * 2,
      write_energy_inc = (6 / 5) * (500 - 55) * 2,
      ref_energy_inc = (6 / 5) * (250 - 55) * 260,
      refb_energy_inc = (6 / 5) * (5 - 55) * 20,
      act_stb_energy_inc = (6 / 5) * 55,
      pre_stb_energy_inc = (6 / 5) * 40,
      pre_pd_energy_inc = (6 / 5) * 28,
      sref_energy_inc = (6 / 5) * 31,
      num_links = 4,
      num_dies = 4,
      link_width = 16,
      link_speed = 15000,
      block_size = 64,
      xbar_queue_depth = 16,
      address_mapping = ''rorabgbachco'',
      queue_structure = ''PER_BANK'',
      row_buf_policy = ''OPEN_PAGE'',
      refresh_policy = RANK_LEVEL_STAGGERED,
      cmd_queue_size = 8,
      unified_queue = False,
      trans_queue_size = 32,
      write_buf_size = 16,
      enable_self_refresh = False,
      sref_threshold = 1000,
      aggressive_precharging_enabled = False,
      enable_hbm_dual_cmd = True,
      epoch_period = 1000000,
      output_level = 1,
      output_dir = ''./'',
      output_prefix = ''./dramsim3'',
      json_stats_name = ''./dramsim3.json'',
      json_epoch_name = ''./dramsim3epoch.json'',
      txt_stats_name = ''./dramsim3.txt'',
      request_size_bytes = 64,
      ideal_memory_latency = 10\<rparr>"

lemma hbm2_config_simps [simp]:
  "protocol hbm2_config = HBM"
  "channel_size hbm2_config = 1024"
  "channels hbm2_config = 8"
  "ranks hbm2_config = 1"
  "banks hbm2_config = 16"
  "bankgroups hbm2_config = 4"
  "banks_per_group hbm2_config = 4"
  "rows hbm2_config = 32768"
  "columns hbm2_config = 128"
  "device_width hbm2_config = 128"
  "bus_width hbm2_config = 128"
  "devices_per_rank hbm2_config = 1"
  "BL hbm2_config = 4"
  "shift_bits hbm2_config = 6"
  "ch_pos hbm2_config = 5"
  "ra_pos hbm2_config = 12"
  "bg_pos hbm2_config = 10"
  "ba_pos hbm2_config = 8"
  "ro_pos hbm2_config = 12"
  "co_pos hbm2_config = 0"
  "ch_mask hbm2_config = 7"
  "ra_mask hbm2_config = 0"
  "bg_mask hbm2_config = 3"
  "ba_mask hbm2_config = 3"
  "ro_mask hbm2_config = 32767"
  "co_mask hbm2_config = 31"
  "burst_cycle hbm2_config = 2"
  "AL hbm2_config = 0"
  "CL hbm2_config = 14"
  "CWL hbm2_config = 4"
  "RL hbm2_config = 14"
  "WL hbm2_config = 4"
  "tCCD_L hbm2_config = 2"
  "tCCD_S hbm2_config = 1"
  "tRTRS hbm2_config = 2"
  "tRTP hbm2_config = 5"
  "tWTR_L hbm2_config = 8"
  "tWTR_S hbm2_config = 6"
  "tWR hbm2_config = 16"
  "tRP hbm2_config = 14"
  "tRRD_L hbm2_config = 6"
  "tRRD_S hbm2_config = 4"
  "tRAS hbm2_config = 34"
  "tRCD hbm2_config = 10"
  "tRFC hbm2_config = 260"
  "tRC hbm2_config = 48"
  "tCKE hbm2_config = 8"
  "tCKESR hbm2_config = 12"
  "tXS hbm2_config = 268"
  "tXP hbm2_config = 8"
  "tRFCb hbm2_config = 20"
  "tREFI hbm2_config = 3900"
  "tREFIb hbm2_config = 128"
  "tFAW hbm2_config = 30"
  "tRPRE hbm2_config = 1"
  "tWPRE hbm2_config = 1"
  "read_delay hbm2_config = 16"
  "write_delay hbm2_config = 6"
  "tPPD hbm2_config = 0"
  "t32AW hbm2_config = 330"
  "tRCDRD hbm2_config = 14"
  "tRCDWR hbm2_config = 14"
  "num_links hbm2_config = 4"
  "num_dies hbm2_config = 4"
  "link_width hbm2_config = 16"
  "link_speed hbm2_config = 15000"
  "block_size hbm2_config = 64"
  "xbar_queue_depth hbm2_config = 16"
  "refresh_policy hbm2_config = RANK_LEVEL_STAGGERED"
  "cmd_queue_size hbm2_config = 8"
  "unified_queue hbm2_config = False"
  "trans_queue_size hbm2_config = 32"
  "write_buf_size hbm2_config = 16"
  "enable_self_refresh hbm2_config = False"
  "sref_threshold hbm2_config = 1000"
  "aggressive_precharging_enabled hbm2_config = False"
  "enable_hbm_dual_cmd hbm2_config = True"
  "epoch_period hbm2_config = 1000000"
  "output_level hbm2_config = 1"
  "request_size_bytes hbm2_config = 64"
  "ideal_memory_latency hbm2_config = 10"
  "queue_structure hbm2_config = ''PER_BANK''"
  "row_buf_policy hbm2_config = ''OPEN_PAGE''"
  "address_mapping hbm2_config = ''rorabgbachco''"
  by (simp_all only: hbm2_config_def Config.select_convs)

lemma hbm2_protocol [simp]:
  "IsHBM hbm2_config" "\<not> IsGDDR hbm2_config" "\<not> IsHMC hbm2_config" "\<not> IsDDR4 hbm2_config"
  by (simp_all add: IsHBM_def IsGDDR_def IsHMC_def IsDDR4_def)

text \<open>The same device with a single bank group of two and of five banks.\<close>

definition two_bank_config :: Config where
  "two_bank_config = hbm2_config\<lparr>bankgroups := 1, banks_per_group := 2, banks := 2\<rparr>"

definition five_bank_config :: Config where
  "five_bank_config = hbm2_config\<lparr>bankgroups := 1, banks_per_group := 5, banks := 5\<rparr>"

lemma two_bank_config_simps [simp]:
  "protocol two_bank_config = HBM"
  "channel_size two_bank_config = 1024"
  "channels two_bank_config = 8"
  "ranks two_bank_config = 1"
  "banks two_bank_config = 2"
  "bankgroups two_bank_config = 1"
  "banks_per_group two_bank_config = 2"
  "rows two_bank_config = 32768"
  "columns two_bank_config = 128"
  "device_width two_bank_config = 128"
  "bus_width two_bank_config = 128"
  "devices_per_rank two_bank_config = 1"
  "BL two_bank_config = 4"
  "shift_bits two_bank_config = 6"
  "ch_pos two_bank_config = 5"
  "ra_pos two_bank_config = 12"
  "bg_pos two_bank_config = 10"
  "ba_pos two_bank_config = 8"
  "ro_pos two_bank_config = 12"
  "co_pos two_bank_config = 0"
  "ch_mask two_bank_config = 7"
  "ra_mask two_bank_config = 0"
  "bg_mask two_bank_config = 3"
  "ba_mask two_bank_config = 3"
  "ro_mask two_bank_config = 32767"
  "co_mask two_bank_config = 31"
  "burst_cycle two_bank_config = 2"
  "AL two_bank_config = 0"
  "CL two_bank_config = 14"
  "CWL two_bank_config = 4"
  "RL two_bank_config = 14"
  "WL two_bank_config = 4"
  "tCCD_L two_bank_config = 2"
  "tCCD_S two_bank_config = 1"
  "tRTRS two_bank_config = 2"
  "tRTP two_bank_config = 5"
  "tWTR_L two_bank_config = 8"
  "tWTR_S two_bank_config = 6"
  "tWR two_bank_config = 16"
  "tRP two_bank_config = 14"
  "tRRD_L two_bank_config = 6"
  "tRRD_S two_bank_config = 4"
  "tRAS two_bank_config = 34"
  "tRCD two_bank_config = 10"
  "tRFC two_bank_config = 260"
  "tRC two_bank_config = 48"
  "tCKE two_bank_config = 8"
  "tCKESR two_bank_config = 12"
  "tXS two_bank_config = 268"
  "tXP two_bank_config = 8"
  "tRFCb two_bank_config = 20"
  "tREFI two_bank_config = 3900"
  "tREFIb two_bank_config = 128"
  "tFAW two_bank_config = 30"
  "tRPRE two_bank_config = 1"
  "tWPRE two_bank_config = 1"
  "read_delay two_bank_config = 16"
  "write_delay two_bank_config = 6"
  "tPPD two_bank_config = 0"
  "t32AW two_bank_config = 330"
  "tRCDRD two_bank_config = 14"
  "tRCDWR two_bank_config = 14"
  "num_links two_bank_config = 4"
  "num_dies two_bank_config = 4"
  "link_width two_bank_config = 16"
  "link_speed two_bank_config = 15000"
  "block_size two_bank_config = 64"
  "xbar_queue_depth two_bank_config = 16"
  "refresh_policy two_bank_config = RANK_LEVEL_STAGGERED"
  "cmd_queue_size two_bank_config = 8"
  "unified_queue two_bank_config = False"
  "trans_queue_size two_bank_config = 32"
  "write_buf_size two_bank_config = 16"
  "enable_self_refresh two_bank_config = False"
  "sref_threshold two_bank_config = 1000"
  "aggressive_precharging_enabled two_bank_config = False"
  "enable_hbm_dual_cmd two_bank_config = True"
  "epoch_period two_bank_config = 1000000"
  "output_level two_bank_config = 1"
  "request_size_bytes two_bank_config = 64"
  "ideal_memory_latency two_bank_config = 10"
  "queue_structure two_bank_config = ''PER_BANK''"
  "row_buf_policy two_bank_config = ''OPEN_PAGE''"
  "address_mapping two_bank_config = ''rorabgbachco''"
  by (simp_all add: two_bank_config_def)

lemma five_bank_config_simps [simp]:
  "protocol five_bank_config = HBM"
  "channel_size five_bank_config = 1024"
  "channels five_bank_config = 8"
  "ranks five_bank_config = 1"
  "banks five_bank_config = 5"
  "bankgroups five_bank_config = 1"
  "banks_per_group five_bank_config = 5"
  "rows five_bank_config = 32768"
  "columns five_bank_config = 128"
  "device_width five_bank_config = 128"
  "bus_width five_bank_config = 128"
  "devices_per_rank five_bank_config = 1"
  "BL five_bank_config = 4"
  "shift_bits five_bank_config = 6"
  "ch_pos five_bank_config = 5"
  "ra_pos five_bank_config = 12"
  "bg_pos five_bank_config = 10"
  "ba_pos five_bank_config = 8"
  "ro_pos five_bank_config = 12"
  "co_pos five_bank_config = 0"
  "ch_mask five_bank_config = 7"
  "ra_mask five_bank_config = 0"
  "bg_mask five_bank_config = 3"
  "ba_mask five_bank_config = 3"
  "ro_mask five_bank_config = 32767"
  "co_mask five_bank_config = 31"
  "burst_cycle five_bank_config = 2"
  "AL five_bank_config = 0"
  "CL five_bank_config = 14"
  "CWL five_bank_config = 4"
  "RL five_bank_config = 14"
  "WL five_bank_config = 4"
  "tCCD_L five_bank_config = 2"
  "tCCD_S five_bank_config = 1"
  "tRTRS five_bank_config = 2"
  "tRTP five_bank_config = 5"
  "tWTR_L five_bank_config = 8"
  "tWTR_S five_bank_config = 6"
  "tWR five_bank_config = 16"
  "tRP five_bank_config = 14"
  "tRRD_L five_bank_config = 6"
  "tRRD_S five_bank_config = 4"
  "tRAS five_bank_config = 34"
  "tRCD five_bank_config = 10"
  "tRFC five_bank_config = 260"
  "tRC five_bank_config = 48"
  "tCKE five_bank_config = 8"
  "tCKESR five_bank_config = 12"
  "tXS five_bank_config = 268"
  "tXP five_bank_config = 8"
  "tRFCb five_bank_config = 20"
  "tREFI five_bank_config = 3900"
  "tREFIb five_bank_config = 128"
  "tFAW five_bank_config = 30"
  "tRPRE five_bank_config = 1"
  "tWPRE five_bank_config = 1"
  "read_delay five_bank_config = 16"
  "write_delay five_bank_config = 6"
  "tPPD five_bank_config = 0"
  "t32AW five_bank_config = 330"
  "tRCDRD five_bank_config = 14"
  "tRCDWR five_bank_config = 14"
  "num_links five_bank_config = 4"
  "num_dies five_bank_config = 4"
  "link_width five_bank_config = 16"
  "link_speed five_bank_config = 15000"
  "block_size five_bank_config = 64"
  "xbar_queue_depth five_bank_config = 16"
  "refresh_policy five_bank_config = RANK_LEVEL_STAGGERED"
  "cmd_queue_size five_bank_config = 8"
  "unified_queue five_bank_config = False"
  "trans_queue_size five_bank_config = 32"
  "write_buf_size five_bank_config = 16"
  "enable_self_refresh five_bank_config = False"
  "sref_threshold five_bank_config = 1000"
  "aggressive_precharging_enabled five_bank_config = False"
  "enable_hbm_dual_cmd five_bank_config = True"
  "epoch_period five_bank_config = 1000000"
  "output_level five_bank_config = 1"
  "request_size_bytes five_bank_config = 64"
  "ideal_memory_latency five_bank_config = 10"
  "queue_structure five_bank_config = ''PER_BANK''"
  "row_buf_policy five_bank_config = ''OPEN_PAGE''"
  "address_mapping five_bank_config = ''rorabgbachco''"
  by (simp_all add: five_bank_config_def)

lemma bank_config_protocol [simp]:
  "IsHBM two_bank_config" "\<not> IsGDDR two_bank_config" "\<not> IsHMC two_bank_config"
  "IsHBM five_bank_config" "\<not> IsGDDR five_bank_config" "\<not> IsHMC five_bank_config"
  by (simp_all add: IsHBM_def IsGDDR_def IsHMC_def)

text \<open>Two ranks of one bank each, with the rank bit above the bank group.\<close>

definition two_rank_config :: Config where
  "two_rank_config = hbm2_config\<lparr>ranks := 2, bankgroups := 1, banks_per_group := 1, banks := 1,
     ra_mask := 1, ro_pos := 13\<rparr>"

lemma two_rank_config_simps [simp]:
  "protocol two_rank_config = HBM"
  "channel_size two_rank_config = 1024"
  "channels two_rank_config = 8"
  "ranks two_rank_config = 2"
  "banks two_rank_config = 1"
  "bankgroups two_rank_config = 1"
  "banks_per_group two_rank_config = 1"
  "rows two_rank_config = 32768"
  "columns two_rank_config = 128"
  "device_width two_rank_config = 128"
  "bus_width two_rank_config = 128"
  "devices_per_rank two_rank_config = 1"
  "BL two_rank_config = 4"
  "shift_bits two_rank_config = 6"
  "ch_pos two_rank_config = 5"
  "ra_pos two_rank_config = 12"
  "bg_pos two_rank_config = 10"
  "ba_pos two_rank_config = 8"
  "ro_pos two_rank_config = 13"
  "co_pos two_rank_config = 0"
  "ch_mask two_rank_config = 7"
  "ra_mask two_rank_config = 1"
  "bg_mask two_rank_config = 3"
  "ba_mask two_rank_config = 3"
  "ro_mask two_rank_config = 32767"
  "co_mask two_rank_config = 31"
  "burst_cycle two_rank_config = 2"
  "AL two_rank_config = 0"
  "CL two_rank_config = 14"
  "CWL two_rank_config = 4"
  "RL two_rank_config = 14"
  "WL two_rank_config = 4"
  "tCCD_L two_rank_config = 2"
  "tCCD_S two_rank_config = 1"
  "tRTRS two_rank_config = 2"
  "tRTP two_rank_config = 5"
  "tWTR_L two_rank_config = 8"
  "tWTR_S two_rank_config = 6"
  "tWR two_rank_config = 16"
  "tRP two_rank_config = 14"
  "tRRD_L two_rank_config = 6"
  "tRRD_S two_rank_config = 4"
  "tRAS two_rank_config = 34"
  "tRCD two_rank_config = 10"
  "tRFC two_rank_config = 260"
  "tRC two_rank_config = 48"
  "tCKE two_rank_config = 8"
  "tCKESR two_rank_config = 12"
  "tXS two_rank_config = 268"
  "tXP two_rank_config = 8"
  "tRFCb two_rank_config = 20"
  "tREFI two_rank_config = 3900"
  "tREFIb two_rank_config = 128"
  "tFAW two_rank_config = 30"
  "tRPRE two_rank_config = 1"
  "tWPRE two_rank_config = 1"
  "read_delay two_rank_config = 16"
  "write_delay two_rank_config = 6"
  "tPPD two_rank_config = 0"
  "t32AW two_rank_config = 330"
  "tRCDRD two_rank_config = 14"
  "tRCDWR two_rank_config = 14"
  "num_links two_rank_config = 4"
  "num_dies two_rank_config = 4"
  "link_width two_rank_config = 16"
  "link_speed two_rank_config = 15000"
  "block_size two_rank_config = 64"
  "xbar_queue_depth two_rank_config = 16"
  "refresh_policy two_rank_config = RANK_LEVEL_STAGGERED"
  "cmd_queue_size two_rank_config = 8"
  "unified_queue two_rank_config = False"
  "trans_queue_size two_rank_config = 32"
  "write_buf_size two_rank_config = 16"
  "enable_self_refresh two_rank_config = False"
  "sref_threshold two_rank_config = 1000"
  "aggressive_precharging_enabled two_rank_config = False"
  "enable_hbm_dual_cmd two_rank_config = True"
  "epoch_period two_rank_config = 1000000"
  "output_level two_rank_config = 1"
  "request_size_bytes two_rank_config = 64"
  "ideal_memory_latency two_rank_config = 10"
  "queue_structure two_rank_config = ''PER_BANK''"
  "row_buf_policy two_rank_config = ''OPEN_PAGE''"
  "address_mapping two_rank_config = ''rorabgbachco''"
  by (simp_all add: two_rank_config_def)

lemma two_rank_config_protocol [simp]:
  "IsHBM two_rank_config" "\<not> IsGDDR two_rank_config" "\<not> IsHMC two_rank_config"
  by (simp_all add: IsHBM_def IsGDDR_def IsHMC_def)

end
