(* ===== verification/Dram_Channel_Run.thy ===== *)
theory Dram_Channel_Run
  imports Dram_Channel Dram_Sample
begin

text \<open>
  What a channel guarantees over whole executions: a command that
  \<^verbatim>\<open>ChannelState::GetReadyCommand\<close> returns can be issued without an abort and
  keeps the invariant, no two issued commands violate a constraint of the timing tables, and
  the activation windows bound the rate of activations in a rank.
\<close>

section \<open>Issuing a command\<close>

lemma bank_UpdateState_sref:
  assumes "is_ok (bank_UpdateState cmd b)"
  shows "bank_state b = SREF \<longleftrightarrow> cmd_type cmd = SREF_EXIT"
    and "bank_state (next_bank cmd b) = SREF \<longleftrightarrow> cmd_type cmd = SREF_ENTER"
  using assms by (auto simp: next_bank_def bank_UpdateState_def split: BankStatus.splits CommandType.splits)

lemma sref_flag_step:
  assumes wf: "ch_wf cfg s" and vt: "valid_target cfg cmd" and vb: "valid_bank cfg b"
    and ok: "\<And>b. b \<in> set (cmd_targets cfg cmd) \<Longrightarrow> is_ok (bank_UpdateState cmd (bank_of s b))"
    and at: "b' = (if b \<in> set (cmd_targets cfg cmd) then next_bank cmd (bank_of s b) else bank_of s b)"
    and fl: "fl = (if cmd_type cmd = SREF_ENTER then (rank_is_sref s)[nat (Rank cmd) := True]
      else if cmd_type cmd = SREF_EXIT then (rank_is_sref s)[nat (Rank cmd) := False] else rank_is_sref s)"
  shows "bank_state b' = SREF \<longleftrightarrow> fl ! nat (fst b)"
proof (cases "b \<in> set (cmd_targets cfg cmd)")
  case True
  note sr = bank_UpdateState_sref [OF ok [OF True]]
  have fb: "fst b = Rank cmd"
    using True by (auto simp: cmd_targets_def set_rank_banks cmd_bank_def split: if_splits)
  have len: "nat (Rank cmd) < length (rank_is_sref s)"
    using wf vb by (cases b) (use fb in \<open>auto simp: ch_wf_def\<close>)
  show ?thesis using sr ch_wf_sref [OF wf vb] at fl len True by (auto simp: fb)
next
  case False
  have "nat (Rank cmd) \<noteq> nat (fst b)" if "cmd_type cmd = SREF_ENTER \<or> cmd_type cmd = SREF_EXIT"
  proof -
    from that have r: "IsRankCMD cmd" by (auto simp: IsRankCMD_def)
    with vt have "0 \<le> Rank cmd" "Rank cmd < ranks cfg" by (auto simp: valid_target_def)
    with False r vb rank_banks_iff [of "Rank cmd" cfg b] have "fst b \<noteq> Rank cmd"
      by (auto simp: cmd_targets_def)
    with vb \<open>0 \<le> Rank cmd\<close> show ?thesis by (cases b) auto
  qed
  with False ch_wf_sref [OF wf vb] at fl show ?thesis by auto
qed

text \<open>\<^verbatim>\<open>UpdateTimingAndStates\<close> on a command its target banks accept.\<close>

lemma UpdateTimingAndStates_spec:
  assumes wf: "ch_wf cfg s" and vt: "valid_target cfg cmd" and v: "IsValid cmd"
    and ok: "\<And>b. b \<in> set (cmd_targets cfg cmd) \<Longrightarrow> is_ok (bank_UpdateState cmd (bank_of s b))"
  obtains s' where "UpdateTimingAndStates cfg tim cmd clk s = Inr s'" and "ch_wf cfg s'"
    and "\<And>b. valid_bank cfg b \<Longrightarrow> bank_of s' b = apply_timings (imposed tim cmd b) clk
      (if b \<in> set (cmd_targets cfg cmd) then next_bank cmd (bank_of s b) else bank_of s b)"
    and "rank_is_sref s' = (if cmd_type cmd = SREF_ENTER then (rank_is_sref s)[nat (Rank cmd) := True]
      else if cmd_type cmd = SREF_EXIT then (rank_is_sref s)[nat (Rank cmd) := False] else rank_is_sref s)"
    and "refresh_q s' = (if cmd_type cmd = REFRESH then erase_first (\<lambda>c. Rank c = Rank cmd) (refresh_q s)
      else if cmd_type cmd = REFRESH_BANK then erase_first (\<lambda>c. Rank c = Rank cmd \<and>
        Bankgroup c = Bankgroup cmd \<and> Bank c = Bank cmd) (refresh_q s) else refresh_q s)"
    and "rank_idle_cycles s' = rank_idle_cycles s"
    and "four_aw s' = (if cmd_type cmd = ACTIVATE
      then (four_aw s)[nat (Rank cmd) := aw_push (tFAW cfg) clk (four_aw s ! nat (Rank cmd))]
      else four_aw s)"
    and "thirty_two_aw s' = (if cmd_type cmd = ACTIVATE \<and> IsGDDR cfg
      then (thirty_two_aw s)[nat (Rank cmd) := aw_push (t32AW cfg) clk (thirty_two_aw s ! nat (Rank cmd))]
      else thirty_two_aw s)"
proof -
  obtain s1 where s1: "UpdateState cfg cmd s = Inr s1" and g1: "grid cfg (bank_states s1)"
    and at1: "\<And>b. valid_bank cfg b \<Longrightarrow> bank_of s1 b =
      (if b \<in> set (cmd_targets cfg cmd) then next_bank cmd (bank_of s b) else bank_of s b)"
    and fl: "rank_is_sref s1 = (if cmd_type cmd = SREF_ENTER then (rank_is_sref s)[nat (Rank cmd) := True]
      else if cmd_type cmd = SREF_EXIT then (rank_is_sref s)[nat (Rank cmd) := False] else rank_is_sref s)"
    and rq: "refresh_q s1 = (if cmd_type cmd = REFRESH then erase_first (\<lambda>c. Rank c = Rank cmd) (refresh_q s)
      else if cmd_type cmd = REFRESH_BANK then erase_first (\<lambda>c. Rank c = Rank cmd \<and>
        Bankgroup c = Bankgroup cmd \<and> Bank c = Bank cmd) (refresh_q s) else refresh_q s)"
    and fr1: "rank_idle_cycles s1 = rank_idle_cycles s" "four_aw s1 = four_aw s"
      "thirty_two_aw s1 = thirty_two_aw s"
    using UpdateState_spec [OF wf vt ok] by blast
  have len: "length (four_aw s1) = nat (ranks cfg)" "length (thirty_two_aw s1) = nat (ranks cfg)"
    using wf by (simp_all add: fr1 ch_wf_def)
  obtain s2 where s2: "UpdateTiming cfg tim cmd clk s1 = Inr s2" and g2: "grid cfg (bank_states s2)"
    and at2: "\<And>b. valid_bank cfg b \<Longrightarrow> bank_of s2 b = apply_timings (imposed tim cmd b) clk (bank_of s1 b)"
    and fr2: "rank_is_sref s2 = rank_is_sref s1" "refresh_q s2 = refresh_q s1"
      "rank_idle_cycles s2 = rank_idle_cycles s1"
    and aw: "four_aw s2 = (if cmd_type cmd = ACTIVATE
      then (four_aw s1)[nat (Rank cmd) := aw_push (tFAW cfg) clk (four_aw s1 ! nat (Rank cmd))]
      else four_aw s1)"
    "thirty_two_aw s2 = (if cmd_type cmd = ACTIVATE \<and> IsGDDR cfg
      then (thirty_two_aw s1)[nat (Rank cmd) := aw_push (t32AW cfg) clk (thirty_two_aw s1 ! nat (Rank cmd))]
      else thirty_two_aw s1)"
    using UpdateTiming_spec [OF g1 vt v len] by blast
  have run: "UpdateTimingAndStates cfg tim cmd clk s = Inr s2"
    by (simp add: UpdateTimingAndStates_def s1 s2)
  have "bank_wf (bank_of s2 b) \<and> (bank_state (bank_of s2 b) = SREF \<longleftrightarrow> rank_is_sref s2 ! nat (fst b))"
    if vb: "valid_bank cfg b" for b
  proof -
    have "bank_wf (bank_of s1 b)" using ch_wf_bank [OF wf vb] by (simp add: at1 [OF vb] next_bank_wf)
    moreover have "bank_state (bank_of s1 b) = SREF \<longleftrightarrow> rank_is_sref s1 ! nat (fst b)"
      by (rule sref_flag_step [OF wf vt vb ok at1 [OF vb] fl])
    ultimately show ?thesis by (simp add: at2 [OF vb] fr2)
  qed
  moreover have "cmd_type c \<in> {REFRESH, REFRESH_BANK} \<and> valid_target cfg c" if "c \<in> set (refresh_q s2)" for c
  proof -
    have "c \<in> set (refresh_q s)"
      using that set_erase_first_subset unfolding fr2 rq by (fastforce split: if_splits)
    then show ?thesis using wf by (simp add: ch_wf_def)
  qed
  ultimately have "ch_wf cfg s2"
    using g2 wf by (auto simp: ch_wf_def fr1 fr2 aw fl)
  with run show thesis
    by (rule that) (simp_all add: at1 at2 fr1 fr2 aw fl rq)
qed

text \<open>A valid answer of \<^verbatim>\<open>GetReadyCommand\<close> meets these conditions.\<close>

lemma GetReadyCommand_ready:
  assumes "cfg_wf cfg" and "ch_wf cfg s" and "valid_target cfg req"
    and "GetReadyCommand cfg s req clk = Inr rc" and "IsValid rc"
  shows "ready_spec cfg s clk rc"
  using ready_spec_rank [OF assms(1,2,3) _ assms(4,5)] ready_spec_bank [OF assms(2,3) _ assms(4,5)]
  by blast

lemma ready_spec_ok:
  assumes "ready_spec cfg s clk rc"
  shows "IsValid rc" and "valid_target cfg rc"
    and "b \<in> set (cmd_targets cfg rc) \<Longrightarrow> is_ok (bank_UpdateState rc (bank_of s b))"
    and "b \<in> set (issue_banks cfg rc) \<Longrightarrow> valid_bank cfg b"
    and "b \<in> set (issue_banks cfg rc) \<Longrightarrow> cmd_timing (bank_of s b) (cmd_type rc) \<le> clk"
    and "cmd_type rc = ACTIVATE \<Longrightarrow> ActivationWindowOk cfg s (Rank rc) clk = Inr True"
  using assms by (simp_all add: ready_spec_def)

lemma issue_ready_spec:
  assumes "ch_wf cfg s" and "ready_spec cfg s clk rc"
  shows "is_ok (UpdateTimingAndStates cfg tim rc clk s)"
  by (rule UpdateTimingAndStates_spec [OF assms(1) ready_spec_ok(2,1,3) [OF assms(2)], of tim clk]) auto

lemma issue_effect:
  assumes wf: "ch_wf cfg s" and rs: "ready_spec cfg s clk rc"
    and run: "UpdateTimingAndStates cfg tim rc clk s = Inr s'"
  shows "ch_wf cfg s'"
    and "valid_bank cfg b \<Longrightarrow> bank_of s' b = apply_timings (imposed tim rc b) clk
      (if b \<in> set (cmd_targets cfg rc) then next_bank rc (bank_of s b) else bank_of s b)"
    and "rank_is_sref s' = (if cmd_type rc = SREF_ENTER then (rank_is_sref s)[nat (Rank rc) := True]
      else if cmd_type rc = SREF_EXIT then (rank_is_sref s)[nat (Rank rc) := False] else rank_is_sref s)"
    and "refresh_q s' = (if cmd_type rc = REFRESH then erase_first (\<lambda>c. Rank c = Rank rc) (refresh_q s)
      else if cmd_type rc = REFRESH_BANK then erase_first (\<lambda>c. Rank c = Rank rc \<and>
        Bankgroup c = Bankgroup rc \<and> Bank c = Bank rc) (refresh_q s) else refresh_q s)"
    and "rank_idle_cycles s' = rank_idle_cycles s"
    and "four_aw s' = (if cmd_type rc = ACTIVATE
      then (four_aw s)[nat (Rank rc) := aw_push (tFAW cfg) clk (four_aw s ! nat (Rank rc))]
      else four_aw s)"
    and "thirty_two_aw s' = (if cmd_type rc = ACTIVATE \<and> IsGDDR cfg
      then (thirty_two_aw s)[nat (Rank rc) := aw_push (t32AW cfg) clk (thirty_two_aw s ! nat (Rank rc))]
      else thirty_two_aw s)"
  by (rule UpdateTimingAndStates_spec [OF wf ready_spec_ok(2,1,3) [OF rs], of tim clk];
      simp add: run)+

section \<open>Requests that never abort\<close>

lemma rank_ready_loop_ok:
  assumes "grid cfg bs" and "\<And>b. b \<in> set ids \<Longrightarrow> valid_bank cfg b"
    and "\<And>b. b \<in> set ids \<Longrightarrow> is_ok (bank_GetReadyCommand (bank_at bs b) cmd clk)"
  shows "is_ok (rank_ready_loop cfg bs cmd clk ids rc n)"
  using assms(2,3)
proof (induction ids arbitrary: rc n)
  case (Cons b ids)
  have "bank_get bs b = Inr (bank_at bs b)" using bank_get_valid [OF assms(1)] Cons.prems(1) by simp
  moreover obtain r0 where "bank_GetReadyCommand (bank_at bs b) cmd clk = Inr r0"
    using Cons.prems(2) [of b] by (auto simp: is_ok_iff)
  moreover have "is_ok (rank_ready_loop cfg bs cmd clk ids rc' n')" for rc' n'
    by (rule Cons.IH) (use Cons.prems in auto)
  ultimately show ?case by (cases b) (simp del: bank_get.simps bank_at.simps)
qed simp

lemma rank_ready_loop_invalid:
  "rank_ready_loop cfg bs cmd clk ids rc n = Inr rc' \<Longrightarrow> (IsValid rc \<or> rc = Command_default) \<Longrightarrow>
     IsValid rc' \<or> rc' = Command_default"
proof (induction ids arbitrary: rc n)
  case (Cons b ids)
  obtain r j k where b: "b = (r, j, k)" by (cases b)
  from Cons.prems(1) obtain x r0 where x: "bank_get bs b = Inr x"
    and r0: "bank_GetReadyCommand x cmd clk = Inr r0"
    by (cases "bank_get bs b"; cases "bank_GetReadyCommand (projr (bank_get bs b)) cmd clk") auto
  have d: "IsValid r0 \<or> r0 = Command_default"
    using r0 by (auto simp: bank_GetReadyCommand_def res_simps IsValid_def)
  show ?case
  proof (cases "IsValid r0 \<and> cmd_type r0 \<noteq> cmd_type cmd")
    case True
    with Cons.prems(1) x r0 b have "rc' = r0\<lparr>addr := Address6 (-1) (Rank cmd) j k (-1) (-1)\<rparr>" by simp
    with True show ?thesis by (simp add: IsValid_def)
  next
    case False
    with Cons.prems(1) x r0 obtain n' where "rank_ready_loop cfg bs cmd clk ids r0 n' = Inr rc'"
      by (cases "IsValid r0") auto
    with Cons.IH d show ?thesis by blast
  qed
qed (auto split: if_splits)

lemma GetReadyCommand_invalid:
  "GetReadyCommand cfg s req clk = Inr rc \<Longrightarrow> IsValid rc \<or> rc = Command_default"
  by (auto simp: GetReadyCommand_def res_simps split: if_splits dest: rank_ready_loop_invalid)

lemma ActivationWindowOk_ok:
  "ch_wf cfg s \<Longrightarrow> 0 \<le> r \<Longrightarrow> r < ranks cfg \<Longrightarrow> is_ok (ActivationWindowOk cfg s r clk)"
  by (auto simp: ActivationWindowOk_def IsFAWReady_def Is32AWReady_def ch_wf_def vget_def)

lemma GetReadyCommand_ok:
  assumes wf: "ch_wf cfg s" and req: "request_ok cfg s req"
  shows "is_ok (GetReadyCommand cfg s req clk)"
proof (cases "IsRankCMD req")
  case True
  then have r: "0 \<le> Rank req" "Rank req < ranks cfg" and t: "cmd_type req \<in> {REFRESH, SREF_ENTER}"
    and ns: "\<not> rank_is_sref s ! nat (Rank req)"
    using req by (auto simp: request_ok_def valid_target_def command_query_defs)
  have "is_ok (bank_GetReadyCommand (bank_at (bank_states s) b) req clk)"
    if b: "b \<in> set (rank_banks cfg (Rank req))" for b
  proof -
    have vb: "valid_bank cfg b" "fst b = Rank req" using b rank_banks_iff [OF r] by auto
    with ns ch_wf_sref [OF wf vb(1)] have "bank_state (bank_of s b) \<noteq> SREF" by simp
    with t show ?thesis using bank_GetReadyCommand_ok [OF ch_wf_bank [OF wf vb(1)]]
      by (auto simp: bank_accepts_def bank_of_def)
  qed
  then show ?thesis using True rank_ready_loop_ok [OF ch_wf_grid [OF wf] rank_banks_valid [OF r]]
    by (simp add: GetReadyCommand_def)
next
  case False
  let ?b = "cmd_bank req"
  have vb: "valid_bank cfg ?b" using req False by (simp add: request_ok_def valid_target_def)
  then have r: "0 \<le> Rank req" "Rank req < ranks cfg" by (auto simp: cmd_bank_def)
  have "bank_accepts (bank_of s ?b) (cmd_type req)"
    using req False ch_wf_sref [OF wf vb]
    by (auto simp: request_ok_def bank_accepts_def command_query_defs cmd_bank_def)
  then obtain r0 where r0: "bank_GetReadyCommand (bank_of s ?b) req clk = Inr r0"
    using bank_GetReadyCommand_ok [OF ch_wf_bank [OF wf vb]] by (auto simp: is_ok_iff)
  show ?thesis
  proof (cases "IsValid r0")
    case True
    then have "Rank r0 = Rank req" using bank_ready_cases(3) [OF r0] by (simp add: Rank_def)
    moreover obtain ok where "ActivationWindowOk cfg s (Rank req) clk = Inr ok"
      using ActivationWindowOk_ok [OF wf r] by (auto simp: is_ok_iff)
    ultimately show ?thesis using False wf vb r0 True by (simp add: GetReadyCommand_def)
  qed (use False wf vb r0 in \<open>simp add: GetReadyCommand_def\<close>)
qed


section \<open>Executions of a channel\<close>

text \<open>
  The steps a controller makes on a channel, with the issued commands as a history, latest
  first: time advances, a refresh is requested, or the answer of
  \<^verbatim>\<open>GetReadyCommand\<close> is issued.
\<close>

type_synonym cmd_history = "(u64 \<times> Command) list"

inductive channel_run :: "Config \<Rightarrow> Timing \<Rightarrow> ChannelState \<Rightarrow> cmd_history \<Rightarrow> u64 \<Rightarrow> bool"
  for cfg :: Config and tim :: Timing where
  run_init: "channel_run cfg tim (ChannelState_new cfg) [] 0"
| run_tick: "channel_run cfg tim s h clk \<Longrightarrow> clk \<le> clk' \<Longrightarrow> channel_run cfg tim s h clk'"
| run_need_rank: "channel_run cfg tim s h clk \<Longrightarrow> 0 \<le> r \<Longrightarrow> r < ranks cfg \<Longrightarrow>
    channel_run cfg tim (RankNeedRefresh r True s) h clk"
| run_need_bank: "channel_run cfg tim s h clk \<Longrightarrow> valid_bank cfg (r, bg, ba) \<Longrightarrow>
    channel_run cfg tim (BankNeedRefresh r bg ba True s) h clk"
| run_issue: "channel_run cfg tim s h clk \<Longrightarrow> valid_target cfg req \<Longrightarrow>
    GetReadyCommand cfg s req clk = Inr rc \<Longrightarrow> IsValid rc \<Longrightarrow>
    UpdateTimingAndStates cfg tim rc clk s = Inr s' \<Longrightarrow>
    channel_run cfg tim s' ((clk, rc) # h) clk"

lemma ch_wf_RankNeedRefresh [wf_intros]:
  "ch_wf cfg s \<Longrightarrow> 0 \<le> r \<Longrightarrow> r < ranks cfg \<Longrightarrow> ch_wf cfg (RankNeedRefresh r True s)"
  by (auto simp: ch_wf_def RankNeedRefresh_def bank_of_def valid_target_def IsRankCMD_def Address6_def)

lemma ch_wf_BankNeedRefresh [wf_intros]:
  "ch_wf cfg s \<Longrightarrow> valid_bank cfg (r, bg, ba) \<Longrightarrow> ch_wf cfg (BankNeedRefresh r bg ba True s)"
  by (auto simp: ch_wf_def BankNeedRefresh_def bank_of_def valid_target_def IsRankCMD_def Address6_def
      cmd_bank_def)

lemma channel_run_wf:
  assumes "cfg_wf cfg" and "channel_run cfg tim s h clk"
  shows "ch_wf cfg s"
  using assms(2)
proof induction
  case (run_issue s h clk req rc s')
  show ?case
    by (rule issue_effect(1) [OF run_issue.IH GetReadyCommand_ready [OF assms(1) run_issue.IH
          run_issue.hyps(2,3,4)] run_issue.hyps(5)])
qed (auto intro: wf_intros)

subsection \<open>Timing constraints\<close>

text \<open>
  A history respects the tables when every command was issued no earlier than each earlier
  command allows on the banks it was checked against.
\<close>

fun timing_ok :: "Config \<Rightarrow> Timing \<Rightarrow> cmd_history \<Rightarrow> bool" where
  "timing_ok cfg tim [] = True"
| "timing_ok cfg tim ((clk, cmd) # h) \<longleftrightarrow>
     (\<forall>(clk', cmd')\<in>set h. \<forall>b\<in>set (issue_banks cfg cmd). \<forall>(t, d)\<in>set (imposed tim cmd' b).
        t = cmd_type cmd \<longrightarrow> clk' + of_int d \<le> clk) \<and>
     timing_ok cfg tim h"

definition recorded :: "Config \<Rightarrow> Timing \<Rightarrow> cmd_history \<Rightarrow> ChannelState \<Rightarrow> bool" where
  "recorded cfg tim h s \<longleftrightarrow>
     (\<forall>(clk', cmd')\<in>set h. \<forall>b. valid_bank cfg b \<longrightarrow> (\<forall>(t, d)\<in>set (imposed tim cmd' b).
        clk' + of_int d \<le> cmd_timing (bank_of s b) t))"

lemma recorded_step:
  assumes rec: "recorded cfg tim h s"
    and at: "\<And>b. valid_bank cfg b \<Longrightarrow> bank_of s' b = apply_timings (imposed tim cmd b) clk
      (if b \<in> S then next_bank cmd (bank_of s b) else bank_of s b)"
  shows "recorded cfg tim ((clk, cmd) # h) s'"
  unfolding recorded_def
proof (intro ballI, clarify)
  fix clk' cmd' b t d
  assume h: "(clk', cmd') \<in> set ((clk, cmd) # h)" and vb: "valid_bank cfg b"
    and td: "(t, d) \<in> set (imposed tim cmd' b)"
  let ?b = "if b \<in> S then next_bank cmd (bank_of s b) else bank_of s b"
  have keep: "cmd_timing (bank_of s b) t \<le> cmd_timing (bank_of s' b) t"
    using apply_timings_mono [of ?b t "imposed tim cmd b" clk] by (auto simp: at [OF vb])
  show "clk' + of_int d \<le> cmd_timing (bank_of s' b) t"
  proof (cases "(clk', cmd') = (clk, cmd)")
    case True
    with td show ?thesis by (auto simp: at [OF vb] intro: apply_timings_entry)
  next
    case False
    with h have "(clk', cmd') \<in> set h" by auto
    with rec vb td have "clk' + of_int d \<le> cmd_timing (bank_of s b) t"
      unfolding recorded_def by fast
    with keep show ?thesis by (rule order_trans [rotated])
  qed
qed


lemma timing_ok_suffix: "timing_ok cfg tim (h1 @ h) \<Longrightarrow> timing_ok cfg tim h"
proof (induction h1)
  case (Cons e h1)
  then show ?case by (cases e) simp
qed simp

lemma channel_run_recorded:
  assumes cw: "cfg_wf cfg" and "channel_run cfg tim s h clk"
  shows "recorded cfg tim h s \<and> timing_ok cfg tim h"
  using assms(2)
proof induction
  case (run_issue s h clk req rc s')
  have wf: "ch_wf cfg s" by (rule channel_run_wf [OF cw run_issue.hyps(1)])
  have rs: "ready_spec cfg s clk rc" by (rule GetReadyCommand_ready [OF cw wf run_issue.hyps(2,3,4)])
  have "recorded cfg tim ((clk, rc) # h) s'"
    by (rule recorded_step [OF conjunct1 [OF run_issue.IH] issue_effect(2) [OF wf rs run_issue.hyps(5)]])
  moreover have "clk' + of_int d \<le> clk"
    if "(clk', cmd') \<in> set h" "b \<in> set (issue_banks cfg rc)" "(cmd_type rc, d) \<in> set (imposed tim cmd' b)"
    for clk' cmd' b d
  proof -
    have "clk' + of_int d \<le> cmd_timing (bank_of s b) (cmd_type rc)"
      using run_issue.IH that ready_spec_ok(4) [OF rs] unfolding recorded_def by fast
    also have "\<dots> \<le> clk" by (rule ready_spec_ok(5) [OF rs that(2)])
    finally show ?thesis .
  qed
  ultimately show ?case using run_issue.IH by auto
qed (auto simp: recorded_def RankNeedRefresh_def BankNeedRefresh_def bank_of_def)

subsection \<open>Activation windows\<close>

text \<open>
  The contract of a sliding window of at most \<open>n\<close> activations per \<open>w\<close> cycles: a
  push is only made when the window is ready, drops the oldest entry when it has expired, and
  appends the expiry time of the new one.
\<close>

locale activation_window =
  fixes n :: nat and w :: u64
    and ready :: "u64 list \<Rightarrow> u64 \<Rightarrow> bool" and push :: "u64 \<Rightarrow> u64 list \<Rightarrow> u64 list"
  assumes size_pos: "0 < n"
    and ready_law: "ready aw clk \<Longrightarrow> length aw < n \<or> hd aw \<le> clk"
    and push_law: "push clk aw = (if aw \<noteq> [] \<and> hd aw \<le> clk then tl aw else aw) @ [clk + w]"
begin

definition window_inv :: "u64 list \<Rightarrow> u64 list \<Rightarrow> u64 \<Rightarrow> bool" where
  "window_inv aw acts now \<longleftrightarrow>
     (\<exists>k \<le> length acts. aw = map (\<lambda>t. t + w) (drop k acts) \<and> length aw \<le> n \<and>
        (\<forall>i<k. acts ! i + w \<le> now)) \<and>
     (\<forall>i. i + n < length acts \<longrightarrow> acts ! i + w \<le> acts ! (i + n))"

lemma window_inv_init: "window_inv [] [] now"
  by (simp add: window_inv_def)

lemma window_inv_tick: "window_inv aw acts now \<Longrightarrow> now \<le> now' \<Longrightarrow> window_inv aw acts now'"
proof -
  assume inv: "window_inv aw acts now" and le: "now \<le> now'"
  have "x \<le> now \<Longrightarrow> x \<le> now'" for x using le by (rule order_trans [rotated])
  with inv show ?thesis unfolding window_inv_def by blast
qed

lemma window_inv_spaced:
  "window_inv aw acts now \<Longrightarrow> i + n < length acts \<Longrightarrow> acts ! i + w \<le> acts ! (i + n)"
  by (simp add: window_inv_def)

lemma window_inv_push:
  assumes inv: "window_inv aw acts now" and rdy: "ready aw now"
  shows "window_inv (push now aw) (acts @ [now]) now"
proof -
  from inv obtain k where k: "k \<le> length acts" "aw = map (\<lambda>t. t + w) (drop k acts)" "length aw \<le> n"
    and old: "\<And>i. i < k \<Longrightarrow> acts ! i + w \<le> now"
    and sp: "\<And>i. i + n < length acts \<Longrightarrow> acts ! i + w \<le> acts ! (i + n)"
    unfolding window_inv_def by blast
  have hd: "aw \<noteq> [] \<Longrightarrow> hd aw = acts ! k + w \<and> k < length acts"
    using k by (auto simp: hd_map hd_drop_conv_nth)
  have new: "acts ! i + w \<le> now" if "i + n = length acts" for i
  proof (cases "i < k")
    case False
    with that k have "length aw = n" "i = k" by auto
    with size_pos have "aw \<noteq> []" by auto
    with hd ready_law [OF rdy] \<open>length aw = n\<close> \<open>i = k\<close> show ?thesis by auto
  qed (rule old)
  have sp': "(acts @ [now]) ! i + w \<le> (acts @ [now]) ! (i + n)" if i: "i + n < length (acts @ [now])" for i
  proof (cases "i + n < length acts")
    case False
    with i have e: "i + n = length acts" by simp
    with size_pos have "i < length acts" by simp
    with new [OF e] e show ?thesis by (simp add: nth_append)
  qed (simp add: nth_append sp)
  show ?thesis
  proof (cases "aw \<noteq> [] \<and> hd aw \<le> now")
    case True
    have "push now aw = map (\<lambda>t. t + w) (drop (Suc k) (acts @ [now]))"
      using True hd k by (simp add: push_law tl_drop map_tl drop_Suc flip: tl_drop)
    moreover have "length (push now aw) \<le> n" using True k(3) by (cases aw) (auto simp: push_law)
    moreover have "(acts @ [now]) ! i + w \<le> now" if "i < Suc k" for i
      using that True hd old by (cases "i = k") (auto simp: nth_append)
    ultimately show ?thesis
      using True hd sp' unfolding window_inv_def by (intro conjI exI [of _ "Suc k"]) auto
  next
    case False
    then have p: "push now aw = map (\<lambda>t. t + w) (drop k (acts @ [now]))"
      using k by (auto simp: push_law)
    have "length aw < n" using ready_law [OF rdy] False size_pos by (cases "aw = []") auto
    then have "length (push now aw) \<le> n" using False by (auto simp: push_law)
    moreover have "(acts @ [now]) ! i + w \<le> now" if "i < k" for i
      using that k old by (simp add: nth_append)
    ultimately show ?thesis
      using p k sp' unfolding window_inv_def by (intro conjI exI [of _ k]) auto
  qed
qed

end

definition aw_ready :: "nat \<Rightarrow> u64 list \<Rightarrow> u64 \<Rightarrow> bool" where
  "aw_ready n aw clk \<longleftrightarrow> \<not> (aw \<noteq> [] \<and> clk < hd aw \<and> n \<le> length aw)"

interpretation faw: activation_window 4 "of_int (tFAW cfg)" "aw_ready 4" "aw_push (tFAW cfg)" for cfg :: Config
  by unfold_locales (auto simp: aw_ready_def aw_push_def)

interpretation taw: activation_window 32 "of_int (t32AW cfg)" "aw_ready 32" "aw_push (t32AW cfg)" for cfg :: Config
  by unfold_locales (auto simp: aw_ready_def aw_push_def)

lemma window_ready:
  assumes "ActivationWindowOk cfg s r clk = Inr True"
  shows "aw_ready 4 (four_aw s ! nat r) clk" and "IsGDDR cfg \<Longrightarrow> aw_ready 32 (thirty_two_aw s ! nat r) clk"
  using assms by (auto simp: ActivationWindowOk_def IsFAWReady_def Is32AWReady_def aw_ready_def
      res_simps split: if_splits)

text \<open>The activations of a rank in the order they were issued.\<close>

definition rank_acts :: "cmd_history \<Rightarrow> int \<Rightarrow> u64 list" where
  "rank_acts h r = map fst (filter (\<lambda>(_, c). cmd_type c = ACTIVATE \<and> Rank c = r) (rev h))"

lemma rank_acts_simps [simp]:
  "rank_acts [] r = []"
  "rank_acts ((clk, c) # h) r = rank_acts h r @ (if cmd_type c = ACTIVATE \<and> Rank c = r then [clk] else [])"
  by (simp_all add: rank_acts_def)

lemma channel_run_windows:
  assumes cw: "cfg_wf cfg" and "channel_run cfg tim s h clk" and r: "0 \<le> r" "r < ranks cfg"
  shows "faw.window_inv cfg (four_aw s ! nat r) (rank_acts h r) clk \<and>
    (IsGDDR cfg \<longrightarrow> taw.window_inv cfg (thirty_two_aw s ! nat r) (rank_acts h r) clk)"
  using assms(2)
proof induction
  case run_init
  then show ?case using r by (simp add: ChannelState_new_def faw.window_inv_init taw.window_inv_init)
next
  case (run_tick s h clk clk')
  then show ?case using faw.window_inv_tick taw.window_inv_tick by blast
next
  case (run_issue s h clk req rc s')
  have wf: "ch_wf cfg s" by (rule channel_run_wf [OF cw run_issue.hyps(1)])
  have rs: "ready_spec cfg s clk rc" by (rule GetReadyCommand_ready [OF cw wf run_issue.hyps(2,3,4)])
  note eff = issue_effect(6,7) [OF wf rs run_issue.hyps(5)]
  have len: "nat r < length (four_aw s)" "nat r < length (thirty_two_aw s)"
    using wf r by (simp_all add: ch_wf_def)
  show ?case
  proof (cases "cmd_type rc = ACTIVATE \<and> Rank rc = r")
    case True
    then have "ActivationWindowOk cfg s r clk = Inr True" using ready_spec_ok(6) [OF rs] by auto
    note rdy = window_ready [OF this]
    show ?thesis
      using True eff len run_issue.IH rdy faw.window_inv_push taw.window_inv_push by auto
  next
    case False
    have "four_aw s' ! nat r = four_aw s ! nat r" "thirty_two_aw s' ! nat r = thirty_two_aw s ! nat r"
      if "cmd_type rc = ACTIVATE"
    proof -
      have "nat (Rank rc) \<noteq> nat r"
        using False that r ready_spec_ok(2) [OF rs]
        by (auto simp: valid_target_def IsRankCMD_def cmd_bank_def)
      then show "four_aw s' ! nat r = four_aw s ! nat r" "thirty_two_aw s' ! nat r = thirty_two_aw s ! nat r"
        by (simp_all add: eff)
    qed
    then show ?thesis using False run_issue.IH by (cases "cmd_type rc = ACTIVATE") (auto simp: eff)
  qed
qed (auto simp: RankNeedRefresh_def BankNeedRefresh_def)

section \<open>Replaying a list of requests\<close>

text \<open>
  An executable counterpart of \<open>channel_run\<close>: every request is offered at its time and its
  answer, when valid, is issued.
\<close>

fun replay :: "Config \<Rightarrow> Timing \<Rightarrow> (u64 \<times> Command) list \<Rightarrow> ChannelState \<Rightarrow> cmd_history \<Rightarrow> u64 \<Rightarrow>
  (ChannelState \<times> cmd_history \<times> u64) res" where
  "replay cfg tim [] s h clk = Inr (s, h, clk)"
| "replay cfg tim ((c, req) # reqs) s h clk =
     (if c < clk \<or> \<not> valid_target cfg req then Inl OutOfRange
      else res_bind (GetReadyCommand cfg s req c) (\<lambda>rc.
        if \<not> IsValid rc then replay cfg tim reqs s h c
        else res_bind (UpdateTimingAndStates cfg tim rc c s) (\<lambda>s'.
          replay cfg tim reqs s' ((c, rc) # h) c)))"

lemma replay_run:
  "replay cfg tim reqs s h clk = Inr (s', h', clk') \<Longrightarrow> channel_run cfg tim s h clk \<Longrightarrow>
     channel_run cfg tim s' h' clk'"
proof (induction reqs arbitrary: s h clk)
  case (Cons x reqs)
  obtain c req where x: "x = (c, req)" by (cases x)
  have c: "\<not> c < clk" "valid_target cfg req"
    using Cons.prems(1) x by (cases "c < clk \<or> \<not> valid_target cfg req"; simp)+
  obtain rc where rc: "GetReadyCommand cfg s req c = Inr rc"
    using Cons.prems(1) x c by (cases "GetReadyCommand cfg s req c") simp_all
  have rest: "(if \<not> IsValid rc then replay cfg tim reqs s h c
      else res_bind (UpdateTimingAndStates cfg tim rc c s) (\<lambda>s1.
        replay cfg tim reqs s1 ((c, rc) # h) c)) = Inr (s', h', clk')"
    using Cons.prems(1) unfolding x replay.simps rc res_bind_Inr by (simp only: c simp_thms if_False)
  have t: "channel_run cfg tim s h c" by (rule run_tick [OF Cons.prems(2)]) (use c(1) in simp)
  show ?case
  proof (cases "IsValid rc")
    case True
    with rest obtain s1 where s1: "UpdateTimingAndStates cfg tim rc c s = Inr s1"
      "replay cfg tim reqs s1 ((c, rc) # h) c = Inr (s', h', clk')"
      by (cases "UpdateTimingAndStates cfg tim rc c s") simp_all
    show ?thesis by (rule Cons.IH [OF s1(2) run_issue [OF t c(2) rc True s1(1)]])
  qed (use rest t Cons.IH in simp)
qed simp

text \<open>The history a list of requests leaves on a fresh channel.\<close>

definition replay_new :: "Config \<Rightarrow> (u64 \<times> Command) list \<Rightarrow> cmd_history res" where
  "replay_new cfg reqs = res_bind (replay cfg (Timing_new cfg) reqs (ChannelState_new cfg) [] 0)
     (\<lambda>(s, h, clk). Inr h)"

lemma replay_new_run:
  assumes "replay_new cfg reqs = Inr h"
  obtains s clk where "channel_run cfg (Timing_new cfg) s h clk"
proof -
  from assms obtain s clk where "replay cfg (Timing_new cfg) reqs (ChannelState_new cfg) [] 0 = Inr (s, h, clk)"
    by (auto simp: replay_new_def res_simps)
  from that [OF replay_run [OF this run_init]] show thesis .
qed

section \<open>Example executions\<close>

definition bank_read :: "int \<Rightarrow> Command" where
  "bank_read k = mk_Command READ (Address6 0 0 0 k 5 0) 0"

definition bank_act :: "int \<Rightarrow> Command" where
  "bank_act k = mk_Command ACTIVATE (Address6 0 0 0 k 5 0) 0"

lemmas channel_eval =
  replay_new_def GetReadyCommand_def bank_GetReadyCommand_def ChannelState_new_def cmd_bank_def
  vget_def vset_def vupd_def Address6_def command_query_defs BankState_new_def required_type_def
  IsFAWReady_def ActivationWindowOk_def UpdateTimingAndStates_def UpdateState_def UpdateTiming_def
  UpdateActivationTimes_def aw_push_def bank_UpdateState_def bank_UpdateTiming_def upd_timings_def
  UpdateSameBankTiming_def UpdateOtherBanksSameBankgroupTiming_def
  UpdateOtherBankgroupsSameRankTiming_def UpdateOtherRanksTiming_def valid_target_def irange_def
  timing_table_defs timing_delay_defs Let_def upt_conv_Cons max_def mk_Command_def command_addr_defs
  bank_read_def bank_act_def

lemma replay_read:
  "replay_new two_bank_config [(0, bank_read 1), (14, bank_read 1)] = Inr [(14, bank_read 1), (0, bank_act 1)]"
  by (simp add: channel_eval)

lemma replay_five:
  "replay_new five_bank_config [(0, bank_read 0), (6, bank_read 1), (12, bank_read 2), (18, bank_read 3),
      (24, bank_read 4), (30, bank_read 4)] =
    Inr [(30, bank_act 4), (18, bank_act 3), (12, bank_act 2), (6, bank_act 1), (0, bank_act 0)]"
  by (simp add: channel_eval)

lemma sample_cfg_wf: "cfg_wf hbm2_config" "cfg_wf two_bank_config" "cfg_wf five_bank_config"
  by (simp_all add: cfg_wf_def)

section \<open>Properties\<close>

text \<open>C10. Timing safety. In every execution of a channel, take an issued command and any
  later one. If the first command imposes a delay of \<open>d\<close> cycles on the type of the second at a
  bank the second was issued to, and the time stamps do not wrap, then at least \<open>d\<close> cycles
  lie between them: the simulated device never violates an entry of the timing tables.\<close>

theorem channel_timing_safety:
  assumes "cfg_wf cfg" and "channel_run cfg tim s (h1 @ (c2, cmd2) # h2 @ (c1, cmd1) # h3) clk"
    and "b \<in> set (issue_banks cfg cmd2)" and "(cmd_type cmd2, d) \<in> set (imposed tim cmd1 b)"
    and "0 \<le> d" and "uint c1 + d < 2 ^ 64"
  shows "uint c1 + d \<le> uint c2"
proof -
  have "timing_ok cfg tim (h1 @ (c2, cmd2) # h2 @ (c1, cmd1) # h3)"
    using channel_run_recorded [OF assms(1,2)] by simp
  then have "timing_ok cfg tim ((c2, cmd2) # h2 @ (c1, cmd1) # h3)" by (rule timing_ok_suffix)
  then have "\<forall>(t, d)\<in>set (imposed tim cmd1 b). t = cmd_type cmd2 \<longrightarrow> c1 + of_int d \<le> c2"
    using assms(3) by simp
  then have "c1 + of_int d \<le> c2" using assms(4) by fast
  moreover have "uint (c1 + of_int d) = uint c1 + d"
    using assms(5,6) by (simp add: uint_word_ariths uint_word_of_int take_bit_eq_mod mod_simps)
  ultimately show ?thesis by (simp add: word_le_def)
qed

theorem channel_timing_safety_witness:
  "\<exists>s clk. channel_run two_bank_config (Timing_new two_bank_config) s [(14, bank_read 1), (0, bank_act 1)] clk \<and>
     uint (0 :: u64) + 14 \<le> uint (14 :: u64)"
proof -
  obtain s clk where "channel_run two_bank_config (Timing_new two_bank_config) s [(14, bank_read 1), (0, bank_act 1)] clk"
    using replay_new_run [OF replay_read] .
  with channel_timing_safety [of two_bank_config "Timing_new two_bank_config" s "[]" 14 "bank_read 1" "[]" 0
      "bank_act 1" "[]" clk "(0, 0, 1)" 14] sample_cfg_wf(2)
  show ?thesis by (simp add: channel_eval issue_banks_def) blast
qed

text \<open>C11. Activation windows. In every execution the fifth activation of a rank after any
  activation comes no earlier than its four-activate window allows, and on GDDR devices the
  thirty-third no earlier than the 32-activate window allows.\<close>

theorem channel_activation_windows:
  assumes "cfg_wf cfg" and "channel_run cfg tim s h clk" and "0 \<le> r" and "r < ranks cfg"
  shows "(\<forall>i. i + 4 < length (rank_acts h r) \<longrightarrow>
      rank_acts h r ! i + of_int (tFAW cfg) \<le> rank_acts h r ! (i + 4)) \<and>
    (IsGDDR cfg \<longrightarrow> (\<forall>i. i + 32 < length (rank_acts h r) \<longrightarrow>
      rank_acts h r ! i + of_int (t32AW cfg) \<le> rank_acts h r ! (i + 32)))"
  using channel_run_windows [OF assms] faw.window_inv_spaced taw.window_inv_spaced by blast

theorem channel_activation_windows_witness:
  "\<exists>s clk. channel_run five_bank_config (Timing_new five_bank_config) s
     [(30, bank_act 4), (18, bank_act 3), (12, bank_act 2), (6, bank_act 1), (0, bank_act 0)] clk \<and>
     (0 :: u64) + 30 \<le> 30"
proof -
  obtain s clk where "channel_run five_bank_config (Timing_new five_bank_config) s
     [(30, bank_act 4), (18, bank_act 3), (12, bank_act 2), (6, bank_act 1), (0, bank_act 0)] clk"
    using replay_new_run [OF replay_five] .
  with channel_activation_windows [OF sample_cfg_wf(3) this, of 0]
  show ?thesis by (force simp: bank_act_def Rank_def Address6_def)
qed

text \<open>C12. Progress without aborts. In every execution, a read or write to an existing bank, or
  a refresh or self-refresh entry on a rank that is not in self refresh, gets an answer from
  \<^verbatim>\<open>GetReadyCommand\<close>; a valid answer can be issued and leaves a well-formed
  channel.\<close>

theorem channel_issue_never_aborts:
  assumes "cfg_wf cfg" and "channel_run cfg tim s h clk" and "request_ok cfg s req"
  shows "\<exists>rc. GetReadyCommand cfg s req clk = Inr rc \<and>
    (if IsValid rc then \<exists>s'. UpdateTimingAndStates cfg tim rc clk s = Inr s' \<and> ch_wf cfg s' else rc = Command_default)"
proof -
  have wf: "ch_wf cfg s" by (rule channel_run_wf [OF assms(1,2)])
  obtain rc where rc: "GetReadyCommand cfg s req clk = Inr rc"
    using GetReadyCommand_ok [OF wf assms(3)] by (auto simp: is_ok_iff)
  have vt: "valid_target cfg req" using assms(3) by (simp add: request_ok_def)
  show ?thesis
  proof (cases "IsValid rc")
    case True
    note rs = GetReadyCommand_ready [OF assms(1) wf vt rc True]
    obtain s' where "UpdateTimingAndStates cfg tim rc clk s = Inr s'"
      using issue_ready_spec [OF wf rs] by (auto simp: is_ok_iff)
    with issue_effect(1) [OF wf rs this] rc True show ?thesis by auto
  next
    case False
    with GetReadyCommand_invalid [OF rc] rc show ?thesis by auto
  qed
qed

theorem channel_issue_never_aborts_witness:
  "\<exists>rc. GetReadyCommand hbm2_config (ChannelState_new hbm2_config) (bank_read 2) 0 = Inr rc \<and>
    (if IsValid rc then \<exists>s'. UpdateTimingAndStates hbm2_config (Timing_new hbm2_config) rc 0 (ChannelState_new hbm2_config) = Inr s' \<and>
       ch_wf hbm2_config s' else rc = Command_default)"
  by (rule channel_issue_never_aborts [OF sample_cfg_wf(1) run_init])
    (simp add: request_ok_def channel_eval)

text \<open>C13. \<^verbatim>\<open>UpdateTimingAndStates\<close> implements its specification bank by bank:
  after issuing a ready command the earliest time of each command type on each bank is the
  old one raised to every delay that the command imposes there, and to nothing else.\<close>

theorem issue_timing_refinement:
  assumes "ch_wf cfg s" and "ready_spec cfg s clk rc" and "UpdateTimingAndStates cfg tim rc clk s = Inr s'"
    and "valid_bank cfg b"
  shows "cmd_timing (bank_of s' b) t =
    fold max [clk + of_int d. (t', d) \<leftarrow> imposed tim rc b, t' = t] (cmd_timing (bank_of s b) t)"
proof -
  have "cmd_timing (apply_timings l clk x) t =
    fold max [clk + of_int d. (t', d) \<leftarrow> l, t' = t] (cmd_timing x t)" for l x
    by (induction l arbitrary: x) (auto simp: max.commute)
  then show ?thesis
    using issue_effect(2) [OF assms(1,2,3,4)] by (cases "b \<in> set (cmd_targets cfg rc)") simp_all
qed

theorem issue_timing_refinement_witness:
  "\<exists>s'. UpdateTimingAndStates two_bank_config (Timing_new two_bank_config) (bank_act 1) 0 (ChannelState_new two_bank_config) = Inr s' \<and>
     cmd_timing (bank_of s' (0, 0, 1)) READ = 14"
proof -
  let ?s = "ChannelState_new two_bank_config"
  have rs: "ready_spec two_bank_config ?s 0 (bank_act 1)"
    by (rule GetReadyCommand_ready [OF sample_cfg_wf(2) ch_wf_new, of "bank_read 1"])
      (simp_all add: channel_eval)
  obtain s' where s': "UpdateTimingAndStates two_bank_config (Timing_new two_bank_config) (bank_act 1) 0 ?s = Inr s'"
    using issue_ready_spec [OF ch_wf_new rs] by (auto simp: is_ok_iff)
  from issue_timing_refinement [OF ch_wf_new rs s', of "(0, 0, 1)" READ] s'
  show ?thesis by (simp add: channel_eval bank_of_def)
qed

text \<open>C20. A request for \<^verbatim>\<open>SREF_EXIT\<close>, which the controller makes to wake up a
  rank, is not handled by \<^verbatim>\<open>BankState::GetReadyCommand\<close> in any state: the
  simulation aborts on it.\<close>

theorem sref_exit_request_aborts:
  assumes "cfg_wf cfg" and "ch_wf cfg s" and "cmd_type req = SREF_EXIT" and "valid_target cfg req"
  shows "GetReadyCommand cfg s req clk = Inl (AbruptExit ''bankstate.cc'')"
proof -
  have r: "0 \<le> Rank req" "Rank req < ranks cfg" and rk: "IsRankCMD req"
    using assms(3,4) by (auto simp: valid_target_def IsRankCMD_def)
  obtain b ids where ids: "rank_banks cfg (Rank req) = b # ids"
    using cfg_wf_banks [OF assms(1), of "Rank req"] by (cases "rank_banks cfg (Rank req)") auto
  have vb: "valid_bank cfg b" using rank_banks_valid [OF r, of b] ids by simp
  have "required_type (bank_of s b) req = Inl (AbruptExit ''bankstate.cc'')"
    using assms(3) by (simp add: required_type_def split: BankStatus.split)
  with rk ids ch_get [OF assms(2) vb] show ?thesis
    by (simp add: GetReadyCommand_def bank_GetReadyCommand_def del: bank_get.simps)
qed

theorem sref_exit_request_aborts_witness:
  "GetReadyCommand hbm2_config (ChannelState_new hbm2_config)
     (mk_Command SREF_EXIT (Address6 0 0 (-1) (-1) (-1) (-1)) (-1)) 0 = Inl (AbruptExit ''bankstate.cc'')"
  by (rule sref_exit_request_aborts [OF sample_cfg_wf(1) ch_wf_new])
    (simp_all add: valid_target_def IsRankCMD_def Address6_def)

text \<open>C21. A bank-level refresh does not delay any command on the bank that is refreshed: the
  entries with \<^verbatim>\<open>tRFCb\<close> are in the table for whole ranks, which
  \<^verbatim>\<open>UpdateTiming\<close> does not consult for \<^verbatim>\<open>REFRESH_BANK\<close>.\<close>

theorem refresh_bank_leaves_bank_timing:
  assumes "ch_wf cfg s" and "ready_spec cfg s clk rc" and "cmd_type rc = REFRESH_BANK"
    and "UpdateTimingAndStates cfg (Timing_new cfg) rc clk s = Inr s'"
  shows "cmd_timing (bank_of s' (cmd_bank rc)) = cmd_timing (bank_of s (cmd_bank rc))"
proof -
  have vb: "valid_bank cfg (cmd_bank rc)"
    using ready_spec_ok(2) [OF assms(2)] assms(3) by (simp add: valid_target_def IsRankCMD_def)
  have "imposed (Timing_new cfg) rc (cmd_bank rc) = []"
    using assms(3) by (simp add: cmd_bank_def IsRankCMD_def same_bank_table_def)
  then show ?thesis using issue_effect(2) [OF assms(1,2,4) vb] by simp
qed

theorem refresh_bank_leaves_bank_timing_witness:
  "\<exists>s'. UpdateTimingAndStates hbm2_config (Timing_new hbm2_config)
       (mk_Command REFRESH_BANK (Address6 0 0 1 1 (-1) (-1)) (-1)) 0 (ChannelState_new hbm2_config) = Inr s' \<and>
     cmd_timing (bank_of s' (0, 1, 1)) ACTIVATE = 0"
proof -
  let ?s = "ChannelState_new hbm2_config" and ?c = "mk_Command REFRESH_BANK (Address6 0 0 1 1 (-1) (-1)) (-1)"
  have rs: "ready_spec hbm2_config ?s 0 ?c"
    by (rule GetReadyCommand_ready [OF sample_cfg_wf(1) ch_wf_new, of ?c]) (simp_all add: channel_eval)
  obtain s' where s': "UpdateTimingAndStates hbm2_config (Timing_new hbm2_config) ?c 0 ?s = Inr s'"
    using issue_ready_spec [OF ch_wf_new rs] by (auto simp: is_ok_iff)
  have "cmd_timing (bank_of s' (cmd_bank ?c)) = cmd_timing (bank_of ?s (cmd_bank ?c))"
    by (rule refresh_bank_leaves_bank_timing [OF ch_wf_new rs _ s']) simp
  with s' show ?thesis by (simp add: bank_at_new cmd_bank_def command_addr_defs Address6_def BankState_new_def)
qed

end
