(* ===== verification/Dram_Refresh.thy ===== *)
theory Dram_Refresh
  imports Dram_Channel_Run
begin

text \<open>
  \<^verbatim>\<open>dramsim3/src/refresh.h\<close> and \<^verbatim>\<open>refresh.cc\<close>: the counter that
  asks for a refresh every interval. The channel it refers to is threaded through the
  operations. Lemmas: the staggered policies go round all ranks or banks, a tick never fails
  on a well-formed state and inserts at most one refresh.
\<close>

section \<open>State and operations\<close>

record Refresh =
  ref_clk :: u64
  refresh_interval :: int
  ref_policy :: RefreshPolicy
  next_rank :: int
  next_bg :: int
  next_bank_idx :: int

definition Refresh_new :: "Config \<Rightarrow> Refresh res" where
  "Refresh_new cfg =
     res_bind (if refresh_policy cfg = RANK_LEVEL_SIMULTANEOUS then Inr (tREFI cfg)
               else if refresh_policy cfg = BANK_LEVEL_STAGGERED then Inr (tREFIb cfg)
               else idiv (tREFI cfg) (ranks cfg)) (\<lambda>interval.
       Inr \<lparr>ref_clk = 0, refresh_interval = interval, ref_policy = refresh_policy cfg,
         next_rank = 0, next_bg = 0, next_bank_idx = 0\<rparr>)"

definition imod :: "int \<Rightarrow> int \<Rightarrow> int res" where
  "imod a b = (if b = 0 then Inl DivisionByZero else Inr (a smod b))"

definition IterateNext :: "Config \<Rightarrow> Refresh \<Rightarrow> Refresh res" where
  "IterateNext cfg r =
     (case ref_policy r of
        RANK_LEVEL_STAGGERED \<Rightarrow>
          res_bind (imod (next_rank r + 1) (ranks cfg)) (\<lambda>nr. Inr (r\<lparr>next_rank := nr\<rparr>))
      | BANK_LEVEL_STAGGERED \<Rightarrow>
          res_bind (imod (next_bg r + 1) (bankgroups cfg)) (\<lambda>bg.
            let r1 = r\<lparr>next_bg := bg\<rparr> in
            if bg = 0 then
              res_bind (imod (next_bank_idx r1 + 1) (banks_per_group cfg)) (\<lambda>ba.
                let r2 = r1\<lparr>next_bank_idx := ba\<rparr> in
                if ba = 0 then
                  res_bind (imod (next_rank r2 + 1) (ranks cfg)) (\<lambda>nr. Inr (r2\<lparr>next_rank := nr\<rparr>))
                else Inr r2)
            else Inr r1)
      | _ \<Rightarrow> Inl (AbruptExit ''refresh.cc''))"

text \<open>The loop of the simultaneous policy, which stops at the first rank it refreshes.\<close>

fun simultaneous_loop :: "int list \<Rightarrow> ChannelState \<Rightarrow> ChannelState res" where
  "simultaneous_loop [] ch = Inr ch"
| "simultaneous_loop (i # is) ch =
     res_bind (IsRankSelfRefreshing ch i) (\<lambda>sref.
       if \<not> sref then Inr (RankNeedRefresh i True ch) else simultaneous_loop is ch)"

definition InsertRefresh :: "Config \<Rightarrow> Refresh \<Rightarrow> ChannelState \<Rightarrow> (Refresh \<times> ChannelState) res" where
  "InsertRefresh cfg r ch =
     (case ref_policy r of
        RANK_LEVEL_SIMULTANEOUS \<Rightarrow>
          res_bind (simultaneous_loop (irange (ranks cfg)) ch) (\<lambda>ch'. Inr (r, ch'))
      | RANK_LEVEL_STAGGERED \<Rightarrow>
          res_bind (IsRankSelfRefreshing ch (next_rank r)) (\<lambda>sref.
            let ch' = (if \<not> sref then RankNeedRefresh (next_rank r) True ch else ch)
            in res_bind (IterateNext cfg r) (\<lambda>r'. Inr (r', ch')))
      | BANK_LEVEL_STAGGERED \<Rightarrow>
          res_bind (IsRankSelfRefreshing ch (next_rank r)) (\<lambda>sref.
            let ch' = (if \<not> sref then BankNeedRefresh (next_rank r) (next_bg r) (next_bank_idx r) True ch else ch)
            in res_bind (IterateNext cfg r) (\<lambda>r'. Inr (r', ch')))
      | _ \<Rightarrow> Inl (AbruptExit ''refresh.cc''))"

definition refresh_ClockTick :: "Config \<Rightarrow> Refresh \<Rightarrow> ChannelState \<Rightarrow> (Refresh \<times> ChannelState) res" where
  "refresh_ClockTick cfg r ch =
     (if (of_int (refresh_interval r) :: u64) = 0 then Inl DivisionByZero
      else res_bind
        (if ref_clk r mod of_int (refresh_interval r) = 0 \<and> ref_clk r > 0
         then InsertRefresh cfg r ch else Inr (r, ch)) (\<lambda>(r', ch').
        Inr (r'\<lparr>ref_clk := ref_clk r' + 1\<rparr>, ch')))"

section \<open>Invariant\<close>

definition refresh_wf :: "Config \<Rightarrow> Refresh \<Rightarrow> bool" where
  "refresh_wf cfg r \<longleftrightarrow> ref_policy r \<noteq> RefreshPolicy_SIZE \<and>
     (of_int (refresh_interval r) :: u64) \<noteq> 0 \<and>
     valid_bank cfg (next_rank r, next_bg r, next_bank_idx r)"

lemma imod_nonneg: "0 \<le> a \<Longrightarrow> 0 < b \<Longrightarrow> imod a b = Inr (a mod b)"
  by (cases "a = 0") (simp_all add: imod_def signed_modulo_int_def)

lemma mod_step: "0 \<le> (a::int) \<Longrightarrow> a < b \<Longrightarrow> (a + 1) mod b = (if a + 1 = b then 0 else a + 1)"
  by auto

text \<open>The place of the next refresh in the round.\<close>

definition refresh_pos :: "Config \<Rightarrow> Refresh \<Rightarrow> nat" where
  "refresh_pos cfg r =
     (if ref_policy r = RANK_LEVEL_STAGGERED then nat (next_rank r)
      else nat (next_bg r + bankgroups cfg * (next_bank_idx r + banks_per_group cfg * next_rank r)))"

definition refresh_round :: "Config \<Rightarrow> RefreshPolicy \<Rightarrow> nat" where
  "refresh_round cfg pol =
     (if pol = RANK_LEVEL_STAGGERED then nat (ranks cfg)
      else nat (bankgroups cfg * (banks_per_group cfg * ranks cfg)))"

definition staggered :: "Config \<Rightarrow> RefreshPolicy \<Rightarrow> Refresh \<Rightarrow> bool" where
  "staggered cfg pol r \<longleftrightarrow> refresh_wf cfg r \<and> ref_policy r = pol \<and>
     pol \<in> {RANK_LEVEL_STAGGERED, BANK_LEVEL_STAGGERED}"

lemma mixed_radix_less:
  assumes "0 \<le> (a::int)" "a < A" "0 \<le> b" "b < B"
  shows "a + A * b < A * B"
proof -
  have "A * (b + 1) \<le> A * B" using assms by (intro mult_left_mono) auto
  then show ?thesis using assms by (simp add: algebra_simps)
qed

lemma refresh_pos_bound: "staggered cfg pol r \<Longrightarrow> refresh_pos cfg r < refresh_round cfg pol"
proof -
  assume s: "staggered cfg pol r"
  then have v: "0 \<le> next_rank r" "next_rank r < ranks cfg" "0 \<le> next_bg r" "next_bg r < bankgroups cfg"
    "0 \<le> next_bank_idx r" "next_bank_idx r < banks_per_group cfg" by (auto simp: staggered_def refresh_wf_def)
  have in_rank: "next_bank_idx r + banks_per_group cfg * next_rank r < banks_per_group cfg * ranks cfg"
    using v by (intro mixed_radix_less)
  have "0 \<le> next_bank_idx r + banks_per_group cfg * next_rank r" using v by simp
  with v in_rank have "next_bg r + bankgroups cfg * (next_bank_idx r + banks_per_group cfg * next_rank r)
      < bankgroups cfg * (banks_per_group cfg * ranks cfg)" by (intro mixed_radix_less)
  moreover have "0 \<le> next_bg r + bankgroups cfg * (next_bank_idx r + banks_per_group cfg * next_rank r)"
    using v by simp
  ultimately have lt: "nat (next_bg r + bankgroups cfg * (next_bank_idx r + banks_per_group cfg * next_rank r))
      < nat (bankgroups cfg * (banks_per_group cfg * ranks cfg))" by (subst nat_less_eq_zless)
  have pol: "ref_policy r = pol" using s by (simp add: staggered_def)
  show ?thesis
  proof (cases "pol = RANK_LEVEL_STAGGERED")
    case True
    then show ?thesis using v(1,2) by (simp add: refresh_pos_def refresh_round_def pol)
  next
    case False
    with lt show ?thesis by (simp only: refresh_pos_def refresh_round_def pol if_False)
  qed
qed

lemma IterateNext_rank:
  assumes s: "staggered cfg RANK_LEVEL_STAGGERED r"
  shows "\<exists>r'. IterateNext cfg r = Inr r' \<and> staggered cfg RANK_LEVEL_STAGGERED r' \<and>
    refresh_pos cfg r' = Suc (refresh_pos cfg r) mod refresh_round cfg RANK_LEVEL_STAGGERED"
proof -
  have v: "0 \<le> next_rank r" "next_rank r < ranks cfg" using s by (auto simp: staggered_def refresh_wf_def)
  have run: "IterateNext cfg r = Inr (r\<lparr>next_rank := (next_rank r + 1) mod ranks cfg\<rparr>)"
    using s v by (simp add: IterateNext_def staggered_def imod_nonneg)
  have "nat ((next_rank r + 1) mod ranks cfg) = Suc (nat (next_rank r)) mod nat (ranks cfg)"
    using v nat_mod_distrib [of "next_rank r + 1" "ranks cfg"] by (simp add: nat_add_distrib)
  with run s v show ?thesis by (auto simp: staggered_def refresh_wf_def refresh_pos_def refresh_round_def)
qed


lemma nat_mod_next:
  assumes "0 \<le> p" and "nat p < nat n" and "q = (if p + 1 = n then 0 else p + 1)"
  shows "nat q = Suc (nat p) mod nat n"
proof (cases "p + 1 = n")
  case True
  then have "nat n = Suc (nat p)" using assms(1) by (auto simp: nat_add_distrib)
  then show ?thesis using assms(3) True by simp
next
  case False
  then have "Suc (nat p) < nat n" using assms(1,2) by linarith
  then show ?thesis using assms(1,3) False by (simp add: nat_add_distrib)
qed

lemma IterateNext_bank:
  assumes s: "staggered cfg BANK_LEVEL_STAGGERED r"
  shows "\<exists>r'. IterateNext cfg r = Inr r' \<and> staggered cfg BANK_LEVEL_STAGGERED r' \<and>
    refresh_pos cfg r' = Suc (refresh_pos cfg r) mod refresh_round cfg BANK_LEVEL_STAGGERED"
proof -
  define R B P where d: "R = ranks cfg" "B = bankgroups cfg" "P = banks_per_group cfg"
  define i j k where ijk: "i = next_rank r" "j = next_bg r" "k = next_bank_idx r"
  have v: "0 \<le> i" "i < R" "0 \<le> j" "j < B" "0 \<le> k" "k < P" and pol: "ref_policy r = BANK_LEVEL_STAGGERED"
    using s by (auto simp: staggered_def refresh_wf_def d ijk)
  define j' where "j' = (if j + 1 = B then 0 else j + 1)"
  define k' where "k' = (if j + 1 = B then if k + 1 = P then 0 else k + 1 else k)"
  define i' where "i' = (if j + 1 = B \<and> k + 1 = P then if i + 1 = R then 0 else i + 1 else i)"
  let ?r = "r\<lparr>next_bg := j', next_bank_idx := k', next_rank := i'\<rparr>"
  have run: "IterateNext cfg r = Inr ?r"
    using pol v by (simp add: IterateNext_def imod_nonneg mod_step j'_def k'_def i'_def Let_def flip: d ijk)
  have wf: "staggered cfg BANK_LEVEL_STAGGERED ?r"
    using s v by (auto simp: staggered_def refresh_wf_def i'_def j'_def k'_def simp flip: d ijk)
  have pos: "refresh_pos cfg r = nat (j + B * (k + P * i))" "refresh_pos cfg ?r = nat (j' + B * (k' + P * i'))"
    using pol by (simp_all add: refresh_pos_def d ijk)
  have rnd: "refresh_round cfg BANK_LEVEL_STAGGERED = nat (B * (P * R))" by (simp add: refresh_round_def d)
  have n0: "0 \<le> j + B * (k + P * i)" using v by simp
  have lt: "nat (j + B * (k + P * i)) < nat (B * (P * R))"
    using refresh_pos_bound [OF s] pos rnd by simp
  have "j' + B * (k' + P * i') = (if j + 1 + B * (k + P * i) = B * (P * R) then 0 else j + 1 + B * (k + P * i))"
  proof (cases "j + 1 = B \<and> k + 1 = P \<and> i + 1 = R")
    case True
    then have "B = j + 1" "P = k + 1" "R = i + 1" by auto
    then show ?thesis by (simp add: j'_def k'_def i'_def algebra_simps)
  next
    case False
    have "j + 1 + B * (k + P * i) \<noteq> B * (P * R)"
    proof
      assume e: "j + 1 + B * (k + P * i) = B * (P * R)"
      have "B dvd j + 1" using e by (metis dvd_add_left_iff dvd_triv_left)
      then have jB: "j + 1 = B" using v zdvd_imp_le [of B "j + 1"] by simp
      with e v have "1 + (k + P * i) = P * R"
        by (metis (no_types, lifting) distrib_left mult.right_neutral mult_cancel_left less_irrefl le_less_trans)
      then have "P dvd k + 1" by (metis add.assoc add.commute dvd_add_left_iff dvd_triv_left)
      then have kP: "k + 1 = P" using v zdvd_imp_le [of P "k + 1"] by simp
      with \<open>1 + (k + P * i) = P * R\<close> v have "i + 1 = R"
        by (metis (no_types, lifting) add.assoc add.commute distrib_left mult.right_neutral mult_cancel_left less_irrefl le_less_trans)
      with False jB kP show False by simp
    qed
    then show ?thesis using False by (auto simp: j'_def k'_def i'_def algebra_simps)
  qed
  then have "nat (j' + B * (k' + P * i')) = Suc (nat (j + B * (k + P * i))) mod nat (B * (P * R))"
    by (intro nat_mod_next [OF n0 lt]) (simp add: add.commute add.left_commute)
  then show ?thesis using run wf by (auto simp: pos rnd)
qed

interpretation rank_refresh: ring_counter "IterateNext cfg" "staggered cfg RANK_LEVEL_STAGGERED"
  "refresh_pos cfg" "refresh_round cfg RANK_LEVEL_STAGGERED" for cfg
  by unfold_locales (simp_all add: refresh_pos_bound IterateNext_rank)

interpretation bank_refresh: ring_counter "IterateNext cfg" "staggered cfg BANK_LEVEL_STAGGERED"
  "refresh_pos cfg" "refresh_round cfg BANK_LEVEL_STAGGERED" for cfg
  by unfold_locales (simp_all add: refresh_pos_bound IterateNext_bank)

section \<open>A tick\<close>

lemma simultaneous_loop_spec:
  assumes wf: "ch_wf cfg ch" and "\<And>i. i \<in> set is \<Longrightarrow> 0 \<le> i \<and> i < ranks cfg"
  shows "\<exists>ch'. simultaneous_loop is ch = Inr ch' \<and> ch_wf cfg ch' \<and>
    (ch' = ch \<or> (\<exists>i\<in>set is. ch' = RankNeedRefresh i True ch \<and> \<not> rank_is_sref ch ! nat i))"
  using assms(2)
proof (induction "is")
  case (Cons i "is")
  have i: "0 \<le> i" "i < ranks cfg" using Cons.prems [of i] by simp_all
  have sr: "IsRankSelfRefreshing ch i = Inr (rank_is_sref ch ! nat i)"
    using wf i by (simp add: IsRankSelfRefreshing_def ch_wf_def vget_def)
  show ?case
  proof (cases "rank_is_sref ch ! nat i")
    case True
    with Cons.IH Cons.prems sr show ?thesis by auto
  next
    case False
    with sr ch_wf_RankNeedRefresh [OF wf i] show ?thesis by auto
  qed
qed (use wf in simp)

lemma InsertRefresh_spec:
  assumes wf: "ch_wf cfg ch" and r: "refresh_wf cfg r"
  obtains r' ch' where "InsertRefresh cfg r ch = Inr (r', ch')" and "ch_wf cfg ch'" and "refresh_wf cfg r'"
    and "ref_clk r' = ref_clk r" and "ch' = ch\<lparr>refresh_q := refresh_q ch'\<rparr>"
    and "refresh_q ch' = refresh_q ch \<or> (\<exists>c. refresh_q ch' = refresh_q ch @ [c] \<and> IsRefresh c \<and>
      \<not> rank_is_sref ch ! nat (Rank c))"
proof -
  have v: "0 \<le> next_rank r" "next_rank r < ranks cfg" "valid_bank cfg (next_rank r, next_bg r, next_bank_idx r)"
    using r by (auto simp: refresh_wf_def)
  have sr: "IsRankSelfRefreshing ch (next_rank r) = Inr (rank_is_sref ch ! nat (next_rank r))"
    using wf v by (simp add: IsRankSelfRefreshing_def ch_wf_def vget_def)
  show thesis
  proof (cases "ref_policy r")
    case RANK_LEVEL_SIMULTANEOUS
    obtain ch' where "simultaneous_loop (irange (ranks cfg)) ch = Inr ch'" "ch_wf cfg ch'"
      "ch' = ch \<or> (\<exists>i\<in>set (irange (ranks cfg)). ch' = RankNeedRefresh i True ch \<and> \<not> rank_is_sref ch ! nat i)"
      using simultaneous_loop_spec [OF wf, of "irange (ranks cfg)"] by auto
    then show thesis using RANK_LEVEL_SIMULTANEOUS r
      by (intro that [of r ch']) (auto simp: InsertRefresh_def RankNeedRefresh_def IsRefresh_def Address6_def)
  next
    case RANK_LEVEL_STAGGERED
    then obtain r' where r': "IterateNext cfg r = Inr r'" "staggered cfg RANK_LEVEL_STAGGERED r'"
      using IterateNext_rank [of cfg r] r by (auto simp: staggered_def)
    then have clk: "ref_clk r' = ref_clk r" using RANK_LEVEL_STAGGERED by (auto simp: IterateNext_def res_simps)
    let ?ch = "if \<not> rank_is_sref ch ! nat (next_rank r) then RankNeedRefresh (next_rank r) True ch else ch"
    have "InsertRefresh cfg r ch = Inr (r', ?ch)"
      using RANK_LEVEL_STAGGERED sr r' by (simp add: InsertRefresh_def)
    then show thesis by (rule that) (use wf v r' clk in \<open>auto simp: staggered_def RankNeedRefresh_def
      IsRefresh_def Address6_def intro: ch_wf_RankNeedRefresh [unfolded RankNeedRefresh_def, simplified]\<close>)
  next
    case BANK_LEVEL_STAGGERED
    then obtain r' where r': "IterateNext cfg r = Inr r'" "staggered cfg BANK_LEVEL_STAGGERED r'"
      using IterateNext_bank [of cfg r] r by (auto simp: staggered_def)
    then have clk: "ref_clk r' = ref_clk r" using BANK_LEVEL_STAGGERED
      by (auto simp: IterateNext_def res_simps Let_def split: if_splits)
    let ?ch = "if \<not> rank_is_sref ch ! nat (next_rank r)
      then BankNeedRefresh (next_rank r) (next_bg r) (next_bank_idx r) True ch else ch"
    have "InsertRefresh cfg r ch = Inr (r', ?ch)"
      using BANK_LEVEL_STAGGERED sr r' by (simp add: InsertRefresh_def)
    then show thesis by (rule that) (use wf v r' clk in \<open>auto simp: staggered_def BankNeedRefresh_def
      IsRefresh_def Address6_def intro: ch_wf_BankNeedRefresh [unfolded BankNeedRefresh_def, simplified]\<close>)
  next
    case RefreshPolicy_SIZE
    then show thesis using r by (simp add: refresh_wf_def)
  qed
qed


lemma refresh_ClockTick_spec:
  assumes wf: "ch_wf cfg ch" and r: "refresh_wf cfg r"
  obtains r' ch' where "refresh_ClockTick cfg r ch = Inr (r', ch')" and "ch_wf cfg ch'" and "refresh_wf cfg r'"
    and "ref_clk r' = ref_clk r + 1" and "ch' = ch\<lparr>refresh_q := refresh_q ch'\<rparr>"
    and "refresh_q ch' = refresh_q ch \<or> (\<exists>c. refresh_q ch' = refresh_q ch @ [c] \<and> IsRefresh c \<and>
      \<not> rank_is_sref ch ! nat (Rank c))"
    and "\<not> (ref_clk r mod of_int (refresh_interval r) = 0 \<and> ref_clk r > 0) \<Longrightarrow> ch' = ch"
proof -
  have ne: "(of_int (refresh_interval r) :: u64) \<noteq> 0" using r by (simp add: refresh_wf_def)
  show thesis
  proof (cases "ref_clk r mod of_int (refresh_interval r) = 0 \<and> ref_clk r > 0")
    case True
    obtain r1 ch1 where i: "InsertRefresh cfg r ch = Inr (r1, ch1)" "ch_wf cfg ch1" "refresh_wf cfg r1"
      "ref_clk r1 = ref_clk r" "ch1 = ch\<lparr>refresh_q := refresh_q ch1\<rparr>"
      "refresh_q ch1 = refresh_q ch \<or> (\<exists>c. refresh_q ch1 = refresh_q ch @ [c] \<and> IsRefresh c \<and>
        \<not> rank_is_sref ch ! nat (Rank c))" by (rule InsertRefresh_spec [OF wf r])
    have run: "refresh_ClockTick cfg r ch = Inr (r1\<lparr>ref_clk := ref_clk r1 + 1\<rparr>, ch1)"
      using True ne i(1) by (simp add: refresh_ClockTick_def)
    show thesis by (rule that [OF run i(2) _ _ i(5,6)]) (use i True in \<open>simp_all add: refresh_wf_def\<close>)
  next
    case False
    then have run: "refresh_ClockTick cfg r ch = Inr (r\<lparr>ref_clk := ref_clk r + 1\<rparr>, ch)"
      using ne unfolding refresh_ClockTick_def by (simp only: if_False res_bind_Inr prod.case)
    show thesis by (rule that [OF run wf]) (use r in \<open>simp_all add: refresh_wf_def\<close>)
  qed
qed

lemma mixed_radix_inj:
  assumes "0 \<le> (a::int)" "a < A" "0 \<le> a'" "a' < A" "a + A * b = a' + A * b'"
  shows "a = a' \<and> b = b'"
proof -
  have "(a + A * b) mod A = (a' + A * b') mod A" using assms(5) by simp
  then have "a = a'" using assms(1-4) by simp
  with assms show ?thesis by simp
qed

lemma refresh_pos_bank:
  "ref_policy r = BANK_LEVEL_STAGGERED \<Longrightarrow> refresh_pos cfg r =
     nat (next_bg r + bankgroups cfg * (next_bank_idx r + banks_per_group cfg * next_rank r))"
  by (simp only: refresh_pos_def RefreshPolicy.distinct if_False)

lemma refresh_pos_inj:
  assumes s: "staggered cfg BANK_LEVEL_STAGGERED r" and v: "valid_bank cfg (i, j, k)"
    and eq: "refresh_pos cfg r = nat (j + bankgroups cfg * (k + banks_per_group cfg * i))"
  shows "(next_rank r, next_bg r, next_bank_idx r) = (i, j, k)"
proof -
  have b: "0 \<le> next_rank r" "0 \<le> next_bg r" "next_bg r < bankgroups cfg"
    "0 \<le> next_bank_idx r" "next_bank_idx r < banks_per_group cfg" and pol: "ref_policy r = BANK_LEVEL_STAGGERED"
    using s by (auto simp: staggered_def refresh_wf_def)
  have v': "0 \<le> i" "0 \<le> j" "j < bankgroups cfg" "0 \<le> k" "k < banks_per_group cfg" using v by auto
  have "next_bg r + bankgroups cfg * (next_bank_idx r + banks_per_group cfg * next_rank r) =
      j + bankgroups cfg * (k + banks_per_group cfg * i)"
  proof (rule eq_nat_nat_iff [THEN iffD1])
    show "nat (next_bg r + bankgroups cfg * (next_bank_idx r + banks_per_group cfg * next_rank r)) =
      nat (j + bankgroups cfg * (k + banks_per_group cfg * i))"
      using eq by (simp only: refresh_pos_bank [OF pol])
  qed (use b v' in simp_all)
  from mixed_radix_inj [OF b(2,3) v'(2,3) this]
  have "next_bg r = j" and "next_bank_idx r + banks_per_group cfg * next_rank r = k + banks_per_group cfg * i" by auto
  with mixed_radix_inj [OF b(4,5) v'(4,5)] show ?thesis by auto
qed

section \<open>Properties\<close>

text \<open>With the policy \<^verbatim>\<open>BANK_LEVEL_STAGGERED\<close> the refresh position goes
  through the banks in rounds: from any position, within one round of
  \<open>bankgroups * banks_per_group * ranks\<close> steps of \<^verbatim>\<open>IterateNext\<close>, every bank of
  the channel is reached exactly once.\<close>

theorem bank_refresh_round:
  assumes "staggered cfg BANK_LEVEL_STAGGERED r" and "valid_bank cfg (i, j, k)"
  shows "\<exists>!n. n < refresh_round cfg BANK_LEVEL_STAGGERED \<and>
    (\<exists>r'. res_iter (IterateNext cfg) n r = Inr r' \<and> (next_rank r', next_bg r', next_bank_idx r') = (i, j, k))"
proof -
  let ?N = "refresh_round cfg BANK_LEVEL_STAGGERED"
  let ?p = "nat (j + bankgroups cfg * (k + banks_per_group cfg * i))"
  let ?r = "r\<lparr>next_rank := i, next_bg := j, next_bank_idx := k\<rparr>"
  have st: "staggered cfg BANK_LEVEL_STAGGERED ?r" using assms by (auto simp: staggered_def refresh_wf_def)
  have "refresh_pos cfg ?r = ?p" by (subst refresh_pos_bank) (use st in \<open>simp_all add: staggered_def\<close>)
  with refresh_pos_bound [OF st] have p: "?p < ?N" by (simp only:)
  have eq: "(\<exists>r'. res_iter (IterateNext cfg) n r = Inr r' \<and> refresh_pos cfg r' = ?p) \<longleftrightarrow>
    (\<exists>r'. res_iter (IterateNext cfg) n r = Inr r' \<and> (next_rank r', next_bg r', next_bank_idx r') = (i, j, k))" for n
  proof -
    obtain r' where r': "res_iter (IterateNext cfg) n r = Inr r'" "staggered cfg BANK_LEVEL_STAGGERED r'"
      using bank_refresh.iter_pos [OF assms(1)] by blast
    have "refresh_pos cfg r' = ?p" if "(next_rank r', next_bg r', next_bank_idx r') = (i, j, k)"
      by (subst refresh_pos_bank) (use that r'(2) in \<open>simp_all add: staggered_def\<close>)
    moreover have "(next_rank r', next_bg r', next_bank_idx r') = (i, j, k)" if "refresh_pos cfg r' = ?p"
      by (rule refresh_pos_inj [OF r'(2) assms(2) that])
    ultimately show ?thesis unfolding r'(1) by blast
  qed
  show ?thesis using bank_refresh.round_visits_once [OF assms(1) p] unfolding eq .
qed

theorem bank_refresh_round_witness:
  "\<exists>r. Refresh_new (hbm2_config\<lparr>refresh_policy := BANK_LEVEL_STAGGERED\<rparr>) = Inr r \<and>
    (\<exists>!n. n < refresh_round hbm2_config BANK_LEVEL_STAGGERED \<and>
      (\<exists>r'. res_iter (IterateNext hbm2_config) n r = Inr r' \<and> (next_rank r', next_bg r', next_bank_idx r') = (0, 2, 3)))"
proof -
  let ?r = "\<lparr>ref_clk = 0, refresh_interval = 128, ref_policy = BANK_LEVEL_STAGGERED,
         next_rank = 0, next_bg = 0, next_bank_idx = 0\<rparr>"
  have "staggered hbm2_config BANK_LEVEL_STAGGERED ?r" "valid_bank hbm2_config (0, 2, 3)"
    by (simp_all add: staggered_def refresh_wf_def)
  from bank_refresh_round [OF this] show ?thesis by (intro exI [of _ ?r]) (simp add: Refresh_new_def)
qed

text \<open>A tick of the refresh counter never fails on well-formed states, keeps the channel's
  invariant, changes nothing of the channel but its refresh queue, and appends at most one
  refresh, for a rank that is not in self refresh, and only when the interval has elapsed.\<close>

theorem refresh_tick_inserts_at_most_one:
  assumes "ch_wf cfg ch" and "refresh_wf cfg r"
  shows "\<exists>r' ch'. refresh_ClockTick cfg r ch = Inr (r', ch') \<and> ch_wf cfg ch' \<and> refresh_wf cfg r' \<and>
    ref_clk r' = ref_clk r + 1 \<and> ch' = ch\<lparr>refresh_q := refresh_q ch'\<rparr> \<and>
    (refresh_q ch' = refresh_q ch \<or>
     ref_clk r mod of_int (refresh_interval r) = 0 \<and> ref_clk r > 0 \<and>
     (\<exists>c. refresh_q ch' = refresh_q ch @ [c] \<and> IsRefresh c \<and> \<not> rank_is_sref ch ! nat (Rank c)))"
proof -
  obtain r' ch' where t: "refresh_ClockTick cfg r ch = Inr (r', ch')" "ch_wf cfg ch'" "refresh_wf cfg r'"
    "ref_clk r' = ref_clk r + 1" "ch' = ch\<lparr>refresh_q := refresh_q ch'\<rparr>"
    "refresh_q ch' = refresh_q ch \<or> (\<exists>c. refresh_q ch' = refresh_q ch @ [c] \<and> IsRefresh c \<and>
      \<not> rank_is_sref ch ! nat (Rank c))"
    "\<not> (ref_clk r mod of_int (refresh_interval r) = 0 \<and> ref_clk r > 0) \<Longrightarrow> ch' = ch"
    by (rule refresh_ClockTick_spec [OF assms]) (rule that, assumption+)
  show ?thesis
  proof (intro exI conjI)
    show "refresh_q ch' = refresh_q ch \<or>
     ref_clk r mod of_int (refresh_interval r) = 0 \<and> ref_clk r > 0 \<and>
     (\<exists>c. refresh_q ch' = refresh_q ch @ [c] \<and> IsRefresh c \<and> \<not> rank_is_sref ch ! nat (Rank c))"
      using t(6,7) by blast
  qed (fact t)+
qed

theorem refresh_tick_inserts_at_most_one_witness:
  "\<exists>r r' ch'. Refresh_new hbm2_config = Inr r \<and>
    refresh_ClockTick hbm2_config r (ChannelState_new hbm2_config) = Inr (r', ch') \<and> ch_wf hbm2_config ch'"
proof -
  let ?r = "\<lparr>ref_clk = 0, refresh_interval = 3900, ref_policy = RANK_LEVEL_STAGGERED,
         next_rank = 0, next_bg = 0, next_bank_idx = 0\<rparr>"
  have n: "Refresh_new hbm2_config = Inr ?r" by (simp add: Refresh_new_def idiv_def)
  have "refresh_wf hbm2_config ?r" by (simp add: refresh_wf_def)
  from refresh_tick_inserts_at_most_one [OF ch_wf_new this] n show ?thesis by blast
qed

text \<open>C27. Under the policy \<^verbatim>\<open>RANK_LEVEL_SIMULTANEOUS\<close>, whose comment announces a
  refresh of all ranks, an insertion stops after the first rank: when rank 0 is not in self
  refresh, no other rank is ever refreshed.\<close>

theorem simultaneous_refreshes_first_rank_only:
  assumes "ch_wf cfg ch" and "1 \<le> ranks cfg" and "ref_policy r = RANK_LEVEL_SIMULTANEOUS"
    and "\<not> rank_is_sref ch ! 0"
  shows "InsertRefresh cfg r ch = Inr (r, RankNeedRefresh 0 True ch)"
proof -
  have "irange (ranks cfg) = 0 # map int [1..<nat (ranks cfg)]"
    using assms(2) by (simp add: irange_def upt_conv_Cons)
  moreover have "IsRankSelfRefreshing ch 0 = Inr False"
    using assms(1,2,4) by (simp add: IsRankSelfRefreshing_def vget_def ch_wf_def)
  ultimately show ?thesis using assms(3) by (simp add: InsertRefresh_def)
qed

theorem simultaneous_refreshes_first_rank_only_witness:
  "InsertRefresh hbm2_config \<lparr>ref_clk = 3900, refresh_interval = 3900, ref_policy = RANK_LEVEL_SIMULTANEOUS,
     next_rank = 0, next_bg = 0, next_bank_idx = 0\<rparr> (ChannelState_new hbm2_config) =
   Inr (\<lparr>ref_clk = 3900, refresh_interval = 3900, ref_policy = RANK_LEVEL_SIMULTANEOUS,
     next_rank = 0, next_bg = 0, next_bank_idx = 0\<rparr>, RankNeedRefresh 0 True (ChannelState_new hbm2_config))"
  by (rule simultaneous_refreshes_first_rank_only [OF ch_wf_new])
    (simp_all add: ChannelState_new_def)

end
