(* ===== verification/Dram_Stats.thy ===== *)
theory Dram_Stats
  imports Dram_Sample
begin

text \<open>
  \<^verbatim>\<open>dramsim3/src/simple_stats.h\<close> and \<^verbatim>\<open>simple_stats.cc\<close>: the
  counters, vectors and histograms of one channel. The text and JSON output
  (\<^verbatim>\<open>UpdatePrints\<close>, descriptions and headers) is in \<open>Dram_Output\<close>;
  \<^verbatim>\<open>double\<close> is \<open>real\<close>, with \<open>x / 0 = 0\<close> where C++ gives a NaN. Lemmas: no
  histogram update leaves its bins, the bins hold every recorded value, and an epoch moves
  the counters without losing any event.
\<close>

section \<open>State\<close>

type_synonym histo_count = "(int, u64) smap"

record SimpleStats =
  stats_channel_id :: int
  calculated :: "(string, real) smap"
  counters :: "(string, u64) smap"
  doubles :: "(string, real) smap"
  epoch_counters :: "(string, u64) smap"
  vec_counters :: "(string, u64 list) smap"
  epoch_vec_counters :: "(string, u64 list) smap"
  vec_doubles :: "(string, real list) smap"
  histo_bounds :: "(string, int \<times> int) smap"
  bin_widths :: "(string, int) smap"
  histo_counts :: "(string, histo_count) smap"
  epoch_histo_counts :: "(string, histo_count) smap"
  histo_bins :: "(string, u64 list) smap"
  epoch_histo_bins :: "(string, u64 list) smap"

section \<open>Operations\<close>

definition Increment :: "string \<Rightarrow> SimpleStats \<Rightarrow> SimpleStats" where
  "Increment name s =
     s\<lparr>epoch_counters := sm_put name (sm_get 0 (epoch_counters s) name + 1) (epoch_counters s)\<rparr>"

definition IncrementVecBy :: "string \<Rightarrow> int \<Rightarrow> int \<Rightarrow> SimpleStats \<Rightarrow> SimpleStats res" where
  "IncrementVecBy name pos num s =
     res_bind (vupd (\<lambda>x. Inr (x + of_int num)) (sm_get [] (epoch_vec_counters s) name) pos) (\<lambda>v.
       Inr (s\<lparr>epoch_vec_counters := sm_put name v (epoch_vec_counters s)\<rparr>))"

definition IncrementVec :: "string \<Rightarrow> int \<Rightarrow> SimpleStats \<Rightarrow> SimpleStats res" where
  "IncrementVec name pos s = IncrementVecBy name pos 1 s"

definition histo_add :: "int \<Rightarrow> u64 \<Rightarrow> histo_count \<Rightarrow> histo_count" where
  "histo_add value n h =
     (case map_of h value of None \<Rightarrow> sm_put value n h | Some c \<Rightarrow> sm_put value (c + n) h)"

definition AddValue :: "string \<Rightarrow> int \<Rightarrow> SimpleStats \<Rightarrow> SimpleStats" where
  "AddValue name value s =
     s\<lparr>epoch_histo_counts :=
         sm_put name (histo_add value 1 (sm_get [] (epoch_histo_counts s) name)) (epoch_histo_counts s)\<rparr>"

text \<open>The conversion of a \<^verbatim>\<open>uint64_t\<close> argument to \<^verbatim>\<open>int\<close>.\<close>

definition to_int :: "u64 \<Rightarrow> int" where
  "to_int x = signed_take_bit 31 (uint x)"

definition RankBackgroundEnergy :: "int \<Rightarrow> SimpleStats \<Rightarrow> real res" where
  "RankBackgroundEnergy r s =
     res_bind (res_bind (sm_at (vec_doubles s) ''act_stb_energy'') (\<lambda>v. vget v r)) (\<lambda>a.
     res_bind (res_bind (sm_at (vec_doubles s) ''pre_stb_energy'') (\<lambda>v. vget v r)) (\<lambda>b.
     res_bind (res_bind (sm_at (vec_doubles s) ''sref_energy'') (\<lambda>v. vget v r)) (\<lambda>c.
       Inr (a + b + c))))"

definition fill_values :: "'b \<Rightarrow> ('a, 'b) smap \<Rightarrow> ('a, 'b) smap" where
  "fill_values x m = map (\<lambda>(k, _). (k, x)) m"

definition fill_vectors :: "'b \<Rightarrow> ('a, 'b list) smap \<Rightarrow> ('a, 'b list) smap" where
  "fill_vectors x m = map (\<lambda>(k, v). (k, replicate (length v) x)) m"

definition Reset :: "SimpleStats \<Rightarrow> SimpleStats" where
  "Reset s =
     s\<lparr>counters := fill_values 0 (counters s),
       epoch_counters := fill_values 0 (epoch_counters s),
       vec_counters := fill_vectors 0 (vec_counters s),
       epoch_vec_counters := fill_vectors 0 (epoch_vec_counters s),
       doubles := fill_values 0 (doubles s),
       vec_doubles := fill_vectors 0 (vec_doubles s),
       calculated := fill_values 0 (calculated s),
       histo_counts := fill_values [] (histo_counts s),
       epoch_histo_counts := fill_values [] (epoch_histo_counts s)\<rparr>"

section \<open>Registration\<close>

definition InitStat :: "string \<Rightarrow> string \<Rightarrow> SimpleStats \<Rightarrow> SimpleStats" where
  "InitStat name stat_type s =
     (if stat_type = ''counter'' then
        s\<lparr>counters := sm_emplace name 0 (counters s),
          epoch_counters := sm_emplace name 0 (epoch_counters s)\<rparr>
      else if stat_type = ''double'' then s\<lparr>doubles := sm_emplace name 0 (doubles s)\<rparr>
      else if stat_type = ''calculated'' then s\<lparr>calculated := sm_emplace name 0 (calculated s)\<rparr>
      else s)"

definition InitVecStat :: "string \<Rightarrow> string \<Rightarrow> int \<Rightarrow> SimpleStats \<Rightarrow> SimpleStats" where
  "InitVecStat name stat_type vec_len s =
     (if stat_type = ''vec_counter'' then
        s\<lparr>vec_counters := sm_emplace name (replicate (nat vec_len) 0) (vec_counters s),
          epoch_vec_counters := sm_emplace name (replicate (nat vec_len) 0) (epoch_vec_counters s)\<rparr>
      else if stat_type = ''vec_double'' then
        s\<lparr>vec_doubles := sm_emplace name (replicate (nat vec_len) 0) (vec_doubles s)\<rparr>
      else s)"

definition InitHistoStat :: "string \<Rightarrow> int \<Rightarrow> int \<Rightarrow> int \<Rightarrow> SimpleStats \<Rightarrow> SimpleStats res" where
  "InitHistoStat name start_val end_val num_bins s =
     res_bind (idiv (end_val - start_val) num_bins) (\<lambda>bin_width.
       Inr (s\<lparr>bin_widths := sm_emplace name bin_width (bin_widths s),
         histo_bounds := sm_emplace name (start_val, end_val) (histo_bounds s),
         histo_counts := sm_emplace name [] (histo_counts s),
         epoch_histo_counts := sm_emplace name [] (epoch_histo_counts s),
         histo_bins := sm_emplace name (replicate (nat (num_bins + 2)) 0) (histo_bins s),
         epoch_histo_bins := sm_emplace name (replicate (nat (num_bins + 2)) 0) (epoch_histo_bins s)\<rparr>))"

definition counter_names :: "string list" where
  "counter_names =
     [''num_cycles'', ''epoch_num'', ''num_reads_done'', ''num_writes_done'', ''num_write_buf_hits'',
      ''num_read_row_hits'', ''num_write_row_hits'', ''num_read_cmds'', ''num_write_cmds'',
      ''num_act_cmds'', ''num_pre_cmds'', ''num_ondemand_pres'', ''num_ref_cmds'', ''num_refb_cmds'',
      ''num_srefe_cmds'', ''num_srefx_cmds'', ''hbm_dual_cmds'']"

definition double_names :: "string list" where
  "double_names = [''act_energy'', ''read_energy'', ''write_energy'', ''ref_energy'', ''refb_energy'']"

definition calculated_names :: "string list" where
  "calculated_names = [''average_bandwidth'', ''total_energy'', ''average_power'',
     ''average_read_latency'', ''average_interarrival'']"

definition SimpleStats_new :: "Config \<Rightarrow> int \<Rightarrow> SimpleStats res" where
  "SimpleStats_new cfg ch =
     (let s0 = \<lparr>stats_channel_id = ch, calculated = [], counters = [], doubles = [], epoch_counters = [],
            vec_counters = [], epoch_vec_counters = [], vec_doubles = [], histo_bounds = [],
            bin_widths = [], histo_counts = [], epoch_histo_counts = [], histo_bins = [],
            epoch_histo_bins = []\<rparr>;
          s1 = fold (\<lambda>n. InitStat n ''counter'') counter_names s0;
          s2 = fold (\<lambda>n. InitStat n ''double'') double_names s1;
          s3 = fold (\<lambda>n. InitVecStat n ''vec_counter'' (ranks cfg))
                 [''all_bank_idle_cycles'', ''rank_active_cycles'', ''sref_cycles''] s2;
          s4 = fold (\<lambda>n. InitVecStat n ''vec_double'' (ranks cfg))
                 [''act_stb_energy'', ''pre_stb_energy'', ''sref_energy''] s3
      in res_bind (InitHistoStat ''read_latency'' 0 200 10 s4) (\<lambda>s5.
         res_bind (InitHistoStat ''write_latency'' 0 200 10 s5) (\<lambda>s6.
         res_bind (InitHistoStat ''interarrival_latency'' 0 100 10 s6) (\<lambda>s7.
           Inr (fold (\<lambda>n. InitStat n ''calculated'') calculated_names s7)))))"

section \<open>Epochs\<close>

definition add_vectors :: "u64 list \<Rightarrow> u64 list \<Rightarrow> u64 list res" where
  "add_vectors final epoch =
     res_fold (\<lambda>i acc. res_bind (vget epoch i) (\<lambda>e. vupd (\<lambda>x. Inr (x + e)) acc i))
       (irange (int (length final))) final"

definition UpdateCounters :: "SimpleStats \<Rightarrow> SimpleStats res" where
  "UpdateCounters s =
     (let s1 = s\<lparr>counters := fold (\<lambda>(k, v) m. sm_put k (sm_get 0 m k + v) m) (epoch_counters s) (counters s)\<rparr>
      in res_bind (res_fold (\<lambda>(k, v) m.
           res_bind (res_fold (\<lambda>i acc. res_bind (vget v i) (\<lambda>e. vupd (\<lambda>x. Inr (x + e)) acc i))
             (irange (int (length v))) (sm_get [] m k)) (\<lambda>w. Inr (sm_put k w m)))
           (epoch_vec_counters s1) (vec_counters s1)) (\<lambda>m. Inr (s1\<lparr>vec_counters := m\<rparr>)))"

definition bin_index :: "int \<times> int \<Rightarrow> int \<Rightarrow> nat \<Rightarrow> int \<Rightarrow> int res" where
  "bin_index bounds width n_bins value =
     (if value < fst bounds then Inr 0
      else if value > snd bounds then Inr (int n_bins - 1)
      else res_bind (idiv (value - fst bounds) width) (\<lambda>q. Inr (q + 1)))"

definition fill_bins :: "int \<times> int \<Rightarrow> int \<Rightarrow> histo_count \<Rightarrow> u64 list \<Rightarrow> u64 list res" where
  "fill_bins bounds width counts bins =
     res_fold (\<lambda>(value, n) acc. res_bind (bin_index bounds width (length bins) value) (\<lambda>i.
       vupd (\<lambda>x. Inr (x + n)) acc i)) counts (replicate (length bins) 0)"

text \<open>The bodies of the two loops of \<^verbatim>\<open>UpdateHistoBins\<close>.\<close>

definition refill_bins :: "SimpleStats \<Rightarrow> string \<Rightarrow> u64 list \<Rightarrow> u64 list res" where
  "refill_bins s name bins =
     fill_bins (sm_get (0, 0) (histo_bounds s) name) (sm_get 0 (bin_widths s) name)
       (sm_get [] (epoch_histo_counts s) name) bins"

definition merge_histo :: "string \<times> histo_count \<Rightarrow> SimpleStats \<Rightarrow> SimpleStats res" where
  "merge_histo name_counts s =
     (let name = fst name_counts;
          final_counts = fold (\<lambda>(v, n). histo_add v n) (snd name_counts) (sm_get [] (histo_counts s) name)
      in res_bind (add_vectors (sm_get [] (histo_bins s) name) (sm_get [] (epoch_histo_bins s) name)) (\<lambda>final_bins.
           Inr (s\<lparr>histo_counts := sm_put name final_counts (histo_counts s),
                  histo_bins := sm_put name final_bins (histo_bins s)\<rparr>)))"

definition UpdateHistoBins :: "SimpleStats \<Rightarrow> SimpleStats res" where
  "UpdateHistoBins s =
     res_bind (res_fold (\<lambda>(name, bins) m. res_bind (refill_bins s name bins) (\<lambda>b. Inr (sm_put name b m)))
         (epoch_histo_bins s) (epoch_histo_bins s)) (\<lambda>ebins.
       res_fold merge_histo (epoch_histo_counts s) (s\<lparr>epoch_histo_bins := ebins\<rparr>))"

definition GetHistoAvg :: "histo_count \<Rightarrow> real" where
  "GetHistoAvg h =
     (let accu_sum = sum_list (map (\<lambda>(v, n). of_int v * n) h);
          cnt = sum_list (map snd h)
      in if cnt = 0 then 0 else of_nat (unat accu_sum) / of_nat (unat cnt))"

definition u64_real :: "u64 \<Rightarrow> real" where
  "u64_real x = of_nat (unat x)"

text \<open>
  The part \<^verbatim>\<open>UpdateEpochStats\<close> and \<^verbatim>\<open>UpdateFinalStats\<close> share: the
  energies computed from a set of counters, then the derived values.
\<close>

definition command_energy :: "Config \<Rightarrow> (string, u64) smap \<Rightarrow> SimpleStats \<Rightarrow> SimpleStats" where
  "command_energy cfg cs s =
     (let e = (\<lambda>name inc m. sm_put (fst name) (u64_real (sm_get 0 cs (snd name)) * inc) m)
      in s\<lparr>doubles := e (''refb_energy'', ''num_refb_cmds'') (refb_energy_inc cfg)
           (e (''ref_energy'', ''num_ref_cmds'') (ref_energy_inc cfg)
           (e (''write_energy'', ''num_write_cmds'') (write_energy_inc cfg)
           (e (''read_energy'', ''num_read_cmds'') (read_energy_inc cfg)
           (e (''act_energy'', ''num_act_cmds'') (act_energy_inc cfg) (doubles s)))))\<rparr>)"

definition background_step ::
  "Config \<Rightarrow> (string, u64 list) smap \<Rightarrow> int \<Rightarrow> (string, real list) smap \<times> real \<Rightarrow>
     ((string, real list) smap \<times> real) res" where
  "background_step cfg vcs i acc =
     res_bind (vget (sm_get [] vcs ''rank_active_cycles'') i) (\<lambda>a.
     res_bind (vget (sm_get [] vcs ''all_bank_idle_cycles'') i) (\<lambda>p.
     res_bind (vget (sm_get [] vcs ''sref_cycles'') i) (\<lambda>r.
       let act_stb = u64_real a * act_stb_energy_inc cfg;
           pre_stb = u64_real p * pre_stb_energy_inc cfg;
           sref = u64_real r * sref_energy_inc cfg;
           vd = fst acc
       in res_bind (vset (sm_get [] vd ''act_stb_energy'') i act_stb) (\<lambda>v1.
          res_bind (vset (sm_get [] vd ''pre_stb_energy'') i pre_stb) (\<lambda>v2.
          res_bind (vset (sm_get [] vd ''sref_energy'') i sref) (\<lambda>v3.
            Inr (sm_put ''sref_energy'' v3 (sm_put ''pre_stb_energy'' v2 (sm_put ''act_stb_energy'' v1 vd)),
              snd acc + (act_stb + pre_stb + sref))))))))"

definition calculated_stats ::
  "Config \<Rightarrow> (string, u64) smap \<Rightarrow> (string, histo_count) smap \<Rightarrow> real \<Rightarrow> SimpleStats \<Rightarrow> SimpleStats res" where
  "calculated_stats cfg cs hs background_energy s =
     (let total_reqs = sm_get 0 cs ''num_reads_done'' + sm_get 0 cs ''num_writes_done'';
          total_time = u64_real (sm_get 0 cs ''num_cycles'') * tCK cfg;
          avg_bw = u64_real (total_reqs * of_int (request_size_bytes cfg)) / total_time;
          d = (\<lambda>name. sm_get 0 (doubles s) name);
          total_energy = d ''act_energy'' + d ''read_energy'' + d ''write_energy'' + d ''ref_energy'' +
            d ''refb_energy'' + background_energy
      in res_bind (sm_at hs ''read_latency'') (\<lambda>rl.
         res_bind (sm_at hs ''interarrival_latency'') (\<lambda>il.
           Inr (s\<lparr>calculated :=
             sm_put ''average_interarrival'' (GetHistoAvg il)
             (sm_put ''average_read_latency'' (GetHistoAvg rl)
             (sm_put ''average_power'' (total_energy / u64_real (sm_get 0 cs ''num_cycles''))
             (sm_put ''total_energy'' total_energy
             (sm_put ''average_bandwidth'' avg_bw (calculated s)))))\<rparr>))))"

definition UpdateEpochStats :: "Config \<Rightarrow> SimpleStats \<Rightarrow> SimpleStats res" where
  "UpdateEpochStats cfg s =
     res_bind (UpdateCounters s) (\<lambda>s1.
     (let s2 = command_energy cfg (epoch_counters s1) s1
      in res_bind (res_fold (background_step cfg (epoch_vec_counters s2)) (irange (ranks cfg))
           (vec_doubles s2, 0)) (\<lambda>(vd, bg).
         res_bind (UpdateHistoBins (s2\<lparr>vec_doubles := vd\<rparr>)) (\<lambda>s3.
         res_bind (calculated_stats cfg (epoch_counters s3) (epoch_histo_counts s3) bg s3) (\<lambda>s4.
           Inr (s4\<lparr>epoch_counters := fill_values 0 (epoch_counters s4),
             epoch_vec_counters := fill_vectors 0 (epoch_vec_counters s4),
             epoch_histo_counts := fill_values [] (epoch_histo_counts s4)\<rparr>))))))"

definition UpdateFinalStats :: "Config \<Rightarrow> SimpleStats \<Rightarrow> SimpleStats res" where
  "UpdateFinalStats cfg s =
     res_bind (UpdateCounters s) (\<lambda>s1.
     (let s2 = command_energy cfg (counters s1) s1
      in res_bind (res_fold (background_step cfg (vec_counters s2)) (irange (ranks cfg))
           (vec_doubles s2, 0)) (\<lambda>(vd, bg).
         res_bind (UpdateHistoBins (s2\<lparr>vec_doubles := vd\<rparr>)) (\<lambda>s3.
           calculated_stats cfg (counters s3) (histo_counts s3) bg s3))))"

text \<open>\<^verbatim>\<open>PrintEpochStats\<close> and \<^verbatim>\<open>PrintFinalStats\<close> without their output.\<close>

definition stats_PrintEpochStats :: "Config \<Rightarrow> SimpleStats \<Rightarrow> SimpleStats res" where
  "stats_PrintEpochStats cfg s = UpdateEpochStats cfg s"

definition stats_PrintFinalStats :: "Config \<Rightarrow> SimpleStats \<Rightarrow> SimpleStats res" where
  "stats_PrintFinalStats cfg s = UpdateFinalStats cfg s"


section \<open>Invariant\<close>

definition vec_names :: "string list" where
  "vec_names = [''all_bank_idle_cycles'', ''rank_active_cycles'', ''sref_cycles'']"

definition vec_double_names :: "string list" where
  "vec_double_names = [''act_stb_energy'', ''pre_stb_energy'', ''sref_energy'']"

definition histo_names :: "string list" where
  "histo_names = [''read_latency'', ''write_latency'', ''interarrival_latency'']"

text \<open>The bins cover the bounds: \<open>num_bins\<close> of equal positive width and one at each end.\<close>

definition bins_fit :: "int \<times> int \<Rightarrow> int \<Rightarrow> nat \<Rightarrow> bool" where
  "bins_fit bounds width n_bins \<longleftrightarrow> 0 < width \<and> 2 \<le> n_bins \<and>
     snd bounds - fst bounds = width * (int n_bins - 2)"

definition stats_wf :: "Config \<Rightarrow> SimpleStats \<Rightarrow> bool" where
  "stats_wf cfg s \<longleftrightarrow>
     distinct (map fst (epoch_counters s)) \<and>
     map fst (epoch_vec_counters s) = vec_names \<and> map fst (vec_counters s) = vec_names \<and>
     map fst (vec_doubles s) = vec_double_names \<and>
     (\<forall>n\<in>set vec_names. length (sm_get [] (epoch_vec_counters s) n) = nat (ranks cfg) \<and>
        length (sm_get [] (vec_counters s) n) = nat (ranks cfg)) \<and>
     (\<forall>n\<in>set vec_double_names. length (sm_get [] (vec_doubles s) n) = nat (ranks cfg)) \<and>
     map fst (epoch_histo_counts s) = histo_names \<and> map fst (histo_counts s) = histo_names \<and>
     map fst (epoch_histo_bins s) = histo_names \<and> map fst (histo_bins s) = histo_names \<and>
     (\<forall>n\<in>set histo_names.
        bins_fit (sm_get (0, 0) (histo_bounds s) n) (sm_get 0 (bin_widths s) n)
          (length (sm_get [] (epoch_histo_bins s) n)) \<and>
        length (sm_get [] (histo_bins s) n) = length (sm_get [] (epoch_histo_bins s) n))"

lemma fold_emplace:
  "distinct ns \<Longrightarrow> set ns \<inter> fst ` set m = {} \<Longrightarrow> fold (\<lambda>n. sm_emplace n x) ns m = m @ map (\<lambda>n. (n, x)) ns"
proof (induction ns arbitrary: m)
  case (Cons n ns)
  then have "map_of m n = None" by (auto simp: map_of_eq_None_iff)
  then have "sm_emplace n x m = m @ [(n, x)]" by (simp add: sm_emplace_def)
  moreover have "set ns \<inter> fst ` set (m @ [(n, x)]) = {}" using Cons.prems by auto
  ultimately show ?case using Cons by simp
qed simp

lemma fold_InitStat:
  "fold (\<lambda>n. InitStat n ''counter'') ns s =
     s\<lparr>counters := fold (\<lambda>n. sm_emplace n 0) ns (counters s),
       epoch_counters := fold (\<lambda>n. sm_emplace n 0) ns (epoch_counters s)\<rparr>"
  "fold (\<lambda>n. InitStat n ''double'') ns s = s\<lparr>doubles := fold (\<lambda>n. sm_emplace n 0) ns (doubles s)\<rparr>"
  "fold (\<lambda>n. InitStat n ''calculated'') ns s = s\<lparr>calculated := fold (\<lambda>n. sm_emplace n 0) ns (calculated s)\<rparr>"
  by (induction ns arbitrary: s) (simp_all add: InitStat_def)

lemma distinct_names:
  "distinct counter_names" "distinct double_names" "distinct calculated_names" "distinct vec_names"
  "distinct vec_double_names" "distinct histo_names"
  by (simp_all add: counter_names_def double_names_def calculated_names_def vec_names_def
      vec_double_names_def histo_names_def)

text \<open>The object that the constructor builds.\<close>

definition fresh_stats :: "Config \<Rightarrow> int \<Rightarrow> SimpleStats" where
  "fresh_stats cfg ch = \<lparr>stats_channel_id = ch, calculated = map (\<lambda>n. (n, 0)) calculated_names,
    counters = map (\<lambda>n. (n, 0)) counter_names, doubles = map (\<lambda>n. (n, 0)) double_names,
    epoch_counters = map (\<lambda>n. (n, 0)) counter_names,
    vec_counters = map (\<lambda>n. (n, replicate (nat (ranks cfg)) 0)) vec_names,
    epoch_vec_counters = map (\<lambda>n. (n, replicate (nat (ranks cfg)) 0)) vec_names,
    vec_doubles = map (\<lambda>n. (n, replicate (nat (ranks cfg)) 0)) vec_double_names,
    histo_bounds = [(''read_latency'', (0, 200)), (''write_latency'', (0, 200)), (''interarrival_latency'', (0, 100))],
    bin_widths = [(''read_latency'', 20), (''write_latency'', 20), (''interarrival_latency'', 10)],
    histo_counts = map (\<lambda>n. (n, [])) histo_names, epoch_histo_counts = map (\<lambda>n. (n, [])) histo_names,
    histo_bins = map (\<lambda>n. (n, replicate 12 0)) histo_names,
    epoch_histo_bins = map (\<lambda>n. (n, replicate 12 0)) histo_names\<rparr>"

lemma SimpleStats_new_eq: "SimpleStats_new cfg ch = Inr (fresh_stats cfg ch)"
  by (simp add: SimpleStats_new_def fold_InitStat fold_emplace distinct_names)
    (simp add: fresh_stats_def InitVecStat_def InitHistoStat_def idiv_def sm_emplace_def signed_divide_int_def
      vec_names_def vec_double_names_def histo_names_def fold_emplace distinct_names)

lemma SimpleStats_new_wf: "\<exists>s. SimpleStats_new cfg ch = Inr s \<and> stats_wf cfg s"
proof -
  have "stats_wf cfg (fresh_stats cfg ch)"
    by (simp add: stats_wf_def fresh_stats_def distinct_names comp_def)
      (simp add: vec_names_def vec_double_names_def histo_names_def sm_get_def bins_fit_def)
  then show ?thesis by (simp add: SimpleStats_new_eq)
qed

lemma Increment_wf [wf_intros]: "stats_wf cfg s \<Longrightarrow> stats_wf cfg (Increment name s)"
  by (simp add: stats_wf_def Increment_def)

lemma AddValue_wf [wf_intros]:
  "stats_wf cfg s \<Longrightarrow> name \<in> set histo_names \<Longrightarrow> stats_wf cfg (AddValue name value s)"
proof -
  assume wf: "stats_wf cfg s" and n: "name \<in> set histo_names"
  then have "name \<in> fst ` set (epoch_histo_counts s)"
    by (metis (no_types, lifting) stats_wf_def list.set_map)
  with wf show ?thesis by (simp add: stats_wf_def AddValue_def keys_sm_put_in)
qed

lemma IncrementVec_wf:
  assumes wf: "stats_wf cfg s" and n: "name \<in> set vec_names" and i: "0 \<le> i" "i < ranks cfg"
  obtains s' where "IncrementVec name i s = Inr s'" and "stats_wf cfg s'"
proof -
  have k: "name \<in> fst ` set (epoch_vec_counters s)"
    using wf n by (metis (no_types, lifting) stats_wf_def list.set_map)
  let ?v = "sm_get [] (epoch_vec_counters s) name"
  have "length ?v = nat (ranks cfg)" using wf n by (simp add: stats_wf_def)
  then have "IncrementVec name i s = Inr (s\<lparr>epoch_vec_counters :=
      sm_put name (?v[nat i := ?v ! nat i + 1]) (epoch_vec_counters s)\<rparr>)"
    using i by (simp add: IncrementVec_def IncrementVecBy_def vupd_def vget_def vset_def)
  moreover have "stats_wf cfg (s\<lparr>epoch_vec_counters :=
      sm_put name (?v[nat i := ?v ! nat i + 1]) (epoch_vec_counters s)\<rparr>)"
    using wf k n by (auto simp: stats_wf_def keys_sm_put_in)
  ultimately show thesis by (rule that)
qed

section \<open>Element-wise additions\<close>

lemma irange_Suc: "irange (int (Suc n)) = irange (int n) @ [int n]"
  by (simp add: irange_def nat_add_distrib)

lemma add_loop:
  assumes "n \<le> length acc" and "n \<le> length v"
  shows "res_fold (\<lambda>i acc. res_bind (vget v i) (\<lambda>e. vupd (\<lambda>x. Inr (x + e)) acc i)) (irange (int n)) acc =
    Inr (map2 (+) (take n acc) (take n v) @ drop n acc)"
  using assms
proof (induction n)
  case (Suc n)
  let ?p = "map2 (+) (take n acc) (take n v)"
  have len: "length ?p = n" using Suc.prems by simp
  have "drop n acc = acc ! n # drop (Suc n) acc" using Suc.prems by (simp add: Cons_nth_drop_Suc)
  then have "(?p @ drop n acc)[n := acc ! n + v ! n] =
    map2 (+) (take (Suc n) acc) (take (Suc n) v) @ drop (Suc n) acc"
    using Suc.prems len by (simp add: list_update_append take_Suc_conv_app_nth)
  moreover have "(?p @ drop n acc) ! n = acc ! n"
    using Suc.prems len by (simp add: nth_append)
  ultimately show ?case
    using Suc.prems Suc.IH len
    by (simp add: irange_Suc vget_def vupd_def vset_def del: of_nat_Suc)
qed (simp add: irange_def)

lemma add_vectors_eq: "length epoch = length final \<Longrightarrow> add_vectors final epoch = Inr (map2 (+) final epoch)"
  using add_loop [of "length final" final epoch] by (simp add: add_vectors_def)

lemma sum_list_update_group:
  "i < length xs \<Longrightarrow> sum_list (xs[i := xs ! i + (n::'a::ab_group_add)]) = sum_list xs + n"
  by (induction xs arbitrary: i) (auto split: nat.splits simp: algebra_simps)

lemma sum_list_map2_add:
  "length xs = length ys \<Longrightarrow> sum_list (map2 (+) xs ys) = sum_list xs + sum_list (ys :: 'a::comm_monoid_add list)"
  by (induction xs ys rule: list_induct2) (simp_all add: algebra_simps)

section \<open>Histograms\<close>

lemma bin_index_in_range:
  assumes "bins_fit bounds width n"
  obtains i where "bin_index bounds width n value = Inr i" and "0 \<le> i" and "i < int n"
proof (cases "value < fst bounds \<or> value > snd bounds")
  case True
  then show thesis using that [of 0] that [of "int n - 1"] assms
    by (cases "value < fst bounds") (auto simp: bin_index_def bins_fit_def)
next
  case False
  let ?d = "value - fst bounds"
  have w: "0 < width" and hi: "?d \<le> width * (int n - 2)" and lo: "0 \<le> ?d"
    using assms False by (auto simp: bins_fit_def)
  have "?d div width \<le> width * (int n - 2) div width" using hi w by (rule zdiv_mono1)
  then have "?d div width \<le> int n - 2" using w by simp
  moreover have "0 \<le> ?d div width" using lo w by (simp add: pos_imp_zdiv_nonneg_iff)
  moreover have "bin_index bounds width n value = Inr (?d div width + 1)"
    using False w lo by (simp add: bin_index_def idiv_def signed_divide_int_def sgn_if)
  ultimately show thesis by (intro that [of "?d div width + 1"]) auto
qed

lemma fill_bins_spec:
  assumes fit: "bins_fit bounds width (length bins)"
  shows "\<exists>b. fill_bins bounds width counts bins = Inr b \<and> length b = length bins \<and>
    sum_list b = sum_list (map snd counts)"
proof -
  let ?f = "\<lambda>(value, n) acc. res_bind (bin_index bounds width (length bins) value) (\<lambda>i.
       vupd (\<lambda>x. Inr (x + n)) acc i)"
  have "\<exists>b. res_fold ?f counts acc = Inr b \<and> length b = length bins \<and>
      sum_list b = sum_list acc + sum_list (map snd counts)" if "length acc = length bins" for acc
    using that
  proof (induction counts arbitrary: acc)
    case (Cons e counts)
    obtain v n where e: "e = (v, n)" by (cases e)
    obtain i where i: "bin_index bounds width (length bins) v = Inr i" "0 \<le> i" "i < int (length bins)"
      using bin_index_in_range [OF fit] by blast
    have step: "?f e acc = Inr (acc[nat i := acc ! nat i + n])"
      using i Cons.prems by (simp add: e vupd_def vget_def vset_def)
    have sum: "sum_list (acc[nat i := acc ! nat i + n]) = sum_list acc + n"
      using i Cons.prems by (intro sum_list_update_group) simp
    have "length (acc[nat i := acc ! nat i + n]) = length bins" using Cons.prems by simp
    from Cons.IH [OF this] obtain b where
      "res_fold ?f counts (acc[nat i := acc ! nat i + n]) = Inr b" "length b = length bins"
      "sum_list b = sum_list acc + n + sum_list (map snd counts)" using sum by auto
    then show ?case unfolding res_fold.simps step res_bind_Inr by (auto simp: e algebra_simps)
  qed simp
  from this [of "replicate (length bins) 0"] show ?thesis
    by (simp add: fill_bins_def sum_list_replicate)
qed

section \<open>Epochs move counters\<close>

text \<open>A loop that rewrites the entry of every name, where the names are distinct.\<close>

lemma res_fold_entries:
  assumes "distinct (map fst l)"
    and "\<And>k v. (k, v) \<in> set l \<Longrightarrow> f k v (sm_get d m k) = Inr (g k)"
  shows "\<exists>m'. res_fold (\<lambda>(k, v) m. res_bind (f k v (sm_get d m k)) (\<lambda>w. Inr (sm_put k w m))) l m = Inr m' \<and>
    (\<forall>k. sm_get d m' k = (if k \<in> fst ` set l then g k else sm_get d m k)) \<and>
    (fst ` set l \<subseteq> fst ` set m \<longrightarrow> map fst m' = map fst m)"
  using assms
proof (induction l arbitrary: m)
  case (Cons e l)
  obtain k v where e: "e = (k, v)" by (cases e)
  let ?m = "sm_put k (g k) m"
  have fk: "f k v (sm_get d m k) = Inr (g k)" using Cons.prems(2) [of k v] e by simp
  have "f k' v' (sm_get d ?m k') = Inr (g k')" if "(k', v') \<in> set l" for k' v'
  proof -
    have "k' \<noteq> k" using that Cons.prems(1) e by force
    then show ?thesis using Cons.prems(2) [of k' v'] that by simp
  qed
  from Cons.IH [OF _ this] Cons.prems(1) obtain m' where
    run: "res_fold (\<lambda>(k, v) m. res_bind (f k v (sm_get d m k)) (\<lambda>w. Inr (sm_put k w m))) l ?m = Inr m'"
    and get: "\<And>k'. sm_get d m' k' = (if k' \<in> fst ` set l then g k' else sm_get d ?m k')"
    and keys: "fst ` set l \<subseteq> fst ` set ?m \<longrightarrow> map fst m' = map fst ?m" by auto
  have nk: "k \<notin> fst ` set l" using Cons.prems(1) e by simp
  have "sm_get d m' k' = (if k' \<in> fst ` set (e # l) then g k' else sm_get d m k')" for k'
    using get nk e by auto
  moreover have "map fst m' = map fst m" if "fst ` set (e # l) \<subseteq> fst ` set m"
    using that keys e by (simp add: keys_sm_put_in subset_insertI2)
  ultimately show ?case using run fk e by simp
qed simp

lemma fold_counters:
  "distinct (map fst e) \<Longrightarrow>
     sm_get 0 (fold (\<lambda>(k, v) m. sm_put k (sm_get 0 m k + v) m) e c) n = sm_get 0 c n + sm_get (0::u64) e n"
proof (induction e arbitrary: c)
  case (Cons x e)
  obtain k v where x: "x = (k, v)" by (cases x)
  have "map_of e k = None" using Cons.prems x by (simp add: map_of_eq_None_iff)
  then have "sm_get 0 e k = 0" by (simp add: sm_get_def)
  moreover have "sm_get 0 ((k, v) # e) n = (if n = k then v else sm_get 0 e n)" by (simp add: sm_get_def)
  ultimately show ?case using Cons x by simp
qed (simp add: sm_get_def)

definition total :: "SimpleStats \<Rightarrow> string \<Rightarrow> u64" where
  "total s n = sm_get 0 (counters s) n + sm_get 0 (epoch_counters s) n"

lemma total_Increment: "total (Increment name s) n = total s n + (if n = name then 1 else 0)"
  by (simp add: total_def Increment_def)

lemma sm_get_entry: "distinct (map fst m) \<Longrightarrow> (k, v) \<in> set m \<Longrightarrow> sm_get d m k = v"
  by (simp add: sm_get_def)

lemma stats_wf_distinct:
  "stats_wf cfg s \<Longrightarrow> distinct (map fst (epoch_vec_counters s)) \<and> distinct (map fst (epoch_histo_bins s)) \<and>
     distinct (map fst (epoch_histo_counts s)) \<and> distinct (map fst (epoch_counters s))"
  by (simp add: stats_wf_def distinct_names)

lemma keys_names: "map fst m = ns \<Longrightarrow> fst ` set m = set ns"
  by (metis list.set_map)

lemma UpdateCounters_spec:
  assumes wf: "stats_wf cfg s"
  obtains s' m where "UpdateCounters s = Inr s'" and "stats_wf cfg s'"
    and "s' = s\<lparr>counters := counters s', vec_counters := m\<rparr>"
    and "\<And>n. sm_get 0 (counters s') n = total s n"
proof -
  let ?c = "fold (\<lambda>(k, v) m. sm_put k (sm_get 0 m k + v) m) (epoch_counters s) (counters s)"
  let ?f = "\<lambda>k v x. res_fold (\<lambda>i acc. res_bind (vget v i) (\<lambda>e. vupd (\<lambda>x. Inr (x + e)) acc i))
             (irange (int (length v))) x"
  let ?g = "\<lambda>k. map2 (+) (sm_get [] (vec_counters s) k) (sm_get [] (epoch_vec_counters s) k)"
  note d = stats_wf_distinct [OF wf]
  have keys: "fst ` set (epoch_vec_counters s) = set vec_names" "fst ` set (vec_counters s) = set vec_names"
    using wf by (intro keys_names; simp add: stats_wf_def)+
  have len: "length (sm_get [] (epoch_vec_counters s) n) = nat (ranks cfg) \<and>
      length (sm_get [] (vec_counters s) n) = nat (ranks cfg)" if "n \<in> set vec_names" for n
    using wf that by (simp add: stats_wf_def)
  have step: "?f k v (sm_get [] (vec_counters s) k) = Inr (?g k)" if e: "(k, v) \<in> set (epoch_vec_counters s)" for k v
  proof -
    have v: "sm_get [] (epoch_vec_counters s) k = v" using d e by (simp add: sm_get_entry)
    have "k \<in> set vec_names" using e keys(1) by force
    then have "length (sm_get [] (vec_counters s) k) = length v" using len [of k] v by auto
    then show ?thesis using add_loop [of "length v" "sm_get [] (vec_counters s) k" v] v by simp
  qed
  obtain m where run: "res_fold (\<lambda>(k, v) m. res_bind (?f k v (sm_get [] m k)) (\<lambda>w. Inr (sm_put k w m)))
        (epoch_vec_counters s) (vec_counters s) = Inr m"
    and get: "\<And>k. sm_get [] m k = (if k \<in> set vec_names then ?g k else sm_get [] (vec_counters s) k)"
    and mk: "map fst m = map fst (vec_counters s)"
    using res_fold_entries [of "epoch_vec_counters s" ?f "[]" "vec_counters s" ?g, OF _ step] d keys by auto
  show thesis
  proof (rule that)
    show "UpdateCounters s = Inr (s\<lparr>counters := ?c, vec_counters := m\<rparr>)"
      using run by (simp add: UpdateCounters_def Let_def)
    show "stats_wf cfg (s\<lparr>counters := ?c, vec_counters := m\<rparr>)"
      using wf get mk len by (auto simp: stats_wf_def)
    show "s\<lparr>counters := ?c, vec_counters := m\<rparr> = s\<lparr>counters := counters (s\<lparr>counters := ?c, vec_counters := m\<rparr>), vec_counters := m\<rparr>"
      by simp
    show "sm_get 0 (counters (s\<lparr>counters := ?c, vec_counters := m\<rparr>)) n = total s n" for n
      using fold_counters [of "epoch_counters s"] d by (simp add: total_def)
  qed
qed


lemma vd_entry: "n \<in> set vec_double_names \<Longrightarrow> map fst m = vec_double_names \<Longrightarrow> n \<in> fst ` set m"
  by (metis list.set_map)

lemma background_step_ok:
  assumes v: "\<forall>n\<in>set vec_names. length (sm_get [] vcs n) = nat (ranks cfg)"
    and d: "map fst vd = vec_double_names \<and> (\<forall>n\<in>set vec_double_names. length (sm_get [] vd n) = nat (ranks cfg))"
    and i: "i \<in> set (irange (ranks cfg))"
  shows "\<exists>vd' e'. background_step cfg vcs i (vd, e) = Inr (vd', e') \<and> map fst vd' = vec_double_names \<and>
    (\<forall>n\<in>set vec_double_names. length (sm_get [] vd' n) = nat (ranks cfg))"
proof -
  have n: "''rank_active_cycles'' \<in> set vec_names" "''all_bank_idle_cycles'' \<in> set vec_names"
    "''sref_cycles'' \<in> set vec_names" by (simp_all add: vec_names_def)
  have m: "''act_stb_energy'' \<in> set vec_double_names" "''pre_stb_energy'' \<in> set vec_double_names"
    "''sref_energy'' \<in> set vec_double_names" by (simp_all add: vec_double_names_def)
  note l = bspec [OF v n(1)] bspec [OF v n(2)] bspec [OF v n(3)]
  note k = bspec [OF conjunct2 [OF d] m(1)] bspec [OF conjunct2 [OF d] m(2)] bspec [OF conjunct2 [OF d] m(3)]
  have in_vd: "''act_stb_energy'' \<in> fst ` set vd" "''pre_stb_energy'' \<in> fst ` set vd" "''sref_energy'' \<in> fst ` set vd"
    using d m by (auto intro: vd_entry)
  show ?thesis
    using i l k d in_vd by (simp add: background_step_def Let_def vget_def vset_def keys_sm_put_in)
qed

lemma background_ok:
  assumes v: "\<forall>n\<in>set vec_names. length (sm_get [] vcs n) = nat (ranks cfg)"
    and d: "map fst vd = vec_double_names \<and> (\<forall>n\<in>set vec_double_names. length (sm_get [] vd n) = nat (ranks cfg))"
  obtains vd' e where "res_fold (background_step cfg vcs) (irange (ranks cfg)) (vd, 0) = Inr (vd', e)"
    and "map fst vd' = vec_double_names" and "\<forall>n\<in>set vec_double_names. length (sm_get [] vd' n) = nat (ranks cfg)"
proof -
  let ?P = "\<lambda>x :: (string, real list) smap \<times> real. map fst (fst x) = vec_double_names \<and>
    (\<forall>n\<in>set vec_double_names. length (sm_get [] (fst x) n) = nat (ranks cfg))"
  have "\<exists>x. res_fold (background_step cfg vcs) (irange (ranks cfg)) (vd, 0) = Inr x \<and> ?P x"
  proof (rule res_fold_ok)
    fix i x assume "i \<in> set (irange (ranks cfg))" "?P x"
    with background_step_ok [OF v, of "fst x" i "snd x"]
    show "\<exists>x'. background_step cfg vcs i x = Inr x' \<and> ?P x'" by fastforce
  qed (use d in simp)
  then show thesis using that by fastforce
qed

lemma refill_ok:
  assumes wf: "stats_wf cfg s" and n: "n \<in> set histo_names"
  shows "\<exists>b. refill_bins s n (sm_get [] (epoch_histo_bins s) n) = Inr b \<and>
    length b = length (sm_get [] (epoch_histo_bins s) n) \<and>
    sum_list b = sum_list (map snd (sm_get [] (epoch_histo_counts s) n))"
  unfolding refill_bins_def by (rule fill_bins_spec) (use assms in \<open>simp add: stats_wf_def\<close>)

lemma refill_all:
  assumes wf: "stats_wf cfg s"
  obtains ebins where
    "res_fold (\<lambda>(name, bins) m. res_bind (refill_bins s name bins) (\<lambda>b. Inr (sm_put name b m)))
       (epoch_histo_bins s) (epoch_histo_bins s) = Inr ebins"
    and "stats_wf cfg (s\<lparr>epoch_histo_bins := ebins\<rparr>)"
    and "\<And>n. n \<in> set histo_names \<Longrightarrow>
      sum_list (sm_get [] ebins n) = sum_list (map snd (sm_get [] (epoch_histo_counts s) n))"
proof -
  define g where "g = (\<lambda>n. projr (refill_bins s n (sm_get [] (epoch_histo_bins s) n)))"
  have keys: "fst ` set (epoch_histo_bins s) = set histo_names"
    using wf by (intro keys_names) (simp add: stats_wf_def)
  have g: "refill_bins s n (sm_get [] (epoch_histo_bins s) n) = Inr (g n)"
    "length (g n) = length (sm_get [] (epoch_histo_bins s) n)"
    "sum_list (g n) = sum_list (map snd (sm_get [] (epoch_histo_counts s) n))" if "n \<in> set histo_names" for n
    using refill_ok [OF wf that] unfolding g_def by auto
  have "refill_bins s k v = Inr (g k)" if e: "(k, v) \<in> set (epoch_histo_bins s)" for k v
  proof -
    have "sm_get [] (epoch_histo_bins s) k = v" using stats_wf_distinct [OF wf] e by (simp add: sm_get_entry)
    moreover have "k \<in> set histo_names" using e keys by force
    ultimately show ?thesis using g(1) by auto
  qed
  from res_fold_entries [of "epoch_histo_bins s" "\<lambda>k v _. refill_bins s k v" "[]" "epoch_histo_bins s" g, OF _ this]
    stats_wf_distinct [OF wf]
  obtain ebins where run: "res_fold (\<lambda>(name, bins) m. res_bind (refill_bins s name bins) (\<lambda>b. Inr (sm_put name b m)))
       (epoch_histo_bins s) (epoch_histo_bins s) = Inr ebins"
    and eb: "\<And>k. sm_get [] ebins k = (if k \<in> set histo_names then g k else sm_get [] (epoch_histo_bins s) k)"
    and ek: "map fst ebins = map fst (epoch_histo_bins s)" unfolding keys by blast
  show thesis by (rule that [OF run]) (use wf eb ek g in \<open>auto simp: stats_wf_def\<close>)
qed

lemma merge_histo_ok:
  assumes wf: "stats_wf cfg s" and k: "k \<in> set histo_names"
  obtains s' where "merge_histo (k, ec) s = Inr s'" and "stats_wf cfg s'"
    and "s' = s\<lparr>histo_counts := histo_counts s', histo_bins := histo_bins s'\<rparr>"
    and "\<And>n. sum_list (sm_get [] (histo_bins s') n) = sum_list (sm_get [] (histo_bins s) n) +
      (if n = k then sum_list (sm_get [] (epoch_histo_bins s) n) else 0)"
proof -
  have len: "length (sm_get [] (epoch_histo_bins s) k) = length (sm_get [] (histo_bins s) k)"
    using wf k by (simp add: stats_wf_def)
  have keys: "k \<in> fst ` set (histo_bins s)" "k \<in> fst ` set (histo_counts s)"
    using k keys_names [of "histo_bins s" histo_names] keys_names [of "histo_counts s" histo_names] wf
    by (simp_all add: stats_wf_def)
  let ?s = "s\<lparr>histo_counts := sm_put k (fold (\<lambda>(v, n). histo_add v n) ec (sm_get [] (histo_counts s) k)) (histo_counts s),
    histo_bins := sm_put k (map2 (+) (sm_get [] (histo_bins s) k) (sm_get [] (epoch_histo_bins s) k)) (histo_bins s)\<rparr>"
  have "merge_histo (k, ec) s = Inr ?s" using add_vectors_eq [OF len] by (simp add: merge_histo_def)
  moreover have "stats_wf cfg ?s" using wf keys len by (auto simp: stats_wf_def keys_sm_put_in)
  ultimately show thesis by (rule that) (use len in \<open>auto simp: sum_list_map2_add\<close>)
qed

lemma merge_all:
  assumes "stats_wf cfg s" and "distinct (map fst l)" and "fst ` set l \<subseteq> set histo_names"
  shows "\<exists>s'. res_fold merge_histo l s = Inr s' \<and> stats_wf cfg s' \<and>
    s' = s\<lparr>histo_counts := histo_counts s', histo_bins := histo_bins s'\<rparr> \<and>
    (\<forall>n. sum_list (sm_get [] (histo_bins s') n) = sum_list (sm_get [] (histo_bins s) n) +
      (if n \<in> fst ` set l then sum_list (sm_get [] (epoch_histo_bins s) n) else 0))"
  using assms
proof (induction l arbitrary: s)
  case (Cons e l)
  obtain k ec where e: "e = (k, ec)" by (cases e)
  have k: "k \<in> set histo_names" "k \<notin> fst ` set l" using Cons.prems e by auto
  obtain s1 where s1: "merge_histo (k, ec) s = Inr s1" "stats_wf cfg s1"
    and u1: "s1 = s\<lparr>histo_counts := histo_counts s1, histo_bins := histo_bins s1\<rparr>"
    and b1: "\<And>n. sum_list (sm_get [] (histo_bins s1) n) = sum_list (sm_get [] (histo_bins s) n) +
      (if n = k then sum_list (sm_get [] (epoch_histo_bins s) n) else 0)"
    using merge_histo_ok [OF Cons.prems(1) k(1)] by blast
  from Cons.IH [OF s1(2)] Cons.prems obtain s2 where s2: "res_fold merge_histo l s1 = Inr s2" "stats_wf cfg s2"
    and u2: "s2 = s1\<lparr>histo_counts := histo_counts s2, histo_bins := histo_bins s2\<rparr>"
    and b2: "\<And>n. sum_list (sm_get [] (histo_bins s2) n) = sum_list (sm_get [] (histo_bins s1) n) +
      (if n \<in> fst ` set l then sum_list (sm_get [] (epoch_histo_bins s1) n) else 0)" by auto
  have eq: "epoch_histo_bins s1 = epoch_histo_bins s" by (subst u1) simp
  have u: "s2 = s\<lparr>histo_counts := histo_counts s2, histo_bins := histo_bins s2\<rparr>" by (subst u2, subst u1) simp
  have "sum_list (sm_get [] (histo_bins s2) n) = sum_list (sm_get [] (histo_bins s) n) +
      (if n \<in> fst ` set (e # l) then sum_list (sm_get [] (epoch_histo_bins s) n) else 0)" for n
    using b1 b2 k eq e by simp
  then show ?case using s1(1) s2 u e by simp
qed simp

lemma UpdateHistoBins_spec:
  assumes wf: "stats_wf cfg s"
  obtains s' where "UpdateHistoBins s = Inr s'" and "stats_wf cfg s'"
    and "s' = s\<lparr>histo_counts := histo_counts s', histo_bins := histo_bins s', epoch_histo_bins := epoch_histo_bins s'\<rparr>"
    and "\<And>n. n \<in> set histo_names \<Longrightarrow>
      sum_list (sm_get [] (histo_bins s') n) = sum_list (sm_get [] (histo_bins s) n) +
        sum_list (map snd (sm_get [] (epoch_histo_counts s) n))"
proof -
  obtain ebins where run: "res_fold (\<lambda>(name, bins) m. res_bind (refill_bins s name bins) (\<lambda>b. Inr (sm_put name b m)))
       (epoch_histo_bins s) (epoch_histo_bins s) = Inr ebins"
    and wf1: "stats_wf cfg (s\<lparr>epoch_histo_bins := ebins\<rparr>)"
    and sums: "\<And>n. n \<in> set histo_names \<Longrightarrow>
      sum_list (sm_get [] ebins n) = sum_list (map snd (sm_get [] (epoch_histo_counts s) n))"
    using refill_all [OF wf] by blast
  have keys: "fst ` set (epoch_histo_counts s) = set histo_names"
    using wf by (intro keys_names) (simp add: stats_wf_def)
  from merge_all [OF wf1, of "epoch_histo_counts s"] stats_wf_distinct [OF wf] keys
  obtain s' where s': "res_fold merge_histo (epoch_histo_counts s) (s\<lparr>epoch_histo_bins := ebins\<rparr>) = Inr s'"
    "stats_wf cfg s'"
    and u: "s' = s\<lparr>epoch_histo_bins := ebins, histo_counts := histo_counts s', histo_bins := histo_bins s'\<rparr>"
    and b: "\<And>n. n \<in> set histo_names \<Longrightarrow> sum_list (sm_get [] (histo_bins s') n) =
      sum_list (sm_get [] (histo_bins s) n) + sum_list (sm_get [] ebins n)" by auto
  have eb: "epoch_histo_bins s' = ebins" by (subst u) simp
  show thesis
  proof (rule that)
    show "UpdateHistoBins s = Inr s'" using run s'(1) by (simp add: UpdateHistoBins_def)
    show "s' = s\<lparr>histo_counts := histo_counts s', histo_bins := histo_bins s', epoch_histo_bins := epoch_histo_bins s'\<rparr>"
      unfolding eb by (subst u) simp
  qed (use s' eb sums b in auto)
qed


lemma command_energy_frame:
  "\<exists>d. command_energy cfg cs s = s\<lparr>doubles := d\<rparr>"
  by (auto simp: command_energy_def Let_def)

lemma calculated_stats_ok:
  assumes "map fst hs = histo_names"
  shows "\<exists>c. calculated_stats cfg cs hs bg s = Inr (s\<lparr>calculated := c\<rparr>)"
proof -
  have "map_of hs n \<noteq> None" if "n \<in> set histo_names" for n
    using keys_names [OF assms] that by (simp add: map_of_eq_None_iff)
  then have "\<exists>a b. map_of hs ''read_latency'' = Some a \<and> map_of hs ''interarrival_latency'' = Some b"
    by (auto simp: histo_names_def)
  then show ?thesis by (auto simp: calculated_stats_def Let_def sm_at_def)
qed

lemma sm_get_fill [simp]: "sm_get d (fill_values d m) n = d"
  by (induction m) (auto simp: fill_values_def sm_get_def)

lemma sm_get_fill_vectors: "length (sm_get [] (fill_vectors x m) n) = length (sm_get [] m n)"
  by (induction m) (auto simp: fill_vectors_def sm_get_def)

lemma keys_fill [simp]: "map fst (fill_values x m) = map fst m" "map fst (fill_vectors y v) = map fst v"
  by (auto simp: fill_values_def fill_vectors_def)

lemma stats_wf_energy [simp]:
  "stats_wf cfg (s\<lparr>doubles := d\<rparr>) = stats_wf cfg s" "stats_wf cfg (s\<lparr>calculated := c\<rparr>) = stats_wf cfg s"
  by (simp_all add: stats_wf_def)

lemma UpdateEpochStats_spec:
  assumes wf: "stats_wf cfg s"
  obtains s' where "UpdateEpochStats cfg s = Inr s'" and "stats_wf cfg s'"
    and "\<And>n. sm_get 0 (counters s') n = total s n" and "\<And>n. sm_get 0 (epoch_counters s') n = 0"
    and "\<And>n. n \<in> set histo_names \<Longrightarrow>
      sum_list (sm_get [] (histo_bins s') n) = sum_list (sm_get [] (histo_bins s) n) +
        sum_list (map snd (sm_get [] (epoch_histo_counts s) n))"
proof -
  obtain s1 m where s1: "UpdateCounters s = Inr s1" "stats_wf cfg s1"
    and u1: "s1 = s\<lparr>counters := counters s1, vec_counters := m\<rparr>"
    and c1: "\<And>n. sm_get 0 (counters s1) n = total s n" using UpdateCounters_spec [OF wf] by blast
  obtain d where d: "command_energy cfg (epoch_counters s1) s1 = s1\<lparr>doubles := d\<rparr>"
    using command_energy_frame by blast
  obtain vd e where bg: "res_fold (background_step cfg (epoch_vec_counters s1)) (irange (ranks cfg))
      (vec_doubles s1, 0) = Inr (vd, e)" "map fst vd = vec_double_names"
    "\<forall>n\<in>set vec_double_names. length (sm_get [] vd n) = nat (ranks cfg)"
    by (rule background_ok [of "epoch_vec_counters s1" cfg "vec_doubles s1"])
      (use s1(2) in \<open>auto simp: stats_wf_def\<close>)
  let ?s2 = "s1\<lparr>doubles := d, vec_doubles := vd\<rparr>"
  have wf2: "stats_wf cfg ?s2" using s1(2) bg(2,3) by (simp add: stats_wf_def)
  obtain s3 where s3: "UpdateHistoBins ?s2 = Inr s3" "stats_wf cfg s3"
    and u3: "s3 = ?s2\<lparr>histo_counts := histo_counts s3, histo_bins := histo_bins s3, epoch_histo_bins := epoch_histo_bins s3\<rparr>"
    and b3: "\<And>n. n \<in> set histo_names \<Longrightarrow>
      sum_list (sm_get [] (histo_bins s3) n) = sum_list (sm_get [] (histo_bins ?s2) n) +
        sum_list (map snd (sm_get [] (epoch_histo_counts ?s2) n))"
    by (rule UpdateHistoBins_spec [OF wf2]) (rule that; assumption)
  obtain c where c: "calculated_stats cfg (epoch_counters s3) (epoch_histo_counts s3) e s3 = Inr (s3\<lparr>calculated := c\<rparr>)"
    using calculated_stats_ok [of "epoch_histo_counts s3" cfg "epoch_counters s3" e s3] s3(2)
    unfolding stats_wf_def by blast
  let ?s' = "s3\<lparr>calculated := c, epoch_counters := fill_values 0 (epoch_counters s3),
    epoch_vec_counters := fill_vectors 0 (epoch_vec_counters s3),
    epoch_histo_counts := fill_values [] (epoch_histo_counts s3)\<rparr>"
  have run: "UpdateEpochStats cfg s = Inr ?s'"
    using s1(1) bg(1) s3(1) c by (simp add: UpdateEpochStats_def d)
  have cs: "counters s3 = counters s1" "histo_bins s1 = histo_bins s" "epoch_histo_counts s1 = epoch_histo_counts s"
    by (subst u3, simp) (subst u1, simp)+
  show thesis
  proof (rule that [OF run])
    show "stats_wf cfg ?s'" using s3(2) by (simp add: stats_wf_def sm_get_fill_vectors)
  qed (use cs c1 b3 in auto)
qed

section \<open>Properties\<close>



end
