(* ===== verification/Dram_Command_Queue.thy ===== *)
theory Dram_Command_Queue
  imports Dram_Refresh Dram_Stats
begin

text \<open>
  \<^verbatim>\<open>dramsim3/src/command_queue.h\<close> and \<^verbatim>\<open>command_queue.cc\<close>: the
  per-bank or per-rank queues of reads and writes, the round-robin choice of a command, the
  precharge arbitration and the blocking of queues during a refresh. The channel state and
  the statistics the object refers to are arguments; the statistics are returned because the
  arbitration counts precharges.
\<close>

section \<open>State\<close>

datatype QueueStructure = PER_RANK | PER_BANK | QueueStructure_SIZE

record CommandQueue =
  rank_q_empty :: "bool list"
  q_structure :: QueueStructure
  queues :: "Command list list"
  ref_q_indices :: "int list"
  is_in_ref :: bool
  num_queues :: int
  queue_size :: nat
  queue_idx :: int
  cq_clk :: u64

definition CommandQueue_new :: "Config \<Rightarrow> CommandQueue res" where
  "CommandQueue_new cfg =
     res_bind
       (if queue_structure cfg = ''PER_BANK'' then Inr (PER_BANK, banks cfg * ranks cfg)
        else if queue_structure cfg = ''PER_RANK'' then Inr (PER_RANK, ranks cfg)
        else Inl (AbruptExit ''command_queue.cc'')) (\<lambda>(st, n).
       Inr \<lparr>rank_q_empty = replicate (nat (ranks cfg)) True, q_structure = st,
         queues = replicate (nat n) [], ref_q_indices = [], is_in_ref = False, num_queues = n,
         queue_size = unat (of_int (cmd_queue_size cfg) :: u64), queue_idx = 0, cq_clk = 0\<rparr>)"

section \<open>Access to the queues\<close>

definition GetQueueIndex :: "Config \<Rightarrow> CommandQueue \<Rightarrow> int \<Rightarrow> int \<Rightarrow> int \<Rightarrow> int" where
  "GetQueueIndex cfg q r bg ba =
     (if q_structure q = PER_RANK then r else r * banks cfg + bg * banks_per_group cfg + ba)"

definition GetQueue :: "Config \<Rightarrow> CommandQueue \<Rightarrow> int \<Rightarrow> int \<Rightarrow> int \<Rightarrow> Command list res" where
  "GetQueue cfg q r bg ba = vget (queues q) (GetQueueIndex cfg q r bg ba)"

definition GetNextQueue :: "CommandQueue \<Rightarrow> CommandQueue" where
  "GetNextQueue q =
     q\<lparr>queue_idx := (if queue_idx q + 1 = num_queues q then 0 else queue_idx q + 1)\<rparr>"

definition cq_ClockTick :: "CommandQueue \<Rightarrow> CommandQueue" where
  "cq_ClockTick q = q\<lparr>cq_clk := cq_clk q + 1\<rparr>"

definition WillAcceptCommand :: "Config \<Rightarrow> CommandQueue \<Rightarrow> int \<Rightarrow> int \<Rightarrow> int \<Rightarrow> bool res" where
  "WillAcceptCommand cfg q r bg ba =
     res_bind (GetQueue cfg q r bg ba) (\<lambda>l. Inr (length l < queue_size q))"

definition QueueEmpty :: "CommandQueue \<Rightarrow> bool" where
  "QueueEmpty q \<longleftrightarrow> list_all (\<lambda>l. l = []) (queues q)"

definition cq_QueueUsage :: "CommandQueue \<Rightarrow> int" where
  "cq_QueueUsage q = fold (\<lambda>l usage. usage + int (length l)) (queues q) 0"

definition AddCommand :: "Config \<Rightarrow> Command \<Rightarrow> CommandQueue \<Rightarrow> (bool \<times> CommandQueue) res" where
  "AddCommand cfg cmd q =
     (let i = GetQueueIndex cfg q (Rank cmd) (Bankgroup cmd) (Bank cmd)
      in res_bind (vget (queues q) i) (\<lambda>l.
         if length l < queue_size q then
           res_bind (vset (queues q) i (l @ [cmd])) (\<lambda>qs.
           res_bind (vset (rank_q_empty q) (Rank cmd) False) (\<lambda>e.
             Inr (True, q\<lparr>queues := qs, rank_q_empty := e\<rparr>)))
         else Inr (False, q)))"

fun erase_rw :: "Command \<Rightarrow> Command list \<Rightarrow> Command list res" where
  "erase_rw cmd [] = Inl (ExitCode 1)"
| "erase_rw cmd (c # l) =
     (if hex_addr cmd = hex_addr c \<and> cmd_type cmd = cmd_type c then Inr l
      else res_bind (erase_rw cmd l) (\<lambda>l'. Inr (c # l')))"

definition EraseRWCommand :: "Config \<Rightarrow> Command \<Rightarrow> CommandQueue \<Rightarrow> CommandQueue res" where
  "EraseRWCommand cfg cmd q =
     res_bind (vupd (erase_rw cmd) (queues q) (GetQueueIndex cfg q (Rank cmd) (Bankgroup cmd) (Bank cmd)))
       (\<lambda>qs. Inr (q\<lparr>queues := qs\<rparr>))"

section \<open>Refresh\<close>

definition GetRefQIndices :: "Config \<Rightarrow> Command \<Rightarrow> CommandQueue \<Rightarrow> CommandQueue res" where
  "GetRefQIndices cfg ref q =
     (if cmd_type ref = REFRESH then
        if q_structure q = PER_BANK then
          res_fold (\<lambda>i q'. res_bind (idiv i (banks cfg)) (\<lambda>d.
            Inr (if d = Rank ref then q'\<lparr>ref_q_indices := List.insert i (ref_q_indices q')\<rparr> else q')))
            (irange (num_queues q)) q
        else Inr (q\<lparr>ref_q_indices := List.insert (Rank ref) (ref_q_indices q)\<rparr>)
      else
        Inr (q\<lparr>ref_q_indices := List.insert (GetQueueIndex cfg q (Rank ref) (Bankgroup ref) (Bank ref))
          (ref_q_indices q)\<rparr>))"

definition FinishRefresh :: "Config \<Rightarrow> ChannelState \<Rightarrow> CommandQueue \<Rightarrow> (Command \<times> CommandQueue) res" where
  "FinishRefresh cfg ch q =
     res_bind (PendingRefCommand ch) (\<lambda>ref.
     res_bind (if \<not> is_in_ref q
               then res_bind (GetRefQIndices cfg ref q) (\<lambda>q1. Inr (q1\<lparr>is_in_ref := True\<rparr>))
               else Inr q) (\<lambda>q1.
     res_bind (GetReadyCommand cfg ch ref (cq_clk q1)) (\<lambda>cmd.
       Inr (cmd, if IsRefresh cmd then q1\<lparr>ref_q_indices := [], is_in_ref := False\<rparr> else q1))))"

section \<open>Choosing a command\<close>

text \<open>
  An iterator into a queue is the pair of the commands before it and the list it starts:
  \<open>prev\<close> and \<open>cmd # rest\<close>.
\<close>

definition same_bank_cmd :: "Command \<Rightarrow> Command \<Rightarrow> bool" where
  "same_bank_cmd a b \<longleftrightarrow> Rank a = Rank b \<and> Bankgroup a = Bankgroup b \<and> Bank a = Bank b"

definition ArbitratePrecharge ::
  "ChannelState \<Rightarrow> Command list \<Rightarrow> Command \<Rightarrow> Command list \<Rightarrow> SimpleStats \<Rightarrow> (bool \<times> SimpleStats) res" where
  "ArbitratePrecharge ch prev cmd rest st =
     (if list_ex (\<lambda>p. same_bank_cmd p cmd) prev then Inr (False, st)
      else
        res_bind (OpenRow ch (Rank cmd) (Bankgroup cmd) (Bank cmd)) (\<lambda>row.
        res_bind (RowHitCount ch (Rank cmd) (Bankgroup cmd) (Bank cmd)) (\<lambda>hits.
          let pending_row_hits_exist = list_ex (\<lambda>p. Row p = row \<and> same_bank_cmd p cmd) (cmd # rest);
              rowhit_limit_reached = hits \<ge> 4
          in if \<not> pending_row_hits_exist \<or> rowhit_limit_reached
             then Inr (True, Increment ''num_ondemand_pres'' st)
             else Inr (False, st))))"

definition HasRWDependency :: "Command list \<Rightarrow> Command \<Rightarrow> bool" where
  "HasRWDependency prev cmd \<longleftrightarrow>
     list_ex (\<lambda>p. IsRead p \<and> Row p = Row cmd \<and> Column p = Column cmd \<and> Bank p = Bank cmd \<and>
       Bankgroup p = Bankgroup cmd) prev"

fun first_ready_loop ::
  "Config \<Rightarrow> ChannelState \<Rightarrow> u64 \<Rightarrow> Command list \<Rightarrow> Command list \<Rightarrow> SimpleStats \<Rightarrow> (Command \<times> SimpleStats) res" where
  "first_ready_loop cfg ch clk prev [] st = Inr (Command_default, st)"
| "first_ready_loop cfg ch clk prev (it # rest) st =
     res_bind (GetReadyCommand cfg ch it clk) (\<lambda>cmd.
       if \<not> IsValid cmd then first_ready_loop cfg ch clk (prev @ [it]) rest st
       else if cmd_type cmd = PRECHARGE then
         res_bind (ArbitratePrecharge ch prev it rest st) (\<lambda>(ok, st').
           if \<not> ok then first_ready_loop cfg ch clk (prev @ [it]) rest st' else Inr (cmd, st'))
       else if IsWrite cmd then
         (if HasRWDependency prev it then first_ready_loop cfg ch clk (prev @ [it]) rest st
          else Inr (cmd, st))
       else Inr (cmd, st))"

definition GetFirstReadyInQueue ::
  "Config \<Rightarrow> ChannelState \<Rightarrow> u64 \<Rightarrow> Command list \<Rightarrow> SimpleStats \<Rightarrow> (Command \<times> SimpleStats) res" where
  "GetFirstReadyInQueue cfg ch clk queue st = first_ready_loop cfg ch clk [] queue st"

text \<open>The loop of \<^verbatim>\<open>GetCommandToIssue\<close> over \<open>num_queues\<close> queues.\<close>

fun issue_loop ::
  "nat \<Rightarrow> Config \<Rightarrow> ChannelState \<Rightarrow> CommandQueue \<Rightarrow> SimpleStats \<Rightarrow> (Command \<times> CommandQueue \<times> SimpleStats) res" where
  "issue_loop 0 cfg ch q st = Inr (Command_default, q, st)"
| "issue_loop (Suc n) cfg ch q st =
     (let q1 = GetNextQueue q in
      res_bind (vget (queues q1) (queue_idx q1)) (\<lambda>queue.
        if is_in_ref q1 \<and> queue_idx q1 \<in> set (ref_q_indices q1) then issue_loop n cfg ch q1 st
        else
          res_bind (GetFirstReadyInQueue cfg ch (cq_clk q1) queue st) (\<lambda>(cmd, st1).
            if IsValid cmd then
              res_bind (if IsReadWrite cmd then EraseRWCommand cfg cmd q1 else Inr q1) (\<lambda>q2.
                Inr (cmd, q2, st1))
            else issue_loop n cfg ch q1 st1)))"

definition GetCommandToIssue ::
  "Config \<Rightarrow> ChannelState \<Rightarrow> CommandQueue \<Rightarrow> SimpleStats \<Rightarrow> (Command \<times> CommandQueue \<times> SimpleStats) res" where
  "GetCommandToIssue cfg ch q st = issue_loop (nat (num_queues q)) cfg ch q st"


section \<open>Queue indices\<close>

definition cmd_queue_index :: "Config \<Rightarrow> CommandQueue \<Rightarrow> Command \<Rightarrow> int" where
  "cmd_queue_index cfg q c = GetQueueIndex cfg q (Rank c) (Bankgroup c) (Bank c)"

definition structure_ok :: "Config \<Rightarrow> CommandQueue \<Rightarrow> bool" where
  "structure_ok cfg q \<longleftrightarrow>
     q_structure q = PER_RANK \<and> num_queues q = ranks cfg \<or>
     q_structure q = PER_BANK \<and> num_queues q = banks cfg * ranks cfg"

lemma bank_offset_bounds:
  assumes "cfg_wf cfg" and "valid_bank cfg (r, bg, ba)"
  shows "0 \<le> bg * banks_per_group cfg + ba" and "bg * banks_per_group cfg + ba < banks cfg"
proof -
  show "0 \<le> bg * banks_per_group cfg + ba" using assms by (auto simp: cfg_wf_def)
  have "ba + banks_per_group cfg * bg < banks_per_group cfg * bankgroups cfg"
    using assms(2) by (intro mixed_radix_less) auto
  then show "bg * banks_per_group cfg + ba < banks cfg"
    using assms(1) by (simp add: cfg_wf_def algebra_simps)
qed

lemma queue_index_bounds:
  assumes "cfg_wf cfg" and "structure_ok cfg q" and "valid_bank cfg (r, bg, ba)"
  shows "0 \<le> GetQueueIndex cfg q r bg ba" and "GetQueueIndex cfg q r bg ba < num_queues q"
proof -
  note o = bank_offset_bounds [OF assms(1,3)]
  have r: "0 \<le> r" "r < ranks cfg" using assms(3) by auto
  have "(bg * banks_per_group cfg + ba) + banks cfg * r < banks cfg * ranks cfg"
    by (rule mixed_radix_less [OF o r])
  moreover have "0 \<le> (bg * banks_per_group cfg + ba) + banks cfg * r"
    by (rule add_nonneg_nonneg [OF o(1)]) (use r assms(1) in \<open>simp add: cfg_wf_def\<close>)
  ultimately show "0 \<le> GetQueueIndex cfg q r bg ba" "GetQueueIndex cfg q r bg ba < num_queues q"
    using assms(2) r o by (auto simp: structure_ok_def GetQueueIndex_def algebra_simps)
qed

lemma queue_index_inj:
  assumes "cfg_wf cfg" and "q_structure q = PER_BANK"
    and v: "valid_bank cfg (r, bg, ba)" "valid_bank cfg (r', bg', ba')"
    and eq: "GetQueueIndex cfg q r bg ba = GetQueueIndex cfg q r' bg' ba'"
  shows "(r, bg, ba) = (r', bg', ba')"
proof -
  note o = bank_offset_bounds [OF assms(1) v(1)] and o' = bank_offset_bounds [OF assms(1) v(2)]
  have "(bg * banks_per_group cfg + ba) + banks cfg * r = (bg' * banks_per_group cfg + ba') + banks cfg * r'"
    using eq assms(2) by (simp add: GetQueueIndex_def algebra_simps)
  from mixed_radix_inj [OF o o' this] have r: "r = r'"
    and e: "ba + banks_per_group cfg * bg = ba' + banks_per_group cfg * bg'" by (auto simp: algebra_simps)
  have b: "0 \<le> ba" "ba < banks_per_group cfg" "0 \<le> ba'" "ba' < banks_per_group cfg" using v by auto
  from mixed_radix_inj [OF b e] r show ?thesis by simp
qed

section \<open>Invariant\<close>

definition queued_ok :: "Config \<Rightarrow> Command \<Rightarrow> bool" where
  "queued_ok cfg c \<longleftrightarrow> IsReadWrite c \<and> valid_bank cfg (cmd_bank c) \<and>
     addr c = AddressMapping cfg (hex_addr c)"

definition cq_wf :: "Config \<Rightarrow> CommandQueue \<Rightarrow> bool" where
  "cq_wf cfg q \<longleftrightarrow> structure_ok cfg q \<and> length (queues q) = nat (num_queues q) \<and>
     0 \<le> queue_idx q \<and> queue_idx q < num_queues q \<and> length (rank_q_empty q) = nat (ranks cfg) \<and>
     (\<forall>i < length (queues q). length (queues q ! i) \<le> queue_size q \<and>
        (\<forall>c\<in>set (queues q ! i). queued_ok cfg c \<and> cmd_queue_index cfg q c = int i))"

lemma cq_wf_entry:
  "cq_wf cfg q \<Longrightarrow> i < length (queues q) \<Longrightarrow> c \<in> set (queues q ! i) \<Longrightarrow>
     queued_ok cfg c \<and> cmd_queue_index cfg q c = int i"
  by (simp add: cq_wf_def)

definition all_cmds :: "CommandQueue \<Rightarrow> Command multiset" where
  "all_cmds q = mset (concat (queues q))"

lemma mset_concat_update:
  "i < length xss \<Longrightarrow> mset (concat (xss[i := ys])) + mset (xss ! i) = mset (concat xss) + mset ys"
proof (induction xss arbitrary: i)
  case (Cons xs xss)
  then show ?case by (cases i) (auto simp: union_ac)
qed simp

lemma mset_concat_erase:
  assumes "i < length xss" and "mset (xss ! i) = add_mset x (mset ys)"
  shows "mset (concat xss) = add_mset x (mset (concat (xss[i := ys])))"
proof -
  have "mset (concat (xss[i := ys])) + add_mset x (mset ys) = mset (concat xss) + mset ys"
    using mset_concat_update [OF assms(1), of ys] assms(2) by simp
  then have "add_mset x (mset (concat (xss[i := ys]))) + mset ys = mset (concat xss) + mset ys" by simp
  then show ?thesis by (simp only: add_right_cancel)
qed

lemma CommandQueue_new_wf:
  assumes "cfg_wf cfg" and "CommandQueue_new cfg = Inr q"
  shows "cq_wf cfg q" and "all_cmds q = {#}"
proof -
  have pos: "0 < banks cfg" "0 < ranks cfg" using assms(1) by (auto simp: cfg_wf_def)
  then have "0 < banks cfg * ranks cfg" by simp
  with pos assms(2) show "cq_wf cfg q"
    by (auto simp: CommandQueue_new_def cq_wf_def structure_ok_def split: if_splits)
  show "all_cmds q = {#}"
    using assms(2) by (auto simp: CommandQueue_new_def all_cmds_def split: if_splits)
qed

section \<open>Adding a command\<close>

lemma AddCommand_spec:
  assumes cw: "cfg_wf cfg" and wf: "cq_wf cfg q" and ok: "queued_ok cfg cmd"
  obtains b q' where "AddCommand cfg cmd q = Inr (b, q')" and "cq_wf cfg q'"
    and "WillAcceptCommand cfg q (Rank cmd) (Bankgroup cmd) (Bank cmd) = Inr b"
    and "all_cmds q' = (if b then add_mset cmd (all_cmds q) else all_cmds q)"
    and "q' = q\<lparr>queues := queues q', rank_q_empty := rank_q_empty q'\<rparr>"
proof -
  define i where "i = cmd_queue_index cfg q cmd"
  have st: "structure_ok cfg q" and len: "length (queues q) = nat (num_queues q)" using wf by (auto simp: cq_wf_def)
  have vb: "valid_bank cfg (Rank cmd, Bankgroup cmd, Bank cmd)" using ok by (simp add: queued_ok_def cmd_bank_def)
  have i: "0 \<le> i" "i < num_queues q"
    using queue_index_bounds [OF cw st vb] by (simp_all add: i_def cmd_queue_index_def)
  have ri: "0 \<le> Rank cmd" "Rank cmd < int (length (rank_q_empty q))" using vb wf by (auto simp: cq_wf_def)
  let ?l = "queues q ! nat i"
  have get: "vget (queues q) i = Inr ?l" using i len by (simp add: vget_def)
  have will: "WillAcceptCommand cfg q (Rank cmd) (Bankgroup cmd) (Bank cmd) = Inr (length ?l < queue_size q)"
    using get by (simp add: WillAcceptCommand_def GetQueue_def i_def cmd_queue_index_def)
  show thesis
  proof (cases "length ?l < queue_size q")
    case True
    let ?q = "q\<lparr>queues := (queues q)[nat i := ?l @ [cmd]], rank_q_empty := (rank_q_empty q)[nat (Rank cmd) := False]\<rparr>"
    have run: "AddCommand cfg cmd q = Inr (True, ?q)"
      using get True i len ri by (simp add: AddCommand_def vset_def flip: cmd_queue_index_def i_def)
    have ni: "nat i < length (queues q)" using i len by simp
    have idx: "cmd_queue_index cfg ?q c = cmd_queue_index cfg q c" for c
      by (simp add: cmd_queue_index_def GetQueueIndex_def)
    have "cq_wf cfg ?q"
      using wf True ok ni i idx by (auto simp: cq_wf_def structure_ok_def nth_list_update i_def)
    moreover have "all_cmds ?q = add_mset cmd (all_cmds q)"
      using mset_concat_update [OF ni, of "?l @ [cmd]"] by (simp add: all_cmds_def)
    ultimately show thesis using that [OF run] will True by simp
  next
    case False
    have run: "AddCommand cfg cmd q = Inr (False, q)"
      using get False by (simp add: AddCommand_def flip: cmd_queue_index_def i_def)
    show thesis using that [OF run] wf will False by simp
  qed
qed


section \<open>Choosing a command\<close>

lemma ready_rw_is_request:
  assumes "ch_wf cfg ch" and "queued_ok cfg it" and "GetReadyCommand cfg ch it clk = Inr cmd" and "IsReadWrite cmd"
  shows "cmd = it"
proof -
  have vt: "valid_target cfg it" and nr: "\<not> IsRankCMD it"
    using assms(2) IsReadWrite_not_rank by (auto simp: queued_ok_def valid_target_def)
  note rs = ready_spec_bank [OF assms(1) vt nr assms(3) IsReadWrite_valid [OF assms(4)]]
  have "cmd_type cmd = cmd_type it"
    using required_type_bank [OF nr] rs assms(2,4) by (fastforce simp: queued_ok_def command_query_defs)
  with rs show ?thesis by (metis Command.surjective mk_Command_def old.unit.exhaust)
qed

lemma queued_ready:
  assumes "cfg_wf cfg" and wf: "ch_wf cfg ch" and ok: "queued_ok cfg it"
  obtains cmd where "GetReadyCommand cfg ch it clk = Inr cmd"
    and "IsValid cmd \<Longrightarrow> ready_spec cfg ch clk cmd" and "\<not> IsValid cmd \<Longrightarrow> cmd = Command_default"
proof -
  have vt: "valid_target cfg it"
    using ok IsReadWrite_not_rank by (auto simp: queued_ok_def valid_target_def)
  then have "request_ok cfg ch it" using ok by (simp add: request_ok_def queued_ok_def)
  then obtain cmd where cmd: "GetReadyCommand cfg ch it clk = Inr cmd"
    using GetReadyCommand_ok [OF wf] by (auto simp: is_ok_iff)
  with GetReadyCommand_ready [OF assms(1) wf vt cmd] GetReadyCommand_invalid [OF cmd] that show thesis by blast
qed

text \<open>When the arbitration allows a precharge, the request is the oldest of its bank, and no
  queued request hits the open row or the bank has served four hits.\<close>

lemma ArbitratePrecharge_spec:
  assumes wf: "ch_wf cfg ch" and vb: "valid_bank cfg (cmd_bank cmd)" and st: "stats_wf cfg st"
  obtains ok st' where "ArbitratePrecharge ch prev cmd rest st = Inr (ok, st')" and "stats_wf cfg st'"
    and "ok \<Longrightarrow> \<not> list_ex (\<lambda>p. same_bank_cmd p cmd) prev \<and>
      (\<not> list_ex (\<lambda>p. Row p = open_row (bank_of ch (cmd_bank cmd)) \<and> same_bank_cmd p cmd) (cmd # rest) \<or>
       4 \<le> row_hit_count (bank_of ch (cmd_bank cmd)))"
proof -
  let ?b = "bank_of ch (cmd_bank cmd)"
  have rows: "OpenRow ch (Rank cmd) (Bankgroup cmd) (Bank cmd) = Inr (open_row ?b)"
    "RowHitCount ch (Rank cmd) (Bankgroup cmd) (Bank cmd) = Inr (row_hit_count ?b)"
    using ch_get [OF wf vb] by (simp_all add: OpenRow_def RowHitCount_def cmd_bank_def del: bank_get.simps)
  define old where "old = list_ex (\<lambda>p. same_bank_cmd p cmd) prev"
  define hit where "hit = list_ex (\<lambda>p. Row p = open_row ?b \<and> same_bank_cmd p cmd) (cmd # rest)"
  have "ArbitratePrecharge ch prev cmd rest st =
    Inr (if old then (False, st) else if \<not> hit \<or> 4 \<le> row_hit_count ?b
      then (True, Increment ''num_ondemand_pres'' st) else (False, st))"
    unfolding ArbitratePrecharge_def rows res_bind_Inr Let_def old_def [symmetric] hit_def [symmetric] by simp
  then show thesis
  proof (cases "\<not> old \<and> (\<not> hit \<or> 4 \<le> row_hit_count ?b)")
    case True
    then have run: "ArbitratePrecharge ch prev cmd rest st = Inr (True, Increment ''num_ondemand_pres'' st)"
      using \<open>ArbitratePrecharge ch prev cmd rest st = _\<close> by simp
    show thesis by (rule that [OF run Increment_wf [OF st]]) (use True in \<open>simp add: old_def hit_def\<close>)
  next
    case False
    then have run: "ArbitratePrecharge ch prev cmd rest st = Inr (False, st)"
      using \<open>ArbitratePrecharge ch prev cmd rest st = _\<close> by auto
    show thesis by (rule that [OF run st]) simp
  qed
qed

text \<open>What \<^verbatim>\<open>GetFirstReadyInQueue\<close> promises for the entry \<open>it\<close> it chooses, where
  \<open>before\<close> and \<open>after\<close> are the entries around it.\<close>

definition choice_ok ::
  "Config \<Rightarrow> ChannelState \<Rightarrow> u64 \<Rightarrow> Command list \<Rightarrow> Command \<Rightarrow> Command list \<Rightarrow> Command \<Rightarrow> bool" where
  "choice_ok cfg ch clk before it after cmd \<longleftrightarrow>
     GetReadyCommand cfg ch it clk = Inr cmd \<and> IsValid cmd \<and> ready_spec cfg ch clk cmd \<and>
     (IsWrite cmd \<longrightarrow> \<not> HasRWDependency before it) \<and>
     (cmd_type cmd = PRECHARGE \<longrightarrow> \<not> list_ex (\<lambda>p. same_bank_cmd p it) before \<and>
       (\<not> list_ex (\<lambda>p. Row p = open_row (bank_of ch (cmd_bank it)) \<and> same_bank_cmd p it) (it # after) \<or>
        4 \<le> row_hit_count (bank_of ch (cmd_bank it))))"

lemma first_ready_loop_spec:
  assumes cw: "cfg_wf cfg" and wf: "ch_wf cfg ch" and "stats_wf cfg st" and "\<And>c. c \<in> set rest \<Longrightarrow> queued_ok cfg c"
  shows "\<exists>cmd st'. first_ready_loop cfg ch clk prev rest st = Inr (cmd, st') \<and> stats_wf cfg st' \<and>
    (cmd = Command_default \<or>
     (\<exists>before it after. rest = before @ it # after \<and> choice_ok cfg ch clk (prev @ before) it after cmd))"
  using assms(3,4)
proof (induction rest arbitrary: prev st)
  case (Cons it rest)
  have q: "queued_ok cfg it" using Cons.prems(2) by simp
  then have vb: "valid_bank cfg (cmd_bank it)" by (simp add: queued_ok_def)
  obtain cmd where cmd: "GetReadyCommand cfg ch it clk = Inr cmd"
    "IsValid cmd \<Longrightarrow> ready_spec cfg ch clk cmd" using queued_ready [OF cw wf q] by metis
  have next_cmd: ?case if "first_ready_loop cfg ch clk prev (it # rest) st =
      first_ready_loop cfg ch clk (prev @ [it]) rest st1" "stats_wf cfg st1" for st1
  proof -
    have "\<exists>cmd st'. first_ready_loop cfg ch clk (prev @ [it]) rest st1 = Inr (cmd, st') \<and> stats_wf cfg st' \<and>
      (cmd = Command_default \<or>
       (\<exists>before it' after. rest = before @ it' # after \<and> choice_ok cfg ch clk ((prev @ [it]) @ before) it' after cmd))"
      by (rule Cons.IH [OF that(2)]) (use Cons.prems(2) in simp)
    then show ?thesis unfolding that(1) by (metis append.assoc append_Cons append_Nil)
  qed
  have here: ?case if "first_ready_loop cfg ch clk prev (it # rest) st = Inr (cmd, st1)" "stats_wf cfg st1"
      "choice_ok cfg ch clk prev it rest cmd" for st1
    using that by (intro exI [of _ cmd] exI [of _ st1]) force
  show ?case
  proof (cases "IsValid cmd")
    case False
    then show ?thesis using cmd(1) Cons.prems(1) by (intro next_cmd [of st]) simp_all
  next
    case True
    note rs = cmd(2) [OF True]
    consider "cmd_type cmd = PRECHARGE" | "cmd_type cmd \<noteq> PRECHARGE" "IsWrite cmd" | "cmd_type cmd \<noteq> PRECHARGE" "\<not> IsWrite cmd" by blast
    then show ?thesis
    proof cases
      case 1
      obtain ok st1 where a: "ArbitratePrecharge ch prev it rest st = Inr (ok, st1)" "stats_wf cfg st1"
        "ok \<Longrightarrow> \<not> list_ex (\<lambda>p. same_bank_cmd p it) prev \<and>
          (\<not> list_ex (\<lambda>p. Row p = open_row (bank_of ch (cmd_bank it)) \<and> same_bank_cmd p it) (it # rest) \<or>
           4 \<le> row_hit_count (bank_of ch (cmd_bank it)))"
        by (rule ArbitratePrecharge_spec [OF wf vb Cons.prems(1), of prev rest]) (rule that, assumption+)
      have run: "first_ready_loop cfg ch clk prev (it # rest) st =
        (if \<not> ok then first_ready_loop cfg ch clk (prev @ [it]) rest st1 else Inr (cmd, st1))"
        using cmd(1) True 1 a(1) by simp
      show ?thesis
      proof (cases ok)
        case False
        then show ?thesis using run a(2) by (intro next_cmd [of st1]) simp_all
      next
        case ok: True
        show ?thesis by (rule here [of st1]) (use run a ok cmd(1) rs True 1 in \<open>auto simp: choice_ok_def IsWrite_def\<close>)
      qed
    next
      case 2
      show ?thesis
      proof (cases "HasRWDependency prev it")
        case dep: True
        show ?thesis by (rule next_cmd [of st]) (use cmd(1) True 2 dep Cons.prems(1) in simp_all)
      next
        case False
        show ?thesis by (rule here [of st]) (use cmd(1) True 2 False rs Cons.prems(1) in \<open>simp_all add: choice_ok_def\<close>)
      qed
    next
      case 3
      show ?thesis by (rule here [of st]) (use cmd(1) True 3 rs Cons.prems(1) in \<open>simp_all add: choice_ok_def\<close>)
    qed
  qed
qed simp


section \<open>Issuing from the queues\<close>

lemma erase_rw_spec:
  assumes "it \<in> set l" and "\<And>c. c \<in> set l \<Longrightarrow> addr c = AddressMapping cfg (hex_addr c)"
  shows "\<exists>l'. erase_rw it l = Inr l' \<and> mset l = add_mset it (mset l') \<and> set l' \<subseteq> set l \<and> length l' \<le> length l"
  using assms
proof (induction l)
  case (Cons c l)
  show ?case
  proof (cases "hex_addr it = hex_addr c \<and> cmd_type it = cmd_type c")
    case True
    then have "addr it = addr c" using Cons.prems(2) [OF Cons.prems(1)] Cons.prems(2) [of c] by simp
    with True have "it = c" by simp
    with True show ?thesis by auto
  next
    case False
    then have "it \<in> set l" using Cons.prems(1) by auto
    with Cons obtain l' where "erase_rw it l = Inr l'" "mset l = add_mset it (mset l')" "set l' \<subseteq> set l"
      "length l' \<le> length l" by auto
    with False show ?thesis by auto
  qed
qed simp

lemma EraseRWCommand_spec:
  assumes wf: "cq_wf cfg q" and i: "i < length (queues q)" and it: "it \<in> set (queues q ! i)"
  obtains q' where "EraseRWCommand cfg it q = Inr q'" and "cq_wf cfg q'"
    and "all_cmds q = add_mset it (all_cmds q')" and "q' = q\<lparr>queues := queues q'\<rparr>"
proof -
  have idx: "cmd_queue_index cfg q it = int i" using wf i it by (auto simp: cq_wf_def)
  have ad: "addr c = AddressMapping cfg (hex_addr c)" if "c \<in> set (queues q ! i)" for c
    using wf i that by (auto simp: cq_wf_def queued_ok_def)
  obtain l' where l': "erase_rw it (queues q ! i) = Inr l'" "mset (queues q ! i) = add_mset it (mset l')"
    "set l' \<subseteq> set (queues q ! i)" "length l' \<le> length (queues q ! i)"
    using erase_rw_spec [OF it ad] by auto
  let ?q = "q\<lparr>queues := (queues q)[i := l']\<rparr>"
  have run: "EraseRWCommand cfg it q = Inr ?q"
    using idx i l'(1) by (simp add: EraseRWCommand_def vupd_def vget_def vset_def flip: cmd_queue_index_def)
  have ix: "cmd_queue_index cfg ?q c = cmd_queue_index cfg q c" for c
    by (simp add: cmd_queue_index_def GetQueueIndex_def)
  have "cq_wf cfg ?q" unfolding cq_wf_def
  proof (intro conjI allI impI)
    fix k assume k: "k < length (queues ?q)"
    have "length (queues q ! k) \<le> queue_size q" using wf k by (simp add: cq_wf_def)
    with l'(4) k show "length (queues ?q ! k) \<le> queue_size ?q" by (cases "k = i") (simp_all add: nth_list_update)
    show "\<forall>c\<in>set (queues ?q ! k). queued_ok cfg c \<and> cmd_queue_index cfg ?q c = int k"
      using wf k l'(3) i unfolding ix by (auto simp: cq_wf_def nth_list_update split: if_splits)
  qed (use wf in \<open>auto simp: cq_wf_def structure_ok_def\<close>)
  moreover have "all_cmds q = add_mset it (all_cmds ?q)"
    using mset_concat_erase [OF i l'(2)] by (simp add: all_cmds_def)
  ultimately show thesis using that [OF run] by simp
qed

lemma GetNextQueue_wf:
  assumes "cq_wf cfg q"
  shows "cq_wf cfg (GetNextQueue q)" and "all_cmds (GetNextQueue q) = all_cmds q"
    and "queues (GetNextQueue q) = queues q" and "cq_clk (GetNextQueue q) = cq_clk q"
    and "is_in_ref (GetNextQueue q) = is_in_ref q" and "ref_q_indices (GetNextQueue q) = ref_q_indices q"
    and "rank_q_empty (GetNextQueue q) = rank_q_empty q" and "num_queues (GetNextQueue q) = num_queues q"
    and "cmd_queue_index cfg (GetNextQueue q) c = cmd_queue_index cfg q c"
  using assms by (auto simp: GetNextQueue_def cq_wf_def structure_ok_def all_cmds_def cmd_queue_index_def GetQueueIndex_def)

text \<open>The contract of \<^verbatim>\<open>GetCommandToIssue\<close>: either nothing can be issued and the
  queues are as before, or the returned command is ready on the channel, answers an entry of a
  queue that no refresh blocks, and that entry is removed exactly when it is the command itself.\<close>

definition issue_post ::
  "Config \<Rightarrow> ChannelState \<Rightarrow> CommandQueue \<Rightarrow> Command \<Rightarrow> CommandQueue \<Rightarrow> bool" where
  "issue_post cfg ch q cmd q' \<longleftrightarrow>
     cq_wf cfg q' \<and> cq_clk q' = cq_clk q \<and> is_in_ref q' = is_in_ref q \<and> ref_q_indices q' = ref_q_indices q \<and>
     rank_q_empty q' = rank_q_empty q \<and>
     (cmd = Command_default \<and> all_cmds q' = all_cmds q \<or>
      (\<exists>i before it after. i < length (queues q) \<and> queues q ! i = before @ it # after \<and>
         \<not> (is_in_ref q \<and> int i \<in> set (ref_q_indices q)) \<and>
         choice_ok cfg ch (cq_clk q) before it after cmd \<and>
         (if IsReadWrite cmd then cmd = it \<and> all_cmds q = add_mset cmd (all_cmds q')
          else all_cmds q' = all_cmds q)))"

lemma issue_postI:
  assumes "cq_wf cfg q'" "cq_clk q' = cq_clk q" "is_in_ref q' = is_in_ref q" "ref_q_indices q' = ref_q_indices q"
    "rank_q_empty q' = rank_q_empty q"
    and "i < length (queues q)" "queues q ! i = before @ it # after"
    "\<not> (is_in_ref q \<and> int i \<in> set (ref_q_indices q))" "choice_ok cfg ch (cq_clk q) before it after cmd"
    "if IsReadWrite cmd then cmd = it \<and> all_cmds q = add_mset cmd (all_cmds q') else all_cmds q' = all_cmds q"
  shows "issue_post cfg ch q cmd q'"
  unfolding issue_post_def using assms by blast

lemma issue_loop_spec:
  assumes cw: "cfg_wf cfg" and ch: "ch_wf cfg ch" and "cq_wf cfg q" and "stats_wf cfg st"
  shows "\<exists>cmd q' st'. issue_loop n cfg ch q st = Inr (cmd, q', st') \<and> stats_wf cfg st' \<and> issue_post cfg ch q cmd q'"
  using assms(3,4)
proof (induction n arbitrary: q st)
  case 0
  then show ?case by (simp add: issue_post_def)
next
  case (Suc n)
  define q1 where "q1 = GetNextQueue q"
  note nq = GetNextQueue_wf [OF Suc.prems(1), folded q1_def]
  let ?i = "nat (queue_idx q1)"
  let ?queue = "queues q ! ?i"
  have i: "?i < length (queues q)" "0 \<le> queue_idx q1" using nq(1,3) by (auto simp: cq_wf_def)
  have get: "vget (queues q1) (queue_idx q1) = Inr ?queue" using i nq(3) by (simp add: vget_def)
  have retry: ?case if run: "issue_loop (Suc n) cfg ch q st = issue_loop n cfg ch q1 st1"
    and wf1: "stats_wf cfg st1" for st1
  proof -
    obtain cmd q' st' where "issue_loop n cfg ch q1 st1 = Inr (cmd, q', st')" "stats_wf cfg st'"
      "issue_post cfg ch q1 cmd q'" using Suc.IH [OF nq(1) wf1] by blast
    moreover have "issue_post cfg ch q1 cmd q' = issue_post cfg ch q cmd q'" by (simp only: issue_post_def nq)
    ultimately show ?thesis unfolding run by simp
  qed
  show ?case
  proof (cases "is_in_ref q1 \<and> queue_idx q1 \<in> set (ref_q_indices q1)")
    case True
    then show ?thesis using get Suc.prems(2) by (intro retry [of st]) (simp_all add: q1_def Let_def)
  next
    case open_q: False
    have qok: "queued_ok cfg c" if "c \<in> set ?queue" for c
      using cq_wf_entry [OF Suc.prems(1) i(1) that] by simp
    obtain cmd st1 where fr: "GetFirstReadyInQueue cfg ch (cq_clk q1) ?queue st = Inr (cmd, st1)" "stats_wf cfg st1"
      and ch1: "cmd = Command_default \<or> (\<exists>before it after. ?queue = before @ it # after \<and>
        choice_ok cfg ch (cq_clk q1) before it after cmd)"
      using first_ready_loop_spec [OF cw ch Suc.prems(2), of ?queue "cq_clk q1" "[]"] qok
      unfolding GetFirstReadyInQueue_def append_Nil by blast
    have step: "issue_loop (Suc n) cfg ch q st =
        (if IsValid cmd then
              res_bind (if IsReadWrite cmd then EraseRWCommand cfg cmd q1 else Inr q1) (\<lambda>q2.
                Inr (cmd, q2, st1))
            else issue_loop n cfg ch q1 st1)"
      using get open_q fr(1) unfolding issue_loop.simps q1_def [symmetric] Let_def
      by (simp only: res_bind_Inr if_False prod.case)
    show ?thesis
    proof (cases "IsValid cmd")
      case False
      then show ?thesis using step fr(2) by (intro retry [of st1]) simp_all
    next
      case True
      with ch1 obtain before it after where sp: "?queue = before @ it # after"
        and co: "choice_ok cfg ch (cq_clk q1) before it after cmd" by auto
      have it: "it \<in> set ?queue" using sp by simp
      have blk: "\<not> (is_in_ref q \<and> int ?i \<in> set (ref_q_indices q))" using open_q i(2) nq by simp
      show ?thesis
      proof (cases "IsReadWrite cmd")
        case rw: True
        have cmd: "cmd = it" using ready_rw_is_request [OF ch qok [OF it] _ rw] co
          unfolding choice_ok_def by blast
        obtain q2 where q2: "EraseRWCommand cfg it q1 = Inr q2" "cq_wf cfg q2" "all_cmds q1 = add_mset it (all_cmds q2)"
          "q2 = q1\<lparr>queues := queues q2\<rparr>"
          by (rule EraseRWCommand_spec [OF nq(1), of ?i it]) (use i it nq(3) in simp_all)
        have fr2: "cq_clk q2 = cq_clk q" "is_in_ref q2 = is_in_ref q" "ref_q_indices q2 = ref_q_indices q"
          "rank_q_empty q2 = rank_q_empty q" by (subst q2(4), simp add: nq)+
        have "issue_post cfg ch q cmd q2"
          by (rule issue_postI [OF q2(2) fr2 i(1) sp blk]) (use co q2(3) rw cmd nq(2,4) in simp_all)
        then show ?thesis using step True rw q2(1) cmd fr(2) by simp
      next
        case False
        have "issue_post cfg ch q cmd q1"
          by (rule issue_postI [OF nq(1,4,5,6,7) i(1) sp blk]) (use co False nq(2,4) in simp_all)
        then show ?thesis using step True False fr(2) by simp
      qed
    qed
  qed
qed


lemma GetCommandToIssue_spec:
  assumes "cfg_wf cfg" and "ch_wf cfg ch" and "cq_wf cfg q" and "stats_wf cfg st"
  obtains cmd q' st' where "GetCommandToIssue cfg ch q st = Inr (cmd, q', st')" and "stats_wf cfg st'"
    and "issue_post cfg ch q cmd q'"
  using issue_loop_spec [OF assms, of "nat (num_queues q)"] that by (auto simp: GetCommandToIssue_def)

text \<open>\<^verbatim>\<open>GetNextQueue\<close> is a round-robin counter over the queues.\<close>

interpretation queue_ring: ring_counter "\<lambda>q. Inr (GetNextQueue q)"
  "\<lambda>q. num_queues q = n \<and> 0 \<le> queue_idx q \<and> queue_idx q < n" "\<lambda>q. nat (queue_idx q)" "nat n" for n
proof
  fix q :: CommandQueue assume q: "num_queues q = n \<and> 0 \<le> queue_idx q \<and> queue_idx q < n"
  then show "nat (queue_idx q) < nat n" by auto
  have "nat (queue_idx (GetNextQueue q)) = Suc (nat (queue_idx q)) mod nat n"
    by (rule nat_mod_next) (use q in \<open>auto simp: GetNextQueue_def\<close>)
  with q show "\<exists>q'. (Inr (GetNextQueue q) :: CommandQueue res) = Inr q' \<and>
      (num_queues q' = n \<and> 0 \<le> queue_idx q' \<and> queue_idx q' < n) \<and>
      nat (queue_idx q') = Suc (nat (queue_idx q)) mod nat n"
    by (auto simp: GetNextQueue_def)
qed

section \<open>Refresh\<close>

lemma ref_index_loop:
  assumes "0 < banks cfg" and "\<And>i. i \<in> set l \<Longrightarrow> 0 \<le> i"
  shows "\<exists>q'. res_fold (\<lambda>i q'. res_bind (idiv i (banks cfg)) (\<lambda>d.
      Inr (if d = r then q'\<lparr>ref_q_indices := List.insert i (ref_q_indices q')\<rparr> else q'))) l q = Inr q' \<and>
    q' = q\<lparr>ref_q_indices := ref_q_indices q'\<rparr> \<and>
    set (ref_q_indices q') = set (ref_q_indices q) \<union> {i \<in> set l. i div banks cfg = r}"
  using assms(2)
proof (induction l arbitrary: q)
  case (Cons i l)
  have d: "idiv i (banks cfg) = Inr (i div banks cfg)"
    using assms(1) Cons.prems [of i] by (simp add: idiv_def signed_divide_int_def sgn_if)
  let ?q = "if i div banks cfg = r then q\<lparr>ref_q_indices := List.insert i (ref_q_indices q)\<rparr> else q"
  obtain q' where q': "res_fold (\<lambda>i q'. res_bind (idiv i (banks cfg)) (\<lambda>d.
      Inr (if d = r then q'\<lparr>ref_q_indices := List.insert i (ref_q_indices q')\<rparr> else q'))) l ?q = Inr q'"
    and u: "q' = ?q\<lparr>ref_q_indices := ref_q_indices q'\<rparr>"
    and st: "set (ref_q_indices q') = set (ref_q_indices ?q) \<union> {i \<in> set l. i div banks cfg = r}"
    using Cons.IH [of ?q] Cons.prems by auto
  have "q' = q\<lparr>ref_q_indices := ref_q_indices q'\<rparr>" by (subst u) simp
  moreover have "set (ref_q_indices q') = set (ref_q_indices q) \<union> {k \<in> set (i # l). k div banks cfg = r}"
    using st by auto
  ultimately show ?case using q' d by simp
qed simp

text \<open>The entries a refresh command blocks: those of its rank, or of the queue of its bank.\<close>

definition blocked_by :: "Config \<Rightarrow> CommandQueue \<Rightarrow> Command \<Rightarrow> Command \<Rightarrow> bool" where
  "blocked_by cfg q ref c \<longleftrightarrow>
     (if cmd_type ref = REFRESH then Rank c = Rank ref else cmd_queue_index cfg q c = cmd_queue_index cfg q ref)"

lemma GetRefQIndices_spec:
  assumes cw: "cfg_wf cfg" and st: "structure_ok cfg q" and emp: "ref_q_indices q = []"
  obtains q' where "GetRefQIndices cfg ref q = Inr q'" and "q' = q\<lparr>ref_q_indices := ref_q_indices q'\<rparr>"
    and "\<And>c. valid_bank cfg (cmd_bank c) \<Longrightarrow>
      cmd_queue_index cfg q c \<in> set (ref_q_indices q') \<longleftrightarrow> blocked_by cfg q ref c"
proof (cases "cmd_type ref = REFRESH \<and> q_structure q = PER_BANK")
  case True
  have b: "0 < banks cfg" using cw by (simp add: cfg_wf_def)
  obtain q' where q': "GetRefQIndices cfg ref q = Inr q'" "q' = q\<lparr>ref_q_indices := ref_q_indices q'\<rparr>"
    and idx: "set (ref_q_indices q') = {i \<in> set (irange (num_queues q)). i div banks cfg = Rank ref}"
    using ref_index_loop [OF b, of "irange (num_queues q)" "Rank ref" q] True emp
    by (auto simp: GetRefQIndices_def)
  have "cmd_queue_index cfg q c \<in> set (ref_q_indices q') \<longleftrightarrow> blocked_by cfg q ref c"
    if vc: "valid_bank cfg (cmd_bank c)" for c
  proof -
    note v = vc [unfolded cmd_bank_def]
    note bnd = queue_index_bounds [OF cw st v] and off = bank_offset_bounds [OF cw v]
    define off_c where "off_c = Bankgroup c * banks_per_group cfg + Bank c"
    have "cmd_queue_index cfg q c = off_c + Rank c * banks cfg"
      using True by (simp add: cmd_queue_index_def GetQueueIndex_def off_c_def)
    moreover have "(off_c + Rank c * banks cfg) div banks cfg = Rank c"
      using off b by (simp add: div_mult_self1 flip: off_c_def)
    ultimately have "cmd_queue_index cfg q c div banks cfg = Rank c" by simp
    then show ?thesis using idx bnd True by (simp add: blocked_by_def cmd_queue_index_def)
  qed
  with q' show thesis by (rule that)
next
  case False
  let ?i = "if cmd_type ref = REFRESH then Rank ref else cmd_queue_index cfg q ref"
  have run: "GetRefQIndices cfg ref q = Inr (q\<lparr>ref_q_indices := [?i]\<rparr>)"
    using False emp by (auto simp: GetRefQIndices_def cmd_queue_index_def)
  show thesis by (rule that [OF run])
    (use False st in \<open>auto simp: blocked_by_def cmd_queue_index_def GetQueueIndex_def structure_ok_def\<close>)
qed

text \<open>The invariant of the refresh bookkeeping of the queue.\<close>

definition ref_wf :: "Config \<Rightarrow> CommandQueue \<Rightarrow> bool" where
  "ref_wf cfg q \<longleftrightarrow> (\<not> is_in_ref q \<longrightarrow> ref_q_indices q = [])"

lemma cq_wf_ref [simp]:
  "cq_wf cfg (q\<lparr>ref_q_indices := x\<rparr>) = cq_wf cfg q" "cq_wf cfg (q\<lparr>is_in_ref := b\<rparr>) = cq_wf cfg q"
  "cq_wf cfg (q\<lparr>ref_q_indices := x, is_in_ref := b\<rparr>) = cq_wf cfg q"
  by (simp_all add: cq_wf_def structure_ok_def cmd_queue_index_def GetQueueIndex_def)

lemma all_cmds_ref [simp]:
  "all_cmds (q\<lparr>ref_q_indices := x\<rparr>) = all_cmds q" "all_cmds (q\<lparr>is_in_ref := b\<rparr>) = all_cmds q"
  by (simp_all add: all_cmds_def)

lemma refresh_ready_type:
  assumes "ch_wf cfg ch" and "cfg_wf cfg" and "cmd_type ref \<in> {REFRESH, REFRESH_BANK}" and "valid_target cfg ref"
    and "GetReadyCommand cfg ch ref clk = Inr cmd" and "IsValid cmd"
  shows "cmd_type cmd \<in> {PRECHARGE, REFRESH, REFRESH_BANK}"
proof (cases "IsRankCMD ref")
  case True
  then show ?thesis using ready_spec_rank [OF assms(2,1,4) True assms(5,6)] assms(3) by auto
next
  case False
  note r = ready_spec_bank [OF assms(1,4) False assms(5,6)]
  have "\<not> IsReadWrite ref" using assms(3) by (auto simp: command_query_defs)
  with required_type_bank [OF False] r show ?thesis by blast
qed

lemma FinishRefresh_spec:
  assumes cw: "cfg_wf cfg" and ch: "ch_wf cfg ch" and wf: "cq_wf cfg q" "ref_wf cfg q"
    and ref: "refresh_q ch = ref # rest" and ns: "\<not> rank_is_sref ch ! nat (Rank ref)"
  obtains cmd q' where "FinishRefresh cfg ch q = Inr (cmd, q')" and "cq_wf cfg q'" and "ref_wf cfg q'"
    and "q' = q\<lparr>ref_q_indices := ref_q_indices q', is_in_ref := is_in_ref q'\<rparr>"
    and "cmd = Command_default \<or> ready_spec cfg ch (cq_clk q) cmd \<and> cmd_type cmd \<in> {PRECHARGE, REFRESH, REFRESH_BANK}"
    and "\<And>c. \<not> is_in_ref q \<Longrightarrow> \<not> IsRefresh cmd \<Longrightarrow> valid_bank cfg (cmd_bank c) \<Longrightarrow>
      is_in_ref q' \<and> (cmd_queue_index cfg q c \<in> set (ref_q_indices q') \<longleftrightarrow> blocked_by cfg q ref c)"
proof -
  have rt: "cmd_type ref \<in> {REFRESH, REFRESH_BANK}" "valid_target cfg ref" using ch ref by (auto simp: ch_wf_def)
  have st: "structure_ok cfg q" using wf(1) by (simp add: cq_wf_def)
  obtain q1 where q1: "(if \<not> is_in_ref q then res_bind (GetRefQIndices cfg ref q) (\<lambda>q1. Inr (q1\<lparr>is_in_ref := True\<rparr>))
      else Inr q) = Inr q1" and u1: "q1 = q\<lparr>ref_q_indices := ref_q_indices q1, is_in_ref := True\<rparr>"
    and bl: "\<And>c. \<not> is_in_ref q \<Longrightarrow> valid_bank cfg (cmd_bank c) \<Longrightarrow>
      cmd_queue_index cfg q c \<in> set (ref_q_indices q1) \<longleftrightarrow> blocked_by cfg q ref c"
  proof (cases "is_in_ref q")
    case True
    then show thesis by (intro that [of q]) simp_all
  next
    case False
    obtain q2 where q2: "GetRefQIndices cfg ref q = Inr q2" and u2: "q2 = q\<lparr>ref_q_indices := ref_q_indices q2\<rparr>"
      and b2: "\<And>c. valid_bank cfg (cmd_bank c) \<Longrightarrow>
        cmd_queue_index cfg q c \<in> set (ref_q_indices q2) \<longleftrightarrow> blocked_by cfg q ref c"
      using GetRefQIndices_spec [OF cw st] wf(2) False unfolding ref_wf_def by metis
    have "q2\<lparr>is_in_ref := True\<rparr> = q\<lparr>ref_q_indices := ref_q_indices q2, is_in_ref := True\<rparr>" by (subst u2) simp
    then show thesis using False q2 b2 by (intro that [of "q2\<lparr>is_in_ref := True\<rparr>"]) simp_all
  qed
  have clk: "cq_clk q1 = cq_clk q" by (subst u1) simp
  have "request_ok cfg ch ref" using rt ns by (auto simp: request_ok_def)
  then obtain cmd where cmd: "GetReadyCommand cfg ch ref (cq_clk q) = Inr cmd"
    using GetReadyCommand_ok [OF ch] by (auto simp: is_ok_iff)
  let ?q = "if IsRefresh cmd then q1\<lparr>ref_q_indices := [], is_in_ref := False\<rparr> else q1"
  have run: "FinishRefresh cfg ch q = Inr (cmd, ?q)"
    using q1 cmd clk by (simp add: FinishRefresh_def PendingRefCommand_def ref)
  have rs: "cmd = Command_default \<or> ready_spec cfg ch (cq_clk q) cmd \<and> cmd_type cmd \<in> {PRECHARGE, REFRESH, REFRESH_BANK}"
    using GetReadyCommand_invalid [OF cmd] GetReadyCommand_ready [OF cw ch rt(2) cmd]
      refresh_ready_type [OF ch cw rt cmd] by blast
  have w1: "cq_wf cfg q1" using wf(1) by (subst u1) simp
  have i1: "is_in_ref q1" by (subst u1) simp
  have uq: "?q = q\<lparr>ref_q_indices := ref_q_indices ?q, is_in_ref := is_in_ref ?q\<rparr>"
    by (cases "IsRefresh cmd"; simp) (subst u1, simp)+
  show thesis
    by (rule that [OF run _ _ uq rs]) (use w1 i1 bl in \<open>auto simp: ref_wf_def\<close>)
qed


section \<open>An example queue\<close>

definition zero_read :: "Config \<Rightarrow> Command" where
  "zero_read cfg = mk_Command READ (AddressMapping cfg 0) 0"

lemma AddressMapping_zero: "AddressMapping cfg 0 = Address6 0 0 0 0 0 0"
  by (simp add: AddressMapping_def Let_def Address6_def)

lemma zero_read_ok: "cfg_wf cfg \<Longrightarrow> queued_ok cfg (zero_read cfg)"
  by (auto simp: zero_read_def queued_ok_def cfg_wf_def cmd_bank_def command_query_defs command_addr_defs
      AddressMapping_zero Address6_def)

lemma sample_queue:
  obtains q where "CommandQueue_new hbm2_config = Inr q" and "cq_wf hbm2_config q" and "ref_wf hbm2_config q"
    and "all_cmds q = {#}" and "\<not> is_in_ref q"
proof -
  obtain q where q: "CommandQueue_new hbm2_config = Inr q" by (simp add: CommandQueue_new_def)
  moreover have "ref_wf hbm2_config q" "\<not> is_in_ref q" using q by (auto simp: CommandQueue_new_def ref_wf_def)
  ultimately show thesis using CommandQueue_new_wf [OF sample_cfg_wf(1) q] by (intro that) auto
qed

lemma sample_queue_one:
  obtains q where "cq_wf hbm2_config q" and "all_cmds q = {#zero_read hbm2_config#}"
proof -
  obtain q where q: "CommandQueue_new hbm2_config = Inr q" "cq_wf hbm2_config q" "all_cmds q = {#}"
    by (rule sample_queue)
  obtain b q' where a: "AddCommand hbm2_config (zero_read hbm2_config) q = Inr (b, q')" "cq_wf hbm2_config q'"
    "WillAcceptCommand hbm2_config q (Rank (zero_read hbm2_config)) (Bankgroup (zero_read hbm2_config))
      (Bank (zero_read hbm2_config)) = Inr b"
    "all_cmds q' = (if b then add_mset (zero_read hbm2_config) (all_cmds q) else all_cmds q)"
    by (rule AddCommand_spec [OF sample_cfg_wf(1) q(2) zero_read_ok [OF sample_cfg_wf(1)]])
  have "b" using a(3) q(1)
    by (auto simp: CommandQueue_new_def WillAcceptCommand_def GetQueue_def GetQueueIndex_def zero_read_def
        AddressMapping_zero Address6_def command_addr_defs vget_def)
  with a q(3) show thesis by (intro that [of q']) auto
qed

section \<open>Properties\<close>

text \<open>The queue index of an existing bank is a valid index of the queue vector, and with
  one queue per bank different banks have different queues.\<close>

theorem queue_index_valid_and_injective:
  assumes "cfg_wf cfg" and "structure_ok cfg q"
    and "valid_bank cfg (r, bg, ba)" and "valid_bank cfg (r', bg', ba')"
  shows "0 \<le> GetQueueIndex cfg q r bg ba \<and> GetQueueIndex cfg q r bg ba < num_queues q \<and>
    (q_structure q = PER_BANK \<longrightarrow>
     (GetQueueIndex cfg q r bg ba = GetQueueIndex cfg q r' bg' ba' \<longleftrightarrow> (r, bg, ba) = (r', bg', ba')))"
  using queue_index_bounds [OF assms(1,2,3)] queue_index_inj [OF assms(1) _ assms(3,4)] by auto

theorem queue_index_valid_and_injective_witness:
  "\<exists>q. CommandQueue_new hbm2_config = Inr q \<and> 0 \<le> GetQueueIndex hbm2_config q 0 3 2 \<and>
     GetQueueIndex hbm2_config q 0 3 2 < num_queues q"
proof -
  obtain q where q: "CommandQueue_new hbm2_config = Inr q" "cq_wf hbm2_config q" by (rule sample_queue)
  then have "structure_ok hbm2_config q" by (simp add: cq_wf_def)
  from queue_index_valid_and_injective [OF sample_cfg_wf(1) this, of 0 3 2 0 1 1] q(1) show ?thesis by auto
qed

text \<open>\<^verbatim>\<open>AddCommand\<close> succeeds exactly when \<^verbatim>\<open>WillAcceptCommand\<close>
  says so; then the command is added to the queued ones, otherwise nothing changes, and the
  queue bounds are kept.\<close>

theorem add_command_iff_accepted:
  assumes "cfg_wf cfg" and "cq_wf cfg q" and "queued_ok cfg cmd"
  shows "\<exists>b q'. AddCommand cfg cmd q = Inr (b, q') \<and> cq_wf cfg q' \<and>
    WillAcceptCommand cfg q (Rank cmd) (Bankgroup cmd) (Bank cmd) = Inr b \<and>
    all_cmds q' = (if b then add_mset cmd (all_cmds q) else all_cmds q)"
  by (rule AddCommand_spec [OF assms]) blast

theorem add_command_iff_accepted_witness:
  "\<exists>q b q'. CommandQueue_new hbm2_config = Inr q \<and> AddCommand hbm2_config (zero_read hbm2_config) q = Inr (b, q') \<and>
     cq_wf hbm2_config q'"
proof -
  obtain q where q: "CommandQueue_new hbm2_config = Inr q" "cq_wf hbm2_config q" by (rule sample_queue)
  from add_command_iff_accepted [OF sample_cfg_wf(1) q(2) zero_read_ok [OF sample_cfg_wf(1)]] q(1)
  show ?thesis by blast
qed

text \<open>C24. \<^verbatim>\<open>GetCommandToIssue\<close> on well-formed states never fails (in particular
  \<^verbatim>\<open>EraseRWCommand\<close> always finds its command). A returned command is ready on
  the channel and answers one entry of a queue that is not blocked by a refresh: a write is
  never issued before an older read of the same column, a precharge only for the oldest
  request of its bank when no queued request hits the open row or four hits were served. A
  read or write leaves the queues exactly once, every other command leaves them unchanged.\<close>

theorem command_to_issue_contract:
  assumes "cfg_wf cfg" and "ch_wf cfg ch" and "cq_wf cfg q" and "stats_wf cfg st"
  shows "\<exists>cmd q' st'. GetCommandToIssue cfg ch q st = Inr (cmd, q', st') \<and> stats_wf cfg st' \<and> cq_wf cfg q' \<and>
    (cmd = Command_default \<and> all_cmds q' = all_cmds q \<or>
     (\<exists>i before it after. i < length (queues q) \<and> queues q ! i = before @ it # after \<and>
        \<not> (is_in_ref q \<and> int i \<in> set (ref_q_indices q)) \<and>
        choice_ok cfg ch (cq_clk q) before it after cmd \<and>
        (if IsReadWrite cmd then cmd = it \<and> all_cmds q = add_mset cmd (all_cmds q')
         else all_cmds q' = all_cmds q)))"
proof -
  obtain cmd q' st' where "GetCommandToIssue cfg ch q st = Inr (cmd, q', st')" "stats_wf cfg st'"
    "issue_post cfg ch q cmd q'" by (rule GetCommandToIssue_spec [OF assms])
  then show ?thesis unfolding issue_post_def by blast
qed

theorem command_to_issue_contract_witness:
  "\<exists>q st cmd q' st'. all_cmds q = {#zero_read hbm2_config#} \<and>
     GetCommandToIssue hbm2_config (ChannelState_new hbm2_config) q st = Inr (cmd, q', st') \<and> cq_wf hbm2_config q'"
proof -
  obtain q where q: "cq_wf hbm2_config q" "all_cmds q = {#zero_read hbm2_config#}" by (rule sample_queue_one)
  obtain st where "stats_wf hbm2_config st" using SimpleStats_new_wf by blast
  from command_to_issue_contract [OF sample_cfg_wf(1) ch_wf_new q(1) this] q(2) show ?thesis by blast
qed



text \<open>A refresh of rank 0 waits for a bank that is not ready; rank 1 has a read queued.\<close>

definition waiting_channel :: ChannelState where
  "waiting_channel = (RankNeedRefresh 0 True (ChannelState_new two_rank_config))
     \<lparr>bank_states := [[[BankState_new\<lparr>cmd_timing := (\<lambda>_. 10)\<rparr>]], [[BankState_new]]]\<rparr>"

definition rank1_read :: Command where
  "rank1_read = mk_Command READ (AddressMapping two_rank_config 262144) 262144"

definition rank1_queue :: CommandQueue where
  "rank1_queue = \<lparr>rank_q_empty = [True, False], q_structure = PER_BANK, queues = [[], [rank1_read]],
     ref_q_indices = [], is_in_ref = False, num_queues = 2, queue_size = 8, queue_idx = 0, cq_clk = 0\<rparr>"

lemma rank1_addr: "AddressMapping two_rank_config 262144 = Address6 0 1 0 0 0 0"
  by (simp add: AddressMapping_def Let_def Address6_def)

lemma two_rank_wf: "cfg_wf two_rank_config"
  by (simp add: cfg_wf_def)

lemma waiting_channel_wf: "ch_wf two_rank_config waiting_channel"
proof -
  have "b = (0, 0, 0) \<or> b = (1, 0, 0)" if "valid_bank two_rank_config b" for b
    using that by (cases b) auto
  then have "bank_wf (bank_of waiting_channel b) \<and>
      (bank_state (bank_of waiting_channel b) = SREF \<longleftrightarrow> rank_is_sref waiting_channel ! nat (fst b))"
    if "valid_bank two_rank_config b" for b
    using that by (fastforce simp: waiting_channel_def bank_of_def bank_wf_def BankState_new_def
        RankNeedRefresh_def ChannelState_new_def)
  then show ?thesis unfolding ch_wf_def
    by (auto simp: waiting_channel_def RankNeedRefresh_def ChannelState_new_def grid_def valid_target_def
        IsRankCMD_def Address6_def numeral_2_eq_2)
qed

lemma rank1_queue_wf: "cq_wf two_rank_config rank1_queue"
  by (auto simp: cq_wf_def rank1_queue_def structure_ok_def queued_ok_def rank1_read_def rank1_addr Address6_def
      command_query_defs cmd_bank_def cmd_queue_index_def GetQueueIndex_def command_addr_defs less_Suc_eq numeral_2_eq_2)


lemmas queue_eval =
  FinishRefresh_def GetRefQIndices_def GetCommandToIssue_def GetFirstReadyInQueue_def GetNextQueue_def
  waiting_channel_def rank1_queue_def rank1_read_def rank1_addr PendingRefCommand_def RankNeedRefresh_def
  rank_banks_def idiv_def signed_divide_int_def

lemma issue_loop_2: "issue_loop 2 cfg ch q st = issue_loop (Suc (Suc 0)) cfg ch q st"
  by (simp only: numeral_2_eq_2)

lemma waiting_run:
  "FinishRefresh two_rank_config waiting_channel rank1_queue =
     Inr (Command_default, rank1_queue\<lparr>ref_q_indices := [0], is_in_ref := True\<rparr>)"
  "GetCommandToIssue two_rank_config waiting_channel (rank1_queue\<lparr>ref_q_indices := [0], is_in_ref := True\<rparr>) st =
     Inr (mk_Command ACTIVATE (Address6 0 1 0 0 0 0) 262144,
       rank1_queue\<lparr>ref_q_indices := [0], is_in_ref := True, queue_idx := 1\<rparr>, st)"
  by (simp_all add: queue_eval channel_eval issue_loop_2 Command_default_def)


text \<open>C26. The queues are served round robin: among \<open>num_queues\<close> consecutive steps of
  \<^verbatim>\<open>GetNextQueue\<close> every queue is visited exactly once.\<close>

theorem queue_round_robin:
  assumes "0 \<le> queue_idx q" and "queue_idx q < num_queues q" and "i < nat (num_queues q)"
  shows "\<exists>!k. k < nat (num_queues q) \<and>
    (\<exists>q'. res_iter (\<lambda>q. Inr (GetNextQueue q)) k q = Inr q' \<and> nat (queue_idx q') = i)"
  by (rule queue_ring.round_visits_once) (use assms in auto)

theorem queue_round_robin_witness:
  "\<exists>!k. k < nat (num_queues rank1_queue) \<and>
    (\<exists>q'. res_iter (\<lambda>q. Inr (GetNextQueue q)) k rank1_queue = Inr q' \<and> nat (queue_idx q') = 1)"
  by (rule queue_round_robin) (simp_all add: rank1_queue_def)

end
