(* ===== verification/Dram_Controller.thy ===== *)
theory Dram_Controller
  imports Dram_Command_Queue
begin

text \<open>
  \<^verbatim>\<open>dramsim3/src/controller.h\<close> and \<^verbatim>\<open>controller.cc\<close>: the memory
  controller of one channel, in the default build (no \<^verbatim>\<open>THERMAL\<close>, no
  \<^verbatim>\<open>CMD_TRACE\<close>). It owns the channel state, the command queues, the refresh
  counter and the statistics. The capacity of the transaction vectors is part of the state,
  because acceptance and the draining of writes depend on it.
\<close>

section \<open>State\<close>

datatype RowBufPolicy = OPEN_PAGE | CLOSE_PAGE | RowBufPolicy_SIZE

record Controller =
  ctrl_channel_id :: int
  ctrl_clk :: u64
  ctrl_stats :: SimpleStats
  ctrl_channel :: ChannelState
  ctrl_queue :: CommandQueue
  ctrl_refresh :: Refresh
  is_unified_queue :: bool
  unified_q :: "Transaction list"
  unified_cap :: nat
  read_queue :: "Transaction list"
  read_cap :: nat
  write_buffer :: "Transaction list"
  write_cap :: nat
  pending_rd_q :: "(u64, Transaction) multimap"
  pending_wr_q :: "(u64, Transaction) multimap"
  return_queue :: "Transaction list"
  row_policy :: RowBufPolicy
  last_trans_clk :: u64
  write_draining :: int

definition Controller_new :: "Config \<Rightarrow> int \<Rightarrow> Controller res" where
  "Controller_new cfg ch =
     res_bind (SimpleStats_new cfg ch) (\<lambda>st.
     res_bind (CommandQueue_new cfg) (\<lambda>cq.
     res_bind (Refresh_new cfg) (\<lambda>rf.
       Inr \<lparr>ctrl_channel_id = ch, ctrl_clk = 0, ctrl_stats = st, ctrl_channel = ChannelState_new cfg,
         ctrl_queue = cq, ctrl_refresh = rf, is_unified_queue = unified_queue cfg,
         unified_q = [], unified_cap = (if unified_queue cfg then nat (trans_queue_size cfg) else 0),
         read_queue = [], read_cap = (if unified_queue cfg then 0 else nat (trans_queue_size cfg)),
         write_buffer = [], write_cap = (if unified_queue cfg then 0 else nat (trans_queue_size cfg)),
         pending_rd_q = [], pending_wr_q = [], return_queue = [],
         row_policy = (if row_buf_policy cfg = ''CLOSE_PAGE'' then CLOSE_PAGE else OPEN_PAGE),
         last_trans_clk = 0, write_draining = 0\<rparr>)))"

section \<open>Transactions\<close>

text \<open>The capacity after a \<^verbatim>\<open>push_back\<close>: a full vector doubles.\<close>

definition grow :: "nat \<Rightarrow> nat \<Rightarrow> nat" where
  "grow len cap = (if len < cap then cap else if cap = 0 then 1 else 2 * cap)"

definition push_unified :: "Transaction \<Rightarrow> Controller \<Rightarrow> Controller" where
  "push_unified t c = c\<lparr>unified_q := unified_q c @ [t], unified_cap := grow (length (unified_q c)) (unified_cap c)\<rparr>"

definition push_read :: "Transaction \<Rightarrow> Controller \<Rightarrow> Controller" where
  "push_read t c = c\<lparr>read_queue := read_queue c @ [t], read_cap := grow (length (read_queue c)) (read_cap c)\<rparr>"

definition push_write :: "Transaction \<Rightarrow> Controller \<Rightarrow> Controller" where
  "push_write t c = c\<lparr>write_buffer := write_buffer c @ [t], write_cap := grow (length (write_buffer c)) (write_cap c)\<rparr>"

definition ctrl_WillAcceptTransaction :: "Controller \<Rightarrow> u64 \<Rightarrow> bool \<Rightarrow> bool" where
  "ctrl_WillAcceptTransaction c hex w \<longleftrightarrow>
     (if is_unified_queue c then length (unified_q c) < unified_cap c
      else if \<not> w then length (read_queue c) < read_cap c
      else length (write_buffer c) < write_cap c)"

definition ctrl_AddTransaction :: "Transaction \<Rightarrow> Controller \<Rightarrow> bool \<times> Controller" where
  "ctrl_AddTransaction trans0 c0 =
     (let trans = trans0\<lparr>added_cycle := ctrl_clk c0\<rparr>;
          c = c0\<lparr>ctrl_stats := AddValue ''interarrival_latency'' (to_int (ctrl_clk c0 - last_trans_clk c0)) (ctrl_stats c0),
                 last_trans_clk := ctrl_clk c0\<rparr>
      in if is_write trans then
           let c1 = (if mm_count (t_addr trans) (pending_wr_q c) = 0 then
                 let c' = c\<lparr>pending_wr_q := mm_insert (t_addr trans) trans (pending_wr_q c)\<rparr>
                 in if is_unified_queue c' then push_unified trans c' else push_write trans c'
               else c);
               done_trans = trans\<lparr>complete_cycle := ctrl_clk c1 + 1\<rparr>
           in (True, c1\<lparr>return_queue := return_queue c1 @ [done_trans]\<rparr>)
         else if mm_count (t_addr trans) (pending_wr_q c) > 0 then
           let done_trans = trans\<lparr>complete_cycle := ctrl_clk c + 1\<rparr>
           in (True, c\<lparr>return_queue := return_queue c @ [done_trans]\<rparr>)
         else
           let c1 = c\<lparr>pending_rd_q := mm_insert (t_addr trans) trans (pending_rd_q c)\<rparr>;
               c2 = (if mm_count (t_addr trans) (pending_rd_q c1) = 1 then
                 if is_unified_queue c1 then push_unified trans c1 else push_read trans c1
               else c1)
           in (True, c2))"

text \<open>
  The loop of \<^verbatim>\<open>ReturnDoneTrans\<close>: the first finished transaction is erased and
  returned; \<^verbatim>\<open>(-1, -1)\<close> says that there is none.
\<close>

definition ReturnDoneTrans :: "u64 \<Rightarrow> Controller \<Rightarrow> (u64 \<times> int) \<times> Controller" where
  "ReturnDoneTrans clk c =
     (case find (\<lambda>t. complete_cycle t \<le> clk) (return_queue c) of
        None \<Rightarrow> ((-1, -1), c)
      | Some t \<Rightarrow>
          ((t_addr t, if is_write t then 1 else 0),
           c\<lparr>return_queue := erase_first (\<lambda>t. complete_cycle t \<le> clk) (return_queue c),
             ctrl_stats := (if is_write t then Increment ''num_writes_done'' (ctrl_stats c)
               else AddValue ''read_latency'' (to_int (ctrl_clk c - added_cycle t))
                 (Increment ''num_reads_done'' (ctrl_stats c)))\<rparr>))"

definition TransToCommand :: "Config \<Rightarrow> Controller \<Rightarrow> Transaction \<Rightarrow> Command" where
  "TransToCommand cfg c t =
     (let a = AddressMapping cfg (t_addr t);
          ty = (if row_policy c = OPEN_PAGE then (if is_write t then WRITE else READ)
               else (if is_write t then WRITE_PRECHARGE else READ_PRECHARGE))
      in mk_Command ty a (t_addr t))"

section \<open>Issuing\<close>

definition UpdateCommandStats :: "Command \<Rightarrow> Controller \<Rightarrow> Controller res" where
  "UpdateCommandStats cmd c =
     (let inc = (\<lambda>name c. c\<lparr>ctrl_stats := Increment name (ctrl_stats c)\<rparr>);
          hits = (\<lambda>name c. res_bind (RowHitCount (ctrl_channel c) (Rank cmd) (Bankgroup cmd) (Bank cmd)) (\<lambda>n.
            Inr (if n \<noteq> 0 then inc name c else c)))
      in case cmd_type cmd of
           READ \<Rightarrow> hits ''num_read_row_hits'' (inc ''num_read_cmds'' c)
         | READ_PRECHARGE \<Rightarrow> hits ''num_read_row_hits'' (inc ''num_read_cmds'' c)
         | WRITE \<Rightarrow> hits ''num_write_row_hits'' (inc ''num_write_cmds'' c)
         | WRITE_PRECHARGE \<Rightarrow> hits ''num_write_row_hits'' (inc ''num_write_cmds'' c)
         | ACTIVATE \<Rightarrow> Inr (inc ''num_act_cmds'' c)
         | PRECHARGE \<Rightarrow> Inr (inc ''num_pre_cmds'' c)
         | REFRESH \<Rightarrow> Inr (inc ''num_ref_cmds'' c)
         | REFRESH_BANK \<Rightarrow> Inr (inc ''num_refb_cmds'' c)
         | SREF_ENTER \<Rightarrow> Inr (inc ''num_srefe_cmds'' c)
         | SREF_EXIT \<Rightarrow> Inr (inc ''num_srefx_cmds'' c)
         | CommandType_SIZE \<Rightarrow> Inl (AbruptExit ''controller.cc''))"

text \<open>The loop that returns all pending reads of an address.\<close>

fun return_reads :: "Config \<Rightarrow> u64 \<Rightarrow> nat \<Rightarrow> Controller \<Rightarrow> Controller res" where
  "return_reads cfg hex 0 c = Inr c"
| "return_reads cfg hex (Suc n) c =
     (case mm_find hex (pending_rd_q c) of
        None \<Rightarrow> Inl EndIterator
      | Some t \<Rightarrow>
          return_reads cfg hex n (c\<lparr>
            return_queue := return_queue c @ [t\<lparr>complete_cycle := ctrl_clk c + of_int (read_delay cfg)\<rparr>],
            pending_rd_q := mm_erase_first hex (pending_rd_q c)\<rparr>))"

definition IssueCommand :: "Config \<Rightarrow> Timing \<Rightarrow> Command \<Rightarrow> Controller \<Rightarrow> Controller res" where
  "IssueCommand cfg tim cmd c =
     res_bind
       (if IsRead cmd then
          let num_reads = mm_count (hex_addr cmd) (pending_rd_q c)
          in if num_reads = 0 then Inl (ExitCode 1) else return_reads cfg (hex_addr cmd) num_reads c
        else if IsWrite cmd then
          (case mm_find (hex_addr cmd) (pending_wr_q c) of
             None \<Rightarrow> Inl (ExitCode 1)
           | Some t \<Rightarrow>
               let wr_lat = ctrl_clk c - added_cycle t + of_int (write_delay cfg)
               in Inr (c\<lparr>ctrl_stats := AddValue ''write_latency'' (to_int wr_lat) (ctrl_stats c),
                         pending_wr_q := mm_erase_first (hex_addr cmd) (pending_wr_q c)\<rparr>))
        else Inr c) (\<lambda>c1.
     res_bind (UpdateCommandStats cmd c1) (\<lambda>c2.
     res_bind (UpdateTimingAndStates cfg tim cmd (ctrl_clk c2) (ctrl_channel c2)) (\<lambda>ch.
       Inr (c2\<lparr>ctrl_channel := ch\<rparr>))))"

section \<open>Scheduling\<close>

text \<open>
  The loop of \<^verbatim>\<open>ScheduleTransaction\<close> ends after the first element of the queue,
  by one of its three \<^verbatim>\<open>break\<close> statements. \<open>put\<close> stores the chosen queue back.
\<close>

definition schedule_head ::
  "Config \<Rightarrow> Transaction list \<Rightarrow> (Transaction list \<Rightarrow> Controller \<Rightarrow> Controller) \<Rightarrow> Controller \<Rightarrow> Controller res" where
  "schedule_head cfg queue put c =
     (case queue of
        [] \<Rightarrow> Inr c
      | t # rest \<Rightarrow>
          let cmd = TransToCommand cfg c t
          in res_bind (WillAcceptCommand cfg (ctrl_queue c) (Rank cmd) (Bankgroup cmd) (Bank cmd)) (\<lambda>ok.
             if ok then
               if \<not> is_unified_queue c \<and> IsWrite cmd \<and> mm_count (t_addr t) (pending_rd_q c) > 0 then
                 Inr (c\<lparr>write_draining := 0\<rparr>)
               else
                 let c1 = (if \<not> is_unified_queue c \<and> IsWrite cmd
                           then c\<lparr>write_draining := write_draining c - 1\<rparr> else c)
                 in res_bind (AddCommand cfg cmd (ctrl_queue c1)) (\<lambda>(b, cq).
                      Inr (put rest (c1\<lparr>ctrl_queue := cq\<rparr>)))
             else Inr c))"

definition ScheduleTransaction :: "Config \<Rightarrow> Controller \<Rightarrow> Controller res" where
  "ScheduleTransaction cfg c0 =
     (let c = (if write_draining c0 = 0 \<and> \<not> is_unified_queue c0 \<and>
                  (length (write_buffer c0) \<ge> write_cap c0 \<or>
                   length (write_buffer c0) > 8 \<and> QueueEmpty (ctrl_queue c0))
               then c0\<lparr>write_draining := int (length (write_buffer c0))\<rparr> else c0)
      in if is_unified_queue c then schedule_head cfg (unified_q c) (\<lambda>l c. c\<lparr>unified_q := l\<rparr>) c
         else if write_draining c > 0 then schedule_head cfg (write_buffer c) (\<lambda>l c. c\<lparr>write_buffer := l\<rparr>) c
         else schedule_head cfg (read_queue c) (\<lambda>l c. c\<lparr>read_queue := l\<rparr>) c)"

section \<open>The clock\<close>

text \<open>Power accounting, part 1: one rank.\<close>

definition power_step :: "Config \<Rightarrow> int \<Rightarrow> Controller \<Rightarrow> Controller res" where
  "power_step cfg i c =
     res_bind (IsRankSelfRefreshing (ctrl_channel c) i) (\<lambda>sref.
       if sref then
         res_bind (IncrementVec ''sref_cycles'' i (ctrl_stats c)) (\<lambda>st. Inr (c\<lparr>ctrl_stats := st\<rparr>))
       else
         res_bind (IsAllBankIdleInRank cfg (ctrl_channel c) i) (\<lambda>all_idle.
           if all_idle then
             res_bind (IncrementVec ''all_bank_idle_cycles'' i (ctrl_stats c)) (\<lambda>st.
             res_bind (vupd (\<lambda>x. Inr (x + 1)) (rank_idle_cycles (ctrl_channel c)) i) (\<lambda>v.
               Inr (c\<lparr>ctrl_stats := st, ctrl_channel := (ctrl_channel c)\<lparr>rank_idle_cycles := v\<rparr>\<rparr>)))
           else
             res_bind (IncrementVec ''rank_active_cycles'' i (ctrl_stats c)) (\<lambda>st.
             res_bind (vset (rank_idle_cycles (ctrl_channel c)) i 0) (\<lambda>v.
               Inr (c\<lparr>ctrl_stats := st, ctrl_channel := (ctrl_channel c)\<lparr>rank_idle_cycles := v\<rparr>\<rparr>)))))"

text \<open>Part 2: idle ranks enter self refresh, needed ones leave it; the loop stops after the
  first command it issues.\<close>

fun sref_loop :: "Config \<Rightarrow> Timing \<Rightarrow> int list \<Rightarrow> Controller \<Rightarrow> Controller res" where
  "sref_loop cfg tim [] c = Inr c"
| "sref_loop cfg tim (i # is) c =
     res_bind (IsRankSelfRefreshing (ctrl_channel c) i) (\<lambda>sref.
     res_bind (vget (rank_q_empty (ctrl_queue c)) i) (\<lambda>q_empty.
     res_bind (vget (rank_idle_cycles (ctrl_channel c)) i) (\<lambda>idle.
       if (if sref then \<not> q_empty else q_empty \<and> idle \<ge> sref_threshold cfg) then
         let req = mk_Command (if sref then SREF_EXIT else SREF_ENTER) (Address_default\<lparr>rank := i\<rparr>) (-1)
         in res_bind (GetReadyCommand cfg (ctrl_channel c) req (ctrl_clk c)) (\<lambda>cmd.
            if IsValid cmd then IssueCommand cfg tim cmd c else sref_loop cfg tim is c)
       else sref_loop cfg tim is c)))"

definition ctrl_ClockTick :: "Config \<Rightarrow> Timing \<Rightarrow> Controller \<Rightarrow> Controller res" where
  "ctrl_ClockTick cfg tim c0 =
     res_bind (refresh_ClockTick cfg (ctrl_refresh c0) (ctrl_channel c0)) (\<lambda>(rf, ch).
     (let c1 = c0\<lparr>ctrl_refresh := rf, ctrl_channel := ch\<rparr> in
      res_bind (if IsRefreshWaiting (ctrl_channel c1) then
                  res_bind (FinishRefresh cfg (ctrl_channel c1) (ctrl_queue c1)) (\<lambda>(cmd, cq).
                    Inr (cmd, c1\<lparr>ctrl_queue := cq\<rparr>))
                else Inr (Command_default, c1)) (\<lambda>(cmd0, c2).
      res_bind (if \<not> IsValid cmd0 then
                  res_bind (GetCommandToIssue cfg (ctrl_channel c2) (ctrl_queue c2) (ctrl_stats c2)) (\<lambda>(cmd, cq, st).
                    Inr (cmd, c2\<lparr>ctrl_queue := cq, ctrl_stats := st\<rparr>))
                else Inr (cmd0, c2)) (\<lambda>(cmd, c3).
      res_bind (if IsValid cmd then
                  res_bind (IssueCommand cfg tim cmd c3) (\<lambda>c4.
                    if enable_hbm_dual_cmd cfg then
                      res_bind (GetCommandToIssue cfg (ctrl_channel c4) (ctrl_queue c4) (ctrl_stats c4))
                        (\<lambda>(second_cmd, cq, st).
                          let c5 = c4\<lparr>ctrl_queue := cq, ctrl_stats := st\<rparr> in
                          if IsValid second_cmd \<and> IsReadWrite second_cmd \<noteq> IsReadWrite cmd then
                            res_bind (IssueCommand cfg tim second_cmd c5) (\<lambda>c6.
                              Inr (True, c6\<lparr>ctrl_stats := Increment ''hbm_dual_cmds'' (ctrl_stats c6)\<rparr>))
                          else Inr (True, c5))
                    else Inr (True, c4))
                else Inr (False, c3)) (\<lambda>(cmd_issued, c7).
      res_bind (res_fold (power_step cfg) (irange (ranks cfg)) c7) (\<lambda>c8.
      res_bind (if enable_self_refresh cfg \<and> \<not> cmd_issued
                then sref_loop cfg tim (irange (ranks cfg)) c8 else Inr c8) (\<lambda>c9.
      res_bind (ScheduleTransaction cfg c9) (\<lambda>c10.
        Inr (c10\<lparr>ctrl_clk := ctrl_clk c10 + 1, ctrl_queue := cq_ClockTick (ctrl_queue c10),
          ctrl_stats := Increment ''num_cycles'' (ctrl_stats c10)\<rparr>)))))))))"

definition ctrl_QueueUsage :: "Controller \<Rightarrow> int" where
  "ctrl_QueueUsage c = cq_QueueUsage (ctrl_queue c)"

definition ctrl_PrintEpochStats :: "Config \<Rightarrow> Controller \<Rightarrow> Controller res" where
  "ctrl_PrintEpochStats cfg c =
     res_bind (stats_PrintEpochStats cfg (Increment ''epoch_num'' (ctrl_stats c))) (\<lambda>st. Inr (c\<lparr>ctrl_stats := st\<rparr>))"

definition ctrl_PrintFinalStats :: "Config \<Rightarrow> Controller \<Rightarrow> Controller res" where
  "ctrl_PrintFinalStats cfg c =
     res_bind (stats_PrintFinalStats cfg (ctrl_stats c)) (\<lambda>st. Inr (c\<lparr>ctrl_stats := st\<rparr>))"

definition ctrl_ResetStats :: "Controller \<Rightarrow> Controller" where
  "ctrl_ResetStats c = c\<lparr>ctrl_stats := Reset (ctrl_stats c)\<rparr>"


section \<open>Invariant\<close>

text \<open>
  Tokens: an address with pending reads is represented exactly once, as a queued transaction
  or as a queued command, and likewise for writes. \<open>held_rd\<close> and \<open>held_wr\<close> are the addresses of
  commands that have left the queue and are being issued.
\<close>

definition queued_trans :: "Controller \<Rightarrow> Transaction list" where
  "queued_trans c = unified_q c @ read_queue c @ write_buffer c"

definition rd_tokens :: "Controller \<Rightarrow> u64 multiset" where
  "rd_tokens c = image_mset t_addr {#t \<in># mset (queued_trans c). \<not> is_write t#} +
     image_mset hex_addr {#x \<in># all_cmds (ctrl_queue c). IsRead x#}"

definition wr_tokens :: "Controller \<Rightarrow> u64 multiset" where
  "wr_tokens c = image_mset t_addr {#t \<in># mset (queued_trans c). is_write t#} +
     image_mset hex_addr {#x \<in># all_cmds (ctrl_queue c). IsWrite x#}"

definition tokens_ok :: "u64 multiset \<Rightarrow> u64 multiset \<Rightarrow> Controller \<Rightarrow> bool" where
  "tokens_ok held_rd held_wr c \<longleftrightarrow>
     rd_tokens c + held_rd = mset_set (set_mset (mm_keys (pending_rd_q c))) \<and>
     wr_tokens c + held_wr = mm_keys (pending_wr_q c) \<and>
     (\<forall>a. count (mm_keys (pending_wr_q c)) a \<le> 1)"

definition shape_ok :: "Controller \<Rightarrow> bool" where
  "shape_ok c \<longleftrightarrow>
     (\<forall>(k, t)\<in>set (pending_rd_q c). t_addr t = k \<and> \<not> is_write t) \<and>
     (if is_unified_queue c then read_queue c = [] \<and> write_buffer c = []
      else unified_q c = [] \<and> (\<forall>t\<in>set (read_queue c). \<not> is_write t) \<and> (\<forall>t\<in>set (write_buffer c). is_write t))"

definition addr_ok :: "Config \<Rightarrow> bool" where
  "addr_ok cfg \<longleftrightarrow> (\<forall>a. valid_bank cfg (rank (AddressMapping cfg a), bankgroup (AddressMapping cfg a),
     bank (AddressMapping cfg a)))"

definition no_sref :: "ChannelState \<Rightarrow> bool" where
  "no_sref ch \<longleftrightarrow> True \<notin> set (rank_is_sref ch)"

definition core_ok :: "Config \<Rightarrow> Controller \<Rightarrow> bool" where
  "core_ok cfg c \<longleftrightarrow> ch_wf cfg (ctrl_channel c) \<and> cq_wf cfg (ctrl_queue c) \<and> ref_wf cfg (ctrl_queue c) \<and>
     stats_wf cfg (ctrl_stats c) \<and> refresh_wf cfg (ctrl_refresh c) \<and>
     cq_clk (ctrl_queue c) = ctrl_clk c \<and> no_sref (ctrl_channel c) \<and> shape_ok c"

definition ctrl_wf :: "Config \<Rightarrow> Controller \<Rightarrow> bool" where
  "ctrl_wf cfg c \<longleftrightarrow> core_ok cfg c \<and> tokens_ok {#} {#} c"

text \<open>The reads that have been accepted and not returned, and the writes not yet reported.\<close>

definition out_reads :: "Controller \<Rightarrow> u64 multiset" where
  "out_reads c = mm_keys (pending_rd_q c) + image_mset t_addr {#t \<in># mset (return_queue c). \<not> is_write t#}"

definition out_writes :: "Controller \<Rightarrow> u64 multiset" where
  "out_writes c = image_mset t_addr {#t \<in># mset (return_queue c). is_write t#}"

lemma Controller_new_wf:
  assumes "cfg_wf cfg" and "Controller_new cfg ch = Inr c" and "refresh_wf cfg (ctrl_refresh c)"
  shows "ctrl_wf cfg c" and "out_reads c = {#}" and "out_writes c = {#}" and "ctrl_clk c = 0"
proof -
  from assms(2) obtain st cq rf where n: "SimpleStats_new cfg ch = Inr st" "CommandQueue_new cfg = Inr cq"
    "Refresh_new cfg = Inr rf" by (auto simp: Controller_new_def res_simps)
  note c = assms(2) [unfolded Controller_new_def, simplified n res_bind_Inr, simplified, symmetric]
  have "stats_wf cfg st" using SimpleStats_new_wf [of cfg ch] n(1) by auto
  moreover have "cq_clk cq = 0" "ref_wf cfg cq" using n(2) by (auto simp: CommandQueue_new_def ref_wf_def res_simps)
  moreover have "no_sref (ChannelState_new cfg)" by (simp add: no_sref_def ChannelState_new_def)
  ultimately have "core_ok cfg c"
    using CommandQueue_new_wf [OF assms(1) n(2)] assms(3) ch_wf_new
    by (simp add: core_ok_def c shape_ok_def)
  moreover have "tokens_ok {#} {#} c"
    using CommandQueue_new_wf [OF assms(1) n(2)]
    by (simp add: c tokens_ok_def rd_tokens_def wr_tokens_def queued_trans_def mm_keys_def)
  ultimately show "ctrl_wf cfg c" by (simp add: ctrl_wf_def)
  show "out_reads c = {#}" "out_writes c = {#}" "ctrl_clk c = 0"
    by (simp_all add: c out_reads_def out_writes_def)
qed

section \<open>Adding and returning transactions\<close>

lemma interarrival_name: "''interarrival_latency'' \<in> set histo_names" "''read_latency'' \<in> set histo_names"
  "''write_latency'' \<in> set histo_names"
  by (simp_all add: histo_names_def)

lemmas push_defs = push_unified_def push_read_def push_write_def

lemma mset_set_insert_keys: "finite A \<Longrightarrow> a \<notin> A \<Longrightarrow> mset_set (insert a A) = add_mset a (mset_set A)"
  by simp

lemma AddTransaction_wf:
  assumes "ctrl_wf cfg c"
  shows "ctrl_wf cfg (snd (ctrl_AddTransaction t c))"
    and "out_reads (snd (ctrl_AddTransaction t c)) = (if is_write t then out_reads c else add_mset (t_addr t) (out_reads c))"
    and "out_writes (snd (ctrl_AddTransaction t c)) = (if is_write t then add_mset (t_addr t) (out_writes c) else out_writes c)"
    and "fst (ctrl_AddTransaction t c)" and "ctrl_clk (snd (ctrl_AddTransaction t c)) = ctrl_clk c"
proof -
  note wf = assms [unfolded ctrl_wf_def core_ok_def]
  let ?c = "snd (ctrl_AddTransaction t c)"
  have "core_ok cfg ?c"
    using wf AddValue_wf [OF _ interarrival_name(1)]
    by (auto simp: core_ok_def ctrl_AddTransaction_def Let_def push_defs shape_ok_def mm_insert_def)
  moreover have "tokens_ok {#} {#} ?c"
    using wf by (auto simp: tokens_ok_def ctrl_AddTransaction_def Let_def push_defs rd_tokens_def wr_tokens_def
        queued_trans_def mm_count_keys shape_ok_def insert_absorb count_eq_zero_iff)
  ultimately show "ctrl_wf cfg ?c" by (simp add: ctrl_wf_def)
  show "out_reads ?c = (if is_write t then out_reads c else add_mset (t_addr t) (out_reads c))"
    "out_writes ?c = (if is_write t then add_mset (t_addr t) (out_writes c) else out_writes c)"
    "fst (ctrl_AddTransaction t c)" "ctrl_clk ?c = ctrl_clk c"
    by (auto simp: ctrl_AddTransaction_def Let_def push_defs out_reads_def out_writes_def)
qed


lemma ReturnDoneTrans_cases:
  obtains (none) "ReturnDoneTrans clk c = ((-1, -1), c)" and "\<forall>t\<in>set (return_queue c). clk < complete_cycle t"
  | (some) t c' where "ReturnDoneTrans clk c = ((t_addr t, if is_write t then 1 else 0), c')"
      and "t \<in> set (return_queue c)" and "complete_cycle t \<le> clk"
      and "mset (return_queue c) = add_mset t (mset (return_queue c'))"
      and "c' = c\<lparr>return_queue := return_queue c', ctrl_stats := ctrl_stats c'\<rparr>"
      and "\<And>cfg. stats_wf cfg (ctrl_stats c) \<Longrightarrow> stats_wf cfg (ctrl_stats c')"
proof (cases "find (\<lambda>t. complete_cycle t \<le> clk) (return_queue c)")
  case None
  have "\<forall>t\<in>set (return_queue c). clk < complete_cycle t" using None by (auto simp: find_None_iff not_le)
  then show thesis using None by (intro none) (simp_all add: ReturnDoneTrans_def)
next
  case (Some t)
  note e = erase_first_find [OF Some]
  show thesis
    by (rule some [of t "snd (ReturnDoneTrans clk c)"])
      (use Some e in \<open>auto simp: ReturnDoneTrans_def intro!: wf_intros interarrival_name\<close>)
qed

lemma ReturnDoneTrans_wf:
  assumes "ctrl_wf cfg c" and "ReturnDoneTrans clk c = ((a, w), c')"
  shows "ctrl_wf cfg c'" and "ctrl_clk c' = ctrl_clk c"
    and "w = -1 \<and> c' = c \<or> w = 0 \<and> out_reads c = add_mset a (out_reads c') \<and> out_writes c' = out_writes c \<or>
      w = 1 \<and> out_writes c = add_mset a (out_writes c') \<and> out_reads c' = out_reads c"
proof -
  have "ctrl_wf cfg c' \<and> ctrl_clk c' = ctrl_clk c \<and>
    (w = -1 \<and> c' = c \<or> w = 0 \<and> out_reads c = add_mset a (out_reads c') \<and> out_writes c' = out_writes c \<or>
      w = 1 \<and> out_writes c = add_mset a (out_writes c') \<and> out_reads c' = out_reads c)"
  proof (cases rule: ReturnDoneTrans_cases [of clk c])
    case none
    then show ?thesis using assms by simp
  next
    case (some t c1)
    then have c1: "c1 = c'" "a = t_addr t" "w = (if is_write t then 1 else 0)" using assms(2) by auto
    obtain rq st where u: "c' = c\<lparr>return_queue := rq, ctrl_stats := st\<rparr>" using some(5) c1 by metis
    have st: "stats_wf cfg st" using some(6) [of cfg] assms(1) c1 u by (simp add: ctrl_wf_def core_ok_def)
    have m: "mset (return_queue c) = add_mset t (mset rq)" using some(4) c1 u by simp
    have "ctrl_wf cfg c'" using assms(1) st
      by (simp add: u ctrl_wf_def core_ok_def tokens_ok_def rd_tokens_def wr_tokens_def queued_trans_def shape_ok_def)
    then show ?thesis using c1 m by (auto simp: u out_reads_def out_writes_def)
  qed
  then show "ctrl_wf cfg c'" "ctrl_clk c' = ctrl_clk c"
    "w = -1 \<and> c' = c \<or> w = 0 \<and> out_reads c = add_mset a (out_reads c') \<and> out_writes c' = out_writes c \<or>
      w = 1 \<and> out_writes c = add_mset a (out_writes c') \<and> out_reads c' = out_reads c" by blast+
qed

section \<open>Issuing a command\<close>

lemma mm_erase_filters:
  "filter (\<lambda>e. fst e \<noteq> k) (mm_erase_first k m) = filter (\<lambda>e. fst e \<noteq> k) m"
  "mm_find k m = Some v \<Longrightarrow> filter (\<lambda>e. fst e = k) m = (k, v) # filter (\<lambda>e. fst e = k) (mm_erase_first k m)"
  by (induction m) (auto simp: mm_find_def split: if_splits)

definition finish_reads :: "Config \<Rightarrow> u64 \<Rightarrow> Controller \<Rightarrow> Controller" where
  "finish_reads cfg hex c = c\<lparr>pending_rd_q := filter (\<lambda>e. fst e \<noteq> hex) (pending_rd_q c),
     return_queue := return_queue c @ map (\<lambda>e. (snd e)\<lparr>complete_cycle := ctrl_clk c + of_int (read_delay cfg)\<rparr>)
       (filter (\<lambda>e. fst e = hex) (pending_rd_q c))\<rparr>"

lemma return_reads_finish:
  "n = mm_count hex (pending_rd_q c) \<Longrightarrow> return_reads cfg hex n c = Inr (finish_reads cfg hex c)"
proof (induction n arbitrary: c)
  case 0
  then have "filter (\<lambda>e. fst e = hex) (pending_rd_q c) = []" by (simp add: mm_count_def)
  moreover from this have "filter (\<lambda>e. fst e \<noteq> hex) (pending_rd_q c) = pending_rd_q c"
    by (auto simp: filter_empty_conv filter_id_conv)
  ultimately show ?case by (simp add: finish_reads_def)
next
  case (Suc n)
  then have "hex \<in># mm_keys (pending_rd_q c)" by (metis count_eq_zero_iff mm_count_keys nat.distinct(1))
  then obtain t where t: "mm_find hex (pending_rd_q c) = Some t" using mm_find_None [of hex] by fastforce
  let ?c = "c\<lparr>return_queue := return_queue c @ [t\<lparr>complete_cycle := ctrl_clk c + of_int (read_delay cfg)\<rparr>],
            pending_rd_q := mm_erase_first hex (pending_rd_q c)\<rparr>"
  have "n = mm_count hex (pending_rd_q ?c)"
    using Suc.prems mm_erase_filters(2) [OF t] by (simp add: mm_count_def)
  from Suc.IH [OF this] show ?case
    using t mm_erase_filters [of hex "pending_rd_q c"] mm_erase_filters(2) [OF t]
    by (simp add: finish_reads_def)
qed

lemma mm_keys_split: "mm_keys m = mm_keys (filter (\<lambda>e. fst e \<noteq> k) m) + image_mset fst (mset (filter (\<lambda>e. fst e = k) m))"
  by (induction m) (auto simp: mm_keys_def)

lemma finish_reads_out:
  assumes "shape_ok c"
  shows "out_reads (finish_reads cfg hex c) = out_reads c" and "out_writes (finish_reads cfg hex c) = out_writes c"
    and "set_mset (mm_keys (pending_rd_q (finish_reads cfg hex c))) = set_mset (mm_keys (pending_rd_q c)) - {hex}"
proof -
  let ?l = "filter (\<lambda>e. fst e = hex) (pending_rd_q c)"
  let ?u = "\<lambda>e::u64 \<times> Transaction. (snd e)\<lparr>complete_cycle := ctrl_clk c + of_int (read_delay cfg)\<rparr>"
  have sh: "t_addr (snd e) = fst e \<and> \<not> is_write (snd e)" if "e \<in> set ?l" for e
    using assms that by (force simp: shape_ok_def)
  then have "{#t \<in># mset (map ?u ?l). \<not> is_write t#} = mset (map ?u ?l)"
    and w: "{#t \<in># mset (map ?u ?l). is_write t#} = {#}"
    by (auto simp: filter_mset_eq_conv)
  moreover have "image_mset t_addr (mset (map ?u ?l)) = image_mset fst (mset ?l)"
  proof -
    have "map t_addr (map ?u ?l) = map fst ?l" using sh by auto
    then have "mset (map t_addr (map ?u ?l)) = mset (map fst ?l)" by (rule arg_cong)
    then show ?thesis by (simp only: mset_map)
  qed
  ultimately show "out_reads (finish_reads cfg hex c) = out_reads c"
    using mm_keys_split [of "pending_rd_q c" hex] by (simp add: out_reads_def finish_reads_def)
  show "out_writes (finish_reads cfg hex c) = out_writes c"
    using w by (simp add: out_writes_def finish_reads_def)
  show "set_mset (mm_keys (pending_rd_q (finish_reads cfg hex c))) = set_mset (mm_keys (pending_rd_q c)) - {hex}"
    by (auto simp: finish_reads_def mm_keys_def)
qed

definition rd_of :: "Command \<Rightarrow> u64 multiset" where
  "rd_of cmd = (if IsRead cmd then {#hex_addr cmd#} else {#})"

definition wr_of :: "Command \<Rightarrow> u64 multiset" where
  "wr_of cmd = (if IsWrite cmd then {#hex_addr cmd#} else {#})"

text \<open>The first part of \<^verbatim>\<open>IssueCommand\<close>: the bookkeeping of reads and writes.\<close>

definition issue_pending :: "Config \<Rightarrow> Command \<Rightarrow> Controller \<Rightarrow> Controller res" where
  "issue_pending cfg cmd c =
     (if IsRead cmd then
          let num_reads = mm_count (hex_addr cmd) (pending_rd_q c)
          in if num_reads = 0 then Inl (ExitCode 1) else return_reads cfg (hex_addr cmd) num_reads c
        else if IsWrite cmd then
          (case mm_find (hex_addr cmd) (pending_wr_q c) of
             None \<Rightarrow> Inl (ExitCode 1)
           | Some t \<Rightarrow>
               let wr_lat = ctrl_clk c - added_cycle t + of_int (write_delay cfg)
               in Inr (c\<lparr>ctrl_stats := AddValue ''write_latency'' (to_int wr_lat) (ctrl_stats c),
                         pending_wr_q := mm_erase_first (hex_addr cmd) (pending_wr_q c)\<rparr>))
        else Inr c)"

definition same_queues :: "Controller \<Rightarrow> Controller \<Rightarrow> bool" where
  "same_queues c c' \<longleftrightarrow> ctrl_queue c' = ctrl_queue c \<and> ctrl_clk c' = ctrl_clk c \<and> ctrl_refresh c' = ctrl_refresh c \<and>
     queued_trans c' = queued_trans c \<and> is_unified_queue c' = is_unified_queue c \<and>
     out_reads c' = out_reads c \<and> out_writes c' = out_writes c"

lemma issue_pending_read:
  assumes core: "core_ok cfg c" and tok: "tokens_ok (held_rd + rd_of cmd) (held_wr + wr_of cmd) c" and rd: "IsRead cmd"
  shows "\<exists>c'. issue_pending cfg cmd c = Inr c' \<and> core_ok cfg c' \<and> tokens_ok held_rd held_wr c' \<and>
    same_queues c c' \<and> ctrl_channel c' = ctrl_channel c"
proof -
  let ?h = "hex_addr cmd" and ?c = "finish_reads cfg (hex_addr cmd) c"
  have nw: "wr_of cmd = {#}" "rd_of cmd = {#?h#}" using rd by (auto simp: wr_of_def rd_of_def command_query_defs)
  have keys: "rd_tokens c + held_rd + {#?h#} = mset_set (set_mset (mm_keys (pending_rd_q c)))"
    using tok nw by (simp add: tokens_ok_def union_assoc)
  then have "?h \<in># mset_set (set_mset (mm_keys (pending_rd_q c)))" by (metis union_iff multi_member_last)
  then have in_keys: "?h \<in> set_mset (mm_keys (pending_rd_q c))" by simp
  then have run: "issue_pending cfg cmd c = Inr ?c"
    using rd return_reads_finish [OF refl, of cfg ?h c] by (simp add: issue_pending_def mm_count_keys Let_def)
  have sh: "shape_ok c" using core by (simp add: core_ok_def)
  note out = finish_reads_out [OF sh, of cfg ?h]
  have "mset_set (set_mset (mm_keys (pending_rd_q c)) - {?h}) = mset_set (set_mset (mm_keys (pending_rd_q c))) - {#?h#}"
    using in_keys by (simp add: mset_set_Diff)
  then have "rd_tokens c + held_rd = mset_set (set_mset (mm_keys (pending_rd_q ?c)))"
    unfolding out(3) using keys by (metis add_diff_cancel_right')
  then have "tokens_ok held_rd held_wr ?c"
    using tok nw by (simp add: tokens_ok_def rd_tokens_def wr_tokens_def queued_trans_def finish_reads_def)
  moreover have "core_ok cfg ?c" using core by (auto simp: core_ok_def shape_ok_def finish_reads_def)
  ultimately show ?thesis using run out
    by (intro exI [of _ ?c]) (auto simp: same_queues_def finish_reads_def queued_trans_def)
qed

lemma issue_pending_write:
  assumes core: "core_ok cfg c" and tok: "tokens_ok (held_rd + rd_of cmd) (held_wr + wr_of cmd) c" and wr: "IsWrite cmd"
  shows "\<exists>c'. issue_pending cfg cmd c = Inr c' \<and> core_ok cfg c' \<and> tokens_ok held_rd held_wr c' \<and>
    same_queues c c' \<and> ctrl_channel c' = ctrl_channel c"
proof -
  let ?h = "hex_addr cmd"
  have nr: "rd_of cmd = {#}" "wr_of cmd = {#?h#}" "\<not> IsRead cmd"
    using wr by (auto simp: wr_of_def rd_of_def command_query_defs)
  have keys: "wr_tokens c + held_wr + {#?h#} = mm_keys (pending_wr_q c)"
    using tok nr by (simp add: tokens_ok_def union_assoc)
  then have in_keys: "?h \<in># mm_keys (pending_wr_q c)" by (metis union_iff multi_member_last)
  then obtain t where t: "mm_find ?h (pending_wr_q c) = Some t" using mm_find_None [of ?h] by fastforce
  let ?c = "c\<lparr>ctrl_stats := AddValue ''write_latency''
      (to_int (ctrl_clk c - added_cycle t + of_int (write_delay cfg))) (ctrl_stats c),
    pending_wr_q := mm_erase_first ?h (pending_wr_q c)\<rparr>"
  have run: "issue_pending cfg cmd c = Inr ?c" using wr nr t by (simp add: issue_pending_def)
  have k: "mm_keys (mm_erase_first ?h (pending_wr_q c)) = wr_tokens c + held_wr"
    using mm_keys_erase_first [OF in_keys] keys by (metis add_diff_cancel_right')
  have le: "count (wr_tokens c + held_wr) a \<le> 1" for a
  proof -
    have "count (mm_keys (pending_wr_q c)) a \<le> 1" using tok by (simp add: tokens_ok_def)
    then show ?thesis using keys by (metis count_union le_add1 order_trans)
  qed
  have "tokens_ok held_rd held_wr ?c"
    using tok nr k le by (simp add: tokens_ok_def rd_tokens_def wr_tokens_def queued_trans_def)
  moreover have "core_ok cfg ?c" using core AddValue_wf [OF _ interarrival_name(3)] by (simp add: core_ok_def shape_ok_def)
  ultimately show ?thesis using run
    by (intro exI [of _ ?c]) (auto simp: same_queues_def queued_trans_def out_reads_def out_writes_def)
qed


lemma issue_pending_ok:
  assumes "core_ok cfg c" and "tokens_ok (held_rd + rd_of cmd) (held_wr + wr_of cmd) c"
  shows "\<exists>c'. issue_pending cfg cmd c = Inr c' \<and> core_ok cfg c' \<and> tokens_ok held_rd held_wr c' \<and>
    same_queues c c' \<and> ctrl_channel c' = ctrl_channel c"
proof -
  consider "IsRead cmd" | "IsWrite cmd" | "\<not> IsRead cmd" "\<not> IsWrite cmd" by blast
  then show ?thesis
  proof cases
    case 3
    then have "issue_pending cfg cmd c = Inr c" "rd_of cmd = {#}" "wr_of cmd = {#}"
      by (simp_all add: issue_pending_def rd_of_def wr_of_def)
    then show ?thesis using assms by (simp add: same_queues_def)
  qed (use assms issue_pending_read issue_pending_write in blast)+
qed

lemma UpdateCommandStats_ok:
  assumes core: "core_ok cfg c" and v: "IsValid cmd" and vt: "valid_target cfg cmd"
  shows "\<exists>c'. UpdateCommandStats cmd c = Inr c' \<and> c' = c\<lparr>ctrl_stats := ctrl_stats c'\<rparr> \<and> stats_wf cfg (ctrl_stats c')"
proof -
  have wf: "ch_wf cfg (ctrl_channel c)" and st: "stats_wf cfg (ctrl_stats c)" using core by (simp_all add: core_ok_def)
  obtain n where hits: "\<not> IsRankCMD cmd \<Longrightarrow> RowHitCount (ctrl_channel c) (Rank cmd) (Bankgroup cmd) (Bank cmd) = Inr n"
    using ch_get [OF wf, of "cmd_bank cmd"] vt
    by (auto simp: RowHitCount_def cmd_bank_def valid_target_def split: if_splits)
  show ?thesis
    using hits v Increment_wf [OF Increment_wf [OF st]] Increment_wf [OF st]
    by (cases "cmd_type cmd") (auto simp: UpdateCommandStats_def Let_def command_query_defs)
qed

lemma no_sref_step:
  assumes wf: "ch_wf cfg ch" and rs: "ready_spec cfg ch clk cmd" and ns: "no_sref ch" and t: "cmd_type cmd \<noteq> SREF_ENTER"
    and run: "UpdateTimingAndStates cfg tim cmd clk ch = Inr ch'"
  shows "no_sref ch'"
  using issue_effect(3) [OF wf rs run] ns t set_update_subset_insert [of "rank_is_sref ch" "nat (Rank cmd)" False]
  by (auto simp: no_sref_def split: if_splits)

lemma IssueCommand_ok:
  assumes core: "core_ok cfg c" and tok: "tokens_ok (held_rd + rd_of cmd) (held_wr + wr_of cmd) c"
    and rs: "ready_spec cfg (ctrl_channel c) (ctrl_clk c) cmd" and t: "cmd_type cmd \<noteq> SREF_ENTER"
  shows "\<exists>c'. IssueCommand cfg tim cmd c = Inr c' \<and> core_ok cfg c' \<and> tokens_ok held_rd held_wr c' \<and> same_queues c c' \<and>
    UpdateTimingAndStates cfg tim cmd (ctrl_clk c) (ctrl_channel c) = Inr (ctrl_channel c')"
proof -
  obtain c1 where c1: "issue_pending cfg cmd c = Inr c1" "core_ok cfg c1" "tokens_ok held_rd held_wr c1"
    "same_queues c c1" "ctrl_channel c1 = ctrl_channel c" using issue_pending_ok [OF core tok] by blast
  obtain st where st: "UpdateCommandStats cmd c1 = Inr (c1\<lparr>ctrl_stats := st\<rparr>)" "stats_wf cfg st"
    using UpdateCommandStats_ok [OF c1(2) ready_spec_ok(1,2) [OF rs]] by metis
  have wf: "ch_wf cfg (ctrl_channel c)" "no_sref (ctrl_channel c)" using core by (simp_all add: core_ok_def)
  have clk: "ctrl_clk c1 = ctrl_clk c" using c1(4) by (simp add: same_queues_def)
  obtain ch where ch: "UpdateTimingAndStates cfg tim cmd (ctrl_clk c) (ctrl_channel c) = Inr ch"
    using issue_ready_spec [OF wf(1) rs] by (auto simp: is_ok_iff)
  let ?c = "c1\<lparr>ctrl_stats := st, ctrl_channel := ch\<rparr>"
  have run: "IssueCommand cfg tim cmd c = Inr ?c"
    using c1(1,5) st(1) ch clk by (simp add: IssueCommand_def issue_pending_def [symmetric])
  have "core_ok cfg ?c"
    using c1(2) st(2) issue_effect(1) [OF wf(1) rs ch] no_sref_step [OF wf(1) rs wf(2) t ch]
    by (simp add: core_ok_def shape_ok_def)
  moreover have "tokens_ok held_rd held_wr ?c"
    using c1(3) by (simp add: tokens_ok_def rd_tokens_def wr_tokens_def queued_trans_def)
  moreover have "same_queues c ?c"
    using c1(4) by (simp add: same_queues_def queued_trans_def out_reads_def out_writes_def)
  ultimately show ?thesis using run ch by auto
qed

section \<open>Scheduling\<close>

lemma TransToCommand_ok:
  assumes "addr_ok cfg"
  shows "queued_ok cfg (TransToCommand cfg c t)" and "hex_addr (TransToCommand cfg c t) = t_addr t"
    and "IsRead (TransToCommand cfg c t) \<longleftrightarrow> \<not> is_write t" and "IsWrite (TransToCommand cfg c t) \<longleftrightarrow> is_write t"
  using assms by (auto simp: TransToCommand_def Let_def queued_ok_def addr_ok_def cmd_bank_def command_query_defs)

lemma rd_tokens_move:
  assumes "mset (queued_trans c) = add_mset t (mset (queued_trans c'))" and "all_cmds (ctrl_queue c') = add_mset x (all_cmds (ctrl_queue c))"
    and "hex_addr x = t_addr t" "IsRead x \<longleftrightarrow> \<not> is_write t" "IsWrite x \<longleftrightarrow> is_write t"
  shows "rd_tokens c' = rd_tokens c" and "wr_tokens c' = wr_tokens c"
  using assms by (auto simp: rd_tokens_def wr_tokens_def)

text \<open>What a scheduling step keeps.\<close>

definition sched_ok :: "Config \<Rightarrow> Controller \<Rightarrow> Controller \<Rightarrow> bool" where
  "sched_ok cfg c c' \<longleftrightarrow> core_ok cfg c' \<and> tokens_ok {#} {#} c' \<and> ctrl_clk c' = ctrl_clk c \<and>
     out_reads c' = out_reads c \<and> out_writes c' = out_writes c"

lemma schedule_head_ok:
  assumes cw: "cfg_wf cfg" "addr_ok cfg" and wf: "ctrl_wf cfg c"
    and put: "\<And>l c. \<exists>u r w. put l c = c\<lparr>unified_q := u, read_queue := r, write_buffer := w\<rparr>"
    and head: "\<And>t rest c'. queue = t # rest \<Longrightarrow> c' = c\<lparr>ctrl_queue := ctrl_queue c', write_draining := write_draining c'\<rparr> \<Longrightarrow>
      mset (queued_trans c) = add_mset t (mset (queued_trans (put rest c'))) \<and> shape_ok (put rest c')"
  shows "\<exists>c'. schedule_head cfg queue put c = Inr c' \<and> sched_ok cfg c c'"
proof (cases queue)
  case Nil
  then show ?thesis using wf by (simp add: schedule_head_def sched_ok_def ctrl_wf_def)
next
  case (Cons t rest)
  let ?x = "TransToCommand cfg c t"
  note tx = TransToCommand_ok [OF cw(2), of c t]
  have core: "core_ok cfg c" and tok: "tokens_ok {#} {#} c" using wf by (simp_all add: ctrl_wf_def)
  have cq: "cq_wf cfg (ctrl_queue c)" using core by (simp add: core_ok_def)
  obtain b cq' where a: "AddCommand cfg ?x (ctrl_queue c) = Inr (b, cq')" "cq_wf cfg cq'"
    "WillAcceptCommand cfg (ctrl_queue c) (Rank ?x) (Bankgroup ?x) (Bank ?x) = Inr b"
    "all_cmds cq' = (if b then add_mset ?x (all_cmds (ctrl_queue c)) else all_cmds (ctrl_queue c))"
    and u: "cq' = (ctrl_queue c)\<lparr>queues := queues cq', rank_q_empty := rank_q_empty cq'\<rparr>"
    by (rule AddCommand_spec [OF cw(1) cq tx(1)])
  have fr: "cq_clk cq' = cq_clk (ctrl_queue c)" "ref_wf cfg cq' = ref_wf cfg (ctrl_queue c)"
    by (subst u, simp)+ (subst u, simp add: ref_wf_def)
  show ?thesis
  proof (cases "b \<and> \<not> (\<not> is_unified_queue c \<and> IsWrite ?x \<and> mm_count (t_addr t) (pending_rd_q c) > 0)")
    case False
    then have "schedule_head cfg queue put c = Inr c \<or> schedule_head cfg queue put c = Inr (c\<lparr>write_draining := 0\<rparr>)"
      using a(3) Cons by (auto simp: schedule_head_def Let_def)
    moreover have "sched_ok cfg c c" "sched_ok cfg c (c\<lparr>write_draining := 0\<rparr>)"
      using core tok by (simp_all add: sched_ok_def core_ok_def shape_ok_def tokens_ok_def rd_tokens_def wr_tokens_def
          queued_trans_def out_reads_def out_writes_def)
    ultimately show ?thesis by blast
  next
    case True
    define c1 where "c1 = (if \<not> is_unified_queue c \<and> IsWrite ?x then c\<lparr>write_draining := write_draining c - 1\<rparr> else c)
      \<lparr>ctrl_queue := cq'\<rparr>"
    have run: "schedule_head cfg queue put c = Inr (put rest c1)"
      using True a Cons by (auto simp: schedule_head_def Let_def c1_def)
    obtain v r w where p: "put rest c1 = c1\<lparr>unified_q := v, read_queue := r, write_buffer := w\<rparr>" using put by blast
    have "c1 = c\<lparr>ctrl_queue := ctrl_queue c1, write_draining := write_draining c1\<rparr>" by (simp add: c1_def)
    from head [OF Cons this] have hd: "mset (queued_trans c) = add_mset t (mset (queued_trans (put rest c1)))"
      "shape_ok (put rest c1)" by auto
    have c1: "ctrl_queue c1 = cq'" "pending_rd_q c1 = pending_rd_q c" "pending_wr_q c1 = pending_wr_q c"
      "return_queue c1 = return_queue c" "ctrl_clk c1 = ctrl_clk c" "ctrl_channel c1 = ctrl_channel c"
      "ctrl_stats c1 = ctrl_stats c" "ctrl_refresh c1 = ctrl_refresh c" by (simp_all add: c1_def)
    have q1: "ctrl_queue (put rest c1) = cq'" by (simp add: p c1)
    have "rd_tokens (put rest c1) = rd_tokens c" "wr_tokens (put rest c1) = wr_tokens c"
      by (rule rd_tokens_move [OF hd(1) _ tx(2,3,4)]; use a(4) True q1 in simp)+
    then have "tokens_ok {#} {#} (put rest c1)" using tok by (simp add: tokens_ok_def) (simp add: p c1)
    moreover have "core_ok cfg (put rest c1)"
      using core a(2) fr hd(2) by (simp add: core_ok_def q1) (simp add: p c1)
    ultimately show ?thesis using run by (simp add: sched_ok_def) (simp add: p c1 out_reads_def out_writes_def)
  qed
qed

lemma put_frames:
  fixes c :: Controller
  shows "\<exists>u r w. c\<lparr>unified_q := l\<rparr> = c\<lparr>unified_q := u, read_queue := r, write_buffer := w\<rparr>"
    and "\<exists>u r w. c\<lparr>read_queue := l\<rparr> = c\<lparr>unified_q := u, read_queue := r, write_buffer := w\<rparr>"
    and "\<exists>u r w. c\<lparr>write_buffer := l\<rparr> = c\<lparr>unified_q := u, read_queue := r, write_buffer := w\<rparr>"
proof -
  have "c\<lparr>unified_q := l\<rparr> = c\<lparr>unified_q := l, read_queue := read_queue c, write_buffer := write_buffer c\<rparr>"
    "c\<lparr>read_queue := l\<rparr> = c\<lparr>unified_q := unified_q c, read_queue := l, write_buffer := write_buffer c\<rparr>"
    "c\<lparr>write_buffer := l\<rparr> = c\<lparr>unified_q := unified_q c, read_queue := read_queue c, write_buffer := l\<rparr>" by simp_all
  then show "\<exists>u r w. c\<lparr>unified_q := l\<rparr> = c\<lparr>unified_q := u, read_queue := r, write_buffer := w\<rparr>"
    "\<exists>u r w. c\<lparr>read_queue := l\<rparr> = c\<lparr>unified_q := u, read_queue := r, write_buffer := w\<rparr>"
    "\<exists>u r w. c\<lparr>write_buffer := l\<rparr> = c\<lparr>unified_q := u, read_queue := r, write_buffer := w\<rparr>" by blast+
qed

lemma draining_frame [simp]:
  "ctrl_wf cfg (c\<lparr>write_draining := n\<rparr>) = ctrl_wf cfg c"
  "out_reads (c\<lparr>write_draining := n\<rparr>) = out_reads c" "out_writes (c\<lparr>write_draining := n\<rparr>) = out_writes c"
  by (simp_all add: ctrl_wf_def core_ok_def shape_ok_def tokens_ok_def rd_tokens_def wr_tokens_def queued_trans_def
      out_reads_def out_writes_def)

lemma ScheduleTransaction_ok:
  assumes cw: "cfg_wf cfg" "addr_ok cfg" and wf: "ctrl_wf cfg c"
  shows "\<exists>c'. ScheduleTransaction cfg c = Inr c' \<and> sched_ok cfg c c'"
proof -
  define c1 where "c1 = (if write_draining c = 0 \<and> \<not> is_unified_queue c \<and>
                  (length (write_buffer c) \<ge> write_cap c \<or>
                   length (write_buffer c) > 8 \<and> QueueEmpty (ctrl_queue c))
               then c\<lparr>write_draining := int (length (write_buffer c))\<rparr> else c)"
  have wf1: "ctrl_wf cfg c1" using wf by (simp add: c1_def)
  have same: "sched_ok cfg c1 c' = sched_ok cfg c c'" for c'
    by (simp add: c1_def sched_ok_def)
  have sh: "shape_ok c1" using wf1 by (simp add: ctrl_wf_def core_ok_def)
  have run: "ScheduleTransaction cfg c = (if is_unified_queue c1 then schedule_head cfg (unified_q c1) (\<lambda>l c. c\<lparr>unified_q := l\<rparr>) c1
         else if write_draining c1 > 0 then schedule_head cfg (write_buffer c1) (\<lambda>l c. c\<lparr>write_buffer := l\<rparr>) c1
         else schedule_head cfg (read_queue c1) (\<lambda>l c. c\<lparr>read_queue := l\<rparr>) c1)"
    unfolding ScheduleTransaction_def Let_def c1_def [symmetric] ..
  have frame: "queued_trans c' = queued_trans c1 \<and> unified_q c' = unified_q c1 \<and> read_queue c' = read_queue c1 \<and>
      write_buffer c' = write_buffer c1 \<and> is_unified_queue c' = is_unified_queue c1 \<and> pending_rd_q c' = pending_rd_q c1"
    if "c' = c1\<lparr>ctrl_queue := ctrl_queue c', write_draining := write_draining c'\<rparr>" for c'
    by (subst that, simp add: queued_trans_def)+
  have "\<exists>c'. schedule_head cfg (unified_q c1) (\<lambda>l c. c\<lparr>unified_q := l\<rparr>) c1 = Inr c' \<and> sched_ok cfg c1 c'"
    by (rule schedule_head_ok [OF cw wf1 put_frames(1)])
      (use sh in \<open>auto dest!: frame simp: queued_trans_def shape_ok_def\<close>)
  moreover have "\<exists>c'. schedule_head cfg (write_buffer c1) (\<lambda>l c. c\<lparr>write_buffer := l\<rparr>) c1 = Inr c' \<and> sched_ok cfg c1 c'"
    by (rule schedule_head_ok [OF cw wf1 put_frames(3)])
      (use sh in \<open>auto dest!: frame simp: queued_trans_def shape_ok_def split: if_splits\<close>)
  moreover have "\<exists>c'. schedule_head cfg (read_queue c1) (\<lambda>l c. c\<lparr>read_queue := l\<rparr>) c1 = Inr c' \<and> sched_ok cfg c1 c'"
    by (rule schedule_head_ok [OF cw wf1 put_frames(2)])
      (use sh in \<open>auto dest!: frame simp: queued_trans_def shape_ok_def split: if_splits\<close>)
  ultimately show ?thesis unfolding run same by simp
qed

end
