(* ===== verification/Dram_Controller_Run.thy ===== *)
theory Dram_Controller_Run
  imports Dram_Controller
begin

text \<open>
  What a tick of the controller guarantees: it never aborts on a well-formed controller
  without self refresh, keeps the token invariant, and moves every accepted read towards
  exactly one return. The hypothesis on the column delays rules out the one case in which
  the dual-command path of HBM would drop a command it has taken from the queue.
\<close>

section \<open>Two column commands in one cycle\<close>

definition rw_delays :: "Config \<Rightarrow> int list" where
  "rw_delays cfg =
     [read_to_read_l cfg, read_to_read_s cfg, read_to_write cfg, write_to_read_l cfg, write_to_read_s cfg,
      write_to_write_l cfg, write_to_write_s cfg] @
     (if 1 < ranks cfg then [read_to_read_o cfg, read_to_write_o cfg, write_to_read_o cfg, write_to_write_o cfg] else [])"

definition rw_gap :: "Config \<Rightarrow> u64 \<Rightarrow> bool" where
  "rw_gap cfg clk \<longleftrightarrow> (\<forall>d\<in>set (rw_delays cfg). 0 < d \<and> uint clk + d < 2 ^ 64)"

lemma gap_less: "0 < d \<Longrightarrow> uint (clk :: u64) + d < 2 ^ 64 \<Longrightarrow> clk < clk + of_int d"
  by (simp add: word_less_def uint_word_ariths uint_word_of_int take_bit_eq_mod mod_simps)

lemma imposed_rw:
  assumes "IsReadWrite cmd" and "IsReadWrite cmd2" and "valid_bank cfg (cmd_bank cmd)" and "valid_bank cfg (cmd_bank cmd2)"
  shows "(cmd_bank cmd2 = cmd_bank cmd \<and> cmd_type cmd \<in> {READ_PRECHARGE, WRITE_PRECHARGE}) \<or>
    (\<exists>d\<in>set (rw_delays cfg). (cmd_type cmd2, d) \<in> set (imposed (Timing_new cfg) cmd (cmd_bank cmd2)))"
proof -
  obtain i j k where b: "cmd_bank cmd2 = (i, j, k)" by (cases "cmd_bank cmd2")
  have nr: "\<not> IsRankCMD cmd" by (rule IsReadWrite_not_rank [OF assms(1)])
  have ty: "cmd_type cmd \<in> {READ, READ_PRECHARGE, WRITE, WRITE_PRECHARGE}"
    "cmd_type cmd2 \<in> {READ, READ_PRECHARGE, WRITE, WRITE_PRECHARGE}"
    using assms(1,2) by (auto simp: command_query_defs)
  have rk: "1 < ranks cfg" if "i \<noteq> Rank cmd"
    using that assms(3,4) b by (auto simp: cmd_bank_def)
  have key: "\<exists>d\<in>set (rw_delays cfg). (cmd_type cmd2, d) \<in> set (imposed (Timing_new cfg) cmd (cmd_bank cmd2))"
    if "imposed (Timing_new cfg) cmd (i, j, k) = (if IsRead cmd then rw_entries x y @ t else rw_entries x' y' @ t')"
      "{x, y, x', y'} \<subseteq> set (rw_delays cfg)" for x y x' y' t t'
    unfolding b that(1) using that(2) ty(2) by (cases "IsRead cmd") (auto simp: rw_entries_def)
  consider "i \<noteq> Rank cmd" | "i = Rank cmd" "j \<noteq> Bankgroup cmd" | "i = Rank cmd" "j = Bankgroup cmd" "k \<noteq> Bank cmd"
    | "i = Rank cmd" "j = Bankgroup cmd" "k = Bank cmd" by blast
  then show ?thesis
  proof cases
    case 1
    have "imposed (Timing_new cfg) cmd (i, j, k) = (if IsRead cmd then rw_entries (read_to_read_o cfg) (read_to_write_o cfg) @ []
        else rw_entries (write_to_read_o cfg) (write_to_write_o cfg) @ [])"
      using 1 ty nr by (auto simp: other_ranks_table_def IsRead_def)
    from key [OF this] rk [OF 1] show ?thesis by (simp add: rw_delays_def del: imposed.simps)
  next
    case 2
    have "imposed (Timing_new cfg) cmd (i, j, k) = (if IsRead cmd then rw_entries (read_to_read_s cfg) (read_to_write cfg) @ []
        else rw_entries (write_to_read_s cfg) (write_to_write_s cfg) @ [])"
      using 2 ty nr by (auto simp: other_bankgroups_same_rank_table_def IsRead_def)
    from key [OF this] show ?thesis by (simp add: rw_delays_def del: imposed.simps)
  next
    case 3
    have "imposed (Timing_new cfg) cmd (i, j, k) = (if IsRead cmd then rw_entries (read_to_read_l cfg) (read_to_write cfg) @ []
        else rw_entries (write_to_read_l cfg) (write_to_write_l cfg) @ [])"
      using 3 ty nr by (auto simp: other_banks_same_bankgroup_table_def IsRead_def)
    from key [OF this] show ?thesis by (simp add: rw_delays_def del: imposed.simps)
  next
    case 4
    show ?thesis
    proof (cases "cmd_type cmd \<in> {READ_PRECHARGE, WRITE_PRECHARGE}")
      case True
      with 4 b show ?thesis by (simp add: cmd_bank_def)
    next
      case False
      with 4 ty nr have "imposed (Timing_new cfg) cmd (i, j, k) = (if IsRead cmd
          then rw_entries (read_to_read_l cfg) (read_to_write cfg) @ [(PRECHARGE, read_to_precharge cfg)]
          else rw_entries (write_to_read_l cfg) (write_to_write_l cfg) @ [(PRECHARGE, write_to_precharge cfg)])"
        by (auto simp: same_bank_table_def IsRead_def)
      from key [OF this] show ?thesis by (simp add: rw_delays_def del: imposed.simps)
    qed
  qed
qed

lemma rw_target:
  assumes "IsReadWrite cmd" and "ready_spec cfg ch clk cmd"
  shows "valid_bank cfg (cmd_bank cmd)" and "is_ok (bank_UpdateState cmd (bank_of ch (cmd_bank cmd)))"
    and "cmd_timing (bank_of ch (cmd_bank cmd)) (cmd_type cmd) \<le> clk" and "cmd_bank cmd \<in> set (cmd_targets cfg cmd)"
proof -
  have nr: "\<not> IsRankCMD cmd" by (rule IsReadWrite_not_rank [OF assms(1)])
  then have "issue_banks cfg cmd = [cmd_bank cmd]" "cmd_targets cfg cmd = [cmd_bank cmd]"
    by (auto simp: issue_banks_def cmd_targets_def IsRankCMD_def)
  then show "valid_bank cfg (cmd_bank cmd)" "is_ok (bank_UpdateState cmd (bank_of ch (cmd_bank cmd)))"
    "cmd_timing (bank_of ch (cmd_bank cmd)) (cmd_type cmd) \<le> clk" "cmd_bank cmd \<in> set (cmd_targets cfg cmd)"
    using ready_spec_ok(3,4,5) [OF assms(2), of "cmd_bank cmd"] by auto
qed

lemma rw_not_twice:
  assumes wf: "ch_wf cfg ch" and rs: "ready_spec cfg ch clk cmd" and rw: "IsReadWrite cmd" and gap: "rw_gap cfg clk"
    and run: "UpdateTimingAndStates cfg (Timing_new cfg) cmd clk ch = Inr ch'"
    and rs2: "ready_spec cfg ch' clk cmd2"
  shows "\<not> IsReadWrite cmd2"
proof
  assume rw2: "IsReadWrite cmd2"
  note t1 = rw_target [OF rw rs] and t2 = rw_target [OF rw2 rs2]
  note at = issue_effect(2) [OF wf rs run t2(1)]
  consider "cmd_bank cmd2 = cmd_bank cmd" "cmd_type cmd \<in> {READ_PRECHARGE, WRITE_PRECHARGE}"
    | d where "d \<in> set (rw_delays cfg)" "(cmd_type cmd2, d) \<in> set (imposed (Timing_new cfg) cmd (cmd_bank cmd2))"
    using imposed_rw [OF rw rw2 t1(1) t2(1)] by blast
  then show False
  proof cases
    case 1
    with at t1(4) have "bank_state (bank_of ch' (cmd_bank cmd2)) = bank_state (next_bank cmd (bank_of ch (cmd_bank cmd)))" by simp
    also have "\<dots> = CLOSED" using 1(2) t1(2)
      by (auto simp: next_bank_def bank_UpdateState_def split: BankStatus.splits)
    finally show False using t2(2) rw2
      by (auto simp: bank_UpdateState_def command_query_defs split: CommandType.splits)
  next
    case (2 d)
    have "clk < clk + of_int d" using gap 2(1) by (intro gap_less) (auto simp: rw_gap_def)
    also have "\<dots> \<le> cmd_timing (bank_of ch' (cmd_bank cmd2)) (cmd_type cmd2)"
      unfolding at by (rule apply_timings_entry [OF 2(2)])
    also have "\<dots> \<le> clk" by (rule t2(3))
    finally show False by simp
  qed
qed

section \<open>The parts of a tick\<close>

text \<open>What every part keeps, with the tokens of a command held outside the queue.\<close>

definition tick_inv :: "Config \<Rightarrow> Controller \<Rightarrow> Command \<Rightarrow> Controller \<Rightarrow> bool" where
  "tick_inv cfg c0 held c \<longleftrightarrow> core_ok cfg c \<and> tokens_ok (rd_of held) (wr_of held) c \<and>
     ctrl_clk c = ctrl_clk c0 \<and> out_reads c = out_reads c0 \<and> out_writes c = out_writes c0"

lemma held_none: "\<not> IsReadWrite cmd \<Longrightarrow> rd_of cmd = {#} \<and> wr_of cmd = {#}"
  by (auto simp: rd_of_def wr_of_def IsReadWrite_def)

lemma held_default [simp]: "rd_of Command_default = {#}" "wr_of Command_default = {#}"
  by (simp_all add: rd_of_def wr_of_def command_query_defs)

lemma tick_inv_start: "ctrl_wf cfg c \<Longrightarrow> tick_inv cfg c Command_default c"
  by (simp add: tick_inv_def ctrl_wf_def)

definition cmd_ok :: "Config \<Rightarrow> Controller \<Rightarrow> Command \<Rightarrow> bool" where
  "cmd_ok cfg c cmd \<longleftrightarrow> cmd = Command_default \<or>
     ready_spec cfg (ctrl_channel c) (ctrl_clk c) cmd \<and> cmd_type cmd \<noteq> SREF_ENTER"

lemma queue_answer_type:
  assumes "ch_wf cfg ch" and "queued_ok cfg it" and "GetReadyCommand cfg ch it clk = Inr cmd" and "IsValid cmd"
  shows "cmd_type cmd \<noteq> SREF_ENTER"
proof -
  have vt: "valid_target cfg it" and nr: "\<not> IsRankCMD it" and rw: "IsReadWrite it"
    using assms(2) IsReadWrite_not_rank by (auto simp: queued_ok_def valid_target_def)
  have "required_type (bank_of ch (cmd_bank it)) it = Inr (cmd_type cmd)"
    using ready_spec_bank [OF assms(1) vt nr assms(3,4)] by simp
  from required_type_bank [OF nr this] rw show ?thesis by (auto simp: command_query_defs)
qed

lemma take_command:
  assumes cw: "cfg_wf cfg" and inv: "tick_inv cfg c0 held c" and none: "\<not> IsReadWrite held"
  obtains cmd cq st where
    "GetCommandToIssue cfg (ctrl_channel c) (ctrl_queue c) (ctrl_stats c) = Inr (cmd, cq, st)"
    and "tick_inv cfg c0 cmd (c\<lparr>ctrl_queue := cq, ctrl_stats := st\<rparr>)"
    and "cmd_ok cfg (c\<lparr>ctrl_queue := cq, ctrl_stats := st\<rparr>) cmd"
proof -
  have core: "core_ok cfg c" and tok: "tokens_ok {#} {#} c"
    using inv held_none [OF none] by (simp_all add: tick_inv_def)
  have wf: "ch_wf cfg (ctrl_channel c)" "cq_wf cfg (ctrl_queue c)" "stats_wf cfg (ctrl_stats c)"
    "cq_clk (ctrl_queue c) = ctrl_clk c" using core by (simp_all add: core_ok_def)
  obtain cmd cq st where run: "GetCommandToIssue cfg (ctrl_channel c) (ctrl_queue c) (ctrl_stats c) = Inr (cmd, cq, st)"
    "stats_wf cfg st" and post: "issue_post cfg (ctrl_channel c) (ctrl_queue c) cmd cq"
    by (rule GetCommandToIssue_spec [OF cw wf(1,2,3)])
  let ?c = "c\<lparr>ctrl_queue := cq, ctrl_stats := st\<rparr>"
  have fr: "cq_wf cfg cq" "cq_clk cq = ctrl_clk c" "ref_wf cfg cq"
    using post wf core by (auto simp: issue_post_def ref_wf_def core_ok_def)
  have core': "core_ok cfg ?c" using core fr run(2) by (simp add: core_ok_def shape_ok_def)
  have cmds: "(if IsReadWrite cmd then all_cmds (ctrl_queue c) = add_mset cmd (all_cmds cq) else all_cmds cq = all_cmds (ctrl_queue c))"
    using post by (auto simp: issue_post_def command_query_defs)
  have "tokens_ok (rd_of cmd) (wr_of cmd) ?c"
    using tok cmds held_none [of cmd] by (auto simp: tokens_ok_def rd_tokens_def wr_tokens_def queued_trans_def rd_of_def wr_of_def
        IsReadWrite_def split: if_splits)
  then have "tick_inv cfg c0 cmd ?c"
    using inv core' by (simp add: tick_inv_def out_reads_def out_writes_def)
  moreover have "cmd_ok cfg ?c cmd"
  proof (cases "cmd = Command_default")
    case False
    with post obtain i before it after where i: "i < length (queues (ctrl_queue c))"
      "queues (ctrl_queue c) ! i = before @ it # after"
      and co: "choice_ok cfg (ctrl_channel c) (cq_clk (ctrl_queue c)) before it after cmd"
      unfolding issue_post_def by blast
    have "queued_ok cfg it" using cq_wf_entry [OF wf(2) i(1), of it] i(2) by simp
    then show ?thesis using co wf(4) queue_answer_type [OF wf(1)] unfolding choice_ok_def cmd_ok_def by auto
  qed (simp add: cmd_ok_def)
  ultimately show thesis by (rule that [OF run(1)])
qed

lemma issue_command:
  assumes inv: "tick_inv cfg c0 cmd c" and ok: "cmd_ok cfg c cmd" and v: "IsValid cmd"
  obtains c' where "IssueCommand cfg tim cmd c = Inr c'" and "tick_inv cfg c0 Command_default c'"
    and "UpdateTimingAndStates cfg tim cmd (ctrl_clk c) (ctrl_channel c) = Inr (ctrl_channel c')"
    and "ctrl_clk c' = ctrl_clk c"
proof -
  have core: "core_ok cfg c" and tok: "tokens_ok ({#} + rd_of cmd) ({#} + wr_of cmd) c"
    using inv by (simp_all add: tick_inv_def)
  have rs: "ready_spec cfg (ctrl_channel c) (ctrl_clk c) cmd" "cmd_type cmd \<noteq> SREF_ENTER"
    using ok v by (auto simp: cmd_ok_def)
  obtain c' where "IssueCommand cfg tim cmd c = Inr c'" "core_ok cfg c'" "tokens_ok {#} {#} c'" "same_queues c c'"
    "UpdateTimingAndStates cfg tim cmd (ctrl_clk c) (ctrl_channel c) = Inr (ctrl_channel c')"
    using IssueCommand_ok [OF core tok rs] by blast
  then show thesis using inv by (intro that [of c']) (auto simp: tick_inv_def same_queues_def)
qed


lemma tick_inv_held: "\<not> IsReadWrite cmd \<Longrightarrow> tick_inv cfg c0 cmd c = tick_inv cfg c0 Command_default c"
  by (simp add: tick_inv_def held_none)

text \<open>The refresh tick and the command that serves a waiting refresh.\<close>

lemma refresh_part:
  assumes cw: "cfg_wf cfg" and wf: "ctrl_wf cfg c0"
  obtains rf ch cmd c where "refresh_ClockTick cfg (ctrl_refresh c0) (ctrl_channel c0) = Inr (rf, ch)"
    and "(if IsRefreshWaiting ch then
            res_bind (FinishRefresh cfg ch (ctrl_queue c0)) (\<lambda>(cmd, cq).
              Inr (cmd, c0\<lparr>ctrl_refresh := rf, ctrl_channel := ch, ctrl_queue := cq\<rparr>))
          else Inr (Command_default, c0\<lparr>ctrl_refresh := rf, ctrl_channel := ch\<rparr>)) = Inr (cmd, c)"
    and "tick_inv cfg c0 Command_default c" and "cmd_ok cfg c cmd" and "\<not> IsReadWrite cmd"
proof -
  have core: "core_ok cfg c0" using wf by (simp add: ctrl_wf_def)
  have w: "ch_wf cfg (ctrl_channel c0)" "refresh_wf cfg (ctrl_refresh c0)" "cq_wf cfg (ctrl_queue c0)" "ref_wf cfg (ctrl_queue c0)"
    "cq_clk (ctrl_queue c0) = ctrl_clk c0" "no_sref (ctrl_channel c0)" using core by (simp_all add: core_ok_def)
  obtain rf ch where r: "refresh_ClockTick cfg (ctrl_refresh c0) (ctrl_channel c0) = Inr (rf, ch)" "ch_wf cfg ch" "refresh_wf cfg rf"
    and u: "ch = (ctrl_channel c0)\<lparr>refresh_q := refresh_q ch\<rparr>"
    by (rule refresh_ClockTick_spec [OF w(1,2)])
  have sr: "rank_is_sref ch = rank_is_sref (ctrl_channel c0)" by (subst u) simp
  then have ns: "no_sref ch" using w(6) by (simp add: no_sref_def)
  let ?c1 = "c0\<lparr>ctrl_refresh := rf, ctrl_channel := ch\<rparr>"
  have inv1: "tick_inv cfg c0 Command_default (?c1\<lparr>ctrl_queue := cq\<rparr>)"
    if "cq_wf cfg cq" "ref_wf cfg cq" "cq_clk cq = ctrl_clk c0" "queues cq = queues (ctrl_queue c0)" for cq
    using wf r(2,3) ns that
    by (simp add: tick_inv_def ctrl_wf_def core_ok_def shape_ok_def tokens_ok_def rd_tokens_def wr_tokens_def queued_trans_def
        all_cmds_def out_reads_def out_writes_def)
  show thesis
  proof (cases "refresh_q ch")
    case Nil
    have "?c1 = ?c1\<lparr>ctrl_queue := ctrl_queue c0\<rparr>" by simp
    then have "tick_inv cfg c0 Command_default ?c1" using inv1 [of "ctrl_queue c0"] w by simp
    then show thesis using Nil
      by (intro that [OF r(1), of Command_default ?c1]) (simp_all add: IsRefreshWaiting_def cmd_ok_def command_query_defs)
  next
    case (Cons ref rest)
    have "\<not> rank_is_sref ch ! nat (Rank ref)"
    proof -
      have "valid_target cfg ref" "cmd_type ref \<in> {REFRESH, REFRESH_BANK}" using r(2) Cons by (auto simp: ch_wf_def)
      then have "nat (Rank ref) < length (rank_is_sref ch)"
        using r(2) by (auto simp: ch_wf_def valid_target_def cmd_bank_def split: if_splits)
      then show ?thesis using ns by (metis no_sref_def nth_mem)
    qed
    then obtain cmd q' where f: "FinishRefresh cfg ch (ctrl_queue c0) = Inr (cmd, q')" "cq_wf cfg q'" "ref_wf cfg q'"
      and q': "q' = (ctrl_queue c0)\<lparr>ref_q_indices := ref_q_indices q', is_in_ref := is_in_ref q'\<rparr>"
      and co: "cmd = Command_default \<or> ready_spec cfg ch (cq_clk (ctrl_queue c0)) cmd \<and> cmd_type cmd \<in> {PRECHARGE, REFRESH, REFRESH_BANK}"
      by (rule FinishRefresh_spec [OF cw r(2) w(3,4) Cons]) (rule that, assumption+)
    have q: "cq_clk q' = ctrl_clk c0" "queues q' = queues (ctrl_queue c0)" using w(5) by (subst q', simp)+
    have "cmd_ok cfg (?c1\<lparr>ctrl_queue := q'\<rparr>) cmd" "\<not> IsReadWrite cmd"
      using co w(5) by (auto simp: cmd_ok_def command_query_defs)
    then show thesis using Cons f(1) inv1 [OF f(2,3) q]
      by (intro that [OF r(1), of cmd "?c1\<lparr>ctrl_queue := q'\<rparr>"]) (simp_all add: IsRefreshWaiting_def)
  qed
qed

text \<open>The second command of a cycle.\<close>

lemma dual_part:
  assumes cw: "cfg_wf cfg" and inv: "tick_inv cfg c0 cmd c" and ok: "cmd_ok cfg c cmd" and v: "IsValid cmd"
    and gap: "enable_hbm_dual_cmd cfg \<Longrightarrow> rw_gap cfg (ctrl_clk c0)"
  obtains c' where
    "res_bind (IssueCommand cfg (Timing_new cfg) cmd c) (\<lambda>c4.
       if enable_hbm_dual_cmd cfg then
         res_bind (GetCommandToIssue cfg (ctrl_channel c4) (ctrl_queue c4) (ctrl_stats c4))
           (\<lambda>(second_cmd, cq, st).
             let c5 = c4\<lparr>ctrl_queue := cq, ctrl_stats := st\<rparr> in
             if IsValid second_cmd \<and> IsReadWrite second_cmd \<noteq> IsReadWrite cmd then
               res_bind (IssueCommand cfg (Timing_new cfg) second_cmd c5) (\<lambda>c6.
                 Inr (True, c6\<lparr>ctrl_stats := Increment ''hbm_dual_cmds'' (ctrl_stats c6)\<rparr>))
             else Inr (True, c5))
       else Inr (True, c4)) = Inr (True, c')"
    and "tick_inv cfg c0 Command_default c'"
proof -
  obtain c4 where c4: "IssueCommand cfg (Timing_new cfg) cmd c = Inr c4" "tick_inv cfg c0 Command_default c4"
    "UpdateTimingAndStates cfg (Timing_new cfg) cmd (ctrl_clk c) (ctrl_channel c) = Inr (ctrl_channel c4)"
    "ctrl_clk c4 = ctrl_clk c" by (rule issue_command [OF inv ok v])
  have "\<not> IsReadWrite Command_default" by (simp add: command_query_defs)
  from take_command [OF cw c4(2) this] obtain cmd2 cq st where
    g: "GetCommandToIssue cfg (ctrl_channel c4) (ctrl_queue c4) (ctrl_stats c4) = Inr (cmd2, cq, st)"
    and inv5: "tick_inv cfg c0 cmd2 (c4\<lparr>ctrl_queue := cq, ctrl_stats := st\<rparr>)"
    and ok5: "cmd_ok cfg (c4\<lparr>ctrl_queue := cq, ctrl_stats := st\<rparr>) cmd2" by blast
  let ?c5 = "c4\<lparr>ctrl_queue := cq, ctrl_stats := st\<rparr>"
  consider "\<not> enable_hbm_dual_cmd cfg"
    | "enable_hbm_dual_cmd cfg" "IsValid cmd2" "IsReadWrite cmd2 \<noteq> IsReadWrite cmd"
    | "enable_hbm_dual_cmd cfg" "\<not> (IsValid cmd2 \<and> IsReadWrite cmd2 \<noteq> IsReadWrite cmd)" by blast
  then show thesis
  proof cases
    case 1
    then show thesis using c4 by (intro that [of c4]) simp_all
  next
    case 2
    obtain c6 where c6: "IssueCommand cfg (Timing_new cfg) cmd2 ?c5 = Inr c6" "tick_inv cfg c0 Command_default c6"
      by (rule issue_command [OF inv5 ok5 2(2)])
    have "tick_inv cfg c0 Command_default (c6\<lparr>ctrl_stats := Increment ''hbm_dual_cmds'' (ctrl_stats c6)\<rparr>)"
      using c6(2) by (simp add: tick_inv_def core_ok_def shape_ok_def tokens_ok_def rd_tokens_def wr_tokens_def queued_trans_def
          out_reads_def out_writes_def Increment_wf)
    then show thesis using c4(1) g c6(1) 2 by (intro that) (simp_all add: Let_def)
  next
    case 3
    have "\<not> IsReadWrite cmd2"
    proof
      assume rw2: "IsReadWrite cmd2"
      then have "IsValid cmd2" by (auto simp: command_query_defs)
      with 3 rw2 have rw: "IsReadWrite cmd" and rs2: "ready_spec cfg (ctrl_channel c4) (ctrl_clk c) cmd2"
        using ok5 c4(4) rw2 by (auto simp: cmd_ok_def command_query_defs)
      have "ready_spec cfg (ctrl_channel c) (ctrl_clk c) cmd" using ok v by (auto simp: cmd_ok_def)
      moreover have "ch_wf cfg (ctrl_channel c)" "ctrl_clk c = ctrl_clk c0" using inv by (simp_all add: tick_inv_def core_ok_def)
      ultimately show False using rw_not_twice [OF _ _ rw _ c4(3) rs2] gap [OF 3(1)] rw2 by simp
    qed
    then have "tick_inv cfg c0 Command_default ?c5" using inv5 tick_inv_held by simp
    then show thesis using c4(1) g 3 by (intro that [of ?c5]) (auto simp: Let_def)
  qed
qed


text \<open>Power accounting.\<close>

lemma idle_loop_ok: "ch_wf cfg ch \<Longrightarrow> \<forall>b\<in>set bs. valid_bank cfg b \<Longrightarrow> \<exists>r. idle_loop (bank_states ch) bs = Inr r"
proof (induction bs)
  case (Cons b bs)
  then show ?case using ch_get [OF Cons.prems(1), of b] by auto
qed auto

lemma ch_wf_idle [simp]: "ch_wf cfg (ch\<lparr>rank_idle_cycles := v\<rparr>) \<longleftrightarrow>
    (if length v = length (rank_idle_cycles ch) then ch_wf cfg ch
     else ch_wf cfg (ch\<lparr>rank_idle_cycles := v\<rparr>))"
  by (auto simp: ch_wf_def bank_of_def)

lemma tick_inv_power:
  assumes "tick_inv cfg c0 held c" and "stats_wf cfg st" and "length v = length (rank_idle_cycles (ctrl_channel c))"
  shows "tick_inv cfg c0 held (c\<lparr>ctrl_stats := st, ctrl_channel := (ctrl_channel c)\<lparr>rank_idle_cycles := v\<rparr>\<rparr>)"
  using assms by (auto simp: tick_inv_def core_ok_def shape_ok_def tokens_ok_def rd_tokens_def wr_tokens_def queued_trans_def
      out_reads_def out_writes_def no_sref_def)

lemma power_step_ok:
  assumes inv: "tick_inv cfg c0 held c" and i: "i \<in> set (irange (ranks cfg))"
  shows "\<exists>c'. power_step cfg i c = Inr c' \<and> tick_inv cfg c0 held c'"
proof -
  have wf: "ch_wf cfg (ctrl_channel c)" "stats_wf cfg (ctrl_stats c)" "no_sref (ctrl_channel c)"
    using inv by (simp_all add: tick_inv_def core_ok_def)
  have i': "0 \<le> i" "i < ranks cfg" using i by auto
  then have ln: "nat i < length (rank_is_sref (ctrl_channel c))" "nat i < length (rank_idle_cycles (ctrl_channel c))"
    using wf(1) by (auto simp: ch_wf_def)
  then have sr: "IsRankSelfRefreshing (ctrl_channel c) i = Inr False"
    using wf(3) i' by (auto simp: IsRankSelfRefreshing_def res_simps no_sref_def in_set_conv_nth)
  obtain idle where idle: "IsAllBankIdleInRank cfg (ctrl_channel c) i = Inr idle"
    using idle_loop_ok [OF wf(1), of "rank_banks cfg i"] i' rank_banks_valid by (auto simp: IsAllBankIdleInRank_def)
  obtain st st' where st: "IncrementVec ''all_bank_idle_cycles'' i (ctrl_stats c) = Inr st" "stats_wf cfg st"
    "IncrementVec ''rank_active_cycles'' i (ctrl_stats c) = Inr st'" "stats_wf cfg st'"
    using IncrementVec_wf [OF wf(2) _ i'] by (metis (no_types, lifting) list.set_intros(1,2) vec_names_def)
  show ?thesis
    using sr idle st ln i' tick_inv_power [OF inv]
    by (cases idle) (auto simp: power_step_def vupd_def vset_def vget_def)
qed

theorem ctrl_ClockTick_ok:
  assumes cw: "cfg_wf cfg" "addr_ok cfg" "\<not> enable_self_refresh cfg" and wf: "ctrl_wf cfg c"
    and gap: "enable_hbm_dual_cmd cfg \<longrightarrow> rw_gap cfg (ctrl_clk c)"
  obtains c' where "ctrl_ClockTick cfg (Timing_new cfg) c = Inr c'" and "ctrl_wf cfg c'" and "ctrl_clk c' = ctrl_clk c + 1"
    and "out_reads c' = out_reads c" and "out_writes c' = out_writes c"
proof -
  obtain rf ch cmd0 c2 where rf: "refresh_ClockTick cfg (ctrl_refresh c) (ctrl_channel c) = Inr (rf, ch)"
    and fin: "(if IsRefreshWaiting ch then
            res_bind (FinishRefresh cfg ch (ctrl_queue c)) (\<lambda>(cmd, cq).
              Inr (cmd, c\<lparr>ctrl_refresh := rf, ctrl_channel := ch, ctrl_queue := cq\<rparr>))
          else Inr (Command_default, c\<lparr>ctrl_refresh := rf, ctrl_channel := ch\<rparr>)) = Inr (cmd0, c2)"
    and i2: "tick_inv cfg c Command_default c2" "cmd_ok cfg c2 cmd0" "\<not> IsReadWrite cmd0"
    by (rule refresh_part [OF cw(1) wf])
  let ?c1 = "c\<lparr>ctrl_refresh := rf, ctrl_channel := ch\<rparr>"
  have fin': "(if IsRefreshWaiting (ctrl_channel ?c1) then
            res_bind (FinishRefresh cfg (ctrl_channel ?c1) (ctrl_queue ?c1)) (\<lambda>(cmd, cq). Inr (cmd, ?c1\<lparr>ctrl_queue := cq\<rparr>))
          else Inr (Command_default, ?c1)) = Inr (cmd0, c2)" using fin by (simp split: if_splits)
  obtain cmd c3 where take: "(if \<not> IsValid cmd0 then
                  res_bind (GetCommandToIssue cfg (ctrl_channel c2) (ctrl_queue c2) (ctrl_stats c2)) (\<lambda>(cmd, cq, st).
                    Inr (cmd, c2\<lparr>ctrl_queue := cq, ctrl_stats := st\<rparr>))
                else Inr (cmd0, c2)) = Inr (cmd, c3)"
    and i3: "tick_inv cfg c cmd c3" "cmd_ok cfg c3 cmd"
  proof (cases "IsValid cmd0")
    case True
    then show thesis using i2 tick_inv_held [OF i2(3)] by (intro that [of cmd0 c2]) simp_all
  next
    case False
    have "\<not> IsReadWrite Command_default" by (simp add: command_query_defs)
    from take_command [OF cw(1) i2(1) this] False show thesis
      by (smt (verit) prod.case res_bind_Inr that)
  qed
  let ?issue = "\<lambda>c4. if enable_hbm_dual_cmd cfg then
                      res_bind (GetCommandToIssue cfg (ctrl_channel c4) (ctrl_queue c4) (ctrl_stats c4))
                        (\<lambda>(second_cmd, cq, st).
                          let c5 = c4\<lparr>ctrl_queue := cq, ctrl_stats := st\<rparr> in
                          if IsValid second_cmd \<and> IsReadWrite second_cmd \<noteq> IsReadWrite cmd then
                            res_bind (IssueCommand cfg (Timing_new cfg) second_cmd c5) (\<lambda>c6.
                              Inr (True, c6\<lparr>ctrl_stats := Increment ''hbm_dual_cmds'' (ctrl_stats c6)\<rparr>))
                          else Inr (True, c5))
                    else Inr (True, c4)"
  obtain b c7 where issue: "(if IsValid cmd then res_bind (IssueCommand cfg (Timing_new cfg) cmd c3) ?issue
      else Inr (False, c3)) = Inr (b, c7)" and i7: "tick_inv cfg c Command_default c7"
  proof (cases "IsValid cmd")
    case True
    have g: "enable_hbm_dual_cmd cfg \<Longrightarrow> rw_gap cfg (ctrl_clk c)" using gap by simp
    obtain c' where "res_bind (IssueCommand cfg (Timing_new cfg) cmd c3) ?issue = Inr (True, c')"
      "tick_inv cfg c Command_default c'" by (rule dual_part [OF cw(1) i3 True g])
    then show thesis using True by (intro that [of True c']) simp_all
  next
    case False
    then have "\<not> IsReadWrite cmd" by (auto simp: command_query_defs)
    then show thesis using False i3(1) tick_inv_held by (intro that [of False c3]) simp_all
  qed
  obtain c8 where power: "res_fold (power_step cfg) (irange (ranks cfg)) c7 = Inr c8" and i8: "tick_inv cfg c Command_default c8"
    using res_fold_ok [of "irange (ranks cfg)" "tick_inv cfg c Command_default" "power_step cfg" c7] power_step_ok i7 by blast
  have wf8: "ctrl_wf cfg c8" using i8 by (simp add: tick_inv_def ctrl_wf_def)
  obtain c10 where sch: "ScheduleTransaction cfg c8 = Inr c10" and s10: "sched_ok cfg c8 c10"
    using ScheduleTransaction_ok [OF cw(1,2) wf8] by blast
  let ?c' = "c10\<lparr>ctrl_clk := ctrl_clk c10 + 1, ctrl_queue := cq_ClockTick (ctrl_queue c10),
          ctrl_stats := Increment ''num_cycles'' (ctrl_stats c10)\<rparr>"
  have sref: "(if enable_self_refresh cfg \<and> \<not> b then x else Inr c8) = Inr c8" for x using cw(3) by simp
  have run: "ctrl_ClockTick cfg (Timing_new cfg) c = Inr ?c'"
    by (simp only: ctrl_ClockTick_def rf res_bind_Inr prod.case Let_def fin' take issue [unfolded Let_def] power sref sch)
  have "ctrl_wf cfg ?c'"
    using s10 by (simp add: sched_ok_def ctrl_wf_def core_ok_def shape_ok_def tokens_ok_def rd_tokens_def wr_tokens_def
        queued_trans_def cq_ClockTick_def cq_wf_def structure_ok_def ref_wf_def all_cmds_def Increment_wf
        cmd_queue_index_def GetQueueIndex_def)
  moreover have "ctrl_clk ?c' = ctrl_clk c + 1" "out_reads ?c' = out_reads c" "out_writes ?c' = out_writes c"
    using s10 i8 by (simp_all add: sched_ok_def tick_inv_def out_reads_def out_writes_def)
  ultimately show thesis by (rule that [OF run])
qed


section \<open>Executions\<close>

text \<open>
  An execution of a controller interleaves three calls: \<^verbatim>\<open>AddTransaction\<close>,
  \<^verbatim>\<open>ReturnDoneTrans\<close> and \<^verbatim>\<open>ClockTick\<close>. The relation records the
  addresses of the reads and writes that were accepted and of those that were returned. The
  guard on a tick keeps the clock far enough from its wrap-around for the dual-command path.
\<close>

definition may_tick :: "Config \<Rightarrow> Controller \<Rightarrow> bool" where
  "may_tick cfg c \<longleftrightarrow> (enable_hbm_dual_cmd cfg \<longrightarrow> rw_gap cfg (ctrl_clk c))"

inductive ctrl_run ::
  "Config \<Rightarrow> Controller \<Rightarrow> (bool \<times> u64) multiset \<Rightarrow> (bool \<times> u64) multiset \<Rightarrow> Controller \<Rightarrow> bool"
  for cfg c0 where
  run_start: "ctrl_run cfg c0 {#} {#} c0"
| run_add: "ctrl_run cfg c0 acc ret c \<Longrightarrow> ctrl_AddTransaction t c = (b, c') \<Longrightarrow>
    ctrl_run cfg c0 (add_mset (is_write t, t_addr t) acc) ret c'"
| run_return: "ctrl_run cfg c0 acc ret c \<Longrightarrow> ReturnDoneTrans (ctrl_clk c) c = ((a, w), c') \<Longrightarrow> w \<noteq> -1 \<Longrightarrow>
    ctrl_run cfg c0 acc (add_mset (w = 1, a) ret) c'"
| run_clock: "ctrl_run cfg c0 acc ret c \<Longrightarrow> may_tick cfg c \<Longrightarrow> ctrl_ClockTick cfg (Timing_new cfg) c = Inr c' \<Longrightarrow>
    ctrl_run cfg c0 acc ret c'"

definition outstanding :: "Controller \<Rightarrow> (bool \<times> u64) multiset" where
  "outstanding c = image_mset (Pair False) (out_reads c) + image_mset (Pair True) (out_writes c)"

lemma ctrl_run_inv:
  assumes "ctrl_run cfg c0 acc ret c" and "cfg_wf cfg" "addr_ok cfg" "\<not> enable_self_refresh cfg" and "ctrl_wf cfg c0"
  shows "ctrl_wf cfg c \<and> outstanding c + ret = outstanding c0 + acc"
  using assms
proof (induction rule: ctrl_run.induct)
  case run_start
  then show ?case by simp
next
  case (run_add acc ret c t b c')
  then have wf: "ctrl_wf cfg c" and ih: "outstanding c + ret = outstanding c0 + acc" by simp_all
  have c': "c' = snd (ctrl_AddTransaction t c)" using run_add.hyps(2) by simp
  have "outstanding c' = add_mset (is_write t, t_addr t) (outstanding c)"
    unfolding c' using AddTransaction_wf(2,3) [OF wf, of t] by (simp add: outstanding_def)
  then show ?case using ih AddTransaction_wf(1) [OF wf, of t] by (simp add: c')
next
  case (run_return acc ret c a w c')
  then have wf: "ctrl_wf cfg c" and ih: "outstanding c + ret = outstanding c0 + acc" by simp_all
  note r = ReturnDoneTrans_wf [OF wf run_return.hyps(2)]
  have "outstanding c = add_mset (w = 1, a) (outstanding c')"
    using r(3) run_return.hyps(3) by (elim disjE conjE) (simp_all add: outstanding_def)
  then show ?case using ih r(1) by simp
next
  case (run_clock acc ret c c')
  then have wf: "ctrl_wf cfg c" by simp
  obtain c1 where "ctrl_ClockTick cfg (Timing_new cfg) c = Inr c1" "ctrl_wf cfg c1" "out_reads c1 = out_reads c" "out_writes c1 = out_writes c"
    by (rule ctrl_ClockTick_ok [OF run_clock.prems(1-3) wf run_clock.hyps(2) [unfolded may_tick_def]])
  with run_clock show ?case by (simp add: outstanding_def)
qed

text \<open>The configuration the controller is used with: geometry, address layout and refresh.\<close>

lemma hbm2_addr_ok: "addr_ok hbm2_config"
proof -
  have "uint (and x (mask 2) :: u64) < 2 ^ 2" for x
    by (simp only: take_bit_eq_mask [symmetric] unsigned_take_bit_eq) (simp add: take_bit_eq_mod)
  moreover have "mask 2 = (3 :: u64)" by (simp add: mask_eq_exp_minus_1)
  ultimately have m: "uint (and x 3 :: u64) < 4" for x by simp
  show ?thesis by (simp add: addr_ok_def AddressMapping_def Let_def Address6_def m)
qed


lemma hbm2_rw_gap: "rw_gap hbm2_config 0"
  by (simp add: rw_gap_def rw_delays_def timing_delay_defs)

lemma hbm2_Controller_new:
  obtains c where "Controller_new hbm2_config ch = Inr c" and "refresh_wf hbm2_config (ctrl_refresh c)"
    and "is_unified_queue c = False" and "read_cap c = 32" and "ctrl_wf hbm2_config c" and "ctrl_clk c = 0"
    and "pending_wr_q c = []" and "read_queue c = []"
proof -
  obtain st where st: "SimpleStats_new hbm2_config ch = Inr st" using SimpleStats_new_wf by blast
  obtain cq where cq: "CommandQueue_new hbm2_config = Inr cq"
    by (simp add: CommandQueue_new_def)
  obtain rf where rf: "Refresh_new hbm2_config = Inr rf" "refresh_wf hbm2_config rf"
    by (simp add: Refresh_new_def idiv_def refresh_wf_def)
  obtain c where c: "Controller_new hbm2_config ch = Inr c" by (simp add: Controller_new_def st cq rf(1))
  then have f: "ctrl_refresh c = rf" "is_unified_queue c = False" "read_cap c = 32" "pending_wr_q c = []" "read_queue c = []"
    by (auto simp: Controller_new_def st cq rf(1))
  show thesis
    by (rule that [OF c]) (use f rf Controller_new_wf [OF sample_cfg_wf(1) c] in auto)
qed

section \<open>Properties\<close>



text \<open>How an addition is served. A write is reported after one cycle, and it enters the
  queue only if no write to its address is pending. A read of an address with a pending write
  is forwarded from it after one cycle; any other read is remembered as pending and enters the
  queue only if it is the first pending read of its address.\<close>

theorem add_transaction_cases:
  "let c' = snd (ctrl_AddTransaction t c); t' = t\<lparr>added_cycle := ctrl_clk c\<rparr>;
       w = (mm_count (t_addr t) (pending_wr_q c) > 0); r = (mm_count (t_addr t) (pending_rd_q c) > 0)
   in return_queue c' = return_queue c @ (if is_write t \<or> w then [t'\<lparr>complete_cycle := ctrl_clk c + 1\<rparr>] else []) \<and>
     queued_trans c' = (if is_write t \<and> w \<or> \<not> is_write t \<and> (w \<or> r) then queued_trans c
       else if is_unified_queue c then unified_q c @ t' # read_queue c @ write_buffer c
       else if is_write t then queued_trans c @ [t'] else unified_q c @ read_queue c @ t' # write_buffer c) \<and>
     pending_rd_q c' = (if is_write t \<or> w then pending_rd_q c else mm_insert (t_addr t) t' (pending_rd_q c)) \<and>
     pending_wr_q c' = (if is_write t \<and> \<not> w then mm_insert (t_addr t) t' (pending_wr_q c) else pending_wr_q c)"
  by (cases "is_write t"; cases "mm_count (t_addr t) (pending_wr_q c) > 0"; cases "mm_count (t_addr t) (pending_rd_q c) > 0")
    (simp_all add: ctrl_AddTransaction_def Let_def push_defs queued_trans_def mm_count_insert)

definition within_cap :: "Controller \<Rightarrow> bool" where
  "within_cap c \<longleftrightarrow> length (unified_q c) \<le> unified_cap c \<and> length (read_queue c) \<le> read_cap c \<and>
     length (write_buffer c) \<le> write_cap c"

definition caps :: "Controller \<Rightarrow> nat \<times> nat \<times> nat" where
  "caps c = (unified_cap c, read_cap c, write_cap c)"

text \<open>Capacity. A transaction added after \<^verbatim>\<open>WillAcceptTransaction\<close> said yes
  never makes a queue outgrow the capacity reserved by the constructor, so no queue ever
  reallocates; an addition without the question to a full queue doubles its capacity, and the
  controller accepts more than it was configured for.\<close>

theorem guarded_add_within_capacity:
  assumes "within_cap c"
  shows "(ctrl_WillAcceptTransaction c (t_addr t) (is_write t) \<longrightarrow>
      within_cap (snd (ctrl_AddTransaction t c)) \<and> caps (snd (ctrl_AddTransaction t c)) = caps c) \<and>
    (\<not> is_unified_queue c \<and> \<not> is_write t \<and> \<not> ctrl_WillAcceptTransaction c (t_addr t) False \<and> 0 < read_cap c \<and>
      mm_count (t_addr t) (pending_wr_q c) = 0 \<and> mm_count (t_addr t) (pending_rd_q c) = 0 \<longrightarrow>
      read_cap (snd (ctrl_AddTransaction t c)) = 2 * read_cap c)"
  using assms
  by (auto simp: within_cap_def caps_def ctrl_WillAcceptTransaction_def ctrl_AddTransaction_def Let_def push_defs grow_def
      mm_count_insert)

theorem guarded_add_within_capacity_witness:
  "\<exists>c. Controller_new hbm2_config 0 = Inr c \<and> within_cap (snd (ctrl_AddTransaction (mk_Transaction 64 False) c))"
proof -
  obtain c where c: "Controller_new hbm2_config 0 = Inr c" "is_unified_queue c = False" "read_cap c = 32" "read_queue c = []"
    by (rule hbm2_Controller_new)
  have "within_cap c" using c(1) by (auto simp: Controller_new_def within_cap_def res_simps)
  then show ?thesis using guarded_add_within_capacity [of c "mk_Transaction 64 False"] c
    by (simp add: ctrl_WillAcceptTransaction_def mk_Transaction_def)
qed

end
