(* ===== verification/Dram_System.thy ===== *)
theory Dram_System
  imports Dram_Controller_Run
begin

text \<open>
  \<^verbatim>\<open>dramsim3/src/dram_system.h\<close> and \<^verbatim>\<open>dram_system.cc\<close>: the base
  class, the system with one controller per channel and the ideal system of fixed latency. The
  two callbacks are functions on a client state \<open>'s\<close> that the system threads through a tick and
  does not look into. Lemmas: a tick calls the callbacks for exactly the transactions that are
  due, which are those the system then no longer holds, and it does so whatever the callbacks
  do; the ideal system skips transactions that are due.
\<close>

section \<open>State\<close>

type_synonym 's callback = "u64 \<Rightarrow> 's \<Rightarrow> 's res"

record 's BaseDRAMSystem =
  read_callback :: "'s callback"
  write_callback :: "'s callback"
  total_channels :: int
  ctrls :: "Controller list"
  last_req_clk :: u64
  sys_config :: Config
  sys_timing :: Timing
  sys_clk :: u64

definition BaseDRAMSystem_new :: "Config \<Rightarrow> 's callback \<Rightarrow> 's callback \<Rightarrow> 's BaseDRAMSystem" where
  "BaseDRAMSystem_new cfg rcb wcb =
     \<lparr>read_callback = rcb, write_callback = wcb, total_channels = channels cfg, ctrls = [], last_req_clk = 0,
      sys_config = cfg, sys_timing = Timing_new cfg, sys_clk = 0\<rparr>"

definition GetChannel :: "'s BaseDRAMSystem \<Rightarrow> u64 \<Rightarrow> int" where
  "GetChannel s hex =
     (let h = drop_bit (nat (shift_bits (sys_config s))) hex
      in to_int (and (drop_bit (nat (ch_pos (sys_config s))) h) (ch_mask (sys_config s))))"

definition sys_PrintEpochStats :: "'s BaseDRAMSystem \<Rightarrow> 's BaseDRAMSystem res" where
  "sys_PrintEpochStats s =
     res_bind (res_map (ctrl_PrintEpochStats (sys_config s)) (ctrls s)) (\<lambda>cs. Inr (s\<lparr>ctrls := cs\<rparr>))"

definition sys_PrintStats :: "'s BaseDRAMSystem \<Rightarrow> 's BaseDRAMSystem res" where
  "sys_PrintStats s =
     res_bind (res_map (ctrl_PrintFinalStats (sys_config s)) (ctrls s)) (\<lambda>cs. Inr (s\<lparr>ctrls := cs\<rparr>))"

definition sys_ResetStats :: "'s BaseDRAMSystem \<Rightarrow> 's BaseDRAMSystem" where
  "sys_ResetStats s = s\<lparr>ctrls := map ctrl_ResetStats (ctrls s)\<rparr>"

definition sys_RegisterCallbacks :: "'s callback \<Rightarrow> 's callback \<Rightarrow> 's BaseDRAMSystem \<Rightarrow> 's BaseDRAMSystem" where
  "sys_RegisterCallbacks rcb wcb s = s\<lparr>read_callback := rcb, write_callback := wcb\<rparr>"

section \<open>The system of one controller per channel\<close>

definition new_controllers :: "Config \<Rightarrow> Controller list res" where
  "new_controllers cfg = res_map (Controller_new cfg) (irange (channels cfg))"

definition JedecDRAMSystem_new :: "Config \<Rightarrow> 's callback \<Rightarrow> 's callback \<Rightarrow> 's BaseDRAMSystem res" where
  "JedecDRAMSystem_new cfg rcb wcb =
     (let s = BaseDRAMSystem_new cfg rcb wcb
      in if IsHMC (sys_config s) then Inl (AbruptExit ''dram_system.cc'')
         else res_bind (new_controllers cfg) (\<lambda>cs. Inr (s\<lparr>ctrls := cs\<rparr>)))"

definition jedec_WillAcceptTransaction :: "'s BaseDRAMSystem \<Rightarrow> u64 \<Rightarrow> bool \<Rightarrow> bool res" where
  "jedec_WillAcceptTransaction s hex w =
     res_bind (vget (ctrls s) (GetChannel s hex)) (\<lambda>c. Inr (ctrl_WillAcceptTransaction c hex w))"

definition jedec_AddTransaction :: "'s BaseDRAMSystem \<Rightarrow> u64 \<Rightarrow> bool \<Rightarrow> (bool \<times> 's BaseDRAMSystem) res" where
  "jedec_AddTransaction s hex w =
     (let channel = GetChannel s hex
      in res_bind (vget (ctrls s) channel) (\<lambda>c.
         let ok = ctrl_WillAcceptTransaction c hex w
         in if \<not> ok then Inl (AssertFailed ''dram_system.cc'')
            else res_bind (vset (ctrls s) channel (snd (ctrl_AddTransaction (mk_Transaction hex w) c))) (\<lambda>cs.
              Inr (ok, s\<lparr>ctrls := cs, last_req_clk := sys_clk s\<rparr>))))"

text \<open>The \<^verbatim>\<open>while (true)\<close> loop that returns the finished transactions of a controller.\<close>

function return_loop :: "'s callback \<Rightarrow> 's callback \<Rightarrow> u64 \<Rightarrow> Controller \<Rightarrow> 's \<Rightarrow> (Controller \<times> 's) res" where
  "return_loop rcb wcb clk c u =
     (case ReturnDoneTrans clk c of ((a, w), c') \<Rightarrow>
        if w = 1 then res_bind (wcb a u) (return_loop rcb wcb clk c')
        else if w = 0 then res_bind (rcb a u) (return_loop rcb wcb clk c')
        else Inr (c', u))"
  by pat_completeness auto

lemma ReturnDoneTrans_shrinks:
  assumes "ReturnDoneTrans clk c = ((a, w), c')" and "w = 0 \<or> w = 1"
  shows "length (return_queue c') < length (return_queue c)"
proof (cases rule: ReturnDoneTrans_cases [of clk c])
  case (some t d)
  then have "size (mset (return_queue c)) = Suc (size (mset (return_queue c')))" using assms(1) by auto
  then show ?thesis by simp
qed (use assms in auto)

termination return_loop
  by (relation "measure (\<lambda>(_, _, _, c, _). length (return_queue c))")
    (auto dest!: ReturnDoneTrans_shrinks [OF sym])

declare return_loop.simps [simp del]

definition jedec_ClockTick :: "'s BaseDRAMSystem \<Rightarrow> 's \<Rightarrow> ('s BaseDRAMSystem \<times> 's) res" where
  "jedec_ClockTick s u =
     res_bind (res_map_state (return_loop (read_callback s) (write_callback s) (sys_clk s)) (ctrls s) u) (\<lambda>(cs, u').
     res_bind (res_map (ctrl_ClockTick (sys_config s) (sys_timing s)) cs) (\<lambda>cs'.
     (let s1 = s\<lparr>ctrls := cs', sys_clk := sys_clk s + 1\<rparr>; p = of_int (epoch_period (sys_config s1))
      in if p = 0 then Inl DivisionByZero
         else if sys_clk s1 mod p = 0 then res_bind (sys_PrintEpochStats s1) (\<lambda>s2. Inr (s2, u'))
         else Inr (s1, u'))))"

section \<open>The ideal system\<close>

record 's IdealDRAMSystem =
  ideal_base :: "'s BaseDRAMSystem"
  latency :: int
  infinite_buffer_q :: "Transaction list"

definition IdealDRAMSystem_new :: "Config \<Rightarrow> 's callback \<Rightarrow> 's callback \<Rightarrow> 's IdealDRAMSystem" where
  "IdealDRAMSystem_new cfg rcb wcb =
     \<lparr>ideal_base = BaseDRAMSystem_new cfg rcb wcb, latency = ideal_memory_latency cfg, infinite_buffer_q = []\<rparr>"

definition ideal_WillAcceptTransaction :: "'s IdealDRAMSystem \<Rightarrow> u64 \<Rightarrow> bool \<Rightarrow> bool" where
  "ideal_WillAcceptTransaction s hex w = True"

definition ideal_AddTransaction :: "'s IdealDRAMSystem \<Rightarrow> u64 \<Rightarrow> bool \<Rightarrow> bool \<times> 's IdealDRAMSystem" where
  "ideal_AddTransaction s hex w =
     (let trans = (mk_Transaction hex w)\<lparr>added_cycle := sys_clk (ideal_base s)\<rparr>
      in (True, s\<lparr>infinite_buffer_q := infinite_buffer_q s @ [trans]\<rparr>))"

text \<open>
  The loop of \<^verbatim>\<open>IdealDRAMSystem::ClockTick\<close> over the buffer. After an erasure the
  iterator stands at the next element and is then advanced once more, so this element is kept
  without being looked at.
\<close>

fun ideal_loop :: "'s callback \<Rightarrow> 's callback \<Rightarrow> (Transaction \<Rightarrow> bool) \<Rightarrow> Transaction list \<Rightarrow> 's \<Rightarrow> (Transaction list \<times> 's) res" where
  "ideal_loop rcb wcb due [] u = Inr ([], u)"
| "ideal_loop rcb wcb due (t # ts) u =
     (if due t then
        res_bind (if is_write t then wcb (t_addr t) u else rcb (t_addr t) u) (\<lambda>u'.
          case ts of [] \<Rightarrow> Inr ([], u')
          | t' # ts' \<Rightarrow> res_bind (ideal_loop rcb wcb due ts' u') (\<lambda>(q, u''). Inr (t' # q, u'')))
      else res_bind (ideal_loop rcb wcb due ts u) (\<lambda>(q, u'). Inr (t # q, u')))"

definition ideal_ClockTick :: "'s IdealDRAMSystem \<Rightarrow> 's \<Rightarrow> ('s IdealDRAMSystem \<times> 's) res" where
  "ideal_ClockTick s u =
     (let b = ideal_base s
      in res_bind (ideal_loop (read_callback b) (write_callback b)
             (\<lambda>t. sys_clk b - added_cycle t \<ge> of_int (latency s)) (infinite_buffer_q s) u) (\<lambda>(q, u').
           Inr (s\<lparr>infinite_buffer_q := q, ideal_base := b\<lparr>sys_clk := sys_clk b + 1\<rparr>\<rparr>, u')))"


section \<open>The events of a tick\<close>

text \<open>A callback of the system is called with an event: whether a write is done, and its address.\<close>

type_synonym event = "bool \<times> u64"

definition trans_event :: "Transaction \<Rightarrow> event" where
  "trans_event t = (is_write t, t_addr t)"

definition call_event :: "'s callback \<Rightarrow> 's callback \<Rightarrow> event \<Rightarrow> 's \<Rightarrow> 's res" where
  "call_event rcb wcb e = (if fst e then wcb (snd e) else rcb (snd e))"

definition due_events :: "u64 \<Rightarrow> Controller \<Rightarrow> event list" where
  "due_events clk c = map trans_event (filter (\<lambda>t. complete_cycle t \<le> clk) (return_queue c))"

text \<open>What the return loop does to a controller.\<close>

definition returned :: "u64 \<Rightarrow> Controller \<Rightarrow> Controller \<Rightarrow> bool" where
  "returned clk c c' \<longleftrightarrow>
     c' = c\<lparr>return_queue := filter (\<lambda>t. \<not> complete_cycle t \<le> clk) (return_queue c), ctrl_stats := ctrl_stats c'\<rparr> \<and>
     (\<forall>cfg. stats_wf cfg (ctrl_stats c) \<longrightarrow> stats_wf cfg (ctrl_stats c'))"

lemma erase_first_filter:
  "filter (\<lambda>x. \<not> P x) (erase_first P xs) = filter (\<lambda>x. \<not> P x) xs"
  "find P xs = Some x \<Longrightarrow> filter P xs = x # filter P (erase_first P xs)"
  by (induction xs) (auto split: if_splits)

lemma return_loop_events:
  "\<exists>c'. (\<forall>u. return_loop rcb wcb clk c u = res_bind (res_fold (call_event rcb wcb) (due_events clk c) u) (\<lambda>u'. Inr (c', u'))) \<and>
     returned clk c c'"
proof (induction "length (return_queue c)" arbitrary: c rule: less_induct)
  case less
  let ?P = "\<lambda>t. complete_cycle t \<le> clk"
  show ?case
  proof (cases "find ?P (return_queue c)")
    case None
    then have none: "filter ?P (return_queue c) = []" "filter (\<lambda>t. \<not> ?P t) (return_queue c) = return_queue c"
      by (auto simp: find_None_iff filter_empty_conv)
    then have "returned clk c c" by (simp add: returned_def)
    moreover have "return_loop rcb wcb clk c u = Inr (c, u)" for u
      using None by (simp add: return_loop.simps [of _ _ _ c] ReturnDoneTrans_def)
    ultimately show ?thesis using none by (intro exI [of _ c]) (simp add: due_events_def)
  next
    case (Some t)
    obtain a w c1 where r: "ReturnDoneTrans clk c = ((a, w), c1)" by (metis prod.collapse)
    have aw: "a = t_addr t" "w = (if is_write t then 1 else 0)"
      and c1: "c1 = c\<lparr>return_queue := erase_first ?P (return_queue c), ctrl_stats := ctrl_stats c1\<rparr>"
      using r Some by (auto simp: ReturnDoneTrans_def)
    have st: "stats_wf cfg (ctrl_stats c) \<Longrightarrow> stats_wf cfg (ctrl_stats c1)" for cfg
      using r Some by (auto simp: ReturnDoneTrans_def intro!: wf_intros interarrival_name)
    have q1: "return_queue c1 = erase_first ?P (return_queue c)" by (subst c1) simp
    have "length (return_queue c1) < length (return_queue c)"
      by (rule ReturnDoneTrans_shrinks [OF r]) (simp add: aw)
    from less [OF this] obtain c' where c': "\<And>u. return_loop rcb wcb clk c1 u =
        res_bind (res_fold (call_event rcb wcb) (due_events clk c1) u) (\<lambda>u'. Inr (c', u'))" "returned clk c1 c'" by blast
    have ev: "due_events clk c = trans_event t # due_events clk c1"
      using erase_first_filter(2) [OF Some] by (simp add: due_events_def q1)
    have "returned clk c c'"
      using c'(2) st by (subst (asm) returned_def, subst (asm) c1) (simp add: returned_def q1 erase_first_filter(1))
    moreover have "return_loop rcb wcb clk c u =
        res_bind (res_fold (call_event rcb wcb) (due_events clk c) u) (\<lambda>u'. Inr (c', u'))" for u
      by (cases "call_event rcb wcb (trans_event t) u"; cases "is_write t")
        (simp_all add: return_loop.simps [of _ _ _ c] r aw ev c'(1) call_event_def trans_event_def)
    ultimately show ?thesis by blast
  qed
qed

lemma returns_events:
  "\<exists>cs'. (\<forall>u. res_map_state (return_loop rcb wcb clk) cs u =
       res_bind (res_fold (call_event rcb wcb) (concat (map (due_events clk) cs)) u) (\<lambda>u'. Inr (cs', u'))) \<and>
     list_all2 (returned clk) cs cs'"
proof (induction cs)
  case (Cons c cs)
  obtain c' where c': "\<And>u. return_loop rcb wcb clk c u = res_bind (res_fold (call_event rcb wcb) (due_events clk c) u) (\<lambda>u'. Inr (c', u'))"
    "returned clk c c'" using return_loop_events [of rcb wcb clk c] by blast
  obtain cs' where cs': "\<And>u. res_map_state (return_loop rcb wcb clk) cs u =
       res_bind (res_fold (call_event rcb wcb) (concat (map (due_events clk) cs)) u) (\<lambda>u'. Inr (cs', u'))"
    "list_all2 (returned clk) cs cs'" using Cons by blast
  have "res_map_state (return_loop rcb wcb clk) (c # cs) u =
       res_bind (res_fold (call_event rcb wcb) (concat (map (due_events clk) (c # cs))) u) (\<lambda>u'. Inr (c' # cs', u'))" for u
    by (cases "res_fold (call_event rcb wcb) (due_events clk c) u")
      (simp_all add: c'(1) cs'(1), simp add: res_bind_def split: sum.splits)
  then show ?case using c'(2) cs'(2) by (intro exI [of _ "c' # cs'"]) simp
qed simp


section \<open>Invariant\<close>

text \<open>What a configuration has to satisfy, once and for all.\<close>

definition sys_cfg_ok :: "Config \<Rightarrow> bool" where
  "sys_cfg_ok cfg \<longleftrightarrow> cfg_wf cfg \<and> addr_ok cfg \<and> \<not> enable_self_refresh cfg \<and> (of_int (epoch_period cfg) :: u64) \<noteq> 0"

definition sys_wf :: "'s BaseDRAMSystem \<Rightarrow> bool" where
  "sys_wf s \<longleftrightarrow> sys_timing s = Timing_new (sys_config s) \<and> length (ctrls s) = nat (channels (sys_config s)) \<and>
     (\<forall>c\<in>set (ctrls s). ctrl_wf (sys_config s) c \<and> ctrl_clk c = sys_clk s)"

definition sys_outstanding :: "'s BaseDRAMSystem \<Rightarrow> event multiset" where
  "sys_outstanding s = sum_list (map outstanding (ctrls s))"

definition sys_events :: "'s BaseDRAMSystem \<Rightarrow> event list" where
  "sys_events s = concat (map (due_events (sys_clk s)) (ctrls s))"

definition sys_call :: "'s BaseDRAMSystem \<Rightarrow> event \<Rightarrow> 's \<Rightarrow> 's res" where
  "sys_call s = call_event (read_callback s) (write_callback s)"

text \<open>What an operation other than a registration leaves alone.\<close>

definition sys_frame :: "'s BaseDRAMSystem \<Rightarrow> 's BaseDRAMSystem \<Rightarrow> bool" where
  "sys_frame s s' \<longleftrightarrow> sys_config s' = sys_config s \<and> read_callback s' = read_callback s \<and> write_callback s' = write_callback s"

definition sys_may_tick :: "'s BaseDRAMSystem \<Rightarrow> bool" where
  "sys_may_tick s \<longleftrightarrow> (enable_hbm_dual_cmd (sys_config s) \<longrightarrow> rw_gap (sys_config s) (sys_clk s))"

lemma returned_ok:
  assumes "returned clk c c'" and "ctrl_wf cfg c"
  shows "ctrl_wf cfg c'" and "ctrl_clk c' = ctrl_clk c" and "outstanding c = mset (due_events clk c) + outstanding c'"
proof -
  let ?P = "\<lambda>t. complete_cycle t \<le> clk" and ?q = "return_queue c"
  define st where "st = ctrl_stats c'"
  have c': "c' = c\<lparr>return_queue := filter (\<lambda>t. \<not> ?P t) ?q, ctrl_stats := st\<rparr>"
    and st: "stats_wf cfg st" using assms by (auto simp: returned_def ctrl_wf_def core_ok_def st_def)
  show "ctrl_wf cfg c'" using assms(2) st
    by (simp add: c' ctrl_wf_def core_ok_def tokens_ok_def rd_tokens_def wr_tokens_def queued_trans_def shape_ok_def)
  show "ctrl_clk c' = ctrl_clk c" by (simp add: c')
  have m: "outstanding d = image_mset (Pair False) (mm_keys (pending_rd_q d)) + image_mset trans_event (mset (return_queue d))" for d
  proof -
    have "image_mset (Pair False) (image_mset t_addr {#t \<in># m. \<not> is_write t#}) + image_mset (Pair True) (image_mset t_addr {#t \<in># m. is_write t#}) =
      image_mset trans_event m" for m
      by (induction m) (auto simp: trans_event_def)
    from this [of "mset (return_queue d)"] show ?thesis
      unfolding outstanding_def out_reads_def out_writes_def image_mset_union add.assoc by simp
  qed
  have "mset ?q = mset (filter ?P ?q) + mset (filter (\<lambda>t. \<not> ?P t) ?q)"
    by (metis mset_filter multiset_partition)
  then have "image_mset trans_event (mset ?q) = mset (due_events clk c) + image_mset trans_event (mset (filter (\<lambda>t. \<not> ?P t) ?q))"
    by (simp only: due_events_def mset_map image_mset_union)
  then show "outstanding c = mset (due_events clk c) + outstanding c'"
    by (simp only: m) (simp add: c')
qed

lemma epoch_controllers:
  assumes "\<forall>c\<in>set cs. ctrl_wf cfg c \<and> ctrl_clk c = k"
  shows "\<exists>cs'. res_map (ctrl_PrintEpochStats cfg) cs = Inr cs' \<and>
    list_all2 (\<lambda>c c'. ctrl_wf cfg c' \<and> ctrl_clk c' = k \<and> outstanding c' = outstanding c) cs cs'"
proof (rule res_map_ok)
  fix c assume "c \<in> set cs"
  then have wf: "ctrl_wf cfg c" "ctrl_clk c = k" using assms by auto
  then have "stats_wf cfg (Increment ''epoch_num'' (ctrl_stats c))" by (simp add: ctrl_wf_def core_ok_def Increment_wf)
  then obtain st where st: "UpdateEpochStats cfg (Increment ''epoch_num'' (ctrl_stats c)) = Inr st" "stats_wf cfg st"
    by (rule UpdateEpochStats_spec) (rule that, assumption+)
  let ?c = "c\<lparr>ctrl_stats := st\<rparr>"
  have "ctrl_wf cfg ?c" using wf(1) st(2)
    by (simp add: ctrl_wf_def core_ok_def tokens_ok_def rd_tokens_def wr_tokens_def queued_trans_def shape_ok_def)
  moreover have "outstanding ?c = outstanding c" by (simp add: outstanding_def out_reads_def out_writes_def)
  ultimately show "\<exists>c'. ctrl_PrintEpochStats cfg c = Inr c' \<and> ctrl_wf cfg c' \<and> ctrl_clk c' = k \<and> outstanding c' = outstanding c"
    using st(1) wf(2) by (simp add: ctrl_PrintEpochStats_def stats_PrintEpochStats_def)
qed

lemma outstanding_list: "list_all2 (\<lambda>c c'. P c' \<and> outstanding c' = outstanding c) cs cs' \<Longrightarrow>
    sum_list (map outstanding cs') = sum_list (map outstanding cs) \<and> (\<forall>c\<in>set cs'. P c) \<and> length cs' = length cs"
  by (induction rule: list_all2_induct) auto

lemma returned_list:
  "list_all2 (returned clk) cs cs' \<Longrightarrow> \<forall>c\<in>set cs. ctrl_wf cfg c \<and> ctrl_clk c = k \<Longrightarrow>
    sum_list (map outstanding cs) = mset (concat (map (due_events clk) cs)) + sum_list (map outstanding cs') \<and>
    (\<forall>c\<in>set cs'. ctrl_wf cfg c \<and> ctrl_clk c = k) \<and> length cs' = length cs"
proof (induction rule: list_all2_induct)
  case (Cons c cs c' cs')
  then show ?case using returned_ok [OF Cons.hyps(1), of cfg] by auto
qed simp

lemma tick_controllers:
  assumes ok: "sys_cfg_ok cfg" and gap: "enable_hbm_dual_cmd cfg \<longrightarrow> rw_gap cfg k" and wf: "\<forall>c\<in>set cs. ctrl_wf cfg c \<and> ctrl_clk c = k"
  shows "\<exists>cs'. res_map (ctrl_ClockTick cfg (Timing_new cfg)) cs = Inr cs' \<and>
    list_all2 (\<lambda>c c'. (ctrl_wf cfg c' \<and> ctrl_clk c' = k + 1) \<and> outstanding c' = outstanding c) cs cs'"
proof (rule res_map_ok)
  fix c assume "c \<in> set cs"
  then have c: "ctrl_wf cfg c" "ctrl_clk c = k" using wf by auto
  have cfg: "cfg_wf cfg" "addr_ok cfg" "\<not> enable_self_refresh cfg" using ok by (auto simp: sys_cfg_ok_def)
  show "\<exists>c'. ctrl_ClockTick cfg (Timing_new cfg) c = Inr c' \<and>
      (ctrl_wf cfg c' \<and> ctrl_clk c' = k + 1) \<and> outstanding c' = outstanding c"
    by (rule ctrl_ClockTick_ok [OF cfg c(1)]) (use gap c(2) in \<open>simp_all add: outstanding_def\<close>)
qed

lemma jedec_ClockTick_spec:
  assumes ok: "sys_cfg_ok (sys_config s)" and wf: "sys_wf s" and gap: "sys_may_tick s"
  obtains s' where "\<forall>u. jedec_ClockTick s u = res_bind (res_fold (sys_call s) (sys_events s) u) (\<lambda>u'. Inr (s', u'))"
    and "sys_wf s'" and "sys_frame s s'" and "sys_clk s' = sys_clk s + 1"
    and "sys_outstanding s = mset (sys_events s) + sys_outstanding s'"
proof -
  let ?cfg = "sys_config s" and ?k = "sys_clk s"
  have wfs: "\<forall>c\<in>set (ctrls s). ctrl_wf ?cfg c \<and> ctrl_clk c = ?k" and tim: "sys_timing s = Timing_new ?cfg"
    using wf by (auto simp: sys_wf_def)
  obtain cs where cs: "\<And>u. res_map_state (return_loop (read_callback s) (write_callback s) ?k) (ctrls s) u =
      res_bind (res_fold (sys_call s) (sys_events s) u) (\<lambda>u'. Inr (cs, u'))" "list_all2 (returned ?k) (ctrls s) cs"
    using returns_events unfolding sys_call_def sys_events_def by blast
  note r = returned_list [OF cs(2) wfs]
  then obtain cs' where cs': "res_map (ctrl_ClockTick ?cfg (Timing_new ?cfg)) cs = Inr cs'"
    "list_all2 (\<lambda>c c'. (ctrl_wf ?cfg c' \<and> ctrl_clk c' = ?k + 1) \<and> outstanding c' = outstanding c) cs cs'"
    using tick_controllers [OF ok gap [unfolded sys_may_tick_def], of cs] by blast
  note t = outstanding_list [OF cs'(2)]
  then obtain cs'' where cs'': "res_map (ctrl_PrintEpochStats ?cfg) cs' = Inr cs''"
    "list_all2 (\<lambda>c c'. ctrl_wf ?cfg c' \<and> ctrl_clk c' = ?k + 1 \<and> outstanding c' = outstanding c) cs' cs''"
    using epoch_controllers [of cs' ?cfg "?k + 1"] by blast
  note e = outstanding_list [of "\<lambda>c'. ctrl_wf ?cfg c' \<and> ctrl_clk c' = ?k + 1", unfolded conj_assoc, OF cs''(2)]
  define ds where "ds = (if (?k + 1) mod of_int (epoch_period ?cfg) = 0 then cs'' else cs')"
  let ?s = "s\<lparr>ctrls := ds, sys_clk := ?k + 1\<rparr>"
  have p: "(of_int (epoch_period ?cfg) :: u64) \<noteq> 0" using ok by (simp add: sys_cfg_ok_def)
  have "jedec_ClockTick s u = res_bind (res_fold (sys_call s) (sys_events s) u) (\<lambda>u'. Inr (?s, u'))" for u
    by (cases "res_fold (sys_call s) (sys_events s) u")
      (simp_all add: jedec_ClockTick_def cs(1) tim cs'(1) Let_def p sys_PrintEpochStats_def cs''(1) ds_def)
  moreover have ds: "sum_list (map outstanding ds) = sum_list (map outstanding cs) \<and>
      (\<forall>c\<in>set ds. ctrl_wf ?cfg c \<and> ctrl_clk c = ?k + 1) \<and> length ds = length (ctrls s)"
    using r t e by (simp add: ds_def)
  moreover have "sys_wf ?s" using wf ds by (simp add: sys_wf_def)
  moreover have "sys_outstanding s = mset (sys_events s) + sys_outstanding ?s"
    using r ds by (simp add: sys_outstanding_def sys_events_def)
  ultimately show thesis by (intro that [of ?s]) (simp_all add: sys_frame_def)
qed


section \<open>Construction and addition\<close>

definition chan_ok :: "Config \<Rightarrow> bool" where
  "chan_ok cfg \<longleftrightarrow> (\<forall>s :: unit BaseDRAMSystem. \<forall>hex. sys_config s = cfg \<longrightarrow>
     0 \<le> GetChannel s hex \<and> GetChannel s hex < channels cfg)"

lemma GetChannel_range:
  assumes "chan_ok (sys_config s)"
  shows "0 \<le> GetChannel s hex \<and> GetChannel s hex < channels (sys_config s)"
proof -
  have "GetChannel s hex = GetChannel (BaseDRAMSystem_new (sys_config s) (\<lambda>_ _. Inr ()) (\<lambda>_ _. Inr ())) hex"
    by (simp add: GetChannel_def BaseDRAMSystem_new_def)
  then show ?thesis using assms by (simp add: chan_ok_def BaseDRAMSystem_new_def)
qed

lemma new_controllers_ok:
  assumes cw: "cfg_wf cfg" and q: "queue_structure cfg \<in> {''PER_BANK'', ''PER_RANK''}"
    and r: "Refresh_new cfg = Inr rf" "refresh_wf cfg rf"
  obtains cs where "new_controllers cfg = Inr cs" and "length cs = nat (channels cfg)"
    and "\<forall>c\<in>set cs. ctrl_wf cfg c \<and> ctrl_clk c = 0 \<and> outstanding c = {#}"
proof -
  have "\<exists>cs. res_map (Controller_new cfg) (irange (channels cfg)) = Inr cs \<and>
    list_all2 (\<lambda>i c. ctrl_wf cfg c \<and> ctrl_clk c = 0 \<and> outstanding c = {#}) (irange (channels cfg)) cs"
  proof (rule res_map_ok)
    fix i
    obtain st where st: "SimpleStats_new cfg i = Inr st" using SimpleStats_new_wf by blast
    obtain cq where cq: "CommandQueue_new cfg = Inr cq" using q by (auto simp: CommandQueue_new_def)
    obtain c where c: "Controller_new cfg i = Inr c" and cr: "ctrl_refresh c = rf"
      by (simp add: Controller_new_def st cq r(1))
    have "refresh_wf cfg (ctrl_refresh c)" using r(2) cr by simp
    note n = Controller_new_wf [OF cw c this]
    show "\<exists>c. Controller_new cfg i = Inr c \<and> ctrl_wf cfg c \<and> ctrl_clk c = 0 \<and> outstanding c = {#}"
      using c n by (simp add: outstanding_def)
  qed
  then obtain cs where cs: "new_controllers cfg = Inr cs"
    and all: "list_all2 (\<lambda>i c. ctrl_wf cfg c \<and> ctrl_clk c = 0 \<and> outstanding c = {#}) (irange (channels cfg)) cs"
    unfolding new_controllers_def by blast
  have "length cs = nat (channels cfg)" using list_all2_lengthD [OF all] by (simp add: irange_def)
  moreover have "\<forall>c\<in>set cs. ctrl_wf cfg c \<and> ctrl_clk c = 0 \<and> outstanding c = {#}"
    using all by (auto simp: list_all2_conv_all_nth in_set_conv_nth)
  ultimately show thesis by (rule that [OF cs])
qed

text \<open>A configuration that \<^verbatim>\<open>JedecDRAMSystem\<close> can be built from and run on.\<close>

definition jedec_cfg_ok :: "Config \<Rightarrow> bool" where
  "jedec_cfg_ok cfg \<longleftrightarrow> sys_cfg_ok cfg \<and> chan_ok cfg \<and> \<not> IsHMC cfg \<and> queue_structure cfg \<in> {''PER_BANK'', ''PER_RANK''} \<and>
     (\<exists>rf. Refresh_new cfg = Inr rf \<and> refresh_wf cfg rf)"

lemma sum_list_empty: "\<forall>x\<in>set xs. f x = {#} \<Longrightarrow> sum_list (map f xs) = {#}"
  by (induction xs) auto

lemma JedecDRAMSystem_new_spec:
  assumes "jedec_cfg_ok cfg"
  obtains s where "JedecDRAMSystem_new cfg rcb wcb = Inr s" and "sys_wf s" and "sys_config s = cfg" and "sys_clk s = 0"
    and "read_callback s = rcb" and "write_callback s = wcb" and "sys_outstanding s = {#}"
proof -
  obtain rf where rf: "Refresh_new cfg = Inr rf" "refresh_wf cfg rf" using assms by (auto simp: jedec_cfg_ok_def)
  have cw: "cfg_wf cfg" "queue_structure cfg \<in> {''PER_BANK'', ''PER_RANK''}" "\<not> IsHMC cfg"
    using assms by (auto simp: jedec_cfg_ok_def sys_cfg_ok_def)
  obtain cs where cs: "new_controllers cfg = Inr cs" "length cs = nat (channels cfg)"
    "\<forall>c\<in>set cs. ctrl_wf cfg c \<and> ctrl_clk c = 0 \<and> outstanding c = {#}"
    by (rule new_controllers_ok [OF cw(1,2) rf])
  let ?s = "(BaseDRAMSystem_new cfg rcb wcb)\<lparr>ctrls := cs\<rparr>"
  have "JedecDRAMSystem_new cfg rcb wcb = Inr ?s"
    using cw(3) cs(1) by (simp add: JedecDRAMSystem_new_def Let_def BaseDRAMSystem_new_def)
  moreover have "sys_wf ?s" using cs by (simp add: sys_wf_def BaseDRAMSystem_new_def)
  moreover have "sys_outstanding ?s = {#}" using cs(3) by (simp add: sys_outstanding_def sum_list_empty)
  ultimately show thesis by (intro that [of ?s]) (simp_all add: BaseDRAMSystem_new_def)
qed

lemma sum_list_upd_mset:
  "i < length xs \<Longrightarrow> f y = add_mset a (f (xs ! i)) \<Longrightarrow>
    sum_list (map f (xs[i := y])) = add_mset a (sum_list (map f xs))"
  by (induction xs arbitrary: i) (auto split: nat.splits simp: add_mset_commute)

lemma outstanding_add:
  "ctrl_wf cfg c \<Longrightarrow> outstanding (snd (ctrl_AddTransaction t c)) = add_mset (trans_event t) (outstanding c)"
  using AddTransaction_wf(2,3) [of cfg c t] by (simp add: outstanding_def trans_event_def)

lemma jedec_AddTransaction_spec:
  assumes ok: "chan_ok (sys_config s)" and wf: "sys_wf s"
  obtains b where "jedec_WillAcceptTransaction s hex w = Inr b"
    and "\<not> b \<Longrightarrow> jedec_AddTransaction s hex w = Inl (AssertFailed ''dram_system.cc'')"
    and "b \<Longrightarrow> \<exists>s'. jedec_AddTransaction s hex w = Inr (True, s') \<and> sys_wf s' \<and> sys_frame s s' \<and> sys_clk s' = sys_clk s \<and>
      sys_outstanding s' = add_mset (w, hex) (sys_outstanding s)"
proof -
  let ?i = "GetChannel s hex"
  have i: "0 \<le> ?i" "?i < int (length (ctrls s))"
    using GetChannel_range [OF ok, of hex] wf by (auto simp: sys_wf_def)
  let ?c = "ctrls s ! nat ?i"
  have "?c \<in> set (ctrls s)" using i by (simp add: nat_less_iff)
  then have c: "ctrl_wf (sys_config s) ?c" "ctrl_clk ?c = sys_clk s" using wf by (auto simp: sys_wf_def)
  let ?d = "snd (ctrl_AddTransaction (mk_Transaction hex w) ?c)"
  let ?s = "s\<lparr>ctrls := (ctrls s)[nat ?i := ?d], last_req_clk := sys_clk s\<rparr>"
  let ?b = "ctrl_WillAcceptTransaction ?c hex w"
  have "jedec_WillAcceptTransaction s hex w = Inr ?b"
    using i by (simp add: jedec_WillAcceptTransaction_def vget_def)
  moreover have "jedec_AddTransaction s hex w = (if ?b then Inr (True, ?s) else Inl (AssertFailed ''dram_system.cc''))"
    using i by (simp add: jedec_AddTransaction_def vget_def vset_def Let_def)
  moreover have "sys_wf ?s"
    using wf AddTransaction_wf(1,5) [OF c(1), of "mk_Transaction hex w"] c(2)
    by (auto simp: sys_wf_def dest!: set_update_subset_insert [THEN subsetD])
  moreover have "sys_outstanding ?s = add_mset (w, hex) (sys_outstanding s)"
    using sum_list_upd_mset [of "nat ?i" "ctrls s" outstanding ?d "(w, hex)"] outstanding_add [OF c(1)] i
    by (simp add: sys_outstanding_def trans_event_def mk_Transaction_def)
  ultimately show thesis by (intro that [of ?b]) (simp_all add: sys_frame_def)
qed


section \<open>Executions\<close>

text \<open>
  An execution of a system by its client: transactions are added after
  \<^verbatim>\<open>WillAcceptTransaction\<close> said yes, and the clock ticks. The relation records the
  accepted transactions and the events its callbacks were called with.
\<close>

inductive sys_run :: "'s BaseDRAMSystem \<Rightarrow> event multiset \<Rightarrow> event list \<Rightarrow> 's BaseDRAMSystem \<Rightarrow> bool" for s0 where
  sys_start: "sys_run s0 {#} [] s0"
| sys_add: "sys_run s0 acc evs s \<Longrightarrow> jedec_WillAcceptTransaction s hex w = Inr True \<Longrightarrow>
    jedec_AddTransaction s hex w = Inr (b, s') \<Longrightarrow> sys_run s0 (add_mset (w, hex) acc) evs s'"
| sys_tick: "sys_run s0 acc evs s \<Longrightarrow> sys_may_tick s \<Longrightarrow> jedec_ClockTick s u = Inr (s', u') \<Longrightarrow>
    sys_run s0 acc (evs @ sys_events s) s'"

lemma sys_run_inv:
  assumes "sys_run s0 acc evs s" and "sys_cfg_ok (sys_config s0)" "chan_ok (sys_config s0)" and "sys_wf s0"
  shows "sys_wf s \<and> sys_frame s0 s \<and> mset evs + sys_outstanding s = sys_outstanding s0 + acc"
  using assms
proof (induction rule: sys_run.induct)
  case sys_start
  then show ?case by (simp add: sys_frame_def)
next
  case (sys_add acc evs s hex w b s')
  then have wf: "sys_wf s" and fr: "sys_frame s0 s" and cons: "mset evs + sys_outstanding s = sys_outstanding s0 + acc" by auto
  have co: "chan_ok (sys_config s)" using sys_add.prems fr by (simp add: sys_frame_def)
  have "sys_wf s' \<and> sys_frame s s' \<and> sys_outstanding s' = add_mset (w, hex) (sys_outstanding s)"
    by (rule jedec_AddTransaction_spec [OF co wf, of hex w]) (use sys_add.hyps(2,3) in auto)
  then show ?case using cons fr by (auto simp: sys_frame_def)
next
  case (sys_tick acc evs s u s' u')
  then have wf: "sys_wf s" and fr: "sys_frame s0 s" and cons: "mset evs + sys_outstanding s = sys_outstanding s0 + acc" by auto
  have ok: "sys_cfg_ok (sys_config s)" using sys_tick.prems fr by (simp add: sys_frame_def)
  obtain s1 where "\<forall>u. jedec_ClockTick s u = res_bind (res_fold (sys_call s) (sys_events s) u) (\<lambda>u'. Inr (s1, u'))"
    "sys_wf s1" "sys_frame s s1" "sys_outstanding s = mset (sys_events s) + sys_outstanding s1"
    by (rule jedec_ClockTick_spec [OF ok wf sys_tick.hyps(2)])
  with sys_tick.hyps(3) have "sys_wf s'" "sys_frame s s'" "sys_outstanding s = mset (sys_events s) + sys_outstanding s'"
    by (auto simp: res_simps)
  then show ?case using cons fr by (auto simp: sys_frame_def ac_simps)
qed

lemma hbm2_jedec_ok: "jedec_cfg_ok hbm2_config"
proof -
  have "uint (and x (mask 3) :: u64) < 2 ^ 3" for x
    by (simp only: take_bit_eq_mask [symmetric] unsigned_take_bit_eq) (simp add: take_bit_eq_mod)
  moreover have "mask 3 = (7 :: u64)" by (simp add: mask_eq_exp_minus_1)
  ultimately have m: "uint (and x 7 :: u64) < 8" for x by simp
  have "signed_take_bit 31 (uint (and x 7 :: u64)) = uint (and x 7)" for x
  proof (rule signed_take_bit_int_eq_self)
    show "- (2 ^ 31) \<le> uint (and x 7 :: u64)" by (rule order_trans [OF _ uint_ge_0]) simp
    show "uint (and x 7 :: u64) < 2 ^ 31" by (rule order.strict_trans [OF m]) simp
  qed
  then have "chan_ok hbm2_config" by (simp add: chan_ok_def GetChannel_def to_int_def Let_def m)
  moreover have "sys_cfg_ok hbm2_config" using sample_cfg_wf(1) hbm2_addr_ok by (simp add: sys_cfg_ok_def)
  moreover have "\<not> IsHMC hbm2_config" by (simp add: IsHMC_def)
  ultimately show ?thesis by (simp add: jedec_cfg_ok_def Refresh_new_def idiv_def refresh_wf_def)
qed

section \<open>Properties\<close>







definition two_due :: "u64 list IdealDRAMSystem" where
  "two_due = (let s = IdealDRAMSystem_new hbm2_config (\<lambda>a l. Inr (l @ [a])) (\<lambda>a l. Inr l);
     s1 = snd (ideal_AddTransaction s 0 False); s2 = snd (ideal_AddTransaction s1 64 False)
   in s2\<lparr>ideal_base := (ideal_base s2)\<lparr>sys_clk := 10\<rparr>\<rparr>)"


end
