(* ===== verification/Dram_Hmc.thy ===== *)
theory Dram_Hmc
  imports Dram_System
begin

text \<open>
  \<^verbatim>\<open>dramsim3/src/hmc.h\<close> and \<^verbatim>\<open>hmc.cc\<close>: the memory system with
  links, a crossbar of four quadrants and one controller per vault. A request or response is
  owned by one queue at a time, so the pointers of the source are values here; the fields
  \<^verbatim>\<open>link\<close> and \<^verbatim>\<open>exit_time\<close>, which the constructors leave unset and the
  code assigns before it reads them, start at 0. The invariant and the contract of the cube are
  in \<open>Dram_Hmc_Run\<close>.
\<close>

section \<open>Packets\<close>

datatype HMCReqType =
    RD0 | RD16 | RD32 | RD48 | RD64 | RD80 | RD96 | RD112 | RD128 | RD256 | WR0 | WR16 | WR32 |
    WR48 | WR64 | WR80 | WR96 | WR112 | WR128 | WR256 | P_WR16 | P_WR32 | P_WR48 | P_WR64 |
    P_WR80 | P_WR96 | P_WR112 | P_WR128 | P_WR256 | ADD8 | ADD16 | P_2ADD8 | P_ADD16 | ADDS8R |
    ADDS16R | INC8 | P_INC8 | XOR16 | OR16 | NOR16 | AND16 | NAND16 | CASGT8 | CASGT16 | CASLT8 |
    CASLT16 | CASEQ8 | CASZERO16 | EQ8 | EQ16 | BWR | P_BWR | BWR8R | SWAP16 | HMCReqType_SIZE

datatype HMCRespType = NONE | RD_RS | WR_RS | ERR | HMCRespType_SIZE

datatype HMCLinkType = HOST_TO_DEV | DEV_TO_DEV | HMCLinkType_SIZE

record HMCRequest =
  req_type :: HMCReqType
  mem_operand :: u64
  req_link :: int
  req_quad :: int
  req_vault :: int
  req_flits :: int
  req_is_write :: bool
  req_exit_time :: u64

record HMCResponse =
  resp_id :: u64
  resp_type :: HMCRespType
  resp_link :: int
  resp_quad :: int
  resp_flits :: int
  resp_exit_time :: u64

text \<open>The flits of a request, and the kind and flits of its response; the default cases abort.\<close>

fun request_flits :: "HMCReqType \<Rightarrow> int res" where
  "request_flits RD0 = Inr 0"
| "request_flits RD16 = Inr 1"
| "request_flits RD32 = Inr 1"
| "request_flits RD48 = Inr 1"
| "request_flits RD64 = Inr 1"
| "request_flits RD80 = Inr 1"
| "request_flits RD96 = Inr 1"
| "request_flits RD112 = Inr 1"
| "request_flits RD128 = Inr 1"
| "request_flits RD256 = Inr 1"
| "request_flits WR0 = Inr 0"
| "request_flits WR16 = Inr 2"
| "request_flits WR32 = Inr 3"
| "request_flits WR48 = Inr 4"
| "request_flits WR64 = Inr 5"
| "request_flits WR80 = Inr 6"
| "request_flits WR96 = Inr 7"
| "request_flits WR112 = Inr 8"
| "request_flits WR128 = Inr 9"
| "request_flits WR256 = Inr 17"
| "request_flits P_WR16 = Inr 2"
| "request_flits P_WR32 = Inr 3"
| "request_flits P_WR48 = Inr 4"
| "request_flits P_WR64 = Inr 5"
| "request_flits P_WR80 = Inr 6"
| "request_flits P_WR96 = Inr 7"
| "request_flits P_WR112 = Inr 8"
| "request_flits P_WR128 = Inr 9"
| "request_flits P_WR256 = Inr 17"
| "request_flits ADD8 = Inr 2"
| "request_flits ADD16 = Inr 2"
| "request_flits P_2ADD8 = Inr 2"
| "request_flits P_ADD16 = Inr 2"
| "request_flits ADDS8R = Inr 2"
| "request_flits ADDS16R = Inr 2"
| "request_flits INC8 = Inr 1"
| "request_flits P_INC8 = Inr 1"
| "request_flits XOR16 = Inr 2"
| "request_flits OR16 = Inr 2"
| "request_flits NOR16 = Inr 2"
| "request_flits AND16 = Inr 2"
| "request_flits NAND16 = Inr 2"
| "request_flits CASGT8 = Inr 2"
| "request_flits CASGT16 = Inr 2"
| "request_flits CASLT8 = Inr 2"
| "request_flits CASLT16 = Inr 2"
| "request_flits CASEQ8 = Inr 2"
| "request_flits CASZERO16 = Inr 2"
| "request_flits EQ8 = Inr 2"
| "request_flits EQ16 = Inr 2"
| "request_flits BWR = Inr 2"
| "request_flits P_BWR = Inr 2"
| "request_flits BWR8R = Inr 2"
| "request_flits SWAP16 = Inr 2"
| "request_flits HMCReqType_SIZE = Inl (AbruptExit ''hmc.cc'')"

fun response_kind :: "HMCReqType \<Rightarrow> (HMCRespType \<times> int) res" where
  "response_kind RD0 = Inr (RD_RS, 0)"
| "response_kind RD16 = Inr (RD_RS, 2)"
| "response_kind RD32 = Inr (RD_RS, 3)"
| "response_kind RD48 = Inr (RD_RS, 4)"
| "response_kind RD64 = Inr (RD_RS, 5)"
| "response_kind RD80 = Inr (RD_RS, 6)"
| "response_kind RD96 = Inr (RD_RS, 7)"
| "response_kind RD112 = Inr (RD_RS, 8)"
| "response_kind RD128 = Inr (RD_RS, 9)"
| "response_kind RD256 = Inr (RD_RS, 17)"
| "response_kind WR0 = Inr (WR_RS, 0)"
| "response_kind WR16 = Inr (WR_RS, 1)"
| "response_kind WR32 = Inr (WR_RS, 1)"
| "response_kind WR48 = Inr (WR_RS, 1)"
| "response_kind WR64 = Inr (WR_RS, 1)"
| "response_kind WR80 = Inr (WR_RS, 1)"
| "response_kind WR96 = Inr (WR_RS, 1)"
| "response_kind WR112 = Inr (WR_RS, 1)"
| "response_kind WR128 = Inr (WR_RS, 1)"
| "response_kind WR256 = Inr (WR_RS, 1)"
| "response_kind P_WR16 = Inr (NONE, 0)"
| "response_kind P_WR32 = Inr (NONE, 0)"
| "response_kind P_WR48 = Inr (NONE, 0)"
| "response_kind P_WR64 = Inr (NONE, 0)"
| "response_kind P_WR80 = Inr (NONE, 0)"
| "response_kind P_WR96 = Inr (NONE, 0)"
| "response_kind P_WR112 = Inr (NONE, 0)"
| "response_kind P_WR128 = Inr (NONE, 0)"
| "response_kind P_WR256 = Inr (NONE, 0)"
| "response_kind ADD8 = Inr (WR_RS, 1)"
| "response_kind ADD16 = Inr (WR_RS, 1)"
| "response_kind P_2ADD8 = Inr (NONE, 0)"
| "response_kind P_ADD16 = Inr (NONE, 0)"
| "response_kind ADDS8R = Inr (RD_RS, 2)"
| "response_kind ADDS16R = Inr (RD_RS, 2)"
| "response_kind INC8 = Inr (WR_RS, 1)"
| "response_kind P_INC8 = Inr (NONE, 0)"
| "response_kind XOR16 = Inr (RD_RS, 2)"
| "response_kind OR16 = Inr (RD_RS, 2)"
| "response_kind NOR16 = Inr (RD_RS, 2)"
| "response_kind AND16 = Inr (RD_RS, 2)"
| "response_kind NAND16 = Inr (RD_RS, 2)"
| "response_kind CASGT8 = Inr (RD_RS, 2)"
| "response_kind CASGT16 = Inr (RD_RS, 2)"
| "response_kind CASLT8 = Inr (RD_RS, 2)"
| "response_kind CASLT16 = Inr (RD_RS, 2)"
| "response_kind CASEQ8 = Inr (RD_RS, 2)"
| "response_kind CASZERO16 = Inr (RD_RS, 2)"
| "response_kind EQ8 = Inr (WR_RS, 1)"
| "response_kind EQ16 = Inr (WR_RS, 1)"
| "response_kind BWR = Inr (WR_RS, 1)"
| "response_kind P_BWR = Inr (NONE, 0)"
| "response_kind BWR8R = Inr (RD_RS, 2)"
| "response_kind SWAP16 = Inr (RD_RS, 2)"
| "response_kind HMCReqType_SIZE = Inl (AbruptExit ''hmc.cc'')"

text \<open>The range comparison \<^verbatim>\<open>WR0 <= type <= P_WR256\<close> of the enumeration.\<close>

definition write_types :: "HMCReqType list" where
  "write_types =
     [WR0, WR16, WR32, WR48, WR64, WR80, WR96, WR112, WR128, WR256, P_WR16, P_WR32, P_WR48, P_WR64,
      P_WR80, P_WR96, P_WR112, P_WR128, P_WR256]"

definition HMCRequest_new :: "HMCReqType \<Rightarrow> u64 \<Rightarrow> int \<Rightarrow> HMCRequest res" where
  "HMCRequest_new ty hex vault =
     res_bind (request_flits ty) (\<lambda>flits.
       Inr \<lparr>req_type = ty, mem_operand = hex, req_link = 0, req_quad = vault smod 4, req_vault = vault,
         req_flits = flits, req_is_write = (ty \<in> set write_types), req_exit_time = 0\<rparr>)"

definition HMCResponse_new :: "u64 \<Rightarrow> HMCReqType \<Rightarrow> int \<Rightarrow> int \<Rightarrow> HMCResponse res" where
  "HMCResponse_new rid ty dest_link src_quad =
     res_bind (response_kind ty) (\<lambda>(kind, flits).
       Inr \<lparr>resp_id = rid, resp_type = kind, resp_link = dest_link, resp_quad = src_quad,
         resp_flits = flits, resp_exit_time = 0\<rparr>)"


section \<open>The system\<close>

record 's HMCMemorySystem =
  hmc_base :: "'s BaseDRAMSystem"
  logic_clk :: u64
  ps_per_dram :: u64
  ps_per_logic :: u64
  logic_ps :: u64
  dram_ps :: u64
  next_link :: int
  links :: int
  queue_depth :: nat
  resp_lookup_table :: "(u64, HMCResponse) multimap"
  link_req_queues :: "HMCRequest list list"
  link_resp_queues :: "HMCResponse list list"
  quad_req_queues :: "HMCRequest list list"
  quad_resp_queues :: "HMCResponse list list"
  link_busy :: "int list"
  quad_busy :: "int list"
  link_age_counter :: "int list"
  quad_age_counter :: "int list"

text \<open>
  \<^verbatim>\<open>SetClockRatio\<close>. The quotient \<^verbatim>\<open>1000000 / (double) logic_speed\<close> is
  truncated by the cast; it is below \<open>2 ^ 20\<close> and the divisor an \<^verbatim>\<open>int\<close>, so the
  truncation is the integer quotient. A negative one has no conversion to
  \<^verbatim>\<open>uint64_t\<close>.
\<close>

definition logic_period :: "Config \<Rightarrow> u64 res" where
  "logic_period cfg =
     res_bind (idiv 128 (link_width cfg)) (\<lambda>link_cycles_per_flit.
     res_bind (idiv (link_speed cfg) link_cycles_per_flit) (\<lambda>logic_speed.
     res_bind (idiv 1000000 logic_speed) (\<lambda>ps.
       if ps < 0 then Inl OutOfRange
       else Inr (if (of_int ps :: u64) > 800 then 800 else of_int ps))))"

definition SetClockRatio :: "'s HMCMemorySystem \<Rightarrow> 's HMCMemorySystem res" where
  "SetClockRatio s =
     res_bind (logic_period (sys_config (hmc_base s))) (\<lambda>ps. Inr (s\<lparr>ps_per_dram := 800, ps_per_logic := ps\<rparr>))"

definition HMCMemorySystem_new :: "Config \<Rightarrow> 's callback \<Rightarrow> 's callback \<Rightarrow> 's HMCMemorySystem res" where
  "HMCMemorySystem_new cfg rcb wcb =
     (let n = nat (num_links cfg); s0 = \<lparr>hmc_base = BaseDRAMSystem_new cfg rcb wcb, logic_clk = 0, ps_per_dram = 0,
         ps_per_logic = 0, logic_ps = 0, dram_ps = 0, next_link = 0, links = num_links cfg,
         queue_depth = unat (of_int (xbar_queue_depth cfg) :: u64), resp_lookup_table = [],
         link_req_queues = replicate n [], link_resp_queues = replicate n [],
         quad_req_queues = replicate 4 [], quad_resp_queues = replicate 4 [],
         link_busy = replicate n 0, quad_busy = [0, 0, 0, 0],
         link_age_counter = replicate n 0, quad_age_counter = [0, 0, 0, 0]\<rparr>
      in if \<not> IsHMC cfg then Inl (AbruptExit ''hmc.cc'')
         else res_bind (SetClockRatio s0) (\<lambda>s1.
              res_bind (new_controllers cfg) (\<lambda>cs.
                Inr (s1\<lparr>hmc_base := (hmc_base s1)\<lparr>ctrls := cs\<rparr>\<rparr>))))"

definition IterateNextLink :: "'s HMCMemorySystem \<Rightarrow> 's HMCMemorySystem res" where
  "IterateNextLink s = res_bind (imod (next_link s + 1) (links s)) (\<lambda>n. Inr (s\<lparr>next_link := n\<rparr>))"

definition hmc_WillAcceptTransaction :: "'s HMCMemorySystem \<Rightarrow> u64 \<Rightarrow> bool \<Rightarrow> bool" where
  "hmc_WillAcceptTransaction s hex w = list_ex (\<lambda>q. length q < queue_depth s) (link_req_queues s)"

definition InsertReqToLink :: "HMCRequest \<Rightarrow> int \<Rightarrow> 's HMCMemorySystem \<Rightarrow> (bool \<times> 's HMCMemorySystem) res" where
  "InsertReqToLink req0 link s =
     res_bind (vget (link_req_queues s) link) (\<lambda>q.
       if length q < queue_depth s then
         let req = req0\<lparr>req_link := link\<rparr> in
         res_bind (vset (link_req_queues s) link (q @ [req])) (\<lambda>qs.
         res_bind (HMCResponse_new (mem_operand req) (req_type req) link (req_quad req)) (\<lambda>resp.
         res_bind (vset (link_age_counter s) link 1) (\<lambda>ages.
           Inr (True, s\<lparr>link_req_queues := qs,
             resp_lookup_table := mm_insert (resp_id resp) resp (resp_lookup_table s),
             link_age_counter := ages,
             hmc_base := (hmc_base s)\<lparr>last_req_clk := sys_clk (hmc_base s)\<rparr>\<rparr>))))
       else Inr (False, s))"

text \<open>The loop of \<^verbatim>\<open>InsertHMCReq\<close> over the other links, at most one round.\<close>

fun insert_loop :: "nat \<Rightarrow> int \<Rightarrow> HMCRequest \<Rightarrow> 's HMCMemorySystem \<Rightarrow> (bool \<times> 's HMCMemorySystem) res" where
  "insert_loop 0 start_link req s = (if start_link = next_link s then Inr (False, s) else Inl OutOfFuel)"
| "insert_loop (Suc n) start_link req s =
     (if start_link = next_link s then Inr (False, s)
      else res_bind (InsertReqToLink req (next_link s) s) (\<lambda>(ok, s1).
           res_bind (IterateNextLink s1) (\<lambda>s2.
             if ok then Inr (True, s2) else insert_loop n start_link req s2)))"

definition InsertHMCReq :: "HMCRequest \<Rightarrow> 's HMCMemorySystem \<Rightarrow> (bool \<times> 's HMCMemorySystem) res" where
  "InsertHMCReq req s =
     res_bind (InsertReqToLink req (next_link s) s) (\<lambda>(is_inserted, s1).
     res_bind (IterateNextLink s1) (\<lambda>s2.
       if is_inserted then Inr (True, s2) else insert_loop (nat (links s)) (next_link s) req s2))"

definition block_request :: "int \<Rightarrow> bool \<Rightarrow> HMCReqType res" where
  "block_request bs w =
     (if bs = 0 then Inr (if w then WR0 else RD0)
      else if bs = 32 then Inr (if w then WR32 else RD32)
      else if bs = 64 then Inr (if w then WR64 else RD64)
      else if bs = 128 then Inr (if w then WR128 else RD128)
      else if bs = 256 then Inr (if w then WR256 else RD256)
      else Inl (AbruptExit ''hmc.cc''))"

definition hmc_AddTransaction :: "'s HMCMemorySystem \<Rightarrow> u64 \<Rightarrow> bool \<Rightarrow> (bool \<times> 's HMCMemorySystem) res" where
  "hmc_AddTransaction s hex w =
     res_bind (block_request (block_size (sys_config (hmc_base s))) w) (\<lambda>ty.
     res_bind (HMCRequest_new ty hex (GetChannel (hmc_base s) hex)) (\<lambda>req. InsertHMCReq req s))"

section \<open>The crossbar\<close>

text \<open>
  \<^verbatim>\<open>BuildAgeQueue\<close>: a position is inserted before the first entry of the queue that is
  smaller than the age of the position. The entries of the queue are positions, not ages.
\<close>

fun age_insert :: "int \<Rightarrow> int \<Rightarrow> int list \<Rightarrow> int list" where
  "age_insert age pos [] = [pos]"
| "age_insert age pos (x # xs) = (if age > x then pos # x # xs else x # age_insert age pos xs)"

definition BuildAgeQueue :: "'s HMCMemorySystem \<Rightarrow> int list \<Rightarrow> int list res" where
  "BuildAgeQueue s age_counter =
     (let queue_len = int (length age_counter)
      in if queue_len = 0 then Inl DivisionByZero
         else let start_pos = uint (logic_clk s mod of_int queue_len)
         in res_fold (\<lambda>i q.
              res_bind (vget age_counter ((i + start_pos) mod queue_len)) (\<lambda>age.
                Inr (if age > 0 then age_insert age ((i + start_pos) mod queue_len) q else q)))
            (irange queue_len) [])"

definition InsertReqToDRAM :: "HMCRequest \<Rightarrow> 's HMCMemorySystem \<Rightarrow> 's HMCMemorySystem res" where
  "InsertReqToDRAM req s =
     res_bind (vupd (\<lambda>c. Inr (snd (ctrl_AddTransaction (mk_Transaction (mem_operand req) (req_is_write req)) c)))
       (ctrls (hmc_base s)) (req_vault req)) (\<lambda>cs.
       Inr (s\<lparr>hmc_base := (hmc_base s)\<lparr>ctrls := cs\<rparr>\<rparr>))"

text \<open>The three parts of \<^verbatim>\<open>DrainRequests\<close>.\<close>

definition drain_quad :: "int \<Rightarrow> 's HMCMemorySystem \<Rightarrow> 's HMCMemorySystem res" where
  "drain_quad i s =
     res_bind (vget (quad_req_queues s) i) (\<lambda>q.
     res_bind (vget (quad_resp_queues s) i) (\<lambda>rq.
       case q of
         [] \<Rightarrow> Inr s
       | req # rest \<Rightarrow>
           if length rq < queue_depth s \<and> req_exit_time req \<le> logic_clk s then
             res_bind (vget (ctrls (hmc_base s)) (req_vault req)) (\<lambda>c.
               if ctrl_WillAcceptTransaction c (mem_operand req) (req_is_write req) then
                 res_bind (InsertReqToDRAM req s) (\<lambda>s1.
                 res_bind (vset (quad_req_queues s1) i rest) (\<lambda>qs. Inr (s1\<lparr>quad_req_queues := qs\<rparr>)))
               else Inr s)
           else Inr s))"

definition drain_busy :: "int list \<Rightarrow> int list" where
  "drain_busy busy = map (\<lambda>i. if i > 0 then i - 2 else i) busy"

definition drain_link :: "int \<Rightarrow> 's HMCMemorySystem \<Rightarrow> 's HMCMemorySystem res" where
  "drain_link src_link s =
     res_bind (vget (link_req_queues s) src_link) (\<lambda>lq.
       case lq of
         [] \<Rightarrow> Inl EndIterator
       | req # rest \<Rightarrow>
           let dest_quad = req_quad req in
           res_bind (vget (quad_req_queues s) dest_quad) (\<lambda>qq.
           res_bind (vget (quad_busy s) dest_quad) (\<lambda>busy.
             if length qq < queue_depth s \<and> busy \<le> 0 then
               res_bind (vset (link_req_queues s) src_link rest) (\<lambda>lqs.
               res_bind (vset (quad_req_queues s) dest_quad
                 (qq @ [req\<lparr>req_exit_time := logic_clk s + of_int (req_flits req)\<rparr>])) (\<lambda>qqs.
               res_bind (vset (quad_busy s) dest_quad (req_flits req)) (\<lambda>qb.
               res_bind (vset (link_age_counter s) src_link (if rest = [] then 0 else 1)) (\<lambda>ages.
                 Inr (s\<lparr>link_req_queues := lqs, quad_req_queues := qqs, quad_busy := qb, link_age_counter := ages\<rparr>)))))
             else
               res_bind (vupd (\<lambda>a. Inr (a + 1)) (link_age_counter s) src_link) (\<lambda>ages.
                 Inr (s\<lparr>link_age_counter := ages\<rparr>)))))"

definition DrainRequests :: "'s HMCMemorySystem \<Rightarrow> 's HMCMemorySystem res" where
  "DrainRequests s =
     res_bind (res_fold drain_quad (irange 4) s) (\<lambda>s1.
     (let s2 = s1\<lparr>quad_busy := drain_busy (quad_busy s1)\<rparr>
      in res_bind (BuildAgeQueue s2 (link_age_counter s2)) (\<lambda>age_queue. res_fold drain_link age_queue s2)))"

text \<open>The three parts of \<^verbatim>\<open>DrainResponses\<close>.\<close>

definition respond :: "int \<Rightarrow> 's HMCMemorySystem \<times> 's \<Rightarrow> ('s HMCMemorySystem \<times> 's) res" where
  "respond i = (\<lambda>(s, u).
     res_bind (vget (link_resp_queues s) i) (\<lambda>q.
       case q of
         [] \<Rightarrow> Inr (s, u)
       | resp # rest \<Rightarrow>
           if resp_exit_time resp \<le> logic_clk s then
             res_bind (if resp_type resp = RD_RS then read_callback (hmc_base s) (resp_id resp) u
                       else write_callback (hmc_base s) (resp_id resp) u) (\<lambda>u'.
             res_bind (vset (link_resp_queues s) i rest) (\<lambda>qs. Inr (s\<lparr>link_resp_queues := qs\<rparr>, u')))
           else Inr (s, u)))"

definition drain_quad_resp :: "int \<Rightarrow> 's HMCMemorySystem \<Rightarrow> 's HMCMemorySystem res" where
  "drain_quad_resp src_quad s =
     res_bind (vget (quad_resp_queues s) src_quad) (\<lambda>qq.
       case qq of
         [] \<Rightarrow> Inl EndIterator
       | resp # rest \<Rightarrow>
           let dest_link = resp_link resp in
           res_bind (vget (link_resp_queues s) dest_link) (\<lambda>lq.
           res_bind (vget (link_busy s) dest_link) (\<lambda>busy.
             if length lq < queue_depth s \<and> busy \<le> 0 then
               res_bind (vset (quad_resp_queues s) src_quad rest) (\<lambda>qqs.
               res_bind (vset (link_resp_queues s) dest_link
                 (lq @ [resp\<lparr>resp_exit_time := logic_clk s + of_int (resp_flits resp)\<rparr>])) (\<lambda>lqs.
               res_bind (vset (link_busy s) dest_link (resp_flits resp)) (\<lambda>lb.
               res_bind (vset (quad_age_counter s) src_quad (if rest = [] then 0 else 1)) (\<lambda>ages.
                 Inr (s\<lparr>quad_resp_queues := qqs, link_resp_queues := lqs, link_busy := lb, quad_age_counter := ages\<rparr>)))))
             else
               res_bind (vupd (\<lambda>a. Inr (a + 1)) (quad_age_counter s) src_quad) (\<lambda>ages.
                 Inr (s\<lparr>quad_age_counter := ages\<rparr>)))))"

definition DrainResponses :: "'s HMCMemorySystem \<Rightarrow> 's \<Rightarrow> ('s HMCMemorySystem \<times> 's) res" where
  "DrainResponses s u =
     res_bind (res_fold respond (irange (links s)) (s, u)) (\<lambda>(s1, u').
     (let s2 = s1\<lparr>link_busy := drain_busy (link_busy s1)\<rparr>
      in res_bind (BuildAgeQueue s2 (quad_age_counter s2)) (\<lambda>age_queue.
         res_bind (res_fold drain_quad_resp age_queue s2) (\<lambda>s3. Inr (s3, u')))))"

section \<open>The clock\<close>

definition VaultCallback :: "u64 \<Rightarrow> 's HMCMemorySystem \<Rightarrow> 's HMCMemorySystem res" where
  "VaultCallback rid s =
     (case mm_find rid (resp_lookup_table s) of
        None \<Rightarrow> Inl EndIterator
      | Some resp \<Rightarrow>
          res_bind (vupd (\<lambda>q. Inr (q @ [resp])) (quad_resp_queues s) (resp_quad resp)) (\<lambda>qs.
          res_bind (vset (quad_age_counter s) (resp_quad resp) 1) (\<lambda>ages.
            Inr (s\<lparr>resp_lookup_table := mm_erase_first rid (resp_lookup_table s),
              quad_resp_queues := qs, quad_age_counter := ages\<rparr>))))"

definition DRAMClockTick :: "'s HMCMemorySystem \<Rightarrow> 's HMCMemorySystem res" where
  "DRAMClockTick s =
     res_bind (res_map_state (return_loop VaultCallback VaultCallback (sys_clk (hmc_base s))) (ctrls (hmc_base s)) s) (\<lambda>(cs, s1).
     (let b = hmc_base s1
      in res_bind (res_map (ctrl_ClockTick (sys_config b) (sys_timing b)) cs) (\<lambda>cs'.
         let b1 = b\<lparr>ctrls := cs', sys_clk := sys_clk b + 1\<rparr>; p = of_int (epoch_period (sys_config b1))
         in if p = 0 then Inl DivisionByZero
            else if sys_clk b1 mod p = 0 then
              res_bind (sys_PrintEpochStats b1) (\<lambda>b2. Inr (s1\<lparr>hmc_base := b2\<rparr>))
            else Inr (s1\<lparr>hmc_base := b1\<rparr>))))"

definition logic_step :: "'s HMCMemorySystem \<Rightarrow> 's HMCMemorySystem" where
  "logic_step s = s\<lparr>logic_ps := logic_ps s + ps_per_logic s, logic_clk := logic_clk s + 1\<rparr>"

text \<open>The \<^verbatim>\<open>while\<close> loop of \<^verbatim>\<open>ClockTick\<close> that lets the logic die catch up.\<close>

fun logic_loop :: "nat \<Rightarrow> 's HMCMemorySystem \<Rightarrow> 's \<Rightarrow> ('s HMCMemorySystem \<times> 's) res" where
  "logic_loop 0 s u = (if logic_ps s < dram_ps s + ps_per_dram s then Inl OutOfFuel else Inr (s, u))"
| "logic_loop (Suc n) s u =
     (if logic_ps s < dram_ps s + ps_per_dram s then
        res_bind (DrainResponses s u) (\<lambda>(s1, u').
        res_bind (DrainRequests s1) (\<lambda>s2. logic_loop n (logic_step s2) u'))
      else Inr (s, u))"

definition hmc_ClockTick :: "'s HMCMemorySystem \<Rightarrow> 's \<Rightarrow> ('s HMCMemorySystem \<times> 's) res" where
  "hmc_ClockTick s u =
     res_bind (if dram_ps s = logic_ps s then
                 res_bind (DrainResponses s u) (\<lambda>(s1, u').
                 res_bind (DRAMClockTick s1) (\<lambda>s2.
                 res_bind (DrainRequests s2) (\<lambda>s3. Inr (logic_step s3, u'))))
               else res_bind (DRAMClockTick s) (\<lambda>s1. Inr (s1, u))) (\<lambda>(s4, u').
     res_bind (logic_loop (unat (ps_per_dram s4)) s4 u') (\<lambda>(s5, u'').
       Inr (s5\<lparr>dram_ps := dram_ps s5 + ps_per_dram s5\<rparr>, u'')))"

end
