(* ===== verification/Dram_Memory.thy ===== *)
theory Dram_Memory
  imports Dram_Hmc
begin

text \<open>
  \<^verbatim>\<open>dramsim3/src/memory_system.h\<close> and \<^verbatim>\<open>memory_system.cc\<close>: the class
  the clients use, with the virtual calls on its \<^verbatim>\<open>BaseDRAMSystem\<close> as a case
  distinction; and \<^verbatim>\<open>cpu.h\<close> and \<^verbatim>\<open>cpu.cc\<close>, the three clients of the
  stand-alone simulator. The generator \<^verbatim>\<open>std::mt19937_64\<close> is a parameter: a state
  and a function that draws the next number.
\<close>

section \<open>The memory system\<close>

datatype 's dram_system = Jedec "'s BaseDRAMSystem" | Hmc "'s HMCMemorySystem"

record 's MemorySystem =
  mem_config :: Config
  mem_dram :: "'s dram_system"

definition MemorySystem_of :: "Config \<Rightarrow> 's callback \<Rightarrow> 's callback \<Rightarrow> 's MemorySystem res" where
  "MemorySystem_of cfg rcb wcb =
     (if IsHMC cfg
      then res_bind (HMCMemorySystem_new cfg rcb wcb) (\<lambda>d. Inr \<lparr>mem_config = cfg, mem_dram = Hmc d\<rparr>)
      else res_bind (JedecDRAMSystem_new cfg rcb wcb) (\<lambda>d. Inr \<lparr>mem_config = cfg, mem_dram = Jedec d\<rparr>))"

definition MemorySystem_new ::
  "(string \<Rightarrow> real option) \<Rightarrow> (string \<Rightarrow> bool) \<Rightarrow> Config \<Rightarrow> INIReader \<Rightarrow> string \<Rightarrow> 's callback \<Rightarrow> 's callback \<Rightarrow>
   's MemorySystem res" where
  "MemorySystem_new strtod dir_exist raw reader out_dir rcb wcb =
     res_bind (Config_new strtod dir_exist raw reader out_dir) (\<lambda>cfg. MemorySystem_of cfg rcb wcb)"

definition mem_ClockTick :: "'s MemorySystem \<Rightarrow> 's \<Rightarrow> ('s MemorySystem \<times> 's) res" where
  "mem_ClockTick m u =
     (case mem_dram m of
        Jedec d \<Rightarrow> res_bind (jedec_ClockTick d u) (\<lambda>(d', u'). Inr (m\<lparr>mem_dram := Jedec d'\<rparr>, u'))
      | Hmc d \<Rightarrow> res_bind (hmc_ClockTick d u) (\<lambda>(d', u'). Inr (m\<lparr>mem_dram := Hmc d'\<rparr>, u')))"

definition GetTCK :: "'s MemorySystem \<Rightarrow> real" where
  "GetTCK m = tCK (mem_config m)"

definition GetBusBits :: "'s MemorySystem \<Rightarrow> int" where
  "GetBusBits m = bus_width (mem_config m)"

definition GetBurstLength :: "'s MemorySystem \<Rightarrow> int" where
  "GetBurstLength m = BL (mem_config m)"

definition GetQueueSize :: "'s MemorySystem \<Rightarrow> int" where
  "GetQueueSize m = trans_queue_size (mem_config m)"

definition mem_RegisterCallbacks :: "'s callback \<Rightarrow> 's callback \<Rightarrow> 's MemorySystem \<Rightarrow> 's MemorySystem" where
  "mem_RegisterCallbacks rcb wcb m =
     m\<lparr>mem_dram := (case mem_dram m of
        Jedec d \<Rightarrow> Jedec (sys_RegisterCallbacks rcb wcb d)
      | Hmc d \<Rightarrow> Hmc (d\<lparr>hmc_base := sys_RegisterCallbacks rcb wcb (hmc_base d)\<rparr>))\<rparr>"

definition mem_WillAcceptTransaction :: "'s MemorySystem \<Rightarrow> u64 \<Rightarrow> bool \<Rightarrow> bool res" where
  "mem_WillAcceptTransaction m hex w =
     (case mem_dram m of
        Jedec d \<Rightarrow> jedec_WillAcceptTransaction d hex w
      | Hmc d \<Rightarrow> Inr (hmc_WillAcceptTransaction d hex w))"

definition mem_AddTransaction :: "'s MemorySystem \<Rightarrow> u64 \<Rightarrow> bool \<Rightarrow> (bool \<times> 's MemorySystem) res" where
  "mem_AddTransaction m hex w =
     (case mem_dram m of
        Jedec d \<Rightarrow> res_bind (jedec_AddTransaction d hex w) (\<lambda>(b, d'). Inr (b, m\<lparr>mem_dram := Jedec d'\<rparr>))
      | Hmc d \<Rightarrow> res_bind (hmc_AddTransaction d hex w) (\<lambda>(b, d'). Inr (b, m\<lparr>mem_dram := Hmc d'\<rparr>)))"

definition mem_PrintStats :: "'s MemorySystem \<Rightarrow> 's MemorySystem res" where
  "mem_PrintStats m =
     (case mem_dram m of
        Jedec d \<Rightarrow> res_bind (sys_PrintStats d) (\<lambda>d'. Inr (m\<lparr>mem_dram := Jedec d'\<rparr>))
      | Hmc d \<Rightarrow> res_bind (sys_PrintStats (hmc_base d)) (\<lambda>b. Inr (m\<lparr>mem_dram := Hmc (d\<lparr>hmc_base := b\<rparr>)\<rparr>)))"

definition mem_ResetStats :: "'s MemorySystem \<Rightarrow> 's MemorySystem" where
  "mem_ResetStats m =
     m\<lparr>mem_dram := (case mem_dram m of
        Jedec d \<Rightarrow> Jedec (sys_ResetStats d)
      | Hmc d \<Rightarrow> Hmc (d\<lparr>hmc_base := sys_ResetStats (hmc_base d)\<rparr>))\<rparr>"

section \<open>Clients\<close>

text \<open>The base class: its callbacks do nothing.\<close>

record CPU =
  memory_system :: "unit MemorySystem"
  cpu_clk :: u64

definition ReadCallBack :: "u64 \<Rightarrow> unit \<Rightarrow> unit res" where
  "ReadCallBack a u = Inr ()"

definition WriteCallBack :: "u64 \<Rightarrow> unit \<Rightarrow> unit res" where
  "WriteCallBack a u = Inr ()"

definition CPU_of :: "Config \<Rightarrow> CPU res" where
  "CPU_of cfg = res_bind (MemorySystem_of cfg ReadCallBack WriteCallBack) (\<lambda>m. Inr \<lparr>memory_system = m, cpu_clk = 0\<rparr>)"

definition cpu_memory_tick :: "CPU \<Rightarrow> CPU res" where
  "cpu_memory_tick c = res_bind (mem_ClockTick (memory_system c) ()) (\<lambda>(m, u). Inr (c\<lparr>memory_system := m\<rparr>))"

text \<open>The question to the memory and, if the answer is yes, the addition.\<close>

definition try_add :: "u64 \<Rightarrow> bool \<Rightarrow> CPU \<Rightarrow> (bool \<times> CPU) res" where
  "try_add a w c =
     res_bind (mem_WillAcceptTransaction (memory_system c) a w) (\<lambda>ok.
       if ok then res_bind (mem_AddTransaction (memory_system c) a w) (\<lambda>(_, m). Inr (True, c\<lparr>memory_system := m\<rparr>))
       else Inr (False, c))"

record 'g RandomCPU =
  random_cpu :: CPU
  last_addr :: u64
  last_write :: bool
  random_gen :: 'g
  random_get_next :: bool

definition random_ClockTick :: "('g \<Rightarrow> u64 \<times> 'g) \<Rightarrow> 'g RandomCPU \<Rightarrow> 'g RandomCPU res" where
  "random_ClockTick draw r =
     res_bind (cpu_memory_tick (random_cpu r)) (\<lambda>c.
     (let r1 = (if random_get_next r then
                  let (a, g1) = draw (random_gen r); (b, g2) = draw g1
                  in r\<lparr>last_addr := a, last_write := (b mod 3 = 0), random_gen := g2\<rparr>
                else r)
      in res_bind (try_add (last_addr r1) (last_write r1) c) (\<lambda>(ok, c').
           Inr (r1\<lparr>random_get_next := ok, random_cpu := c'\<lparr>cpu_clk := cpu_clk c' + 1\<rparr>\<rparr>))))"

record 'g StreamCPU =
  stream_cpu :: CPU
  addr_a :: u64
  addr_b :: u64
  addr_c :: u64
  stream_offset :: u64
  stream_gen :: 'g
  inserted_a :: bool
  inserted_b :: bool
  inserted_c :: bool

definition array_size :: u64 where
  "array_size = push_bit 20 2"

definition stride :: u64 where
  "stride = 64"

definition stream_insert :: "bool \<Rightarrow> u64 \<Rightarrow> bool \<Rightarrow> CPU \<Rightarrow> (bool \<times> CPU) res" where
  "stream_insert inserted a w c = (if \<not> inserted then try_add a w c else Inr (True, c))"

definition stream_ClockTick :: "('g \<Rightarrow> u64 \<times> 'g) \<Rightarrow> 'g StreamCPU \<Rightarrow> 'g StreamCPU res" where
  "stream_ClockTick draw r =
     res_bind (cpu_memory_tick (stream_cpu r)) (\<lambda>c.
     (let r1 = (if stream_offset r \<ge> array_size \<or> cpu_clk c = 0 then
                  let (a, g1) = draw (stream_gen r); (b, g2) = draw g1; (d, g3) = draw g2
                  in r\<lparr>addr_a := a, addr_b := b, addr_c := d, stream_gen := g3, stream_offset := 0\<rparr>
                else r);
          off = stream_offset r1
      in res_bind (stream_insert (inserted_a r1) (addr_a r1 + off) False c) (\<lambda>(ia, c1).
         res_bind (stream_insert (inserted_b r1) (addr_b r1 + off) False c1) (\<lambda>(ib, c2).
         res_bind (stream_insert (inserted_c r1) (addr_c r1 + off) True c2) (\<lambda>(ic, c3).
           let c4 = c3\<lparr>cpu_clk := cpu_clk c3 + 1\<rparr>
           in Inr (if ia \<and> ib \<and> ic
                   then r1\<lparr>stream_cpu := c4, stream_offset := off + stride, inserted_a := False, inserted_b := False, inserted_c := False\<rparr>
                   else r1\<lparr>stream_cpu := c4, inserted_a := ia, inserted_b := ib, inserted_c := ic\<rparr>))))))"

text \<open>
  A trace file: its remaining entries (address, operation, cycle), whether white space follows
  the last one, and the end-of-file flag of the stream. An extraction that finds no more entry
  sets the flag and leaves the address and the cycle of its target; the local operation name
  is then empty, so the target becomes a read.
\<close>

record trace_stream =
  entries :: "(u64 \<times> string \<times> u64) list"
  trailing_space :: bool
  eof :: bool

definition write_ops :: "string list" where
  "write_ops = [''WRITE'', ''write'', ''P_MEM_WR'', ''BOFF'']"

definition extract_trans :: "trace_stream \<Rightarrow> Transaction \<Rightarrow> trace_stream \<times> Transaction" where
  "extract_trans f t =
     (case entries f of
        [] \<Rightarrow> (f\<lparr>eof := True\<rparr>, t\<lparr>is_write := (''''  \<in> set write_ops)\<rparr>)
      | (a, op, cyc) # rest \<Rightarrow>
          (f\<lparr>entries := rest, eof := (rest = [] \<and> \<not> trailing_space f)\<rparr>,
           t\<lparr>t_addr := a, is_write := (op \<in> set write_ops), added_cycle := cyc\<rparr>))"

record TraceBasedCPU =
  trace_cpu :: CPU
  trace_file :: trace_stream
  trace_trans :: Transaction
  trace_get_next :: bool

definition trace_ClockTick :: "TraceBasedCPU \<Rightarrow> TraceBasedCPU res" where
  "trace_ClockTick r =
     res_bind (cpu_memory_tick (trace_cpu r)) (\<lambda>c.
     res_bind (if \<not> eof (trace_file r) then
                 let r1 = (if trace_get_next r then
                       let (f, t) = extract_trans (trace_file r) (trace_trans r)
                       in r\<lparr>trace_get_next := False, trace_file := f, trace_trans := t\<rparr>
                     else r)
                 in if added_cycle (trace_trans r1) \<le> cpu_clk c then
                      res_bind (try_add (t_addr (trace_trans r1)) (is_write (trace_trans r1)) c) (\<lambda>(ok, c').
                        Inr (r1\<lparr>trace_get_next := ok\<rparr>, c'))
                    else Inr (r1, c)
               else Inr (r, c)) (\<lambda>(r2, c2).
       Inr (r2\<lparr>trace_cpu := c2\<lparr>cpu_clk := cpu_clk c2 + 1\<rparr>\<rparr>)))"

end
