(* ===== verification/Anna_Memory.thy ===== *)
theory Anna_Memory
  imports Anna_Switch Anna_Address Dram_Memory
begin

text \<open>
  \<^verbatim>\<open>multi_anna/multi_memory_interface.hpp\<close>: the memory stacks behind the cores. The part
  of the interface the callbacks work on is the record \<open>mmi\<close>, the client state of the memory
  systems; the interface pairs it with the systems. A \<^verbatim>\<open>std::multiset\<close> is a sorted
  list. The loop over the stacks runs in parallel in the source and is sequential here; that every order of
  its iterations gives the same state is shown in \<open>Anna_Parallel\<close>. The invariant of the interface is in
  \<open>Anna_Memory_Inv\<close> and its executions are in \<open>Anna_Memory_Run\<close>.
\<close>

section \<open>State\<close>

definition MAPPER_OFFSET :: int where
  "MAPPER_OFFSET = 16"

record mmi =
  st_num :: u64
  read_request_queue :: "u64 list list"
  read_ready_queues :: "u64 list list list"
  id_map :: "(u64, u64) multimap list"
  id_num :: u64
  id2core :: "(u64, u64) smap"
  memory_switch :: MemorySwitch
  mapper :: AddressStackMaper

record MultiMemoryInterface =
  memory_system_list :: "mmi MemorySystem list"
  front :: mmi

definition core_of :: "mmi \<Rightarrow> u64 \<Rightarrow> u64" where
  "core_of f i = sm_get 0 (id2core f) i"

section \<open>Callbacks\<close>

text \<open>An address becomes ready for a reader, and its oldest entry leaves the map of readers.\<close>

definition make_ready :: "u64 \<Rightarrow> u64 \<Rightarrow> u64 \<Rightarrow> mmi \<Rightarrow> mmi res" where
  "make_ready st i a f =
     res_bind (uget (read_ready_queues f) st) (\<lambda>qs.
     res_bind (uget qs i) (\<lambda>q.
     res_bind (uset qs i (insort a q)) (\<lambda>qs'.
     res_bind (uset (read_ready_queues f) st qs') (\<lambda>rqs.
     res_bind (uget (id_map f) st) (\<lambda>m.
     res_bind (uset (id_map f) st (mm_erase_first a m)) (\<lambda>ms.
       Inr (f\<lparr>read_ready_queues := rqs, id_map := ms\<rparr>)))))))"

definition ReadCallback :: "u64 \<Rightarrow> mmi callback" where
  "ReadCallback st a f =
     res_bind (uget (id_map f) st) (\<lambda>m.
       case mm_find a m of
         None \<Rightarrow> Inl (AssertFailed ''multi_memory_interface.hpp'')
       | Some i \<Rightarrow>
           if use_memory_switch \<noteq> 0 then
             if core_of f i = st then make_ready st i a f
             else res_bind (sendRes st (core_of f i) a (memory_switch f)) (\<lambda>sw. Inr (f\<lparr>memory_switch := sw\<rparr>))
           else make_ready st i a f)"

definition WriteCallback :: "u64 \<Rightarrow> mmi callback" where
  "WriteCallback st a f = Inr f"

definition mmi_new :: "int \<Rightarrow> mmi res" where
  "mmi_new n =
     res_bind (AddressStackMaper_new MAPPER_OFFSET (MAPPER_OFFSET + 3)) (\<lambda>mp.
       Inr \<lparr>st_num = of_int n, read_request_queue = replicate (nat n) [], read_ready_queues = replicate (nat n) [],
         id_map = replicate (nat n) [], id_num = 0, id2core = [], memory_switch = MemorySwitch_new (of_int n), mapper = mp\<rparr>)"

text \<open>The interface over the configurations that the memory systems have read.\<close>

definition MultiMemoryInterface_of :: "int \<Rightarrow> (int \<Rightarrow> Config) \<Rightarrow> MultiMemoryInterface res" where
  "MultiMemoryInterface_of n cfg =
     res_bind (mmi_new n) (\<lambda>f.
     res_bind (res_map (\<lambda>i. MemorySystem_of (cfg i) (ReadCallback (of_int i)) (WriteCallback (of_int i))) (irange n)) (\<lambda>ms.
       Inr \<lparr>memory_system_list = ms, front = f\<rparr>))"

section \<open>Requests and answers\<close>

definition insert_request :: "u64 \<Rightarrow> u64 \<Rightarrow> mmi \<Rightarrow> mmi res" where
  "insert_request st a f =
     res_bind (uget (read_request_queue f) st) (\<lambda>q.
     res_bind (uset (read_request_queue f) st (insort a q)) (\<lambda>qs. Inr (f\<lparr>read_request_queue := qs\<rparr>)))"

definition RequestRead :: "u64 \<Rightarrow> u64 \<Rightarrow> mmi \<Rightarrow> mmi res" where
  "RequestRead i addr0 f =
     (let (st, a) = stack_map (mapper f) addr0
      in res_bind (if use_memory_switch \<noteq> 0 then
                     if core_of f i = st then insert_request st a f
                     else res_bind (sendReq (core_of f i) st a (memory_switch f)) (\<lambda>sw. Inr (f\<lparr>memory_switch := sw\<rparr>))
                   else insert_request st a f) (\<lambda>f1.
         res_bind (uget (id_map f1) st) (\<lambda>m.
         res_bind (uset (id_map f1) st (mm_insert a i m)) (\<lambda>ms. Inr (f1\<lparr>id_map := ms\<rparr>)))))"

fun one_ready :: "u64 \<Rightarrow> u64 list \<Rightarrow> mmi \<Rightarrow> (u64 \<times> mmi) res" where
  "one_ready i [] f = Inr (- 1, f)"
| "one_ready i (st # sts) f =
     res_bind (uget (read_ready_queues f) st) (\<lambda>qs.
     res_bind (uget qs i) (\<lambda>q.
       case q of
         [] \<Rightarrow> one_ready i sts f
       | a # rest \<Rightarrow>
           res_bind (uset qs i rest) (\<lambda>qs'.
           res_bind (uset (read_ready_queues f) st qs') (\<lambda>rqs. Inr (a, f\<lparr>read_ready_queues := rqs\<rparr>)))))"

definition GetOneReadyReadRequest :: "u64 \<Rightarrow> mmi \<Rightarrow> (u64 \<times> mmi) res" where
  "GetOneReadyReadRequest i f = one_ready i (urange (st_num f)) f"

definition take_ready :: "u64 \<Rightarrow> u64 \<Rightarrow> u64 \<times> mmi \<Rightarrow> (u64 \<times> mmi) res" where
  "take_ready i st = (\<lambda>(n, f).
     res_bind (uget (read_ready_queues f) st) (\<lambda>qs.
     res_bind (uget qs i) (\<lambda>q.
     res_bind (uset qs i []) (\<lambda>qs'.
     res_bind (uset (read_ready_queues f) st qs') (\<lambda>rqs.
       Inr (n + of_nat (length q), f\<lparr>read_ready_queues := rqs\<rparr>))))))"

definition GetAllReadyReadRequest :: "u64 \<Rightarrow> mmi \<Rightarrow> (u64 \<times> mmi) res" where
  "GetAllReadyReadRequest i f = res_fold (take_ready i) (urange (st_num f)) (0, f)"

definition add_reader :: "u64 \<Rightarrow> mmi \<Rightarrow> mmi res" where
  "add_reader st f =
     res_bind (uget (read_ready_queues f) st) (\<lambda>qs.
     res_bind (uset (read_ready_queues f) st (qs @ [[]])) (\<lambda>rqs. Inr (f\<lparr>read_ready_queues := rqs\<rparr>)))"

definition RegisterId :: "u64 \<Rightarrow> mmi \<Rightarrow> (u64 \<times> mmi) res" where
  "RegisterId core_id f =
     res_bind (res_fold add_reader (urange (st_num f))
       (f\<lparr>id2core := sm_put (id_num f) core_id (id2core f), id_num := id_num f + 1\<rparr>)) (\<lambda>f'.
       Inr (id_num f' - 1, f'))"

definition mmi_AllFinished :: "MultiMemoryInterface \<Rightarrow> bool" where
  "mmi_AllFinished mi = False"

definition mmi_PrintStats :: "MultiMemoryInterface \<Rightarrow> MultiMemoryInterface res" where
  "mmi_PrintStats mi = res_bind (res_map mem_PrintStats (memory_system_list mi)) (\<lambda>ms. Inr (mi\<lparr>memory_system_list := ms\<rparr>))"

section \<open>The clock\<close>

lemma getReq_shrinks:
  "getReq st s = Inr (a, s') \<Longrightarrow> a \<noteq> - 1 \<Longrightarrow> length (req_out s' ! unat st) < length (req_out s ! unat st)"
  by (cases "req_out s ! unat st") (auto simp: getReq_def uget_def' uset_def' split: if_splits)

lemma getRes_shrinks:
  "getRes c s = Inr ((st, a), s') \<Longrightarrow> st \<noteq> - 1 \<Longrightarrow> length (res_out s' ! unat c) < length (res_out s ! unat c)"
  by (cases "res_out s ! unat c") (auto simp: getRes_def uget_def' uset_def' split: if_splits)

text \<open>The requests that have arrived at a stack.\<close>

function req_loop :: "u64 \<Rightarrow> mmi \<Rightarrow> mmi res" where
  "req_loop st f =
     res_bind (getReq st (memory_switch f)) (\<lambda>(a, sw).
       if a \<noteq> - 1 then
         res_bind (uget (read_request_queue f) st) (\<lambda>q.
         res_bind (uset (read_request_queue f) st (insort a q)) (\<lambda>qs.
           req_loop st (f\<lparr>memory_switch := sw, read_request_queue := qs\<rparr>)))
       else Inr (f\<lparr>memory_switch := sw\<rparr>))"
  by pat_completeness auto
termination
  by (relation "measure (\<lambda>(st, f). length (req_out (memory_switch f) ! unat st))") (auto simp: getReq_shrinks)

text \<open>The responses that have arrived at a core.\<close>

function res_loop :: "u64 \<Rightarrow> mmi \<Rightarrow> mmi res" where
  "res_loop core_id f =
     res_bind (getRes core_id (memory_switch f)) (\<lambda>(p, sw).
       if fst p = - 1 then Inr (f\<lparr>memory_switch := sw\<rparr>)
       else
         res_bind (uget (id_map f) (fst p)) (\<lambda>m.
           case mm_find (snd p) m of
             None \<Rightarrow> Inl EndIterator
           | Some i \<Rightarrow> res_bind (make_ready (fst p) i (snd p) (f\<lparr>memory_switch := sw\<rparr>)) (\<lambda>f1. res_loop core_id f1)))"
  by pat_completeness auto

lemma make_ready_switch: "make_ready st i a f = Inr f' \<Longrightarrow> memory_switch f' = memory_switch f"
  by (auto simp: make_ready_def res_simps)

termination res_loop
  by (relation "measure (\<lambda>(c, f). length (res_out (memory_switch f) ! unat c))")
    (auto dest!: getRes_shrinks make_ready_switch)

declare req_loop.simps [simp del] res_loop.simps [simp del]

text \<open>The requests of a stack that its memory accepts, the smallest address first. The memory is
  used through its two operations only.\<close>

fun submit_loop ::
  "('m \<Rightarrow> u64 \<Rightarrow> bool \<Rightarrow> bool res) \<Rightarrow> ('m \<Rightarrow> u64 \<Rightarrow> bool \<Rightarrow> (bool \<times> 'm) res) \<Rightarrow> u64 list \<Rightarrow> 'm \<Rightarrow> u64 \<Rightarrow> (u64 list \<times> 'm \<times> u64) res"
where
  "submit_loop accepts add [] m cnt = Inr ([], m, cnt)"
| "submit_loop accepts add (a # q) m cnt =
     res_bind (accepts m a False) (\<lambda>ok.
       if ok then res_bind (add m a False) (\<lambda>(_, m'). submit_loop accepts add q m' (cnt + 1))
       else Inr (a # q, m, cnt))"

definition stack_tick :: "int \<Rightarrow> MultiMemoryInterface \<times> TestValue \<Rightarrow> (MultiMemoryInterface \<times> TestValue) res" where
  "stack_tick i = (\<lambda>(mi, tv).
     res_bind (vget (memory_system_list mi) i) (\<lambda>m.
     res_bind (mem_ClockTick m (front mi)) (\<lambda>(m1, f1).
     res_bind (vget (read_request_queue f1) i) (\<lambda>q.
     res_bind (submit_loop mem_WillAcceptTransaction mem_AddTransaction q m1 (memory_req_cnt tv)) (\<lambda>(q', m2, cnt).
     res_bind (vset (read_request_queue f1) i q') (\<lambda>qs.
     res_bind (vset (memory_system_list mi) i m2) (\<lambda>ms.
       Inr (mi\<lparr>memory_system_list := ms, front := f1\<lparr>read_request_queue := qs\<rparr>\<rparr>, tv\<lparr>memory_req_cnt := cnt\<rparr>))))))))"

definition mmi_ClockTick :: "MultiMemoryInterface \<Rightarrow> TestValue \<Rightarrow> (MultiMemoryInterface \<times> TestValue) res" where
  "mmi_ClockTick mi tv =
     (let f = front mi
      in res_bind (if use_memory_switch \<noteq> 0 then
             res_bind (switch_ClockTick (memory_switch f)) (\<lambda>sw.
             res_bind (res_fold req_loop (urange (st_num f)) (f\<lparr>memory_switch := sw\<rparr>)) (\<lambda>f1.
               res_fold res_loop (urange (st_num f)) f1))
           else Inr f) (\<lambda>f2.
         res_fold stack_tick (irange (uint (st_num f2))) (mi\<lparr>front := f2\<rparr>, tv)))"

end
