(* ===== verification/Anna_Reader.thy ===== *)
theory Anna_Reader
  imports Anna_Memory
begin

text \<open>
  \<^verbatim>\<open>multi_anna/memory_reader.hpp\<close>: a reader splits a range of memory into requests of
  one stride, sends at most seventeen of them per tick and counts the answers. Its lemmas, which
  rest on the invariant of the memory interface, are in \<^verbatim>\<open>Anna_Reader_Run\<close>.
\<close>

section \<open>State and operations\<close>

record MemoryReader =
  reader_id :: u64
  request_queue :: "u64 list"
  processing_num :: u64
  reader_finished :: bool

definition MemoryReader_new :: "u64 \<Rightarrow> mmi \<Rightarrow> (MemoryReader \<times> mmi) res" where
  "MemoryReader_new core_id f =
     res_bind (RegisterId core_id f) (\<lambda>(i, f').
       Inr (\<lparr>reader_id = i, request_queue = [], processing_num = 0, reader_finished = True\<rparr>, f'))"

text \<open>
  The addresses of the loop \<^verbatim>\<open>for (i = 0; i < len; i += stride)\<close>. When the last
  multiple of the stride passes the end of the 64-bit range, \<^verbatim>\<open>i\<close> wraps around and the
  loop goes on past the range; with the stride 64 of every caller it then does not end, nor does
  it for a stride of 0.
\<close>

definition read_count :: "u64 \<Rightarrow> u64 \<Rightarrow> nat" where
  "read_count len strd = (unat len + unat strd - 1) div unat strd"

definition read_addrs :: "u64 \<Rightarrow> u64 \<Rightarrow> u64 \<Rightarrow> u64 list res" where
  "read_addrs a len strd =
     (if len = 0 then Inr []
      else if strd = 0 \<or> read_count len strd * unat strd \<ge> 2 ^ 64 then Inl OutOfFuel
      else Inr (map (\<lambda>k. a + of_nat k * strd) [0..<read_count len strd]))"

definition SubmitReadRequest :: "u64 \<Rightarrow> u64 \<Rightarrow> u64 \<Rightarrow> MemoryReader \<Rightarrow> MemoryReader res" where
  "SubmitReadRequest a len strd r =
     res_bind (read_addrs a len strd) (\<lambda>as.
       Inr (r\<lparr>request_queue := request_queue r @ as, processing_num := processing_num r + of_nat (length as),
              reader_finished := False\<rparr>))"

definition default_stride :: u64 where
  "default_stride = 64"

fun send_requests :: "u64 \<Rightarrow> u64 \<Rightarrow> u64 list \<Rightarrow> mmi \<Rightarrow> (u64 list \<times> mmi) res" where
  "send_requests i cnt [] f = Inr ([], f)"
| "send_requests i cnt (a # q) f =
     res_bind (RequestRead i a f) (\<lambda>f1.
       if cnt + 1 > 16 then Inr (q, f1) else send_requests i (cnt + 1) q f1)"

definition reader_ClockTick :: "MemoryReader \<Rightarrow> mmi \<Rightarrow> (MemoryReader \<times> mmi) res" where
  "reader_ClockTick r f =
     res_bind (send_requests (reader_id r) 0 (request_queue r) f) (\<lambda>(q, f1).
     res_bind (GetAllReadyReadRequest (reader_id r) f1) (\<lambda>(n, f2).
       Inr (r\<lparr>request_queue := q, processing_num := processing_num r - n\<rparr>, f2)))"

definition reader_IsReady :: "MemoryReader \<Rightarrow> bool" where
  "reader_IsReady r \<longleftrightarrow> processing_num r = 0"

definition FinishAndReset :: "MemoryReader \<Rightarrow> bool \<times> MemoryReader" where
  "FinishAndReset r =
     (if processing_num r = 0 \<and> \<not> reader_finished r then (True, r\<lparr>reader_finished := True\<rparr>) else (False, r))"

end
