(* ===== verification/Anna_Modules.thy ===== *)
theory Anna_Modules
  imports Anna_Reader
begin

text \<open>
  The three modules of a core: \<^verbatim>\<open>cluster_codebook_processing_module.hpp\<close>,
  \<^verbatim>\<open>encoded_vector_fetch_module.hpp\<close> and
  \<^verbatim>\<open>similarity_computation_module.hpp\<close> of \<^verbatim>\<open>multi_anna\<close>. Each
  \<^verbatim>\<open>ClockTick\<close> takes the shared memory and the global counters and returns them
  updated.
\<close>

section \<open>Cluster and codebook processing\<close>

record CPM =
  cpm_reader :: MemoryReader
  cpm_remind :: u64
  wait_addr :: "u64 list"

definition CPM_COMPUTING_CYCLE_NUM :: u64 where
  "CPM_COMPUTING_CYCLE_NUM = (N_scm * K_STAR * D + N_cu - 1) div N_cu"

definition COMPUTING_INVALID_NUM :: u64 where
  "COMPUTING_INVALID_NUM = - 1"

definition CPM_new :: "u64 \<Rightarrow> mmi \<Rightarrow> (CPM \<times> mmi) res" where
  "CPM_new core_id f =
     res_bind (MemoryReader_new core_id f) (\<lambda>(r, f'). Inr (\<lparr>cpm_reader = r, cpm_remind = 0, wait_addr = []\<rparr>, f'))"

text \<open>The loop that submits the waiting centroids, at most \<open>n\<close> of them.\<close>

fun submit_centroids :: "nat \<Rightarrow> CPM \<Rightarrow> CPM res" where
  "submit_centroids 0 c = Inr c"
| "submit_centroids (Suc n) c =
     (case wait_addr c of
        [] \<Rightarrow> Inr c
      | a # rest \<Rightarrow>
          res_bind (SubmitReadRequest a VECTOR_SIZE default_stride (cpm_reader c)) (\<lambda>r.
            submit_centroids n (c\<lparr>cpm_reader := r, wait_addr := rest\<rparr>)))"

definition cpm_ClockTick :: "CPM \<Rightarrow> mmi \<Rightarrow> TestValue \<Rightarrow> (CPM \<times> mmi \<times> TestValue) res" where
  "cpm_ClockTick c f tv =
     res_bind (reader_ClockTick (cpm_reader c) f) (\<lambda>(r, f1).
       if cpm_remind c \<le> CPM_COMPUTING_CYCLE_NUM \<and> cpm_remind c > 0 then
         Inr (c\<lparr>cpm_reader := r, cpm_remind := cpm_remind c - 1\<rparr>, f1, tv)
       else
         let c1 = c\<lparr>cpm_reader := snd (FinishAndReset r)\<rparr>
         in if reader_IsReady (cpm_reader c1) then
              if cpm_remind c1 = COMPUTING_INVALID_NUM then
                Inr (c1\<lparr>cpm_remind := CPM_COMPUTING_CYCLE_NUM\<rparr>, f1,
                  tv\<lparr>cpm_computing_cycle_cnt := cpm_computing_cycle_cnt tv + CPM_COMPUTING_CYCLE_NUM\<rparr>)
              else if wait_addr c1 \<noteq> [] then
                res_bind (submit_centroids (unat N_cu) c1) (\<lambda>c2. Inr (c2\<lparr>cpm_remind := COMPUTING_INVALID_NUM\<rparr>, f1, tv))
              else Inr (c1, f1, tv)
            else Inr (c1, f1, tv))"

definition cpm_IsReadySubmit :: "CPM \<Rightarrow> bool" where
  "cpm_IsReadySubmit c \<longleftrightarrow> wait_addr c = []"

definition cpm_IsFinished :: "CPM \<Rightarrow> bool" where
  "cpm_IsFinished c \<longleftrightarrow> wait_addr c = [] \<and> cpm_remind c = 0"

definition SubmitClusterRequest :: "anna_tables \<Rightarrow> u64 list \<Rightarrow> CPM \<Rightarrow> CPM res" where
  "SubmitClusterRequest tb centroid_list c =
     res_bind (res_map (uget (cluster_centroid tb)) centroid_list) (\<lambda>as. Inr (c\<lparr>wait_addr := wait_addr c @ as\<rparr>))"

section \<open>Encoded vector fetch\<close>

record EFM =
  metadata_reader :: MemoryReader
  vector_reader :: MemoryReader
  metadata_queue :: "u64 list"
  vector_queue :: "u64 list"
  cluster_queue :: "u64 list"
  fetched_request_num :: u64
  submited_request_num :: u64
  fetching_request_num :: u64

definition EFM_new :: "u64 \<Rightarrow> mmi \<Rightarrow> (EFM \<times> mmi) res" where
  "EFM_new core_id f =
     res_bind (MemoryReader_new core_id f) (\<lambda>(r1, f1).
     res_bind (MemoryReader_new core_id f1) (\<lambda>(r2, f2).
       Inr (\<lparr>metadata_reader = r1, vector_reader = r2, metadata_queue = [], vector_queue = [], cluster_queue = [],
         fetched_request_num = 0, submited_request_num = 0, fetching_request_num = 0\<rparr>, f2)))"

definition read_metadata :: "anna_tables \<Rightarrow> u64 \<Rightarrow> MemoryReader \<times> TestValue \<Rightarrow> (MemoryReader \<times> TestValue) res" where
  "read_metadata tb cluster = (\<lambda>(r, tv).
     res_bind (uget (metadata_addr tb) cluster) (\<lambda>(a, len).
     res_bind (SubmitReadRequest a len default_stride r) (\<lambda>r'.
       Inr (r', tv\<lparr>efm_memory_reader_read := efm_memory_reader_read tv + len\<rparr>))))"

definition read_vectors :: "anna_tables \<Rightarrow> u64 \<Rightarrow> MemoryReader \<times> TestValue \<Rightarrow> (MemoryReader \<times> TestValue) res" where
  "read_vectors tb v = (\<lambda>(r, tv).
     res_bind (uget (cluster_addr tb) v) (\<lambda>cl.
     res_bind (SubmitReadRequest (start_addr cl) (cluster_bytes cl) default_stride r) (\<lambda>r'.
       Inr (r', tv\<lparr>efm_memory_reader_read := efm_memory_reader_read tv + cluster_bytes cl,
         efm_encoded_vector_buffer_write := efm_encoded_vector_buffer_write tv + cluster_bytes cl\<rparr>))))"

definition efm_fetch_metadata :: "anna_tables \<Rightarrow> EFM \<times> TestValue \<Rightarrow> (EFM \<times> TestValue) res" where
  "efm_fetch_metadata tb = (\<lambda>(e, tv).
     if fetching_request_num e = submited_request_num e - 1 \<and> reader_IsReady (metadata_reader e) then
       res_bind (res_fold (read_metadata tb) (metadata_queue e) (metadata_reader e, tv)) (\<lambda>(r, tv1).
         Inr (e\<lparr>metadata_reader := r, vector_queue := vector_queue e @ cluster_queue e,
           cluster_queue := metadata_queue e, metadata_queue := []\<rparr>, tv1))
     else Inr (e, tv))"

definition efm_fetch_vectors :: "anna_tables \<Rightarrow> EFM \<times> TestValue \<Rightarrow> (EFM \<times> TestValue) res" where
  "efm_fetch_vectors tb = (\<lambda>(e, tv).
     if fetched_request_num e = fetching_request_num e - 1 \<and> reader_IsReady (vector_reader e) then
       res_bind (res_fold (read_vectors tb) (vector_queue e) (vector_reader e, tv)) (\<lambda>(r, tv1).
         Inr (e\<lparr>vector_reader := r, vector_queue := []\<rparr>, tv1))
     else Inr (e, tv))"

definition efm_ClockTick :: "anna_tables \<Rightarrow> EFM \<Rightarrow> mmi \<Rightarrow> TestValue \<Rightarrow> (EFM \<times> mmi \<times> TestValue) res" where
  "efm_ClockTick tb e f tv =
     res_bind (reader_ClockTick (metadata_reader e) f) (\<lambda>(mr, f1).
     res_bind (reader_ClockTick (vector_reader e) f1) (\<lambda>(vr, f2).
     (let (mdone, mr1) = FinishAndReset mr;
          e1 = e\<lparr>metadata_reader := mr1, vector_reader := vr,
            fetching_request_num := (if mdone then fetching_request_num e + 1 else fetching_request_num e)\<rparr>;
          tv1 = (if \<not> reader_IsReady (metadata_reader e1) \<or> \<not> reader_IsReady (vector_reader e1)
                 then tv\<lparr>efm_blocked_cycle_cnt := efm_blocked_cycle_cnt tv + 1\<rparr> else tv)
      in res_bind (efm_fetch_metadata tb (e1, tv1)) (\<lambda>(e2, tv2).
         let (vdone, vr1) = FinishAndReset (vector_reader e2);
             e3 = e2\<lparr>vector_reader := vr1,
               fetched_request_num := (if vdone then fetched_request_num e2 + 1 else fetched_request_num e2)\<rparr>
         in res_bind (efm_fetch_vectors tb (e3, tv2)) (\<lambda>(e4, tv3). Inr (e4, f2, tv3))))))"

definition efm_SubmitRequest :: "u64 list \<Rightarrow> EFM \<Rightarrow> (u64 \<times> EFM) res" where
  "efm_SubmitRequest clusters e =
     (if metadata_queue e \<noteq> [] then Inl (AssertFailed ''encoded_vector_fetch_module.hpp'')
      else Inr (submited_request_num e,
        e\<lparr>metadata_queue := metadata_queue e @ clusters, submited_request_num := submited_request_num e + 1\<rparr>))"

definition efm_IsReadySubmit :: "EFM \<Rightarrow> bool" where
  "efm_IsReadySubmit e \<longleftrightarrow> metadata_queue e = []"

definition GetFetchedRequestNum :: "EFM \<Rightarrow> u64" where
  "GetFetchedRequestNum e = fetched_request_num e"

section \<open>Similarity computation\<close>

record SCM =
  scm_remind :: u64

definition SCM_COMPUTING_CYCLE_NUM :: u64 where
  "SCM_COMPUTING_CYCLE_NUM = SCM_CYCLES_PER_QUERY"

text \<open>The module has no constructor; \<^verbatim>\<open>scm()\<close> sets its counter to 0.\<close>

definition SCM_new :: SCM where
  "SCM_new = \<lparr>scm_remind = 0\<rparr>"

definition scm_ClockTick :: "SCM \<Rightarrow> SCM" where
  "scm_ClockTick s = (if scm_remind s \<noteq> 0 then s\<lparr>scm_remind := scm_remind s - 1\<rparr> else s)"

definition scm_IsReady :: "SCM \<Rightarrow> bool" where
  "scm_IsReady s \<longleftrightarrow> scm_remind s = 0"

definition scm_Submit :: "u64 \<Rightarrow> SCM \<Rightarrow> TestValue \<Rightarrow> SCM \<times> TestValue" where
  "scm_Submit n s tv =
     (let s1 = s\<lparr>scm_remind := SCM_COMPUTING_CYCLE_NUM * (1 + (n - 1) div N_scm)\<rparr>
      in (s1, tv\<lparr>scm_computing_cycle_cnt := scm_computing_cycle_cnt tv + scm_remind s1\<rparr>))"

end
