(* ===== verification/Anna_Core.thy ===== *)
theory Anna_Core
  imports Anna_Modules
begin

text \<open>
  \<^verbatim>\<open>multi_anna/multi_anna.hpp\<close>: a core, which pipelines the batches of queries of its
  clusters through the three modules, and the accelerator of several cores over one memory
  interface, which distributes the queries, ticks memory and cores and stops when every core
  has finished. The index value \<open>-1\<close> of an idle stage is \<open>none\<close>.
\<close>

section \<open>A core\<close>

abbreviation none :: u64 where "none \<equiv> - 1"

record ANNACore =
  cpm :: CPM
  efm :: EFM
  scm :: SCM
  core_id :: u64
  cpm_processing_index :: u64
  efm_processing_index :: u64
  scm_processing_index :: u64
  efm_fetching_request_num :: u64
  slice :: u64
  slice_changed :: u64
  core_batch_size :: u64
  core_cluster_list :: "u64 list"
  core_query_set_list :: "u64 list list"
  fetched_cluster :: u64
  next_fetch_cluster :: u64
  next_queries_l :: u64
  next_queries_r :: u64
  process_queries_l :: u64
  process_queries_r :: u64
  saving_queries_l :: u64
  saving_queries_r :: u64
  slice_queries :: u64
  pre_efm_processing_index :: u64
  core_Finished :: bool
  core_clock :: u64

text \<open>The constructor; the fields it leaves unset are set by \<^verbatim>\<open>Setup\<close> before they are read.\<close>

definition ANNACore_new :: "u64 \<Rightarrow> mmi \<Rightarrow> (ANNACore \<times> mmi) res" where
  "ANNACore_new cid f =
     res_bind (CPM_new cid f) (\<lambda>(c, f1).
     res_bind (EFM_new cid f1) (\<lambda>(e, f2).
       Inr (\<lparr>cpm = c, efm = e, scm = SCM_new, core_id = cid,
         cpm_processing_index = 0, efm_processing_index = 0, scm_processing_index = 0, efm_fetching_request_num = 0,
         slice = 0, slice_changed = 0, core_batch_size = 0, core_cluster_list = [], core_query_set_list = [],
         fetched_cluster = 0, next_fetch_cluster = 0, next_queries_l = 0, next_queries_r = 0, process_queries_l = 0,
         process_queries_r = 0, saving_queries_l = 0, saving_queries_r = 0, slice_queries = 0,
         pre_efm_processing_index = 0, core_Finished = False, core_clock = 0\<rparr>, f2)))"

definition core_Setup :: "u64 list \<Rightarrow> u64 list list \<Rightarrow> int \<Rightarrow> ANNACore \<Rightarrow> ANNACore" where
  "core_Setup clusters query_sets batch c =
     c\<lparr>core_Finished := False, core_batch_size := of_int batch, core_cluster_list := clusters,
       core_query_set_list := query_sets, slice := 0, cpm_processing_index := none, efm_processing_index := none,
       scm_processing_index := none, fetched_cluster := none, next_fetch_cluster := none, next_queries_l := none,
       next_queries_r := none, process_queries_l := none, process_queries_r := none, saving_queries_l := none,
       saving_queries_r := none, slice_changed := 1, pre_efm_processing_index := none\<rparr>"

text \<open>The indices of a loop \<^verbatim>\<open>for (uint64_t i = l; i < r; i++)\<close>.\<close>

definition between :: "u64 \<Rightarrow> u64 \<Rightarrow> u64 list" where
  "between l r = map of_nat [unat l..<unat r]"

text \<open>The part of \<^verbatim>\<open>ClockTick\<close> that saves the results of a batch.\<close>

definition save_step :: "ANNACore \<Rightarrow> TestValue \<Rightarrow> (ANNACore \<times> TestValue) res" where
  "save_step c tv =
     (if scm_processing_index c \<noteq> none \<and> scm_IsReady (scm c) then
        res_bind (res_fold (\<lambda>i ends.
            res_bind (uget (core_query_set_list c) (scm_processing_index c)) (\<lambda>qs.
            res_bind (uget qs i) (\<lambda>q. uset ends q (core_clock c))))
          (between (saving_queries_l c) (saving_queries_r c)) (queries_end_clock tv)) (\<lambda>ends.
        res_bind (if scm_processing_index c = of_nat (length (core_cluster_list c)) - 1
                  then res_bind (uget (core_query_set_list c) (scm_processing_index c)) (\<lambda>qs.
                    Inr (saving_queries_r c = of_nat (length qs)))
                  else Inr False) (\<lambda>last.
          Inr (c\<lparr>core_Finished := core_Finished c \<or> last, scm_processing_index := none\<rparr>, tv\<lparr>queries_end_clock := ends\<rparr>)))
      else Inr (c, tv))"

text \<open>The part that starts the similarity computation of a fetched batch.\<close>

definition scm_step :: "anna_tables \<Rightarrow> ANNACore \<Rightarrow> TestValue \<Rightarrow> (ANNACore \<times> TestValue) res" where
  "scm_step tb c tv =
     (if efm_processing_index c \<noteq> none \<and> scm_processing_index c = none \<and>
         GetFetchedRequestNum (efm c) = efm_fetching_request_num c \<and> scm_IsReady (scm c) then
        let i = efm_processing_index c in
        res_bind (uget (cluster_addr tb) i) (\<lambda>cl.
        res_bind (uget (core_query_set_list c) i) (\<lambda>qs.
          let n = of_nat (length qs); (s, tv1) = scm_Submit (vector_num cl * n) (scm c) tv
          in Inr (c\<lparr>scm := s, scm_processing_index := i, saving_queries_l := process_queries_l c,
               saving_queries_r := process_queries_r c, efm_processing_index := none\<rparr>,
             tv1\<lparr>efm_encoded_vector_buffer_read := efm_encoded_vector_buffer_read tv1 + cluster_bytes cl * n\<rparr>)))
      else Inr (c, tv))"

text \<open>The part that hands a processed batch to the fetch module.\<close>

definition fetch_step :: "ANNACore \<Rightarrow> ANNACore res" where
  "fetch_step c =
     (if cpm_processing_index c \<noteq> none \<and> efm_processing_index c = none \<and> cpm_IsFinished (cpm c) \<and> efm_IsReadySubmit (efm c) then
        let i = cpm_processing_index c in
        res_bind (if i \<noteq> pre_efm_processing_index c then
                    res_bind (uget (core_cluster_list c) i) (\<lambda>cl.
                    res_bind (efm_SubmitRequest [cl] (efm c)) (\<lambda>(n, e).
                      Inr (c\<lparr>efm := e, efm_fetching_request_num := n\<rparr>)))
                  else Inr c) (\<lambda>c1.
          Inr (c1\<lparr>efm_processing_index := i, pre_efm_processing_index := i, process_queries_l := next_queries_l c1,
            process_queries_r := next_queries_r c1, cpm_processing_index := none\<rparr>))
      else Inr c)"

text \<open>The part that starts the next batch of the current slice.\<close>

definition cpm_step :: "anna_tables \<Rightarrow> ANNACore \<Rightarrow> TestValue \<Rightarrow> (ANNACore \<times> TestValue) res" where
  "cpm_step tb c tv =
     (if cpm_processing_index c = none \<and> cpm_IsReadySubmit (cpm c) \<and> unat (slice c) < length (core_cluster_list c) then
        let i = slice c;
            c1 = (if slice_changed c \<noteq> 0 then c\<lparr>next_queries_l := 0, slice_queries := 0, slice_changed := 0\<rparr>
                  else c\<lparr>slice_queries := slice_queries c + core_batch_size c,
                         next_queries_l := slice_queries c + core_batch_size c\<rparr>)
        in res_bind (uget (core_query_set_list c1) i) (\<lambda>qs.
           let n = of_nat (length qs); r = min (next_queries_l c1 + core_batch_size c1) n in
           res_bind (res_fold (\<lambda>j starts.
               res_bind (uget qs j) (\<lambda>q.
               res_bind (uget starts q) (\<lambda>t. if t = none then uset starts q (core_clock c1) else Inr starts)))
             (between (next_queries_l c1) r) (queries_start_clock tv)) (\<lambda>starts.
           let c2 = c1\<lparr>cpm_processing_index := i, next_queries_r := r\<rparr>;
               c3 = (if r = n then c2\<lparr>slice_changed := 1, slice := slice c2 + 1\<rparr> else c2)
           in res_bind (uget (core_cluster_list c3) i) (\<lambda>cl.
              res_bind (SubmitClusterRequest tb [cl] (cpm c3)) (\<lambda>m.
                Inr (c3\<lparr>cpm := m\<rparr>, tv\<lparr>queries_start_clock := starts\<rparr>)))))
      else Inr (c, tv))"

definition core_ClockTick :: "anna_tables \<Rightarrow> ANNACore \<Rightarrow> mmi \<Rightarrow> TestValue \<Rightarrow> (ANNACore \<times> mmi \<times> TestValue) res" where
  "core_ClockTick tb c f tv =
     res_bind (cpm_ClockTick (cpm c) f tv) (\<lambda>(m, f1, tv1).
     res_bind (efm_ClockTick tb (efm c) f1 tv1) (\<lambda>(e, f2, tv2).
     (let c1 = c\<lparr>core_clock := core_clock c + 1, cpm := m, efm := e, scm := scm_ClockTick (scm c)\<rparr>
      in res_bind (save_step c1 tv2) (\<lambda>(c2, tv3).
         res_bind (scm_step tb c2 tv3) (\<lambda>(c3, tv4).
         res_bind (fetch_step c3) (\<lambda>c4.
         res_bind (cpm_step tb c4 tv4) (\<lambda>(c5, tv5). Inr (c5, f2, tv5))))))))"

definition core_IsFinished :: "ANNACore \<Rightarrow> bool" where
  "core_IsFinished c = core_Finished c"

section \<open>The accelerator\<close>

record MultiANNA =
  memory :: MultiMemoryInterface
  anna_core_list :: "ANNACore list"
  cluster_list :: "u64 list"
  query_set_list :: "u64 list list"
  batch_size :: u64
  queries :: "u64 list list"
  core_num :: u64
  clock :: u64

definition add_core :: "int \<Rightarrow> mmi \<times> ANNACore list \<Rightarrow> (mmi \<times> ANNACore list) res" where
  "add_core i = (\<lambda>(f, cs). res_bind (ANNACore_new (of_int i) f) (\<lambda>(c, f'). Inr (f', cs @ [c])))"

definition MultiANNA_of :: "int \<Rightarrow> (int \<Rightarrow> Config) \<Rightarrow> MultiANNA res" where
  "MultiANNA_of n cfg =
     res_bind (MultiMemoryInterface_of n cfg) (\<lambda>mi.
     res_bind (res_fold add_core (irange n) (front mi, [])) (\<lambda>(f, cs).
       Inr \<lparr>memory = mi\<lparr>front := f\<rparr>, anna_core_list = cs, cluster_list = [], query_set_list = [], batch_size = 0,
         queries = [], core_num = of_int n, clock = 0\<rparr>))"

definition tick_cores :: "anna_tables \<Rightarrow> ANNACore list \<Rightarrow> mmi \<times> TestValue \<Rightarrow> (ANNACore list \<times> mmi \<times> TestValue) res" where
  "tick_cores tb cs ft =
     res_map_state (\<lambda>c (f, tv). res_bind (core_ClockTick tb c f tv) (\<lambda>(c', f', tv'). Inr (c', (f', tv')))) cs ft"

definition anna_ClockTick :: "anna_tables \<Rightarrow> MultiANNA \<Rightarrow> TestValue \<Rightarrow> (MultiANNA \<times> TestValue) res" where
  "anna_ClockTick tb a tv =
     res_bind (mmi_ClockTick (memory a) tv) (\<lambda>(mi, tv1).
     res_bind (tick_cores tb (anna_core_list a) (front mi, tv1)) (\<lambda>(cs, f, tv2).
       Inr (a\<lparr>clock := clock a + 1, memory := mi\<lparr>front := f\<rparr>, anna_core_list := cs\<rparr>, tv2)))"

definition anna_Setup :: "u64 list list \<Rightarrow> MultiANNA \<Rightarrow> MultiANNA" where
  "anna_Setup qs a = a\<lparr>queries := qs\<rparr>"

definition getClockNum :: "MultiANNA \<Rightarrow> u64" where
  "getClockNum a = clock a"

text \<open>
  The distribution of the queries by \<^verbatim>\<open>Run\<close>, with \<open>n\<close> clusters. The queries \<open>l\<close> to
  \<open>r - 1\<close> of a batch are sorted into one list per cluster.
\<close>

definition sort_query :: "u64 list list \<Rightarrow> u64 \<Rightarrow> u64 list list \<Rightarrow> u64 list list res" where
  "sort_query qs i now =
     res_bind (uget qs i) (\<lambda>cl. res_fold (\<lambda>c now. res_bind (uget now c) (\<lambda>l. uset now c (l @ [i]))) cl now)"

definition group_batch :: "u64 \<Rightarrow> u64 list list \<Rightarrow> u64 \<Rightarrow> u64 \<Rightarrow> (u64 list \<times> u64 list list) res" where
  "group_batch n qs l r =
     res_bind (res_fold (sort_query qs) (between l r) (replicate (unat n) [])) (\<lambda>now.
       let used = filter (\<lambda>c. now ! unat c \<noteq> []) (urange n)
       in Inr (used, map (\<lambda>c. now ! unat c) used))"

text \<open>The loop over the batches; a batch size of 0 makes no progress.\<close>

function group_queries :: "u64 \<Rightarrow> u64 list list \<Rightarrow> u64 \<Rightarrow> u64 \<Rightarrow> (u64 list \<times> u64 list list) res" where
  "group_queries n qs batch l =
     (let total = of_nat (length qs); r = min (l + batch) total
      in if \<not> l < total then Inr ([], [])
         else if \<not> l < r then Inl OutOfFuel
         else res_bind (group_batch n qs l r) (\<lambda>(cl, sets).
              if r < total then res_bind (group_queries n qs batch r) (\<lambda>(cl', sets'). Inr (cl @ cl', sets @ sets'))
              else Inr (cl, sets)))"
  by pat_completeness auto
termination
proof (relation "measure (\<lambda>(n, qs, batch, l). 2 ^ 64 - unat l)", goal_cases)
  case (2 n qs batch l)
  then have "unat l < unat (min (l + batch) (of_nat (length qs)))"
    by (simp add: word_less_nat_alt)
  moreover have "unat l < 2 ^ 64"
    using unsigned_less [of l, where 'a = nat] by simp
  ultimately show ?case
    using 2 by (simp add: diff_less_mono2)
qed simp

declare group_queries.simps [simp del]

text \<open>The clusters go to the cores in turn.\<close>

definition deal :: "u64 \<Rightarrow> 'a list \<Rightarrow> nat \<Rightarrow> 'a list" where
  "deal n xs i = map (\<lambda>j. xs ! j) (filter (\<lambda>j. j mod unat n = i) [0..<length xs])"

definition anna_prepare :: "u64 \<Rightarrow> u64 \<Rightarrow> MultiANNA \<Rightarrow> MultiANNA res" where
  "anna_prepare n batch a =
     res_bind (group_queries n (queries a) batch 0) (\<lambda>(cl, sets).
     (let cls = cluster_list a @ cl; sts = query_set_list a @ sets
      in if core_num a = 0 \<and> cls \<noteq> [] then Inl DivisionByZero
         else if unat (core_num a) \<noteq> length (anna_core_list a) then Inl OutOfRange
         else Inr (a\<lparr>cluster_list := cls, query_set_list := sts, batch_size := batch,
           anna_core_list := map (\<lambda>i. core_Setup (deal (core_num a) cls i) (deal (core_num a) sts i) (signed_take_bit 31 (uint batch))
               (anna_core_list a ! i)) [0..<length (anna_core_list a)]\<rparr>)))"

text \<open>The main loop, for at most \<open>k\<close> ticks.\<close>

fun run_loop :: "nat \<Rightarrow> anna_tables \<Rightarrow> MultiANNA \<Rightarrow> TestValue \<Rightarrow> (MultiANNA \<times> TestValue) res" where
  "run_loop 0 tb a tv = Inl OutOfFuel"
| "run_loop (Suc k) tb a tv =
     res_bind (anna_ClockTick tb a tv) (\<lambda>(a1, tv1).
       if list_all core_IsFinished (anna_core_list a1) then Inr (a1, tv1) else run_loop k tb a1 tv1)"

definition anna_Run :: "nat \<Rightarrow> anna_tables \<Rightarrow> u64 \<Rightarrow> u64 \<Rightarrow> MultiANNA \<Rightarrow> TestValue \<Rightarrow> (MultiANNA \<times> TestValue) res" where
  "anna_Run fuel tb n batch a tv =
     res_bind (anna_prepare n batch a) (\<lambda>a1.
     res_bind (run_loop fuel tb a1 tv) (\<lambda>(a2, tv2).
     res_bind (mmi_PrintStats (memory a2)) (\<lambda>mi. Inr (a2\<lparr>memory := mi\<rparr>, tv2))))"

end
