(* ===== verification/Dram_Contract.thy ===== *)
theory Dram_Contract
  imports Dram_System
begin

text \<open>
  The contract between a memory and its client, as the locale \<open>memory_backend\<close>: a tick
  calls the client for a list of events that the state of the memory determines, whatever the
  client does, and the transactions a memory holds are those added and not yet reported. The
  interpretation shows that \<^verbatim>\<open>JedecDRAMSystem\<close> keeps the contract.
\<close>

section \<open>The contract\<close>

locale memory_backend =
  fixes inv :: "'m \<Rightarrow> bool" and may_tick :: "'m \<Rightarrow> bool"
    and outs :: "'m \<Rightarrow> event multiset" and events :: "'m \<Rightarrow> event list" and call :: "'m \<Rightarrow> event \<Rightarrow> 's \<Rightarrow> 's res"
    and tick :: "'m \<Rightarrow> 's \<Rightarrow> ('m \<times> 's) res"
    and accepts :: "'m \<Rightarrow> u64 \<Rightarrow> bool \<Rightarrow> bool res" and add :: "'m \<Rightarrow> u64 \<Rightarrow> bool \<Rightarrow> (bool \<times> 'm) res"
  assumes tick_law: "inv m \<Longrightarrow> may_tick m \<Longrightarrow>
      \<exists>m'. (\<forall>u. tick m u = res_bind (res_fold (call m) (events m) u) (\<lambda>u'. Inr (m', u'))) \<and>
        inv m' \<and> call m' = call m \<and> outs m = mset (events m) + outs m'"
    and accepts_law: "inv m \<Longrightarrow> \<exists>b. accepts m a w = Inr b"
    and add_law: "inv m \<Longrightarrow> accepts m a w = Inr True \<Longrightarrow>
      \<exists>m'. add m a w = Inr (True, m') \<and> inv m' \<and> call m' = call m \<and> outs m' = add_mset (w, a) (outs m)"
begin

text \<open>The events of a tick are transactions the memory holds.\<close>

lemma events_held: "inv m \<Longrightarrow> may_tick m \<Longrightarrow> mset (events m) \<subseteq># outs m"
  using tick_law by fastforce

text \<open>A tick succeeds when the client can take its events.\<close>

lemma tick_ok:
  assumes "inv m" and "may_tick m" and "\<exists>u'. res_fold (call m) (events m) u = Inr u' \<and> P u'"
  shows "\<exists>m' u'. tick m u = Inr (m', u') \<and> P u' \<and> inv m' \<and> call m' = call m \<and> outs m = mset (events m) + outs m'"
  using tick_law [OF assms(1,2)] assms(3) by auto

text \<open>A client that asks first never trips an assertion.\<close>

lemma guarded_add:
  assumes "inv m"
  shows "\<exists>b m'. res_bind (accepts m a w) (\<lambda>ok. if ok then add m a w else Inr (False, m)) = Inr (b, m') \<and> inv m' \<and>
    outs m' = (if b then add_mset (w, a) (outs m) else outs m)"
proof -
  obtain b where b: "accepts m a w = Inr b" using accepts_law [OF assms] by blast
  show ?thesis using add_law [OF assms, of a w] b assms by (cases b) auto
qed

end

section \<open>The system of one controller per channel\<close>

definition jedec_inv :: "'s BaseDRAMSystem \<Rightarrow> bool" where
  "jedec_inv d \<longleftrightarrow> sys_cfg_ok (sys_config d) \<and> chan_ok (sys_config d) \<and> sys_wf d"

lemma sys_frame_call: "sys_frame d d' \<Longrightarrow> sys_call d' = sys_call d \<and> sys_config d' = sys_config d"
  by (simp add: sys_frame_def sys_call_def)

interpretation jedec: memory_backend jedec_inv sys_may_tick sys_outstanding sys_events sys_call
  jedec_ClockTick jedec_WillAcceptTransaction jedec_AddTransaction
proof
  fix d :: "'s BaseDRAMSystem"
  assume d: "jedec_inv d" and t: "sys_may_tick d"
  then have "sys_cfg_ok (sys_config d)" "sys_wf d" by (simp_all add: jedec_inv_def)
  from this t obtain d' where d': "\<forall>u. jedec_ClockTick d u = res_bind (res_fold (sys_call d) (sys_events d) u) (\<lambda>u'. Inr (d', u'))"
    "sys_wf d'" "sys_frame d d'" "sys_outstanding d = mset (sys_events d) + sys_outstanding d'"
    by (rule jedec_ClockTick_spec)
  then show "\<exists>d'. (\<forall>u. jedec_ClockTick d u = res_bind (res_fold (sys_call d) (sys_events d) u) (\<lambda>u'. Inr (d', u'))) \<and>
      jedec_inv d' \<and> sys_call d' = sys_call d \<and> sys_outstanding d = mset (sys_events d) + sys_outstanding d'"
    using d sys_frame_call [OF d'(3)] by (auto simp: jedec_inv_def)
next
  fix d :: "'s BaseDRAMSystem" and a w
  assume d: "jedec_inv d"
  then have ok: "chan_ok (sys_config d)" "sys_wf d" by (simp_all add: jedec_inv_def)
  obtain b where b: "jedec_WillAcceptTransaction d a w = Inr b"
    and add: "b \<Longrightarrow> \<exists>s'. jedec_AddTransaction d a w = Inr (True, s') \<and> sys_wf s' \<and> sys_frame d s' \<and> sys_clk s' = sys_clk d \<and>
      sys_outstanding s' = add_mset (w, a) (sys_outstanding d)"
    by (rule jedec_AddTransaction_spec [OF ok, of a w]) (rule that, assumption+)
  show "\<exists>b. jedec_WillAcceptTransaction d a w = Inr b" using b by blast
  assume "jedec_WillAcceptTransaction d a w = Inr True"
  then obtain d' where "jedec_AddTransaction d a w = Inr (True, d')" "sys_wf d'" "sys_frame d d'"
    "sys_outstanding d' = add_mset (w, a) (sys_outstanding d)" using add b by auto
  then show "\<exists>d'. jedec_AddTransaction d a w = Inr (True, d') \<and> jedec_inv d' \<and> sys_call d' = sys_call d \<and>
      sys_outstanding d' = add_mset (w, a) (sys_outstanding d)"
    using d sys_frame_call [of d d'] by (auto simp: jedec_inv_def)
qed

end
