(* ===== verification/Dram_Hmc_Run.thy ===== *)
theory Dram_Hmc_Run
  imports Dram_Hmc Dram_Contract
begin

text \<open>
  The hybrid memory cube in operation. Every accepted transaction has one response packet, which
  waits in the table of outstanding responses until a vault has served the request and then
  travels through the crossbar back to the link it came from. The invariant says that the table
  holds, with multiplicity, exactly the addresses of the requests in the link and quadrant queues and in the
  vaults; so every answer of a vault finds its response, and no tick aborts.
\<close>

section \<open>Packets in queues\<close>

lemma mset_concat_upd:
  "i < length qs \<Longrightarrow> mset (concat (qs[i := q])) + mset (qs ! i) = mset (concat qs) + mset q"
  by (induction qs arbitrary: i) (auto split: nat.splits simp: ac_simps)

lemma mset_concat_push:
  "i < length qs \<Longrightarrow> mset (concat (qs[i := qs ! i @ [x]])) = add_mset x (mset (concat qs))"
  using mset_concat_upd [of i qs "qs ! i @ [x]"] by (simp add: ac_simps)

lemma mset_concat_pop:
  "i < length qs \<Longrightarrow> qs ! i = x # rest \<Longrightarrow> mset (concat qs) = add_mset x (mset (concat (qs[i := rest])))"
  using mset_concat_upd [of i qs rest] by (simp add: ac_simps)

lemma ball_concat_upd:
  "(\<forall>x\<in>set (concat qs). P x) \<Longrightarrow> (\<forall>x\<in>set q. P x) \<Longrightarrow> (\<forall>x\<in>set (concat (qs[i := q])). P x)"
  by (auto dest!: set_update_subset_insert [THEN subsetD])

section \<open>The invariant\<close>

definition req_ok :: "int \<Rightarrow> HMCRequest \<Rightarrow> bool" where
  "req_ok vaults r \<longleftrightarrow> 0 \<le> req_quad r \<and> req_quad r < 4 \<and> 0 \<le> req_vault r \<and> req_vault r < vaults"

definition resp_ok :: "int \<Rightarrow> HMCResponse \<Rightarrow> bool" where
  "resp_ok n r \<longleftrightarrow> 0 \<le> resp_link r \<and> resp_link r < n \<and> 0 \<le> resp_quad r \<and> resp_quad r < 4"

definition hmc_shape :: "'s HMCMemorySystem \<Rightarrow> bool" where
  "hmc_shape s \<longleftrightarrow> 0 < links s \<and> 0 \<le> next_link s \<and> next_link s < links s \<and>
     length (link_req_queues s) = nat (links s) \<and> length (link_resp_queues s) = nat (links s) \<and>
     length (link_busy s) = nat (links s) \<and> length (link_age_counter s) = nat (links s) \<and>
     length (quad_req_queues s) = 4 \<and> length (quad_resp_queues s) = 4 \<and>
     length (quad_busy s) = 4 \<and> length (quad_age_counter s) = 4"

text \<open>A queue takes part in the arbitration exactly when it holds a packet.\<close>

definition ages_ok :: "int list \<Rightarrow> 'a list list \<Rightarrow> bool" where
  "ages_ok ages qs \<longleftrightarrow> (\<forall>i<length qs. 0 < ages ! i \<longleftrightarrow> qs ! i \<noteq> [])"

definition hmc_reqs :: "'s HMCMemorySystem \<Rightarrow> HMCRequest multiset" where
  "hmc_reqs s = mset (concat (link_req_queues s)) + mset (concat (quad_req_queues s))"

definition hmc_resps :: "'s HMCMemorySystem \<Rightarrow> HMCResponse multiset" where
  "hmc_resps s = image_mset snd (mset (resp_lookup_table s)) + mset (concat (quad_resp_queues s)) + mset (concat (link_resp_queues s))"

definition hmc_packets :: "'s HMCMemorySystem \<Rightarrow> bool" where
  "hmc_packets s \<longleftrightarrow> (\<forall>r\<in>#hmc_reqs s. req_ok (channels (sys_config (hmc_base s))) r) \<and> (\<forall>r\<in>#hmc_resps s. resp_ok (links s) r) \<and>
     (\<forall>e\<in>set (resp_lookup_table s). fst e = resp_id (snd e))"

text \<open>\<open>R\<close> are the addresses of the transactions in the vaults.\<close>

definition hmc_mid :: "u64 multiset \<Rightarrow> 's HMCMemorySystem \<Rightarrow> bool" where
  "hmc_mid R s \<longleftrightarrow> hmc_shape s \<and> hmc_packets s \<and> ages_ok (link_age_counter s) (link_req_queues s) \<and>
     ages_ok (quad_age_counter s) (quad_resp_queues s) \<and> mm_keys (resp_lookup_table s) = image_mset mem_operand (hmc_reqs s) + R"

definition vault_addrs :: "'s HMCMemorySystem \<Rightarrow> u64 multiset" where
  "vault_addrs s = image_mset snd (sys_outstanding (hmc_base s))"

definition resp_event :: "HMCResponse \<Rightarrow> event" where
  "resp_event r = (resp_type r \<noteq> RD_RS, resp_id r)"

text \<open>The transactions whose callback is still to come.\<close>

definition hmc_outs :: "'s HMCMemorySystem \<Rightarrow> event multiset" where
  "hmc_outs s = image_mset resp_event (hmc_resps s)"

lemma hmc_measures_upd [simp]:
  "hmc_reqs (s\<lparr>quad_busy := qb\<rparr>) = hmc_reqs s" "hmc_resps (s\<lparr>quad_busy := qb\<rparr>) = hmc_resps s"
  "hmc_reqs (s\<lparr>link_busy := lb\<rparr>) = hmc_reqs s" "hmc_resps (s\<lparr>link_busy := lb\<rparr>) = hmc_resps s"
  "hmc_reqs (s\<lparr>next_link := n\<rparr>) = hmc_reqs s" "hmc_resps (s\<lparr>next_link := n\<rparr>) = hmc_resps s"
  "hmc_reqs (s\<lparr>hmc_base := b\<rparr>) = hmc_reqs s" "hmc_resps (s\<lparr>hmc_base := b\<rparr>) = hmc_resps s"
  "hmc_reqs (s\<lparr>link_age_counter := a\<rparr>) = hmc_reqs s" "hmc_resps (s\<lparr>link_age_counter := a\<rparr>) = hmc_resps s"
  "hmc_reqs (s\<lparr>quad_age_counter := a\<rparr>) = hmc_reqs s" "hmc_resps (s\<lparr>quad_age_counter := a\<rparr>) = hmc_resps s"
  by (simp_all add: hmc_reqs_def hmc_resps_def)

text \<open>What the steps within a tick leave alone.\<close>

definition hmc_frame :: "'s HMCMemorySystem \<Rightarrow> 's HMCMemorySystem \<Rightarrow> bool" where
  "hmc_frame s s' \<longleftrightarrow> links s' = links s \<and> queue_depth s' = queue_depth s \<and> logic_clk s' = logic_clk s \<and> logic_ps s' = logic_ps s \<and> dram_ps s' = dram_ps s \<and>
     ps_per_dram s' = ps_per_dram s \<and> ps_per_logic s' = ps_per_logic s \<and> sys_frame (hmc_base s) (hmc_base s')"

lemma hmc_frame_refl [simp]: "hmc_frame s s"
  by (simp add: hmc_frame_def sys_frame_def)

lemma hmc_frame_trans [trans]: "hmc_frame s s' \<Longrightarrow> hmc_frame s' s'' \<Longrightarrow> hmc_frame s s''"
  by (simp add: hmc_frame_def sys_frame_def)

lemma ages_upd:
  "ages_ok ages qs \<Longrightarrow> i < length qs \<Longrightarrow> length ages = length qs \<Longrightarrow> (0 < a \<longleftrightarrow> q \<noteq> []) \<Longrightarrow> ages_ok (ages[i := a]) (qs[i := q])"
  by (auto simp: ages_ok_def nth_list_update)

lemma ages_upd_age:
  "ages_ok ages qs \<Longrightarrow> i < length qs \<Longrightarrow> length ages = length qs \<Longrightarrow> (0 < a \<longleftrightarrow> qs ! i \<noteq> []) \<Longrightarrow> ages_ok (ages[i := a]) qs"
  by (auto simp: ages_ok_def nth_list_update)

section \<open>The order of arbitration\<close>

lemma mset_age_insert [simp]: "mset (age_insert age pos q) = add_mset pos (mset q)"
  by (induction q) auto

lemma positions_distinct:
  assumes "0 < n"
  shows "distinct (map (\<lambda>i. (i + p) mod n) (irange n))"
proof -
  have "inj_on (\<lambda>i. (i + p) mod n) {i. 0 \<le> i \<and> i < n}"
  proof (rule inj_onI)
    fix i j :: int assume ij: "i \<in> {i. 0 \<le> i \<and> i < n}" "j \<in> {i. 0 \<le> i \<and> i < n}" "(i + p) mod n = (j + p) mod n"
    then have "(i + p - (j + p)) mod n = 0" using mod_diff_cong [of "i + p" n "j + p" "j + p" "j + p"] by simp
    then have "(i - j) mod n = 0" by simp
    then have "n dvd i - j" by (simp add: dvd_eq_mod_eq_0)
    then show "i = j" using ij(1,2) zdvd_not_zless [of "i - j" n] zdvd_not_zless [of "j - i" n] dvd_diff_commute [of n i j] by fastforce
  qed
  then show ?thesis by (simp add: distinct_map)
qed

text \<open>Every waiting queue comes exactly once.\<close>

lemma BuildAgeQueue_ok:
  assumes "ages \<noteq> []"
  obtains q where "BuildAgeQueue s ages = Inr q" and "distinct q"
    and "\<And>p. p \<in> set q \<Longrightarrow> 0 \<le> p \<and> p < int (length ages) \<and> 0 < ages ! nat p"
proof -
  let ?n = "int (length ages)" and ?p = "uint (logic_clk s mod of_int (int (length ages)))"
  let ?pos = "\<lambda>i. (i + ?p) mod ?n"
  let ?step = "\<lambda>i q. res_bind (vget ages (?pos i)) (\<lambda>age. Inr (if age > 0 then age_insert age (?pos i) q else q))"
  have n: "0 < ?n" using assms by simp
  have fold: "\<exists>q'. res_fold ?step js q = Inr q' \<and> mset q' = mset (filter (\<lambda>p. 0 < ages ! nat p) (map ?pos js)) + mset q" for js q
  proof (induction js arbitrary: q)
    case (Cons i js)
    have "0 \<le> ?pos i" "?pos i < ?n" using n by simp_all
    then have "vget ages (?pos i) = Inr (ages ! nat (?pos i))" by (simp only: vget_def) simp
    then show ?case using Cons [of "if 0 < ages ! nat (?pos i) then age_insert (ages ! nat (?pos i)) (?pos i) q else q"] by (auto simp: ac_simps)
  qed simp
  obtain q where q: "res_fold ?step (irange ?n) [] = Inr q" "mset q = mset (filter (\<lambda>p. 0 < ages ! nat p) (map ?pos (irange ?n)))"
    using fold [of "irange ?n" "[]"] unfolding mset.simps(1) add_0_right by blast
  have "?n \<noteq> 0" using n by simp
  then have b: "BuildAgeQueue s ages = Inr q" using q(1) by (simp only: BuildAgeQueue_def Let_def if_False)
  have "distinct q" using mset_eq_imp_distinct_iff [OF q(2)] distinct_filter [OF positions_distinct [OF n]] by blast
  moreover have "0 \<le> p \<and> p < ?n \<and> 0 < ages ! nat p" if "p \<in> set q" for p
  proof -
    have "p \<in> set (filter (\<lambda>p. 0 < ages ! nat p) (map ?pos (irange ?n)))" using that mset_eq_setD [OF q(2)] by blast
    then show ?thesis using n by auto
  qed
  ultimately show thesis using that [OF b] by blast
qed

section \<open>Requests\<close>

lemma hmc_midD:
  assumes "hmc_mid R s"
  shows "hmc_shape s" and "hmc_packets s" and "ages_ok (link_age_counter s) (link_req_queues s)"
    and "ages_ok (quad_age_counter s) (quad_resp_queues s)" and "mm_keys (resp_lookup_table s) = image_mset mem_operand (hmc_reqs s) + R"
  using assms by (simp_all add: hmc_mid_def)

lemma req_ok_exit [simp]: "req_ok n (r\<lparr>req_exit_time := t\<rparr>) = req_ok n r" "req_ok n (r\<lparr>req_link := l\<rparr>) = req_ok n r"
  by (simp_all add: req_ok_def)

lemma resp_ok_exit [simp]: "resp_ok n (r\<lparr>resp_exit_time := t\<rparr>) = resp_ok n r"
  by (simp add: resp_ok_def)

lemma resp_event_exit [simp]: "resp_event (r\<lparr>resp_exit_time := t\<rparr>) = resp_event r"
  by (simp add: resp_event_def)

lemma drain_link_ok:
  assumes inv: "hmc_mid R s" and l: "0 \<le> l" "l < links s" and ne: "link_req_queues s ! nat l \<noteq> []"
  shows "\<exists>s'. drain_link l s = Inr s' \<and> hmc_mid R s' \<and> hmc_resps s' = hmc_resps s \<and> hmc_frame s s' \<and> hmc_base s' = hmc_base s \<and>
    (\<forall>j. j \<noteq> nat l \<longrightarrow> link_req_queues s' ! j = link_req_queues s ! j)"
proof -
  note sh = hmc_midD(1) [OF inv, unfolded hmc_shape_def]
  obtain r rest where q: "link_req_queues s ! nat l = r # rest" using ne by (cases "link_req_queues s ! nat l") auto
  have nl: "nat l < nat (links s)" using l by simp
  have rm: "mset (concat (link_req_queues s)) = add_mset r (mset (concat ((link_req_queues s)[nat l := rest])))"
    by (rule mset_concat_pop) (use sh nl q in auto)
  then have "r \<in># hmc_reqs s" by (simp add: hmc_reqs_def)
  then have r: "req_ok (channels (sys_config (hmc_base s))) r" using hmc_midD(2) [OF inv] by (simp add: hmc_packets_def)
  then have nq: "0 \<le> req_quad r" "req_quad r < 4" "nat (req_quad r) < 4" by (auto simp: req_ok_def)
  let ?qq = "quad_req_queues s ! nat (req_quad r)"
  show ?thesis
  proof (cases "length ?qq < queue_depth s \<and> quad_busy s ! nat (req_quad r) \<le> 0")
    case True
    let ?r = "r\<lparr>req_exit_time := logic_clk s + of_int (req_flits r)\<rparr>"
    let ?s = "s\<lparr>link_req_queues := (link_req_queues s)[nat l := rest],
      quad_req_queues := (quad_req_queues s)[nat (req_quad r) := ?qq @ [?r]],
      quad_busy := (quad_busy s)[nat (req_quad r) := req_flits r],
      link_age_counter := (link_age_counter s)[nat l := if rest = [] then 0 else 1]\<rparr>"
    have "drain_link l s = Inr ?s" using True q sh l nq by (simp add: drain_link_def vget_def vset_def Let_def)
    moreover have "mset (concat ((quad_req_queues s)[nat (req_quad r) := ?qq @ [?r]])) = add_mset ?r (mset (concat (quad_req_queues s)))"
      by (rule mset_concat_push) (use sh nq in simp)
    then have reqs: "add_mset r (hmc_reqs ?s) = add_mset ?r (hmc_reqs s)" by (simp add: hmc_reqs_def rm add_mset_commute)
    have "image_mset mem_operand (add_mset r (hmc_reqs ?s)) = image_mset mem_operand (add_mset ?r (hmc_reqs s))" by (simp only: reqs)
    then have ops: "image_mset mem_operand (hmc_reqs ?s) = image_mset mem_operand (hmc_reqs s)" by simp
    have "set_mset (hmc_reqs ?s) \<subseteq> insert ?r (set_mset (hmc_reqs s))"
      using arg_cong [OF reqs, of set_mset] by (simp only: set_mset_add_mset_insert) blast
    then have "\<forall>x\<in>#hmc_reqs ?s. req_ok (channels (sys_config (hmc_base s))) x"
      using hmc_midD(2) [OF inv] r req_ok_exit(1) unfolding hmc_packets_def by blast
    moreover have "hmc_resps ?s = hmc_resps s" by (simp add: hmc_resps_def)
    ultimately have "hmc_packets ?s" using hmc_midD(2) [OF inv] by (simp add: hmc_packets_def)
    moreover have "ages_ok ((link_age_counter s)[nat l := if rest = [] then 0 else 1]) ((link_req_queues s)[nat l := rest])"
      by (rule ages_upd [OF hmc_midD(3) [OF inv]]) (use sh nl in auto)
    moreover have "hmc_shape ?s" using sh by (simp add: hmc_shape_def)
    ultimately have "hmc_mid R ?s" using inv ops by (simp add: hmc_mid_def)
    then show ?thesis using \<open>drain_link l s = Inr ?s\<close>
      by (intro exI [of _ ?s]) (simp add: hmc_resps_def hmc_frame_def sys_frame_def)
  next
    case False
    let ?s = "s\<lparr>link_age_counter := (link_age_counter s)[nat l := link_age_counter s ! nat l + 1]\<rparr>"
    have "drain_link l s = Inr ?s" using False q sh l nq by (auto simp: drain_link_def vget_def vset_def vupd_def Let_def)
    moreover have "0 < link_age_counter s ! nat l" using hmc_midD(3) [OF inv] ne sh nl by (simp add: ages_ok_def)
    then have "ages_ok (link_age_counter ?s) (link_req_queues ?s)"
      using ages_upd_age [OF hmc_midD(3) [OF inv], of "nat l" "link_age_counter s ! nat l + 1"] sh nl ne by simp
    then have "hmc_mid R ?s" using inv by (simp add: hmc_mid_def hmc_shape_def hmc_packets_def hmc_reqs_def hmc_resps_def)
    ultimately show ?thesis by (intro exI [of _ ?s]) (simp add: hmc_resps_def hmc_frame_def sys_frame_def)
  qed
qed

lemma drain_links_ok:
  assumes "hmc_mid R s" and "distinct q" and "\<And>p. p \<in> set q \<Longrightarrow> 0 \<le> p \<and> p < links s \<and> link_req_queues s ! nat p \<noteq> []"
  shows "\<exists>s'. res_fold drain_link q s = Inr s' \<and> hmc_mid R s' \<and> hmc_resps s' = hmc_resps s \<and> hmc_frame s s' \<and> hmc_base s' = hmc_base s"
  using assms
proof (induction q arbitrary: s)
  case (Cons p q)
  obtain s1 where s1: "drain_link p s = Inr s1" "hmc_mid R s1" "hmc_resps s1 = hmc_resps s" "hmc_frame s s1" "hmc_base s1 = hmc_base s"
    "\<forall>j. j \<noteq> nat p \<longrightarrow> link_req_queues s1 ! j = link_req_queues s ! j"
    using drain_link_ok [of R s p] Cons.prems(1,3) by auto
  have "0 \<le> x \<and> x < links s1 \<and> link_req_queues s1 ! nat x \<noteq> []" if "x \<in> set q" for x
  proof -
    have "nat x \<noteq> nat p" using that Cons.prems(3) [of x] Cons.prems(3) [of p] Cons.prems(2) by (auto simp: eq_nat_nat_iff)
    then show ?thesis using Cons.prems(3) [of x] that s1(4,6) by (simp add: hmc_frame_def)
  qed
  from Cons.IH [OF s1(2) _ this] Cons.prems(2) obtain s2 where
    "res_fold drain_link q s1 = Inr s2" "hmc_mid R s2" "hmc_resps s2 = hmc_resps s1" "hmc_frame s1 s2" "hmc_base s2 = hmc_base s1" by auto
  then show ?case using s1 hmc_frame_trans [OF s1(4)] by auto
qed simp

text \<open>The invariant between the phases of a tick.\<close>

definition hmc_wf :: "'s HMCMemorySystem \<Rightarrow> bool" where
  "hmc_wf s \<longleftrightarrow> sys_cfg_ok (sys_config (hmc_base s)) \<and> chan_ok (sys_config (hmc_base s)) \<and> sys_wf (hmc_base s) \<and> hmc_mid (vault_addrs s) s"

lemma hmc_wf_base: "hmc_wf s \<Longrightarrow> hmc_mid (vault_addrs s) s' \<Longrightarrow> hmc_base s' = hmc_base s \<Longrightarrow> hmc_wf s'"
  by (simp add: hmc_wf_def vault_addrs_def)

lemma vault_insert:
  assumes "sys_wf b" and "i < length (ctrls b)"
  shows "sys_wf (b\<lparr>ctrls := (ctrls b)[i := snd (ctrl_AddTransaction (mk_Transaction a w) (ctrls b ! i))]\<rparr>)"
    and "sys_outstanding (b\<lparr>ctrls := (ctrls b)[i := snd (ctrl_AddTransaction (mk_Transaction a w) (ctrls b ! i))]\<rparr>) =
      add_mset (w, a) (sys_outstanding b)"
proof -
  let ?c = "ctrls b ! i" and ?t = "mk_Transaction a w"
  have c: "ctrl_wf (sys_config b) ?c" "ctrl_clk ?c = sys_clk b" using assms by (simp_all add: sys_wf_def)
  show "sys_wf (b\<lparr>ctrls := (ctrls b)[i := snd (ctrl_AddTransaction ?t ?c)]\<rparr>)"
    using assms AddTransaction_wf(1,5) [OF c(1), of ?t] c(2)
    by (auto simp: sys_wf_def dest!: set_update_subset_insert [THEN subsetD])
  show "sys_outstanding (b\<lparr>ctrls := (ctrls b)[i := snd (ctrl_AddTransaction ?t ?c)]\<rparr>) = add_mset (w, a) (sys_outstanding b)"
    using sum_list_upd_mset [of i "ctrls b" outstanding _ "(w, a)"] outstanding_add [OF c(1), of ?t] assms(2)
    by (simp add: sys_outstanding_def trans_event_def mk_Transaction_def)
qed

lemma drain_quad_ok:
  assumes inv: "hmc_wf s" and i: "0 \<le> i" "i < 4"
  shows "\<exists>s'. drain_quad i s = Inr s' \<and> hmc_wf s' \<and> hmc_resps s' = hmc_resps s \<and> hmc_frame s s' \<and> sys_clk (hmc_base s') = sys_clk (hmc_base s)"
proof -
  let ?b = "hmc_base s"
  have mid: "hmc_mid (vault_addrs s) s" and wf: "sys_wf ?b" using inv by (simp_all add: hmc_wf_def)
  note sh = hmc_midD(1) [OF mid, unfolded hmc_shape_def]
  have ni: "nat i < 4" using i by simp
  show ?thesis
  proof (cases "quad_req_queues s ! nat i")
    case Nil
    then show ?thesis using inv sh i by (intro exI [of _ s]) (simp add: drain_quad_def vget_def)
  next
    case (Cons r rest)
    have rm: "mset (concat (quad_req_queues s)) = add_mset r (mset (concat ((quad_req_queues s)[nat i := rest])))"
      by (rule mset_concat_pop) (use sh ni Cons in auto)
    then have "r \<in># hmc_reqs s" by (simp add: hmc_reqs_def)
    then have r: "req_ok (channels (sys_config ?b)) r" using hmc_midD(2) [OF mid] by (simp add: hmc_packets_def)
    then have v: "0 \<le> req_vault r" "req_vault r < int (length (ctrls ?b))" using wf by (auto simp: req_ok_def sys_wf_def)
    let ?c = "ctrls ?b ! nat (req_vault r)"
    show ?thesis
    proof (cases "length (quad_resp_queues s ! nat i) < queue_depth s \<and> req_exit_time r \<le> logic_clk s \<and>
        ctrl_WillAcceptTransaction ?c (mem_operand r) (req_is_write r)")
      case True
      let ?b' = "?b\<lparr>ctrls := (ctrls ?b)[nat (req_vault r) := snd (ctrl_AddTransaction (mk_Transaction (mem_operand r) (req_is_write r)) ?c)]\<rparr>"
      let ?s = "s\<lparr>hmc_base := ?b', quad_req_queues := (quad_req_queues s)[nat i := rest]\<rparr>"
      have vl: "nat (req_vault r) < length (ctrls ?b)" using v by simp
      note ins = vault_insert [OF wf vl, of "mem_operand r" "req_is_write r"]
      have d: "drain_quad i s = Inr ?s"
        using True Cons sh i v by (simp add: drain_quad_def InsertReqToDRAM_def vget_def vset_def vupd_def)
      have reqs: "hmc_reqs s = add_mset r (hmc_reqs ?s)" by (simp add: hmc_reqs_def rm)
      have va: "vault_addrs ?s = add_mset (mem_operand r) (vault_addrs s)" using ins(2) by (simp add: vault_addrs_def)
      have resps: "hmc_resps ?s = hmc_resps s" by (simp add: hmc_resps_def)
      have "hmc_packets ?s" using hmc_midD(2) [OF mid] reqs resps by (simp add: hmc_packets_def)
      moreover have "hmc_shape ?s" using sh by (simp add: hmc_shape_def)
      ultimately have "hmc_mid (vault_addrs ?s) ?s" using mid va reqs by (simp add: hmc_mid_def)
      then have "hmc_wf ?s" using inv ins(1) by (simp add: hmc_wf_def)
      then show ?thesis using d resps by (intro exI [of _ ?s]) (simp add: hmc_frame_def sys_frame_def)
    next
      case False
      then have "drain_quad i s = Inr s" using Cons sh i v by (auto simp: drain_quad_def vget_def)
      then show ?thesis using inv by (intro exI [of _ s]) simp
    qed
  qed
qed

lemma DrainRequests_ok:
  assumes inv: "hmc_wf s"
  obtains s' where "DrainRequests s = Inr s'" and "hmc_wf s'" and "hmc_resps s' = hmc_resps s" and "hmc_frame s s'"
    and "sys_clk (hmc_base s') = sys_clk (hmc_base s)"
proof -
  let ?P = "\<lambda>t. hmc_wf t \<and> hmc_resps t = hmc_resps s \<and> hmc_frame s t \<and> sys_clk (hmc_base t) = sys_clk (hmc_base s)"
  have "\<exists>s1. res_fold drain_quad (irange 4) s = Inr s1 \<and> ?P s1"
  proof (rule res_fold_ok [where P = ?P])
    fix i t assume i: "i \<in> set (irange 4)" and t: "?P t"
    then obtain t' where "drain_quad i t = Inr t'" "hmc_wf t'" "hmc_resps t' = hmc_resps t" "hmc_frame t t'" "sys_clk (hmc_base t') = sys_clk (hmc_base t)"
      using drain_quad_ok [of t i] by auto
    then show "\<exists>t'. drain_quad i t = Inr t' \<and> ?P t'" using t hmc_frame_trans [of s t t'] by auto
  qed (use inv in simp)
  then obtain s1 where s1: "res_fold drain_quad (irange 4) s = Inr s1" "?P s1" by blast
  let ?s = "s1\<lparr>quad_busy := drain_busy (quad_busy s1)\<rparr>"
  have wf1: "hmc_wf ?s" using s1(2)
    by (simp add: hmc_wf_def hmc_mid_def hmc_shape_def hmc_packets_def vault_addrs_def drain_busy_def)
  then have mid: "hmc_mid (vault_addrs ?s) ?s" by (simp add: hmc_wf_def)
  note sh = hmc_midD(1) [OF mid, unfolded hmc_shape_def]
  have "link_age_counter ?s \<noteq> []" using sh by auto
  then obtain q where q: "BuildAgeQueue ?s (link_age_counter ?s) = Inr q" "distinct q"
    "\<And>p. p \<in> set q \<Longrightarrow> 0 \<le> p \<and> p < int (length (link_age_counter ?s)) \<and> 0 < link_age_counter ?s ! nat p" by (rule BuildAgeQueue_ok) blast
  have "0 \<le> p \<and> p < links ?s \<and> link_req_queues ?s ! nat p \<noteq> []" if "p \<in> set q" for p
    using q(3) [OF that] hmc_midD(3) [OF mid] sh by (auto simp: ages_ok_def)
  from drain_links_ok [OF mid q(2) this] obtain s2 where s2: "res_fold drain_link q ?s = Inr s2" "hmc_mid (vault_addrs ?s) s2"
    "hmc_resps s2 = hmc_resps ?s" "hmc_frame ?s s2" "hmc_base s2 = hmc_base ?s" by auto
  have "DrainRequests s = Inr s2" using s1(1) q(1) s2(1) by (simp add: DrainRequests_def Let_def)
  moreover have "hmc_wf s2" by (rule hmc_wf_base [OF wf1 s2(2,5)])
  moreover have "hmc_resps s2 = hmc_resps s" using s2(3) s1(2) by (simp add: hmc_resps_def)
  moreover have "hmc_frame s s2" using s1(2) s2(4) by (simp add: hmc_frame_def sys_frame_def)
  ultimately show thesis using s1(2) s2(5) that by simp
qed

section \<open>Responses\<close>

lemma drain_quad_resp_ok:
  assumes inv: "hmc_mid R s" and p: "0 \<le> p" "p < 4" and ne: "quad_resp_queues s ! nat p \<noteq> []"
  shows "\<exists>s'. drain_quad_resp p s = Inr s' \<and> hmc_mid R s' \<and> hmc_outs s' = hmc_outs s \<and> hmc_frame s s' \<and> hmc_base s' = hmc_base s \<and>
    (\<forall>j. j \<noteq> nat p \<longrightarrow> quad_resp_queues s' ! j = quad_resp_queues s ! j)"
proof -
  note sh = hmc_midD(1) [OF inv, unfolded hmc_shape_def]
  obtain r rest where q: "quad_resp_queues s ! nat p = r # rest" using ne by (cases "quad_resp_queues s ! nat p") auto
  have np: "nat p < 4" using p by simp
  have rm: "mset (concat (quad_resp_queues s)) = add_mset r (mset (concat ((quad_resp_queues s)[nat p := rest])))"
    by (rule mset_concat_pop) (use sh np q in auto)
  then have "r \<in># hmc_resps s" by (simp add: hmc_resps_def)
  then have r: "resp_ok (links s) r" using hmc_midD(2) [OF inv] by (simp add: hmc_packets_def)
  then have nl: "0 \<le> resp_link r" "resp_link r < links s" "nat (resp_link r) < nat (links s)" by (auto simp: resp_ok_def)
  let ?lq = "link_resp_queues s ! nat (resp_link r)"
  show ?thesis
  proof (cases "length ?lq < queue_depth s \<and> link_busy s ! nat (resp_link r) \<le> 0")
    case True
    let ?r = "r\<lparr>resp_exit_time := logic_clk s + of_int (resp_flits r)\<rparr>"
    let ?s = "s\<lparr>quad_resp_queues := (quad_resp_queues s)[nat p := rest],
      link_resp_queues := (link_resp_queues s)[nat (resp_link r) := ?lq @ [?r]],
      link_busy := (link_busy s)[nat (resp_link r) := resp_flits r],
      quad_age_counter := (quad_age_counter s)[nat p := if rest = [] then 0 else 1]\<rparr>"
    have d: "drain_quad_resp p s = Inr ?s" using True q sh p nl by (simp add: drain_quad_resp_def vget_def vset_def Let_def)
    have "mset (concat ((link_resp_queues s)[nat (resp_link r) := ?lq @ [?r]])) = add_mset ?r (mset (concat (link_resp_queues s)))"
      by (rule mset_concat_push) (use sh nl in simp)
    then have resps: "add_mset r (hmc_resps ?s) = add_mset ?r (hmc_resps s)" by (simp add: hmc_resps_def rm add_mset_commute)
    have "image_mset resp_event (add_mset r (hmc_resps ?s)) = image_mset resp_event (add_mset ?r (hmc_resps s))" by (simp only: resps)
    then have outs: "hmc_outs ?s = hmc_outs s" by (simp add: hmc_outs_def)
    have "set_mset (hmc_resps ?s) \<subseteq> insert ?r (set_mset (hmc_resps s))"
      using arg_cong [OF resps, of set_mset] by (simp only: set_mset_add_mset_insert) blast
    then have "\<forall>x\<in>#hmc_resps ?s. resp_ok (links s) x"
      using hmc_midD(2) [OF inv] r resp_ok_exit unfolding hmc_packets_def by blast
    moreover have reqs: "hmc_reqs ?s = hmc_reqs s" by (simp add: hmc_reqs_def)
    ultimately have "hmc_packets ?s" using hmc_midD(2) [OF inv] by (simp add: hmc_packets_def)
    moreover have "ages_ok ((quad_age_counter s)[nat p := if rest = [] then 0 else 1]) ((quad_resp_queues s)[nat p := rest])"
      by (rule ages_upd [OF hmc_midD(4) [OF inv]]) (use sh np in auto)
    moreover have "hmc_shape ?s" using sh by (simp add: hmc_shape_def)
    ultimately have "hmc_mid R ?s" using inv reqs by (simp add: hmc_mid_def)
    then show ?thesis using d outs by (intro exI [of _ ?s]) (simp add: hmc_frame_def sys_frame_def)
  next
    case False
    let ?s = "s\<lparr>quad_age_counter := (quad_age_counter s)[nat p := quad_age_counter s ! nat p + 1]\<rparr>"
    have "drain_quad_resp p s = Inr ?s" using False q sh p nl by (auto simp: drain_quad_resp_def vget_def vset_def vupd_def Let_def)
    moreover have "0 < quad_age_counter s ! nat p" using hmc_midD(4) [OF inv] ne sh np by (simp add: ages_ok_def)
    then have "ages_ok (quad_age_counter ?s) (quad_resp_queues ?s)"
      using ages_upd_age [OF hmc_midD(4) [OF inv], of "nat p" "quad_age_counter s ! nat p + 1"] sh np ne by simp
    then have "hmc_mid R ?s" using inv by (simp add: hmc_mid_def hmc_shape_def hmc_packets_def)
    ultimately show ?thesis by (intro exI [of _ ?s]) (simp add: hmc_outs_def hmc_frame_def sys_frame_def)
  qed
qed

lemma drain_quad_resps_ok:
  assumes "hmc_mid R s" and "distinct q" and "\<And>p. p \<in> set q \<Longrightarrow> 0 \<le> p \<and> p < 4 \<and> quad_resp_queues s ! nat p \<noteq> []"
  shows "\<exists>s'. res_fold drain_quad_resp q s = Inr s' \<and> hmc_mid R s' \<and> hmc_outs s' = hmc_outs s \<and> hmc_frame s s' \<and> hmc_base s' = hmc_base s"
  using assms
proof (induction q arbitrary: s)
  case (Cons p q)
  obtain s1 where s1: "drain_quad_resp p s = Inr s1" "hmc_mid R s1" "hmc_outs s1 = hmc_outs s" "hmc_frame s s1" "hmc_base s1 = hmc_base s"
    "\<forall>j. j \<noteq> nat p \<longrightarrow> quad_resp_queues s1 ! j = quad_resp_queues s ! j"
    using drain_quad_resp_ok [of R s p] Cons.prems(1,3) by auto
  have "0 \<le> x \<and> x < 4 \<and> quad_resp_queues s1 ! nat x \<noteq> []" if "x \<in> set q" for x
  proof -
    have "nat x \<noteq> nat p" using that Cons.prems(3) [of x] Cons.prems(3) [of p] Cons.prems(2) by (auto simp: eq_nat_nat_iff)
    then show ?thesis using Cons.prems(3) [of x] that s1(6) by simp
  qed
  from Cons.IH [OF s1(2) _ this] Cons.prems(2) obtain s2 where
    "res_fold drain_quad_resp q s1 = Inr s2" "hmc_mid R s2" "hmc_outs s2 = hmc_outs s1" "hmc_frame s1 s2" "hmc_base s2 = hmc_base s1" by auto
  then show ?case using s1 hmc_frame_trans [OF s1(4)] by auto
qed simp

text \<open>The answers that leave through the links in a cycle of the logic die.\<close>

fun resp_due :: "u64 \<Rightarrow> HMCResponse list \<Rightarrow> event list" where
  "resp_due clk [] = []"
| "resp_due clk (r # rest) = (if resp_exit_time r \<le> clk then [resp_event r] else [])"

fun resp_pop :: "u64 \<Rightarrow> HMCResponse list \<Rightarrow> HMCResponse list" where
  "resp_pop clk [] = []"
| "resp_pop clk (r # rest) = (if resp_exit_time r \<le> clk then rest else r # rest)"

definition resp_events :: "'s HMCMemorySystem \<Rightarrow> event list" where
  "resp_events s = concat (map (resp_due (logic_clk s)) (link_resp_queues s))"

lemma respond_prefix:
  assumes "k \<le> length (link_resp_queues s)"
  shows "res_fold respond (map int [0..<k]) (s, u) =
    res_bind (res_fold (sys_call (hmc_base s)) (concat (map (resp_due (logic_clk s)) (take k (link_resp_queues s)))) u) (\<lambda>u'.
      Inr (s\<lparr>link_resp_queues := map (resp_pop (logic_clk s)) (take k (link_resp_queues s)) @ drop k (link_resp_queues s)\<rparr>, u'))"
  using assms
proof (induction k)
  case (Suc k)
  let ?qs = "link_resp_queues s" and ?k = "logic_clk s"
  let ?s = "s\<lparr>link_resp_queues := map (resp_pop ?k) (take k ?qs) @ drop k ?qs\<rparr>"
  let ?t = "s\<lparr>link_resp_queues := map (resp_pop ?k) (take (Suc k) ?qs) @ drop (Suc k) ?qs\<rparr>"
  have k: "k < length ?qs" using Suc.prems by simp
  have nth: "(map (resp_pop ?k) (take k ?qs) @ drop k ?qs) ! k = ?qs ! k" using k by (simp add: nth_append)
  have upd: "(map (resp_pop ?k) (take k ?qs) @ drop k ?qs)[k := resp_pop ?k (?qs ! k)] = map (resp_pop ?k) (take (Suc k) ?qs) @ drop (Suc k) ?qs"
    using k by (simp add: list_update_append take_Suc_conv_app_nth flip: Cons_nth_drop_Suc [OF k])
  have tk: "take (Suc k) ?qs = take k ?qs @ [?qs ! k]" using k by (rule take_Suc_conv_app_nth)
  have step: "respond (int k) (?s, v) = res_bind (res_fold (sys_call (hmc_base s)) (resp_due ?k (?qs ! k)) v) (\<lambda>u'. Inr (?t, u'))" for v
  proof (cases "?qs ! k")
    case Nil
    then have "(map (resp_pop ?k) (take k ?qs) @ drop k ?qs) = map (resp_pop ?k) (take (Suc k) ?qs) @ drop (Suc k) ?qs"
      using upd nth by (metis list_update_id resp_pop.simps(1))
    then show ?thesis using Nil k nth by (simp add: respond_def vget_def)
  next
    case (Cons r rest)
    show ?thesis
    proof (cases "resp_exit_time r \<le> ?k")
      case True
      then show ?thesis using Cons k nth upd
        by (cases "sys_call (hmc_base s) (resp_event r) v")
          (simp_all add: respond_def vget_def vset_def sys_call_def call_event_def resp_event_def split: if_splits)
    next
      case False
      then have "(map (resp_pop ?k) (take k ?qs) @ drop k ?qs) = map (resp_pop ?k) (take (Suc k) ?qs) @ drop (Suc k) ?qs"
        using upd nth Cons by (metis list_update_id resp_pop.simps(2))
      then show ?thesis using False Cons k nth by (simp add: respond_def vget_def)
    qed
  qed
  show ?case using Suc k
    by (cases "res_fold (sys_call (hmc_base s)) (concat (map (resp_due ?k) (take k ?qs))) u") (simp_all add: tk step)
qed simp

lemma resp_pop_outs:
  "image_mset resp_event (mset (concat qs)) = mset (concat (map (resp_due clk) qs)) + image_mset resp_event (mset (concat (map (resp_pop clk) qs)))"
proof (induction qs)
  case (Cons q qs)
  then show ?case by (cases q) (auto simp: ac_simps)
qed simp

lemma resp_pop_subset: "set (resp_pop clk q) \<subseteq> set q"
  by (cases q) auto

text \<open>\<^verbatim>\<open>DrainResponses\<close> without its callbacks.\<close>

definition drain_state :: "'s HMCMemorySystem \<Rightarrow> 's HMCMemorySystem res" where
  "drain_state s =
     (let s2 = s\<lparr>link_resp_queues := map (resp_pop (logic_clk s)) (link_resp_queues s), link_busy := drain_busy (link_busy s)\<rparr>
      in res_bind (BuildAgeQueue s2 (quad_age_counter s2)) (\<lambda>q. res_fold drain_quad_resp q s2))"

lemma DrainResponses_ok:
  assumes inv: "hmc_wf s"
  obtains s' where "drain_state s = Inr s'" and "\<And>u. DrainResponses s u = res_bind (res_fold (sys_call (hmc_base s)) (resp_events s) u) (\<lambda>u'. Inr (s', u'))"
    and "hmc_wf s'" and "hmc_outs s = mset (resp_events s) + hmc_outs s'" and "hmc_frame s s'" and "hmc_base s' = hmc_base s"
proof -
  have mid: "hmc_mid (vault_addrs s) s" using inv by (simp add: hmc_wf_def)
  note sh = hmc_midD(1) [OF mid, unfolded hmc_shape_def]
  let ?qs = "link_resp_queues s" and ?k = "logic_clk s"
  let ?s1 = "s\<lparr>link_resp_queues := map (resp_pop ?k) ?qs\<rparr>"
  have 1: "res_fold respond (irange (links s)) (s, u) = res_bind (res_fold (sys_call (hmc_base s)) (resp_events s) u) (\<lambda>u'. Inr (?s1, u'))" for u
    using respond_prefix [of "length ?qs" s u] sh by (simp add: irange_def resp_events_def)
  let ?s2 = "s\<lparr>link_resp_queues := map (resp_pop ?k) ?qs, link_busy := drain_busy (link_busy s)\<rparr>"
  have "set_mset (hmc_resps ?s2) \<subseteq> set_mset (hmc_resps s)"
    using resp_pop_subset by (fastforce simp: hmc_resps_def)
  then have "hmc_packets ?s2" using hmc_midD(2) [OF mid] by (auto simp: hmc_packets_def hmc_reqs_def)
  then have mid2: "hmc_mid (vault_addrs s) ?s2" using mid by (simp add: hmc_mid_def hmc_shape_def drain_busy_def hmc_reqs_def)
  have outs2: "hmc_outs s = mset (resp_events s) + hmc_outs ?s2"
    using resp_pop_outs [of ?qs ?k] by (simp add: hmc_outs_def hmc_resps_def resp_events_def ac_simps)
  have "quad_age_counter ?s2 \<noteq> []" using sh by auto
  then obtain q where q: "BuildAgeQueue ?s2 (quad_age_counter ?s2) = Inr q" "distinct q"
    "\<And>p. p \<in> set q \<Longrightarrow> 0 \<le> p \<and> p < int (length (quad_age_counter ?s2)) \<and> 0 < quad_age_counter ?s2 ! nat p" by (rule BuildAgeQueue_ok) blast
  have "0 \<le> p \<and> p < 4 \<and> quad_resp_queues ?s2 ! nat p \<noteq> []" if "p \<in> set q" for p
    using q(3) [OF that] hmc_midD(4) [OF mid] sh by (auto simp: ages_ok_def)
  from drain_quad_resps_ok [OF mid2 q(2) this] obtain s3 where s3: "res_fold drain_quad_resp q ?s2 = Inr s3" "hmc_mid (vault_addrs s) s3"
    "hmc_outs s3 = hmc_outs ?s2" "hmc_frame ?s2 s3" "hmc_base s3 = hmc_base ?s2" by auto
  have "DrainResponses s u = res_bind (res_fold (sys_call (hmc_base s)) (resp_events s) u) (\<lambda>u'. Inr (s3, u'))" for u
    using q(1) s3(1) by (cases "res_fold (sys_call (hmc_base s)) (resp_events s) u") (simp_all add: DrainResponses_def 1 Let_def)
  moreover have "hmc_wf s3" by (rule hmc_wf_base [OF inv s3(2)]) (use s3(5) in simp)
  moreover have "hmc_frame s s3" using s3(4) by (simp add: hmc_frame_def sys_frame_def)
  moreover have "drain_state s = Inr s3" using q(1) s3(1) by (simp add: drain_state_def Let_def)
  ultimately show thesis using that outs2 s3(3,5) by simp
qed

section \<open>The vaults\<close>

lemma VaultCallback_ok:
  assumes inv: "hmc_mid (add_mset a R) s"
  shows "\<exists>s'. VaultCallback a s = Inr s' \<and> hmc_mid R s' \<and> hmc_outs s' = hmc_outs s \<and> hmc_frame s s' \<and> hmc_base s' = hmc_base s"
proof -
  note sh = hmc_midD(1) [OF inv, unfolded hmc_shape_def]
  let ?tb = "resp_lookup_table s"
  have key: "a \<in># mm_keys ?tb" using hmc_midD(5) [OF inv] by simp
  then obtain r where find: "mm_find a ?tb = Some r" using mm_find_None [of a ?tb] by auto
  then have mem: "(a, r) \<in> set ?tb" by (simp add: mm_find_def map_of_SomeD)
  then have "r \<in># hmc_resps s" by (force simp: hmc_resps_def)
  then have r: "resp_ok (links s) r" using hmc_midD(2) [OF inv] by (simp add: hmc_packets_def)
  then have nq: "0 \<le> resp_quad r" "resp_quad r < 4" "nat (resp_quad r) < 4" by (auto simp: resp_ok_def)
  let ?q = "quad_resp_queues s ! nat (resp_quad r)"
  let ?s = "s\<lparr>resp_lookup_table := mm_erase_first a ?tb, quad_resp_queues := (quad_resp_queues s)[nat (resp_quad r) := ?q @ [r]],
    quad_age_counter := (quad_age_counter s)[nat (resp_quad r) := 1]\<rparr>"
  have cb: "VaultCallback a s = Inr ?s" using find sh nq by (simp add: VaultCallback_def vupd_def vget_def vset_def)
  have "mset ?tb = add_mset (a, r) (mset (mm_erase_first a ?tb))" using mset_mm_erase_first [OF find] mem by simp
  moreover have "mset (concat ((quad_resp_queues s)[nat (resp_quad r) := ?q @ [r]])) = add_mset r (mset (concat (quad_resp_queues s)))"
    by (rule mset_concat_push) (use sh nq in simp)
  ultimately have resps: "hmc_resps ?s = hmc_resps s" by (simp add: hmc_resps_def)
  have reqs: "hmc_reqs ?s = hmc_reqs s" by (simp add: hmc_reqs_def)
  have "\<forall>e\<in>set (mm_erase_first a ?tb). fst e = resp_id (snd e)" using hmc_midD(2) [OF inv] mm_erase_first_subset [of a ?tb] unfolding hmc_packets_def by blast
  then have "hmc_packets ?s" using hmc_midD(2) [OF inv] resps reqs by (simp add: hmc_packets_def)
  moreover have "ages_ok (quad_age_counter ?s) (quad_resp_queues ?s)"
    using ages_upd [OF hmc_midD(4) [OF inv], of "nat (resp_quad r)" 1 "?q @ [r]"] sh nq by simp
  moreover have "hmc_shape ?s" using sh by (simp add: hmc_shape_def)
  moreover have "mm_keys (mm_erase_first a ?tb) = image_mset mem_operand (hmc_reqs ?s) + R"
    using mm_keys_erase_first [OF key] hmc_midD(5) [OF inv] reqs by simp
  ultimately have "hmc_mid R ?s" using inv by (simp add: hmc_mid_def)
  then show ?thesis using cb resps by (intro exI [of _ ?s]) (simp add: hmc_outs_def hmc_frame_def sys_frame_def)
qed

lemma VaultCallbacks_ok:
  assumes "hmc_mid (image_mset snd (mset evs) + R) s"
  shows "\<exists>s'. res_fold (call_event VaultCallback VaultCallback) evs s = Inr s' \<and> hmc_mid R s' \<and> hmc_outs s' = hmc_outs s \<and> hmc_frame s s' \<and> hmc_base s' = hmc_base s"
  using assms
proof (induction evs arbitrary: s)
  case (Cons e evs)
  have c: "call_event VaultCallback VaultCallback e = VaultCallback (snd e)" by (simp add: call_event_def fun_eq_iff)
  obtain s1 where s1: "VaultCallback (snd e) s = Inr s1" "hmc_mid (image_mset snd (mset evs) + R) s1" "hmc_outs s1 = hmc_outs s"
    "hmc_frame s s1" "hmc_base s1 = hmc_base s" using VaultCallback_ok [of "snd e" "image_mset snd (mset evs) + R" s] Cons.prems by auto
  from Cons.IH [OF s1(2)] show ?case using s1 hmc_frame_trans [OF s1(4)] by (auto simp: c)
qed simp

text \<open>The vaults with their callback are a memory system of their own, whose client is the cube.\<close>

definition vault_sys :: "'s HMCMemorySystem \<Rightarrow> 's HMCMemorySystem BaseDRAMSystem" where
  "vault_sys s = \<lparr>read_callback = VaultCallback, write_callback = VaultCallback, total_channels = total_channels (hmc_base s),
     ctrls = ctrls (hmc_base s), last_req_clk = last_req_clk (hmc_base s), sys_config = sys_config (hmc_base s),
     sys_timing = sys_timing (hmc_base s), sys_clk = sys_clk (hmc_base s)\<rparr>"

lemma vault_sys_simps [simp]:
  "ctrls (vault_sys s) = ctrls (hmc_base s)" "sys_config (vault_sys s) = sys_config (hmc_base s)" "sys_clk (vault_sys s) = sys_clk (hmc_base s)"
  "sys_wf (vault_sys s) = sys_wf (hmc_base s)" "sys_may_tick (vault_sys s) = sys_may_tick (hmc_base s)"
  "sys_outstanding (vault_sys s) = sys_outstanding (hmc_base s)" "sys_call (vault_sys s) = call_event VaultCallback VaultCallback"
  by (simp_all add: vault_sys_def sys_wf_def sys_may_tick_def sys_outstanding_def sys_call_def)

lemma DRAMClockTick_vault:
  assumes "jedec_ClockTick (vault_sys s) s = Inr (v, s1)" and "hmc_base s1 = hmc_base s"
  shows "DRAMClockTick s = Inr (s1\<lparr>hmc_base := (hmc_base s)\<lparr>ctrls := ctrls v, sys_clk := sys_clk v\<rparr>\<rparr>)"
proof -
  let ?b = "hmc_base s"
  let ?e = "(sys_clk ?b + 1) mod of_int (epoch_period (sys_config ?b)) = 0"
  have "\<exists>cs cs'. res_map_state (return_loop VaultCallback VaultCallback (sys_clk ?b)) (ctrls ?b) s = Inr (cs, s1) \<and>
      res_map (ctrl_ClockTick (sys_config ?b) (sys_timing ?b)) cs = Inr cs' \<and> (of_int (epoch_period (sys_config ?b)) :: u64) \<noteq> 0 \<and> sys_clk v = sys_clk ?b + 1 \<and>
      (if ?e then res_map (ctrl_PrintEpochStats (sys_config ?b)) cs' = Inr (ctrls v) else ctrls v = cs')"
    using assms(1) by (auto simp: jedec_ClockTick_def vault_sys_def res_simps Let_def sys_PrintEpochStats_def split: if_splits)
  then obtain cs cs' where c: "res_map_state (return_loop VaultCallback VaultCallback (sys_clk ?b)) (ctrls ?b) s = Inr (cs, s1)"
      "res_map (ctrl_ClockTick (sys_config ?b) (sys_timing ?b)) cs = Inr cs'" "(of_int (epoch_period (sys_config ?b)) :: u64) \<noteq> 0" "sys_clk v = sys_clk ?b + 1"
    and e: "if ?e then res_map (ctrl_PrintEpochStats (sys_config ?b)) cs' = Inr (ctrls v) else ctrls v = cs'" by blast
  show ?thesis
  proof (cases ?e)
    case True
    then have "res_map (ctrl_PrintEpochStats (sys_config ?b)) cs' = Inr (ctrls v)" using e by (simp only: if_True)
    then show ?thesis by (simp add: DRAMClockTick_def Let_def sys_PrintEpochStats_def assms(2) c True)
  next
    case False
    then have "ctrls v = cs'" using e by (simp only: if_False)
    then show ?thesis by (simp add: DRAMClockTick_def Let_def assms(2) c False)
  qed
qed

lemma DRAMClockTick_ok:
  assumes inv: "hmc_wf s" and t: "sys_may_tick (hmc_base s)"
  obtains s' where "DRAMClockTick s = Inr s'" and "hmc_wf s'" and "hmc_outs s' = hmc_outs s" and "hmc_frame s s'"
    and "sys_clk (hmc_base s') = sys_clk (hmc_base s) + 1"
proof -
  have ok: "sys_cfg_ok (sys_config (vault_sys s))" "sys_wf (vault_sys s)" "sys_may_tick (vault_sys s)" and mid: "hmc_mid (vault_addrs s) s"
    using inv t by (simp_all add: hmc_wf_def)
  obtain v where v: "\<forall>u. jedec_ClockTick (vault_sys s) u = res_bind (res_fold (sys_call (vault_sys s)) (sys_events (vault_sys s)) u) (\<lambda>u'. Inr (v, u'))"
    "sys_wf v" "sys_frame (vault_sys s) v" "sys_clk v = sys_clk (vault_sys s) + 1"
    "sys_outstanding (vault_sys s) = mset (sys_events (vault_sys s)) + sys_outstanding v"
    by (rule jedec_ClockTick_spec [OF ok])
  let ?R = "image_mset snd (sys_outstanding v)"
  have "vault_addrs s = image_mset snd (mset (sys_events (vault_sys s))) + ?R" using v(5) by (simp add: vault_addrs_def)
  then obtain s1 where s1: "res_fold (sys_call (vault_sys s)) (sys_events (vault_sys s)) s = Inr s1" "hmc_mid ?R s1" "hmc_outs s1 = hmc_outs s"
    "hmc_frame s s1" "hmc_base s1 = hmc_base s" using VaultCallbacks_ok [of "sys_events (vault_sys s)" ?R s] mid by auto
  let ?b = "(hmc_base s)\<lparr>ctrls := ctrls v, sys_clk := sys_clk v\<rparr>"
  let ?s = "s1\<lparr>hmc_base := ?b\<rparr>"
  have "DRAMClockTick s = Inr ?s" by (rule DRAMClockTick_vault) (use v(1) s1 in simp_all)
  moreover have "sys_config v = sys_config (hmc_base s)" using v(3) by (simp add: sys_frame_def)
  then have "sys_wf ?b" using v(2) inv by (simp add: sys_wf_def hmc_wf_def)
  moreover have "vault_addrs ?s = ?R" by (simp add: vault_addrs_def sys_outstanding_def)
  moreover have "hmc_mid ?R ?s" using s1(2,5) by (simp add: hmc_mid_def hmc_shape_def hmc_packets_def)
  ultimately show thesis using inv s1(3-5) v(4)
    by (intro that [of ?s]) (simp_all add: hmc_wf_def hmc_outs_def hmc_frame_def sys_frame_def)
qed

section \<open>A tick\<close>

definition hmc_kept :: "'s HMCMemorySystem \<Rightarrow> 's HMCMemorySystem \<Rightarrow> bool" where
  "hmc_kept s s' \<longleftrightarrow> links s' = links s \<and> queue_depth s' = queue_depth s \<and> dram_ps s' = dram_ps s \<and>
     ps_per_dram s' = ps_per_dram s \<and> ps_per_logic s' = ps_per_logic s \<and> sys_frame (hmc_base s) (hmc_base s')"

lemma hmc_kept_call: "hmc_kept s s' \<Longrightarrow> sys_call (hmc_base s') = sys_call (hmc_base s)"
  by (simp add: hmc_kept_def sys_frame_def sys_call_def)

lemma hmc_wf_logic_step: "hmc_wf (logic_step s) = hmc_wf s" "hmc_outs (logic_step s) = hmc_outs s"
  by (simp_all add: logic_step_def hmc_wf_def hmc_mid_def hmc_shape_def hmc_packets_def hmc_reqs_def hmc_resps_def hmc_outs_def vault_addrs_def)

text \<open>The events of the cycles of the logic die within one cycle of the vaults.\<close>

fun logic_events :: "nat \<Rightarrow> 's HMCMemorySystem \<Rightarrow> event list" where
  "logic_events 0 s = []"
| "logic_events (Suc n) s =
     (if logic_ps s < dram_ps s + ps_per_dram s then
        resp_events s @ (case res_bind (drain_state s) DrainRequests of Inr s2 \<Rightarrow> logic_events n (logic_step s2) | Inl e \<Rightarrow> [])
      else [])"

lemma logic_loop_ok:
  assumes "hmc_wf s" and "0 < ps_per_logic s" and "unat (dram_ps s) + unat (ps_per_dram s) + unat (ps_per_logic s) < 2 ^ 64"
    and "unat (dram_ps s) + unat (ps_per_dram s) \<le> unat (logic_ps s) + n"
    and "unat (logic_ps s) < unat (dram_ps s) + unat (ps_per_dram s) + unat (ps_per_logic s)"
  shows "\<exists>s'. (\<forall>u. logic_loop n s u = res_bind (res_fold (sys_call (hmc_base s)) (logic_events n s) u) (\<lambda>u'. Inr (s', u'))) \<and>
    hmc_wf s' \<and> hmc_kept s s' \<and> hmc_outs s = mset (logic_events n s) + hmc_outs s' \<and>
    unat (dram_ps s) + unat (ps_per_dram s) \<le> unat (logic_ps s') \<and>
    unat (logic_ps s') < unat (dram_ps s) + unat (ps_per_dram s) + unat (ps_per_logic s)"
  using assms
proof (induction n arbitrary: s)
  case 0
  have "unat (dram_ps s + ps_per_dram s) = unat (dram_ps s) + unat (ps_per_dram s)" using "0.prems"(3) by (simp add: unat_add_lem [THEN iffD1])
  then have "\<not> logic_ps s < dram_ps s + ps_per_dram s" using "0.prems"(4) by (simp add: word_less_nat_alt)
  then show ?case using "0.prems" by (intro exI [of _ s]) (simp add: hmc_kept_def sys_frame_def)
next
  case (Suc n)
  have d: "unat (dram_ps s + ps_per_dram s) = unat (dram_ps s) + unat (ps_per_dram s)" using Suc.prems(3) by (simp add: unat_add_lem [THEN iffD1])
  show ?case
  proof (cases "logic_ps s < dram_ps s + ps_per_dram s")
    case False
    then show ?thesis using Suc.prems d by (intro exI [of _ s]) (simp add: word_less_nat_alt hmc_kept_def sys_frame_def)
  next
    case True
    obtain s1 where s1: "drain_state s = Inr s1" "\<And>u. DrainResponses s u = res_bind (res_fold (sys_call (hmc_base s)) (resp_events s) u) (\<lambda>u'. Inr (s1, u'))"
      "hmc_wf s1" "hmc_outs s = mset (resp_events s) + hmc_outs s1" "hmc_frame s s1" "hmc_base s1 = hmc_base s" by (rule DrainResponses_ok [OF Suc.prems(1)]) blast
    obtain s2 where s2: "DrainRequests s1 = Inr s2" "hmc_wf s2" "hmc_resps s2 = hmc_resps s1" "hmc_frame s1 s2" by (rule DrainRequests_ok [OF s1(3)])
    let ?s = "logic_step s2"
    have lt: "unat (logic_ps s) < unat (dram_ps s) + unat (ps_per_dram s)" using True d by (simp add: word_less_nat_alt)
    have fr: "logic_ps s2 = logic_ps s" "hmc_kept s ?s" using s1(5) s2(4) by (auto simp: hmc_frame_def hmc_kept_def logic_step_def sys_frame_def)
    then have ps: "logic_ps ?s = logic_ps s + ps_per_logic s" "dram_ps ?s = dram_ps s" "ps_per_dram ?s = ps_per_dram s" "ps_per_logic ?s = ps_per_logic s"
      by (simp_all add: hmc_kept_def logic_step_def)
    have u: "unat (logic_ps s + ps_per_logic s) = unat (logic_ps s) + unat (ps_per_logic s)"
      using lt Suc.prems(3) by (simp add: unat_add_lem [THEN iffD1])
    have pos: "0 < unat (ps_per_logic s)" using Suc.prems(2) by (simp add: word_less_nat_alt)
    obtain s' where s': "\<forall>u. logic_loop n ?s u = res_bind (res_fold (sys_call (hmc_base ?s)) (logic_events n ?s) u) (\<lambda>u'. Inr (s', u'))"
      "hmc_wf s'" "hmc_kept ?s s'" "hmc_outs ?s = mset (logic_events n ?s) + hmc_outs s'"
      "unat (dram_ps ?s) + unat (ps_per_dram ?s) \<le> unat (logic_ps s')"
      "unat (logic_ps s') < unat (dram_ps ?s) + unat (ps_per_dram ?s) + unat (ps_per_logic ?s)"
      using Suc.IH [of ?s] Suc.prems s2(2) ps u lt pos by (auto simp: hmc_wf_logic_step)
    have ev: "logic_events (Suc n) s = resp_events s @ logic_events n ?s" using True s1(1) s2(1) by simp
    have "logic_loop (Suc n) s u = res_bind (res_fold (sys_call (hmc_base s)) (logic_events (Suc n) s) u) (\<lambda>u'. Inr (s', u'))" for u
      using True s1(2) s2(1) s'(1) hmc_kept_call [OF fr(2)] unfolding ev by (simp add: res_bind_assoc)
    moreover have "hmc_outs ?s = hmc_outs s1" using s2(3) unfolding hmc_wf_logic_step by (simp add: hmc_outs_def)
    then have "hmc_outs s = mset (logic_events (Suc n) s) + hmc_outs s'" using s1(4) s'(4) unfolding ev by simp
    moreover have "hmc_kept s s'" using fr(2) s'(3) by (simp add: hmc_kept_def sys_frame_def)
    ultimately show ?thesis using s'(2,5,6) ps by (intro exI [of _ s']) simp
  qed
qed

text \<open>The two clock domains: the logic die is at most one of its cycles ahead of the vaults.\<close>

definition hmc_time :: "'s HMCMemorySystem \<Rightarrow> bool" where
  "hmc_time s \<longleftrightarrow> 0 < ps_per_logic s \<and> unat (ps_per_logic s) \<le> 800 \<and> unat (ps_per_dram s) = 800 \<and>
     unat (dram_ps s) \<le> unat (logic_ps s) \<and> unat (logic_ps s) \<le> unat (dram_ps s) + unat (ps_per_logic s)"

definition hmc_inv :: "'s HMCMemorySystem \<Rightarrow> bool" where
  "hmc_inv s \<longleftrightarrow> hmc_wf s \<and> hmc_time s \<and> block_size (sys_config (hmc_base s)) \<in> {0, 32, 64, 128, 256}"

definition hmc_may_tick :: "'s HMCMemorySystem \<Rightarrow> bool" where
  "hmc_may_tick s \<longleftrightarrow> sys_may_tick (hmc_base s) \<and> unat (dram_ps s) + 2400 < 2 ^ 64"

definition hmc_events :: "'s HMCMemorySystem \<Rightarrow> event list" where
  "hmc_events s =
     (if dram_ps s = logic_ps s then
        resp_events s @ (case res_bind (drain_state s) (\<lambda>s1. res_bind (DRAMClockTick s1) DrainRequests) of
          Inr s3 \<Rightarrow> logic_events 800 (logic_step s3) | Inl e \<Rightarrow> [])
      else (case DRAMClockTick s of Inr s1 \<Rightarrow> logic_events 800 s1 | Inl e \<Rightarrow> []))"

lemma logic_phase:
  assumes wf: "hmc_wf s4" and time: "hmc_time s" and kept: "hmc_kept s s4" and may: "hmc_may_tick s"
    and ps: "unat (dram_ps s) \<le> unat (logic_ps s4)" "unat (logic_ps s4) \<le> unat (dram_ps s) + unat (ps_per_logic s)"
  obtains s5 where "\<And>u. res_bind (logic_loop (unat (ps_per_dram s4)) s4 u) (\<lambda>(s5, u''). Inr (s5\<lparr>dram_ps := dram_ps s5 + ps_per_dram s5\<rparr>, u'')) =
      res_bind (res_fold (sys_call (hmc_base s)) (logic_events 800 s4) u) (\<lambda>u'. Inr (s5, u'))"
    and "hmc_wf s5" and "hmc_time s5" and "sys_frame (hmc_base s) (hmc_base s5)" and "hmc_outs s4 = mset (logic_events 800 s4) + hmc_outs s5"
proof -
  have k: "dram_ps s4 = dram_ps s" "ps_per_dram s4 = ps_per_dram s" "ps_per_logic s4 = ps_per_logic s" "sys_frame (hmc_base s) (hmc_base s4)"
    using kept by (simp_all add: hmc_kept_def)
  have t: "0 < ps_per_logic s" "unat (ps_per_logic s) \<le> 800" "unat (ps_per_dram s) = 800" and m: "unat (dram_ps s) + 2400 < 2 ^ 64"
    using time may by (simp_all add: hmc_time_def hmc_may_tick_def)
  have "\<exists>s'. (\<forall>u. logic_loop 800 s4 u = res_bind (res_fold (sys_call (hmc_base s4)) (logic_events 800 s4) u) (\<lambda>u'. Inr (s', u'))) \<and>
    hmc_wf s' \<and> hmc_kept s4 s' \<and> hmc_outs s4 = mset (logic_events 800 s4) + hmc_outs s' \<and>
    unat (dram_ps s4) + unat (ps_per_dram s4) \<le> unat (logic_ps s') \<and>
    unat (logic_ps s') < unat (dram_ps s4) + unat (ps_per_dram s4) + unat (ps_per_logic s4)"
    by (rule logic_loop_ok [OF wf]) (use k t m ps in simp_all)
  then obtain s' where s': "\<And>u. logic_loop 800 s4 u = res_bind (res_fold (sys_call (hmc_base s4)) (logic_events 800 s4) u) (\<lambda>u'. Inr (s', u'))"
    "hmc_wf s'" "hmc_kept s4 s'" "hmc_outs s4 = mset (logic_events 800 s4) + hmc_outs s'"
    "unat (dram_ps s) + 800 \<le> unat (logic_ps s')" "unat (logic_ps s') < unat (dram_ps s) + 800 + unat (ps_per_logic s)" using k t by auto
  let ?s = "s'\<lparr>dram_ps := dram_ps s' + ps_per_dram s'\<rparr>"
  have k': "dram_ps s' = dram_ps s" "ps_per_dram s' = ps_per_dram s" "ps_per_logic s' = ps_per_logic s" "sys_frame (hmc_base s) (hmc_base s')"
    using s'(3) k by (simp_all add: hmc_kept_def sys_frame_def)
  have "unat (dram_ps s + ps_per_dram s) = unat (dram_ps s) + 800" using m t(3) by (simp add: unat_add_lem [THEN iffD1])
  then have "hmc_time ?s" using s'(5,6) t k' by (simp add: hmc_time_def)
  moreover have "hmc_wf ?s" "hmc_outs ?s = hmc_outs s'" using s'(2)
    by (simp_all add: hmc_wf_def hmc_mid_def hmc_shape_def hmc_packets_def hmc_reqs_def hmc_resps_def hmc_outs_def vault_addrs_def)
  moreover have "res_bind (logic_loop (unat (ps_per_dram s4)) s4 u) (\<lambda>(s5, u''). Inr (s5\<lparr>dram_ps := dram_ps s5 + ps_per_dram s5\<rparr>, u'')) =
      res_bind (res_fold (sys_call (hmc_base s)) (logic_events 800 s4) u) (\<lambda>u'. Inr (?s, u'))" for u
    using s'(1) k t(3) hmc_kept_call [OF kept] by (simp add: res_bind_assoc)
  ultimately show thesis using that [of ?s] s'(4) k'(4) by simp
qed

lemma hmc_ClockTick_spec:
  assumes inv: "hmc_inv s" and may: "hmc_may_tick s"
  shows "\<exists>s'. (\<forall>u. hmc_ClockTick s u = res_bind (res_fold (sys_call (hmc_base s)) (hmc_events s) u) (\<lambda>u'. Inr (s', u'))) \<and>
    hmc_inv s' \<and> sys_call (hmc_base s') = sys_call (hmc_base s) \<and> hmc_outs s = mset (hmc_events s) + hmc_outs s'"
proof -
  have wf: "hmc_wf s" and time: "hmc_time s" and bs: "block_size (sys_config (hmc_base s)) \<in> {0, 32, 64, 128, 256}" and t: "sys_may_tick (hmc_base s)"
    using inv may by (simp_all add: hmc_inv_def hmc_may_tick_def)
  have ps: "unat (dram_ps s) \<le> unat (logic_ps s)" "unat (logic_ps s) \<le> unat (dram_ps s) + unat (ps_per_logic s)"
    and pl: "unat (dram_ps s) + unat (ps_per_logic s) < 2 ^ 64"
    using time may by (simp_all add: hmc_time_def hmc_may_tick_def)
  have fin: "hmc_inv s5 \<and> sys_call (hmc_base s5) = sys_call (hmc_base s)"
    if "hmc_wf s5" "hmc_time s5" "sys_frame (hmc_base s) (hmc_base s5)" for s5
    using that bs by (simp add: hmc_inv_def sys_frame_def sys_call_def)
  show ?thesis
  proof (cases "dram_ps s = logic_ps s")
    case True
    obtain s1 where s1: "drain_state s = Inr s1" "\<And>u. DrainResponses s u = res_bind (res_fold (sys_call (hmc_base s)) (resp_events s) u) (\<lambda>u'. Inr (s1, u'))"
      "hmc_wf s1" "hmc_outs s = mset (resp_events s) + hmc_outs s1" "hmc_frame s s1" "hmc_base s1 = hmc_base s" by (rule DrainResponses_ok [OF wf]) blast
    have "sys_may_tick (hmc_base s1)" using t s1(6) by simp
    then obtain s2 where s2: "DRAMClockTick s1 = Inr s2" "hmc_wf s2" "hmc_outs s2 = hmc_outs s1" "hmc_frame s1 s2" by (rule DRAMClockTick_ok [OF s1(3)])
    obtain s3 where s3: "DrainRequests s2 = Inr s3" "hmc_wf s3" "hmc_resps s3 = hmc_resps s2" "hmc_frame s2 s3" by (rule DrainRequests_ok [OF s2(2)])
    let ?s4 = "logic_step s3"
    have k: "hmc_kept s ?s4" "logic_ps ?s4 = dram_ps s + ps_per_logic s"
      using s1(5) s2(4) s3(4) True by (auto simp: hmc_frame_def hmc_kept_def logic_step_def sys_frame_def)
    have "unat (logic_ps ?s4) = unat (dram_ps s) + unat (ps_per_logic s)" unfolding k(2) using pl by (simp add: unat_add_lem [THEN iffD1])
    then obtain s5 where s5: "\<And>u. res_bind (logic_loop (unat (ps_per_dram ?s4)) ?s4 u) (\<lambda>(s5, u''). Inr (s5\<lparr>dram_ps := dram_ps s5 + ps_per_dram s5\<rparr>, u'')) =
        res_bind (res_fold (sys_call (hmc_base s)) (logic_events 800 ?s4) u) (\<lambda>u'. Inr (s5, u'))"
      "hmc_wf s5" "hmc_time s5" "sys_frame (hmc_base s) (hmc_base s5)" "hmc_outs ?s4 = mset (logic_events 800 ?s4) + hmc_outs s5"
      using logic_phase [of ?s4 s] s3(2) time k(1) may by (auto simp: hmc_wf_logic_step)
    have ev: "hmc_events s = resp_events s @ logic_events 800 ?s4" using True s1(1) s2(1) s3(1) by (simp add: hmc_events_def)
    have "hmc_outs ?s4 = hmc_outs s1" using s2(3) s3(3) unfolding hmc_wf_logic_step by (simp add: hmc_outs_def)
    then have "hmc_outs s = mset (hmc_events s) + hmc_outs s5" using s1(4) s5(5) unfolding ev by simp
    moreover have "hmc_ClockTick s u = res_bind (res_fold (sys_call (hmc_base s)) (hmc_events s) u) (\<lambda>u'. Inr (s5, u'))" for u
      using True s1(2) s2(1) s3(1) s5(1) unfolding ev by (simp add: hmc_ClockTick_def res_bind_assoc)
    ultimately show ?thesis using fin [OF s5(2-4)] by blast
  next
    case False
    obtain s1 where s1: "DRAMClockTick s = Inr s1" "hmc_wf s1" "hmc_outs s1 = hmc_outs s" "hmc_frame s s1" by (rule DRAMClockTick_ok [OF wf t])
    have k: "hmc_kept s s1" "logic_ps s1 = logic_ps s" using s1(4) by (auto simp: hmc_frame_def hmc_kept_def)
    then obtain s5 where s5: "\<And>u. res_bind (logic_loop (unat (ps_per_dram s1)) s1 u) (\<lambda>(s5, u''). Inr (s5\<lparr>dram_ps := dram_ps s5 + ps_per_dram s5\<rparr>, u'')) =
        res_bind (res_fold (sys_call (hmc_base s)) (logic_events 800 s1) u) (\<lambda>u'. Inr (s5, u'))"
      "hmc_wf s5" "hmc_time s5" "sys_frame (hmc_base s) (hmc_base s5)" "hmc_outs s1 = mset (logic_events 800 s1) + hmc_outs s5"
      using logic_phase [of s1 s] s1(2) time may ps by auto
    have ev: "hmc_events s = logic_events 800 s1" using False s1(1) by (simp add: hmc_events_def)
    have "hmc_ClockTick s u = res_bind (res_fold (sys_call (hmc_base s)) (hmc_events s) u) (\<lambda>u'. Inr (s5, u'))" for u
      using False s1(1) s5(1) unfolding ev by (simp add: hmc_ClockTick_def)
    then show ?thesis using fin [OF s5(2-4)] s1(3) s5(5) ev by auto
  qed
qed

section \<open>Additions\<close>

definition has_room :: "'s HMCMemorySystem \<Rightarrow> int \<Rightarrow> bool" where
  "has_room s l \<longleftrightarrow> length (link_req_queues s ! nat l) < queue_depth s"

lemma accept_iff_room: "hmc_shape s \<Longrightarrow> hmc_WillAcceptTransaction s a w \<longleftrightarrow> (\<exists>l. 0 \<le> l \<and> l < links s \<and> has_room s l)"
proof -
  assume sh: "hmc_shape s"
  have "(\<exists>i<nat (links s). P i) \<longleftrightarrow> (\<exists>l. 0 \<le> l \<and> l < links s \<and> P (nat l))" for P
  proof
    assume "\<exists>i<nat (links s). P i"
    then obtain i where "i < nat (links s)" "P i" by blast
    then show "\<exists>l. 0 \<le> l \<and> l < links s \<and> P (nat l)" by (intro exI [of _ "int i"]) auto
  qed (metis zless_nat_conj zle_iff_zadd nat_less_eq_zless)
  then show ?thesis using sh by (simp add: hmc_WillAcceptTransaction_def list_ex_length hmc_shape_def has_room_def)
qed

text \<open>A request is added when it is queued at a link and its response is in the table.\<close>

definition added :: "HMCRequest \<Rightarrow> event \<Rightarrow> 's HMCMemorySystem \<Rightarrow> 's HMCMemorySystem \<Rightarrow> bool" where
  "added req e s s' \<longleftrightarrow> hmc_wf s' \<and> hmc_time s' \<and> sys_frame (hmc_base s) (hmc_base s') \<and> hmc_outs s' = add_mset e (hmc_outs s)"

lemma InsertReqToLink_room:
  assumes wf: "hmc_wf s" "hmc_time s" and l: "0 \<le> l" "l < links s" "has_room s l"
    and req: "req_ok (channels (sys_config (hmc_base s))) req" "response_kind (req_type req) = Inr (kind, flits)"
  shows "\<exists>s'. InsertReqToLink req l s = Inr (True, s') \<and> added req (kind \<noteq> RD_RS, mem_operand req) s s' \<and> links s' = links s \<and> next_link s' = next_link s"
proof -
  have mid: "hmc_mid (vault_addrs s) s" using wf by (simp add: hmc_wf_def)
  note sh = hmc_midD(1) [OF mid, unfolded hmc_shape_def]
  have nl: "nat l < nat (links s)" using l by simp
  let ?q = "link_req_queues s ! nat l" and ?r = "req\<lparr>req_link := l\<rparr>"
  let ?p = "\<lparr>resp_id = mem_operand req, resp_type = kind, resp_link = l, resp_quad = req_quad req, resp_flits = flits, resp_exit_time = 0\<rparr>"
  let ?s = "s\<lparr>link_req_queues := (link_req_queues s)[nat l := ?q @ [?r]], resp_lookup_table := mm_insert (mem_operand req) ?p (resp_lookup_table s),
    link_age_counter := (link_age_counter s)[nat l := 1], hmc_base := (hmc_base s)\<lparr>last_req_clk := sys_clk (hmc_base s)\<rparr>\<rparr>"
  have i: "InsertReqToLink req l s = Inr (True, ?s)"
    using l sh req(2) by (simp add: InsertReqToLink_def has_room_def vget_def vset_def HMCResponse_new_def Let_def)
  have "mset (concat ((link_req_queues s)[nat l := ?q @ [?r]])) = add_mset ?r (mset (concat (link_req_queues s)))"
    by (rule mset_concat_push) (use sh nl in simp)
  then have reqs: "hmc_reqs ?s = add_mset ?r (hmc_reqs s)" by (simp add: hmc_reqs_def)
  have resps: "hmc_resps ?s = add_mset ?p (hmc_resps s)" by (simp add: hmc_resps_def mm_insert_def)
  have "resp_ok (links s) ?p" using l(1,2) req(1) by (simp add: resp_ok_def req_ok_def)
  then have "hmc_packets ?s" using hmc_midD(2) [OF mid] reqs resps req(1) by (auto simp: hmc_packets_def mm_insert_def)
  moreover have "ages_ok (link_age_counter ?s) (link_req_queues ?s)"
    using ages_upd [OF hmc_midD(3) [OF mid], of "nat l" 1 "?q @ [?r]"] sh nl by simp
  moreover have va: "vault_addrs ?s = vault_addrs s" by (simp add: vault_addrs_def sys_outstanding_def)
  moreover have "hmc_shape ?s" using sh by (simp add: hmc_shape_def)
  ultimately have "hmc_mid (vault_addrs ?s) ?s" using mid reqs by (simp add: hmc_mid_def)
  then have "hmc_wf ?s" using wf(1) by (simp add: hmc_wf_def sys_wf_def)
  moreover have "hmc_outs ?s = add_mset (kind \<noteq> RD_RS, mem_operand req) (hmc_outs s)" unfolding hmc_outs_def resps by (simp add: resp_event_def)
  moreover have "hmc_time ?s" using wf(2) by (simp add: hmc_time_def)
  ultimately have "added req (kind \<noteq> RD_RS, mem_operand req) s ?s" by (simp add: added_def sys_frame_def)
  then show ?thesis using i by (intro exI [of _ ?s] conjI) simp_all
qed

lemma InsertReqToLink_full: "hmc_shape s \<Longrightarrow> 0 \<le> l \<Longrightarrow> l < links s \<Longrightarrow> \<not> has_room s l \<Longrightarrow> InsertReqToLink req l s = Inr (False, s)"
  by (simp add: InsertReqToLink_def has_room_def vget_def hmc_shape_def)

text \<open>The next link in the ring.\<close>

lemma IterateNextLink_ring: "hmc_shape s \<Longrightarrow> IterateNextLink s = Inr (s\<lparr>next_link := (next_link s + 1) mod links s\<rparr>)"
  by (simp add: IterateNextLink_def imod_def hmc_shape_def signed_modulo_int_def)

lemma next_link_wf: "hmc_wf s \<Longrightarrow> 0 \<le> n \<Longrightarrow> n < links s \<Longrightarrow> hmc_wf (s\<lparr>next_link := n\<rparr>)"
  by (simp add: hmc_wf_def hmc_mid_def hmc_shape_def hmc_packets_def vault_addrs_def)

text \<open>The search for a link with room visits every link and ends.\<close>

lemma ring_covers: "0 < n \<Longrightarrow> 0 \<le> l \<Longrightarrow> l < n \<Longrightarrow> \<exists>e. 0 \<le> e \<and> e < n \<and> (k + e) mod n = (l :: int)"
  by (rule exI [of _ "(l - k) mod n"]) (simp add: mod_simps)

lemma insert_loop_ok:
  assumes "hmc_wf s" and "hmc_time s" and req: "req_ok (channels (sys_config (hmc_base s))) req" "response_kind (req_type req) = Inr (kind, flits)"
    and "0 \<le> k" "k < links s" and "next_link s = (k + d) mod links s" "1 \<le> d" "d \<le> links s" "nat (links s - d) \<le> n"
    and "\<forall>e. 0 \<le> e \<and> e < d \<longrightarrow> \<not> has_room s ((k + e) mod links s)"
  shows "\<exists>s'. insert_loop n k req s = Inr ((\<exists>l. 0 \<le> l \<and> l < links s \<and> has_room s l), s') \<and>
    ((\<exists>l. 0 \<le> l \<and> l < links s \<and> has_room s l) \<longrightarrow> added req (kind \<noteq> RD_RS, mem_operand req) s s')"
  using assms
proof (induction n arbitrary: s d)
  case 0
  then have d: "d = links s" by simp
  have "\<not> has_room s l" if "0 \<le> l" "l < links s" for l using ring_covers [of "links s" l k] that "0.prems"(11) d by auto
  moreover have "next_link s = k" using "0.prems"(5,6,7) d by simp
  ultimately show ?case by (intro exI [of _ s]) auto
next
  case (Suc n)
  let ?L = "links s" and ?x = "next_link s"
  have sh: "hmc_shape s" using Suc.prems(1) by (simp add: hmc_wf_def hmc_mid_def)
  show ?case
  proof (cases "k = ?x")
    case True
    have "d = ?L"
    proof (rule ccontr)
      assume "d \<noteq> ?L"
      then have "0 < d" "d < ?L" using Suc.prems(8,9) by simp_all
      moreover have "(k + d) mod ?L = k mod ?L" using True Suc.prems(5-7) by simp
      ultimately show False by (metis add_diff_cancel_left' dvd_imp_le mod_eq_dvd_iff zdvd_not_zless)
    qed
    then have "\<not> has_room s l" if "0 \<le> l" "l < ?L" for l using ring_covers [of ?L l k] that Suc.prems(11) by auto
    then show ?thesis using True by (intro exI [of _ s]) auto
  next
    case False
    have x: "0 \<le> ?x" "?x < ?L" using sh by (simp_all add: hmc_shape_def)
    show ?thesis
    proof (cases "has_room s ?x")
      case True
      obtain s1 where s1: "InsertReqToLink req ?x s = Inr (True, s1)" "added req (kind \<noteq> RD_RS, mem_operand req) s s1" "links s1 = ?L" "next_link s1 = ?x"
        using InsertReqToLink_room [OF Suc.prems(1,2) x True Suc.prems(3,4)] by auto
      have w: "hmc_wf s1" "hmc_shape s1" using s1(2) by (simp_all add: added_def hmc_wf_def hmc_mid_def)
      let ?s = "s1\<lparr>next_link := (?x + 1) mod ?L\<rparr>"
      have "hmc_wf ?s" using next_link_wf [OF w(1), of "(?x + 1) mod ?L"] x s1(3) by simp
      then have "added req (kind \<noteq> RD_RS, mem_operand req) s ?s" using s1(2) by (simp add: added_def hmc_time_def hmc_outs_def)
      moreover have "insert_loop (Suc n) k req s = Inr (True, ?s)" using False s1 IterateNextLink_ring [OF w(2)] by simp
      ultimately show ?thesis using True x by (intro exI [of _ ?s]) auto
    next
      case no: False
      let ?s = "s\<lparr>next_link := (?x + 1) mod ?L\<rparr>"
      have "d \<noteq> ?L" using False Suc.prems(5-7) by auto
      then have d: "d < ?L" using Suc.prems(9) by simp
      have room: "has_room ?s = has_room s" by (simp add: has_room_def fun_eq_iff)
      have "\<not> has_room s ((k + e) mod ?L)" if "0 \<le> e" "e < d + 1" for e using that Suc.prems(7,11) no by (cases "e = d") auto
      moreover have "next_link ?s = (k + (d + 1)) mod ?L" using Suc.prems(7) by (simp add: mod_simps ac_simps)
      moreover have "hmc_wf ?s" using next_link_wf [OF Suc.prems(1), of "(?x + 1) mod ?L"] x by simp
      moreover have "hmc_time ?s" using Suc.prems(2) by (simp add: hmc_time_def)
      moreover have "nat (?L - (d + 1)) \<le> n" using Suc.prems(10) d by arith
      ultimately obtain s' where "insert_loop n k req ?s = Inr ((\<exists>l. 0 \<le> l \<and> l < ?L \<and> has_room s l), s')"
        "(\<exists>l. 0 \<le> l \<and> l < ?L \<and> has_room s l) \<longrightarrow> added req (kind \<noteq> RD_RS, mem_operand req) ?s s'"
        using Suc.IH [of ?s "d + 1"] Suc.prems(3-6,8,10) d room by auto
      then show ?thesis using False InsertReqToLink_full [OF sh x no] IterateNextLink_ring [OF sh]
        by (intro exI [of _ s']) (simp add: added_def hmc_outs_def)
    qed
  qed
qed

lemma InsertHMCReq_ok:
  assumes wf: "hmc_wf s" "hmc_time s" and req: "req_ok (channels (sys_config (hmc_base s))) req" "response_kind (req_type req) = Inr (kind, flits)"
  shows "\<exists>s'. InsertHMCReq req s = Inr (hmc_WillAcceptTransaction s a w, s') \<and>
    (hmc_WillAcceptTransaction s a w \<longrightarrow> added req (kind \<noteq> RD_RS, mem_operand req) s s')"
proof -
  let ?L = "links s" and ?x = "next_link s"
  have sh: "hmc_shape s" using wf(1) by (simp add: hmc_wf_def hmc_mid_def)
  then have x: "0 \<le> ?x" "?x < ?L" by (simp_all add: hmc_shape_def)
  show ?thesis
  proof (cases "has_room s ?x")
    case True
    obtain s1 where s1: "InsertReqToLink req ?x s = Inr (True, s1)" "added req (kind \<noteq> RD_RS, mem_operand req) s s1" "links s1 = ?L" "next_link s1 = ?x"
      using InsertReqToLink_room [OF wf x True req] by auto
    have w: "hmc_wf s1" "hmc_shape s1" using s1(2) by (simp_all add: added_def hmc_wf_def hmc_mid_def)
    let ?s = "s1\<lparr>next_link := (?x + 1) mod ?L\<rparr>"
    have "hmc_wf ?s" using next_link_wf [OF w(1), of "(?x + 1) mod ?L"] x s1(3) by simp
    then have "added req (kind \<noteq> RD_RS, mem_operand req) s ?s" using s1(2) by (simp add: added_def hmc_time_def hmc_outs_def)
    moreover have "InsertHMCReq req s = Inr (True, ?s)" using s1 IterateNextLink_ring [OF w(2)] by (simp add: InsertHMCReq_def)
    moreover have "hmc_WillAcceptTransaction s a w" using accept_iff_room [OF sh] x True by blast
    ultimately show ?thesis by auto
  next
    case no: False
    let ?s = "s\<lparr>next_link := (?x + 1) mod ?L\<rparr>"
    have room: "has_room ?s = has_room s" by (simp add: has_room_def fun_eq_iff)
    have "hmc_wf ?s" using next_link_wf [OF wf(1), of "(?x + 1) mod ?L"] x by simp
    moreover have "hmc_time ?s" using wf(2) by (simp add: hmc_time_def)
    moreover have "\<not> has_room s ((?x + e) mod ?L)" if "0 \<le> e" "e < 1" for e
    proof -
      have "e = 0" using that by simp
      then show ?thesis using no x by simp
    qed
    moreover have "nat (?L - 1) \<le> nat ?L" by (rule nat_mono) simp
    ultimately obtain s' where "insert_loop (nat ?L) ?x req ?s = Inr ((\<exists>l. 0 \<le> l \<and> l < ?L \<and> has_room s l), s')"
      "(\<exists>l. 0 \<le> l \<and> l < ?L \<and> has_room s l) \<longrightarrow> added req (kind \<noteq> RD_RS, mem_operand req) ?s s'"
      using insert_loop_ok [of ?s req kind flits ?x 1 "nat ?L"] req x room by auto
    then show ?thesis using InsertReqToLink_full [OF sh x no] IterateNextLink_ring [OF sh] accept_iff_room [OF sh]
      by (intro exI [of _ s']) (simp add: InsertHMCReq_def added_def hmc_outs_def)
  qed
qed

lemma hmc_AddTransaction_ok:
  assumes "hmc_inv s"
  shows "\<exists>s'. hmc_AddTransaction s a w = Inr (hmc_WillAcceptTransaction s a w, s') \<and>
    (hmc_WillAcceptTransaction s a w \<longrightarrow> hmc_inv s' \<and> sys_call (hmc_base s') = sys_call (hmc_base s) \<and> hmc_outs s' = add_mset (w, a) (hmc_outs s))"
proof -
  let ?b = "hmc_base s" and ?v = "GetChannel (hmc_base s) a"
  have wf: "hmc_wf s" "hmc_time s" and bs: "block_size (sys_config ?b) \<in> {0, 32, 64, 128, 256}" using assms by (simp_all add: hmc_inv_def)
  have v: "0 \<le> ?v" "?v < channels (sys_config ?b)" using GetChannel_range [of ?b a] wf(1) by (simp_all add: hmc_wf_def)
  obtain ty flits kind fl where ty: "block_request (block_size (sys_config ?b)) w = Inr ty" "request_flits ty = Inr flits"
    "response_kind ty = Inr (kind, fl)" "(kind \<noteq> RD_RS) = w"
    using bs by (cases w) (auto simp: block_request_def)
  let ?r = "\<lparr>req_type = ty, mem_operand = a, req_link = 0, req_quad = ?v smod 4, req_vault = ?v, req_flits = flits,
    req_is_write = (ty \<in> set write_types), req_exit_time = 0\<rparr>"
  have "?v smod 4 = ?v mod 4" using v(1) by (simp add: signed_modulo_int_def sgn_if)
  then have "req_ok (channels (sys_config ?b)) ?r" using v by (simp add: req_ok_def)
  then obtain s' where "InsertHMCReq ?r s = Inr (hmc_WillAcceptTransaction s a w, s')"
    "hmc_WillAcceptTransaction s a w \<longrightarrow> added ?r (w, a) s s'" using InsertHMCReq_ok [OF wf, of ?r kind fl a w] ty(3,4) by auto
  then show ?thesis using ty(1,2) bs
    by (intro exI [of _ s']) (auto simp: hmc_AddTransaction_def HMCRequest_new_def added_def hmc_inv_def sys_frame_def sys_call_def)
qed

section \<open>Construction\<close>

definition hmc_cfg_ok :: "Config \<Rightarrow> bool" where
  "hmc_cfg_ok cfg \<longleftrightarrow> sys_cfg_ok cfg \<and> chan_ok cfg \<and> IsHMC cfg \<and> queue_structure cfg \<in> {''PER_BANK'', ''PER_RANK''} \<and>
     (\<exists>rf. Refresh_new cfg = Inr rf \<and> refresh_wf cfg rf) \<and> 0 < num_links cfg \<and> block_size cfg \<in> {0, 32, 64, 128, 256} \<and>
     (\<exists>ps. logic_period cfg = Inr ps \<and> 0 < ps)"

lemma logic_period_le: "logic_period cfg = Inr ps \<Longrightarrow> ps \<le> 800"
  by (auto simp: logic_period_def res_simps split: if_splits)

lemma HMCMemorySystem_new_ok:
  assumes "hmc_cfg_ok cfg"
  obtains s where "HMCMemorySystem_new cfg rcb wcb = Inr s" and "hmc_inv s" and "hmc_outs s = {#}"
    and "sys_call (hmc_base s) = call_event rcb wcb" and "dram_ps s = 0" and "sys_clk (hmc_base s) = 0" and "sys_config (hmc_base s) = cfg"
proof -
  obtain rf where rf: "Refresh_new cfg = Inr rf" "refresh_wf cfg rf" using assms by (auto simp: hmc_cfg_ok_def)
  obtain ps where ps: "logic_period cfg = Inr ps" "0 < ps" using assms by (auto simp: hmc_cfg_ok_def)
  have c: "sys_cfg_ok cfg" "chan_ok cfg" "IsHMC cfg" "0 < num_links cfg" "block_size cfg \<in> {0, 32, 64, 128, 256}" "cfg_wf cfg"
    "queue_structure cfg \<in> {''PER_BANK'', ''PER_RANK''}" using assms by (auto simp: hmc_cfg_ok_def sys_cfg_ok_def)
  obtain cs where cs: "new_controllers cfg = Inr cs" "length cs = nat (channels cfg)"
    "\<forall>c\<in>set cs. ctrl_wf cfg c \<and> ctrl_clk c = 0 \<and> outstanding c = {#}" by (rule new_controllers_ok [OF c(6,7) rf])
  let ?n = "nat (num_links cfg)"
  let ?b = "(BaseDRAMSystem_new cfg rcb wcb)\<lparr>ctrls := cs\<rparr>"
  define s where "s = \<lparr>hmc_base = ?b, logic_clk = 0, ps_per_dram = 800,
    ps_per_logic = ps, logic_ps = 0, dram_ps = 0, next_link = 0, links = num_links cfg,
    queue_depth = unat (of_int (xbar_queue_depth cfg) :: u64), resp_lookup_table = [],
    link_req_queues = replicate ?n [], link_resp_queues = replicate ?n [], quad_req_queues = replicate 4 [], quad_resp_queues = replicate 4 [],
    link_busy = replicate ?n 0, quad_busy = [0, 0, 0, 0], link_age_counter = replicate ?n 0, quad_age_counter = [0, 0, 0, 0]\<rparr>"
  have new: "HMCMemorySystem_new cfg rcb wcb = Inr s"
    using c(3) ps(1) cs(1) by (simp add: HMCMemorySystem_new_def SetClockRatio_def Let_def BaseDRAMSystem_new_def s_def)
  have none: "concat (replicate k []) = []" for k :: nat by (induction k) simp_all
  have reqs: "hmc_reqs s = {#}" "hmc_resps s = {#}" by (simp_all add: s_def hmc_reqs_def hmc_resps_def none)
  have va: "vault_addrs s = {#}" using cs(3) by (simp add: vault_addrs_def sys_outstanding_def s_def sum_list_empty)
  have ages: "ages_ok (link_age_counter s) (link_req_queues s)" "ages_ok (quad_age_counter s) (quad_resp_queues s)"
    by (auto simp: ages_ok_def s_def less_Suc_eq numeral_eq_Suc)
  have "hmc_shape s" using c(4) by (simp add: hmc_shape_def s_def)
  then have "hmc_mid (vault_addrs s) s" using ages reqs va by (simp add: hmc_mid_def hmc_packets_def) (simp add: s_def)
  moreover have "sys_wf ?b" using cs(2,3) by (simp add: sys_wf_def BaseDRAMSystem_new_def)
  ultimately have "hmc_wf s" using c(1,2) by (simp add: hmc_wf_def) (simp add: s_def BaseDRAMSystem_new_def)
  moreover have "unat ps \<le> 800" using logic_period_le [OF ps(1)] by (simp add: word_le_nat_alt)
  then have "hmc_time s" using ps(2) by (simp add: hmc_time_def s_def)
  ultimately have "hmc_inv s" using c(5) by (simp add: hmc_inv_def) (simp add: s_def BaseDRAMSystem_new_def)
  then show thesis using new reqs(2)
    by (intro that [of s]) (simp_all add: hmc_outs_def, simp_all add: s_def BaseDRAMSystem_new_def sys_call_def)
qed

section \<open>The contract\<close>

interpretation hmc: memory_backend hmc_inv hmc_may_tick hmc_outs hmc_events "\<lambda>s. sys_call (hmc_base s)"
  hmc_ClockTick "\<lambda>s a w. Inr (hmc_WillAcceptTransaction s a w)" hmc_AddTransaction
proof
  fix s :: "'s HMCMemorySystem" and a w
  show "hmc_inv s \<Longrightarrow> hmc_may_tick s \<Longrightarrow> \<exists>s'. (\<forall>u. hmc_ClockTick s u = res_bind (res_fold (sys_call (hmc_base s)) (hmc_events s) u) (\<lambda>u'. Inr (s', u'))) \<and>
      hmc_inv s' \<and> sys_call (hmc_base s') = sys_call (hmc_base s) \<and> hmc_outs s = mset (hmc_events s) + hmc_outs s'"
    by (rule hmc_ClockTick_spec)
  assume "hmc_inv s"
  then show "Inr (hmc_WillAcceptTransaction s a w) = Inr True \<Longrightarrow>
      \<exists>s'. hmc_AddTransaction s a w = Inr (True, s') \<and> hmc_inv s' \<and> sys_call (hmc_base s') = sys_call (hmc_base s) \<and> hmc_outs s' = add_mset (w, a) (hmc_outs s)"
    using hmc_AddTransaction_ok [of s a w] by auto
qed simp

section \<open>Executions\<close>

text \<open>An execution of the cube by its client, with the accepted transactions and the events of its callbacks.\<close>

inductive hmc_run :: "'s HMCMemorySystem \<Rightarrow> event multiset \<Rightarrow> event list \<Rightarrow> 's HMCMemorySystem \<Rightarrow> bool" for s0 where
  hmc_start: "hmc_run s0 {#} [] s0"
| hmc_add: "hmc_run s0 acc evs s \<Longrightarrow> hmc_WillAcceptTransaction s a w \<Longrightarrow> hmc_AddTransaction s a w = Inr (b, s') \<Longrightarrow>
    hmc_run s0 (add_mset (w, a) acc) evs s'"
| hmc_tick: "hmc_run s0 acc evs s \<Longrightarrow> hmc_may_tick s \<Longrightarrow> hmc_ClockTick s u = Inr (s', u') \<Longrightarrow> hmc_run s0 acc (evs @ hmc_events s) s'"

lemma hmc_run_inv:
  assumes "hmc_run s0 acc evs s" and "hmc_inv s0"
  shows "hmc_inv s \<and> hmc_outs s0 + acc = mset evs + hmc_outs s"
  using assms
proof (induction rule: hmc_run.induct)
  case (hmc_add acc evs s a w b s')
  then show ?case using hmc.add_law [of s a w] by auto
next
  case (hmc_tick acc evs s u s' u')
  then show ?case using hmc.tick_law [of s] by (auto simp: res_simps ac_simps)
qed simp

section \<open>Properties\<close>


text \<open>A cube with four links over the device of the other examples.\<close>

definition hmc_config :: Config where
  "hmc_config = hbm2_config\<lparr>protocol := HMC, link_speed := 25000, xbar_queue_depth := 32, enable_hbm_dual_cmd := False\<rparr>"

lemma hmc_config_ok: "hmc_cfg_ok hmc_config"
proof -
  have c: "sys_cfg_ok hbm2_config" "chan_ok hbm2_config" using hbm2_jedec_ok by (simp_all add: jedec_cfg_ok_def)
  have "AddressMapping hmc_config = AddressMapping hbm2_config" by (simp add: AddressMapping_def hmc_config_def fun_eq_iff)
  then have "sys_cfg_ok hmc_config" using c(1) by (simp add: sys_cfg_ok_def cfg_wf_def addr_ok_def hmc_config_def)
  moreover have "chan_ok hmc_config"
    unfolding chan_ok_def
  proof (intro allI impI)
    fix s :: "unit BaseDRAMSystem" and h assume "sys_config s = hmc_config"
    then have "GetChannel s h = GetChannel (s\<lparr>sys_config := hbm2_config\<rparr>) h" by (simp add: GetChannel_def hmc_config_def)
    then show "0 \<le> GetChannel s h \<and> GetChannel s h < channels hmc_config"
      using GetChannel_range [of "s\<lparr>sys_config := hbm2_config\<rparr>" h] c(2) by (simp add: hmc_config_def)
  qed
  moreover have "Refresh_new hmc_config = Refresh_new hbm2_config" by (simp add: Refresh_new_def hmc_config_def)
  moreover have "refresh_wf hmc_config rf = refresh_wf hbm2_config rf" for rf by (simp add: refresh_wf_def hmc_config_def)
  moreover have "logic_period hmc_config = Inr 320" by (simp add: logic_period_def hmc_config_def idiv_def signed_divide_int_def)
  ultimately show ?thesis using hbm2_jedec_ok by (simp add: hmc_cfg_ok_def jedec_cfg_ok_def) (simp add: hmc_config_def IsHMC_def)
qed


end
