(* ===== verification/Dram_Backend.thy ===== *)
theory Dram_Backend
  imports Dram_Memory Dram_Hmc_Run
begin

text \<open>
  \<^verbatim>\<open>MemorySystem\<close> keeps the contract \<open>memory_backend\<close> whatever the
  kind of memory behind it: the interpretation combines those of the JEDEC system and of the hybrid memory cube.
  The clients of the memory are proved against the contract alone.
\<close>

definition mem_inv :: "'s MemorySystem \<Rightarrow> bool" where
  "mem_inv m = (case mem_dram m of Jedec d \<Rightarrow> jedec_inv d | Hmc d \<Rightarrow> hmc_inv d)"

definition mem_base :: "'s MemorySystem \<Rightarrow> 's BaseDRAMSystem" where
  "mem_base m = (case mem_dram m of Jedec d \<Rightarrow> d | Hmc d \<Rightarrow> hmc_base d)"

definition mem_may_tick :: "'s MemorySystem \<Rightarrow> bool" where
  "mem_may_tick m = (case mem_dram m of Jedec d \<Rightarrow> sys_may_tick d | Hmc d \<Rightarrow> hmc_may_tick d)"

definition mem_outs :: "'s MemorySystem \<Rightarrow> event multiset" where
  "mem_outs m = (case mem_dram m of Jedec d \<Rightarrow> sys_outstanding d | Hmc d \<Rightarrow> hmc_outs d)"

definition mem_events :: "'s MemorySystem \<Rightarrow> event list" where
  "mem_events m = (case mem_dram m of Jedec d \<Rightarrow> sys_events d | Hmc d \<Rightarrow> hmc_events d)"

definition mem_call :: "'s MemorySystem \<Rightarrow> event \<Rightarrow> 's \<Rightarrow> 's res" where
  "mem_call m = sys_call (mem_base m)"

lemmas mem_defs = mem_inv_def mem_base_def mem_may_tick_def mem_outs_def mem_events_def mem_call_def

interpretation mem: memory_backend mem_inv mem_may_tick mem_outs mem_events mem_call
  mem_ClockTick mem_WillAcceptTransaction mem_AddTransaction
proof
  fix m :: "'s MemorySystem"
  assume inv: "mem_inv m" and t: "mem_may_tick m"
  show "\<exists>m'. (\<forall>u. mem_ClockTick m u = res_bind (res_fold (mem_call m) (mem_events m) u) (\<lambda>u'. Inr (m', u'))) \<and>
      mem_inv m' \<and> mem_call m' = mem_call m \<and> mem_outs m = mset (mem_events m) + mem_outs m'"
  proof (cases "mem_dram m")
    case (Jedec d)
    then obtain d' where "\<forall>u. jedec_ClockTick d u = res_bind (res_fold (sys_call d) (sys_events d) u) (\<lambda>u'. Inr (d', u'))"
      "jedec_inv d'" "sys_call d' = sys_call d" "sys_outstanding d = mset (sys_events d) + sys_outstanding d'"
      using jedec.tick_law [of d] inv t by (auto simp: mem_defs)
    then show ?thesis using Jedec by (intro exI [of _ "m\<lparr>mem_dram := Jedec d'\<rparr>"]) (simp add: mem_ClockTick_def mem_defs res_bind_assoc)
  next
    case (Hmc d)
    then obtain d' where "\<forall>u. hmc_ClockTick d u = res_bind (res_fold (sys_call (hmc_base d)) (hmc_events d) u) (\<lambda>u'. Inr (d', u'))"
      "hmc_inv d'" "sys_call (hmc_base d') = sys_call (hmc_base d)" "hmc_outs d = mset (hmc_events d) + hmc_outs d'"
      using hmc.tick_law [of d] inv t by (auto simp: mem_defs)
    then show ?thesis using Hmc by (intro exI [of _ "m\<lparr>mem_dram := Hmc d'\<rparr>"]) (simp add: mem_ClockTick_def mem_defs res_bind_assoc)
  qed
next
  fix m :: "'s MemorySystem" and a w
  assume inv: "mem_inv m"
  show "\<exists>b. mem_WillAcceptTransaction m a w = Inr b"
    using inv jedec.accepts_law by (auto simp: mem_inv_def mem_WillAcceptTransaction_def split: dram_system.splits)
  assume acc: "mem_WillAcceptTransaction m a w = Inr True"
  show "\<exists>m'. mem_AddTransaction m a w = Inr (True, m') \<and> mem_inv m' \<and> mem_call m' = mem_call m \<and>
      mem_outs m' = add_mset (w, a) (mem_outs m)"
  proof (cases "mem_dram m")
    case (Jedec d)
    then obtain d' where "jedec_AddTransaction d a w = Inr (True, d')" "jedec_inv d'" "sys_call d' = sys_call d"
      "sys_outstanding d' = add_mset (w, a) (sys_outstanding d)"
      using jedec.add_law [of d a w] inv acc by (auto simp: mem_defs mem_WillAcceptTransaction_def)
    then show ?thesis using Jedec by (intro exI [of _ "m\<lparr>mem_dram := Jedec d'\<rparr>"]) (simp add: mem_AddTransaction_def mem_defs)
  next
    case (Hmc d)
    then obtain d' where "hmc_AddTransaction d a w = Inr (True, d')" "hmc_inv d'" "sys_call (hmc_base d') = sys_call (hmc_base d)"
      "hmc_outs d' = add_mset (w, a) (hmc_outs d)"
      using hmc.add_law [of d a w] inv acc by (auto simp: mem_defs mem_WillAcceptTransaction_def)
    then show ?thesis using Hmc by (intro exI [of _ "m\<lparr>mem_dram := Hmc d'\<rparr>"]) (simp add: mem_AddTransaction_def mem_defs)
  qed
qed

section \<open>Construction\<close>

text \<open>A configuration that a memory system can be built from and run on.\<close>

definition mem_cfg_ok :: "Config \<Rightarrow> bool" where
  "mem_cfg_ok cfg \<longleftrightarrow> jedec_cfg_ok cfg \<or> hmc_cfg_ok cfg"

definition mem_fresh :: "Config \<Rightarrow> 's MemorySystem \<Rightarrow> bool" where
  "mem_fresh cfg m \<longleftrightarrow> sys_clk (mem_base m) = 0 \<and> sys_config (mem_base m) = cfg \<and>
     (case mem_dram m of Jedec d \<Rightarrow> True | Hmc d \<Rightarrow> dram_ps d = 0)"

lemma fresh_may_tick: "mem_fresh cfg m \<Longrightarrow> (enable_hbm_dual_cmd cfg \<Longrightarrow> rw_gap cfg 0) \<Longrightarrow> mem_may_tick m"
  by (auto simp: mem_fresh_def mem_base_def mem_may_tick_def hmc_may_tick_def sys_may_tick_def split: dram_system.splits)

lemma MemorySystem_of_ok:
  assumes "mem_cfg_ok cfg"
  obtains m where "MemorySystem_of cfg rcb wcb = Inr m" and "mem_inv m" and "mem_outs m = {#}"
    and "mem_call m = call_event rcb wcb" and "mem_fresh cfg m"
proof (cases "jedec_cfg_ok cfg")
  case True
  obtain d where "JedecDRAMSystem_new cfg rcb wcb = Inr d" "sys_wf d" "sys_config d = cfg" "sys_clk d = 0"
    "read_callback d = rcb" "write_callback d = wcb" "sys_outstanding d = {#}"
    by (rule JedecDRAMSystem_new_spec [OF True])
  then show thesis using True
    by (intro that [of "\<lparr>mem_config = cfg, mem_dram = Jedec d\<rparr>"])
      (simp_all add: MemorySystem_of_def jedec_cfg_ok_def jedec_inv_def mem_fresh_def mem_defs sys_call_def)
next
  case False
  then have ok: "hmc_cfg_ok cfg" using assms by (simp add: mem_cfg_ok_def)
  obtain d where "HMCMemorySystem_new cfg rcb wcb = Inr d" "hmc_inv d" "hmc_outs d = {#}"
    "sys_call (hmc_base d) = call_event rcb wcb" "dram_ps d = 0" "sys_clk (hmc_base d) = 0" "sys_config (hmc_base d) = cfg"
    by (rule HMCMemorySystem_new_ok [OF ok])
  then show thesis using ok
    by (intro that [of "\<lparr>mem_config = cfg, mem_dram = Hmc d\<rparr>"]) (simp_all add: MemorySystem_of_def hmc_cfg_ok_def mem_fresh_def mem_defs)
qed

lemma hbm2_mem_ok: "mem_cfg_ok hbm2_config"
  using hbm2_jedec_ok by (simp add: mem_cfg_ok_def)

end
