(* ===== verification/Anna_Memory_Inv.thy ===== *)
theory Anna_Memory_Inv
  imports Anna_Memory Dram_Backend
begin

text \<open>
  Where the requests of the multi-stack memory interface are. For every stack the map of readers
  holds, with multiplicity, exactly the addresses that travel to the stack, wait for its memory,
  are outstanding in its memory or travel back. So a callback and a response always find
  their reader, and what a reader is owed never changes but by its own requests and receipts.
\<close>

section \<open>The invariant of the front\<close>

text \<open>What a reader is owed by a stack: addresses without an answer yet, and answers to collect.\<close>

definition acct :: "mmi \<Rightarrow> nat \<Rightarrow> u64 \<Rightarrow> u64 multiset" where
  "acct f st i = image_mset fst (filter_mset (\<lambda>e. snd e = i) (mset (id_map f ! st))) + mset (read_ready_queues f ! st ! unat i)"

text \<open>The addresses on their way to the memory of a stack and on their way back.\<close>

definition pend :: "nat \<Rightarrow> mmi \<Rightarrow> nat \<Rightarrow> u64 multiset" where
  "pend n f st = mset (read_request_queue f ! st) + (\<Sum>c<n. mset (req_flow (memory_switch f) c st))"

definition returning :: "nat \<Rightarrow> mmi \<Rightarrow> nat \<Rightarrow> u64 multiset" where
  "returning n f st = (\<Sum>c<n. mset (res_flow (memory_switch f) st c))"

definition front_wf :: "nat \<Rightarrow> mmi \<Rightarrow> bool" where
  "front_wf n f \<longleftrightarrow> n < 2 ^ 31 \<and> st_num f = of_nat n \<and> length (read_request_queue f) = n \<and> length (read_ready_queues f) = n \<and>
     length (id_map f) = n \<and> (\<forall>qs\<in>set (read_ready_queues f). length qs = unat (id_num f)) \<and>
     (\<forall>m\<in>set (id_map f). \<forall>e\<in>set m. snd e < id_num f \<and> fst e \<noteq> - 1) \<and>
     (\<forall>i<id_num f. unat (core_of f i) < n) \<and> switch_wf n (memory_switch f)"

text \<open>\<open>R st\<close> are the reads that are outstanding in the memory of stack \<open>st\<close>.\<close>

definition balanced :: "nat \<Rightarrow> (nat \<Rightarrow> u64 multiset) \<Rightarrow> mmi \<Rightarrow> bool" where
  "balanced n R f \<longleftrightarrow> (\<forall>st<n. mm_keys (id_map f ! st) = pend n f st + R st + returning n f st)"

definition front_frame :: "mmi \<Rightarrow> mmi \<Rightarrow> bool" where
  "front_frame f f' \<longleftrightarrow> st_num f' = st_num f \<and> id_num f' = id_num f \<and> id2core f' = id2core f \<and> mapper f' = mapper f"

lemma front_frame_trans [trans]: "front_frame f g \<Longrightarrow> front_frame g h \<Longrightarrow> front_frame f h"
  by (simp add: front_frame_def)

lemma front_frame_refl [simp]: "front_frame f f"
  by (simp add: front_frame_def)

lemma front_frame_core: "front_frame f g \<Longrightarrow> core_of g = core_of f"
  by (simp add: front_frame_def core_of_def fun_eq_iff)

lemma set_upd_E: "x \<in> set (xs[i := y]) \<Longrightarrow> (x = y \<Longrightarrow> P) \<Longrightarrow> (x \<in> set xs \<Longrightarrow> P) \<Longrightarrow> P"
  by (meson insertE set_update_subset_insert subsetD)

text \<open>Sums of flows after a change of one of them.\<close>

lemma sum_flow_upd:
  fixes F :: "nat \<Rightarrow> 'a multiset"
  assumes "c < n" and "F' c = F c + x" and "\<forall>d. d \<noteq> c \<longrightarrow> F' d = F d"
  shows "(\<Sum>d<n. F' d) = (\<Sum>d<n. F d) + x"
proof -
  have "(\<Sum>d<n. F' d) = F' c + (\<Sum>d\<in>{..<n} - {c}. F' d)" using assms(1) by (simp add: sum.remove)
  also have "(\<Sum>d\<in>{..<n} - {c}. F' d) = (\<Sum>d\<in>{..<n} - {c}. F d)" using assms(3) by (intro sum.cong) auto
  also have "F' c + \<dots> = (\<Sum>d<n. F d) + x" using assms(1,2) by (simp add: sum.remove [of _ c] ac_simps)
  finally show ?thesis .
qed

lemma front_wf_nth:
  assumes "front_wf n f" and "st < n"
  shows "length (read_ready_queues f ! st) = unat (id_num f)" and "(a, i) \<in> set (id_map f ! st) \<Longrightarrow> i < id_num f \<and> a \<noteq> - 1"
  using assms by (force simp: front_wf_def)+

section \<open>Making an address ready\<close>

lemma make_ready_eq:
  assumes wf: "front_wf n f" and st: "unat st < n" and i: "i < id_num f"
  shows "make_ready st i a f = Inr (f\<lparr>
    read_ready_queues := (read_ready_queues f)[unat st := (read_ready_queues f ! unat st)[unat i := insort a (read_ready_queues f ! unat st ! unat i)]],
    id_map := (id_map f)[unat st := mm_erase_first a (id_map f ! unat st)]\<rparr>)"
proof -
  have "unat i < length (read_ready_queues f ! unat st)" using front_wf_nth(1) [OF wf st] i by (simp add: word_less_nat_alt)
  then show ?thesis using wf st by (simp add: make_ready_def uget_def' uset_def' front_wf_def)
qed

lemma make_ready_ok:
  assumes wf: "front_wf n f" and st: "unat st < n" and find: "mm_find a (id_map f ! unat st) = Some i"
  obtains f' where "make_ready st i a f = Inr f'" and "front_wf n f'" and "front_frame f f'" and "acct f' = acct f"
    and "memory_switch f' = memory_switch f" and "read_request_queue f' = read_request_queue f"
    and "id_map f' = (id_map f)[unat st := mm_erase_first a (id_map f ! unat st)]"
proof -
  have ai: "(a, i) \<in> set (id_map f ! unat st)" by (rule mm_find_mem [OF find])
  then have i: "i < id_num f" using front_wf_nth(2) [OF wf st] by blast
  let ?r = "read_ready_queues f ! unat st" and ?m = "id_map f ! unat st"
  let ?f = "f\<lparr>read_ready_queues := (read_ready_queues f)[unat st := ?r[unat i := insort a (?r ! unat i)]],
    id_map := (id_map f)[unat st := mm_erase_first a ?m]\<rparr>"
  have len: "length ?r = unat (id_num f)" by (rule front_wf_nth(1) [OF wf st])
  have iu: "unat i < unat (id_num f)" using i by (simp add: word_less_nat_alt)
  have l: "length (read_ready_queues f) = n" "length (id_map f) = n" using wf by (simp_all add: front_wf_def)
  have "\<forall>e\<in>set (mm_erase_first a ?m). snd e < id_num f \<and> fst e \<noteq> - 1"
    using front_wf_nth(2) [OF wf st] mm_erase_first_subset [of a ?m] by force
  then have "front_wf n ?f" using wf len unfolding front_wf_def core_of_def by (auto elim!: set_upd_E)
  moreover have "acct ?f = acct f"
  proof (rule ext, rule ext)
    fix s j
    show "acct ?f s j = acct f s j"
    proof (cases "s = unat st")
      case True
      have "(a, i) \<in># mset ?m" using ai by simp
      moreover have "mset (mm_erase_first a ?m) = mset ?m - {#(a, i)#}" by (rule mset_mm_erase_first [OF find])
      ultimately have m: "mset ?m = add_mset (a, i) (mset (mm_erase_first a ?m))" by simp
      have ids: "id_map ?f ! s = mm_erase_first a ?m" and rds: "read_ready_queues ?f ! s = ?r[unat i := insort a (?r ! unat i)]"
        using True st l by simp_all
      have ji: "unat j = unat i \<longleftrightarrow> j = i" by (metis of_nat_unat_self)
      show ?thesis
      proof (cases "j = i")
        case True
        then show ?thesis using \<open>s = unat st\<close> len iu unfolding acct_def ids rds by (simp add: m)
      next
        case False
        then show ?thesis using \<open>s = unat st\<close> ji unfolding acct_def ids rds by (simp add: m)
      qed
    qed (simp add: acct_def)
  qed
  ultimately show thesis using make_ready_eq [OF wf st i] by (intro that [of ?f]) (simp_all add: front_frame_def)
qed

section \<open>Callbacks\<close>

lemma switch_step_wf:
  "front_wf n f \<Longrightarrow> switch_wf n sw \<Longrightarrow> front_wf n (f\<lparr>memory_switch := sw\<rparr>)"
  by (simp add: front_wf_def core_of_def)

lemma acct_cong: "id_map f' = id_map f \<Longrightarrow> read_ready_queues f' = read_ready_queues f \<Longrightarrow> acct f' = acct f"
  by (simp add: acct_def fun_eq_iff)

lemma flow_upd_at [simp]: "upd_flow F s d q s d = q"
  by (simp add: upd_flow_def)

lemma flow_upd_other [simp]: "s' \<noteq> s \<or> d' \<noteq> d \<Longrightarrow> upd_flow F s d q s' d' = F s' d'"
  by (auto simp: upd_flow_def)

lemma ReadCallback_ok:
  assumes wf: "front_wf n f" and bal: "balanced n R f" and st: "unat st < n" and a: "a \<in># R (unat st)"
  obtains f' where "ReadCallback st a f = Inr f'" and "front_wf n f'" and "front_frame f f'" and "acct f' = acct f"
    and "read_request_queue f' = read_request_queue f" and "balanced n (R(unat st := R (unat st) - {#a#})) f'"
proof -
  let ?m = "id_map f ! unat st"
  have l: "length (id_map f) = n" using wf by (simp add: front_wf_def)
  have keys: "mm_keys ?m = pend n f (unat st) + R (unat st) + returning n f (unat st)" using bal st by (simp add: balanced_def)
  then have ak: "a \<in># mm_keys ?m" using a by simp
  then obtain i where find: "mm_find a ?m = Some i" using mm_find_None [of a ?m] by auto
  have i: "i < id_num f" using front_wf_nth(2) [OF wf st] mm_find_mem [OF find] by blast
  have u: "use_memory_switch \<noteq> 0" by (simp add: use_memory_switch_def)
  obtain R' where R: "R (unat st) = add_mset a R'" using a by (metis mset_add)
  show thesis
  proof (cases "core_of f i = st")
    case True
    obtain f' where f': "make_ready st i a f = Inr f'" "front_wf n f'" "front_frame f f'" "acct f' = acct f"
      "memory_switch f' = memory_switch f" "read_request_queue f' = read_request_queue f"
      "id_map f' = (id_map f)[unat st := mm_erase_first a ?m]" by (rule make_ready_ok [OF wf st find])
    have "balanced n (R(unat st := R (unat st) - {#a#})) f'"
      unfolding balanced_def
    proof (intro allI impI)
      fix s assume s: "s < n"
      have "pend n f' s = pend n f s" "returning n f' s = returning n f s" using f'(5,6) by (simp_all add: pend_def returning_def)
      then show "mm_keys (id_map f' ! s) = pend n f' s + (R(unat st := R (unat st) - {#a#})) s + returning n f' s"
        using bal s f'(7) l mm_keys_erase_first [OF ak] keys by (cases "s = unat st") (simp_all add: balanced_def R)
    qed
    then show thesis using f' find True u st l by (intro that [of f']) (simp_all add: ReadCallback_def uget_def')
  next
    case False
    have c: "unat (core_of f i) < n" using wf i by (simp add: front_wf_def)
    have "switch_wf n (memory_switch f)" using wf by (simp add: front_wf_def)
    then obtain sw where sw: "sendRes st (core_of f i) a (memory_switch f) = Inr sw" "switch_wf n sw" "req_flow sw = req_flow (memory_switch f)"
      "res_flow sw = upd_flow (res_flow (memory_switch f)) (unat st) (unat (core_of f i)) (res_flow (memory_switch f) (unat st) (unat (core_of f i)) @ [a])"
      by (rule sendRes_flow [OF _ st c])
    let ?f = "f\<lparr>memory_switch := sw\<rparr>"
    have "returning n ?f (unat st) = returning n f (unat st) + {#a#}"
      unfolding returning_def by (rule sum_flow_upd [OF c]) (simp_all add: sw(4))
    moreover have "s \<noteq> unat st \<Longrightarrow> returning n ?f s = returning n f s" for s by (simp add: returning_def sw(4))
    moreover have "pend n ?f s = pend n f s" for s by (simp add: pend_def sw(3))
    ultimately have "balanced n (R(unat st := R (unat st) - {#a#})) ?f"
      using bal by (auto simp: balanced_def R)
    moreover have "acct ?f = acct f" by (rule acct_cong) simp_all
    ultimately show thesis using sw(1) find False u st l switch_step_wf [OF wf sw(2)]
      by (intro that [of ?f]) (simp_all add: ReadCallback_def uget_def' front_frame_def)
  qed
qed

text \<open>The reads among the events of a memory.\<close>

definition reads :: "event multiset \<Rightarrow> u64 multiset" where
  "reads E = image_mset snd (filter_mset (\<lambda>e. \<not> fst e) E)"

lemma reads_simps [simp]:
  "reads {#} = {#}" "reads (add_mset e E) = (if fst e then reads E else add_mset (snd e) (reads E))"
  "reads (E + E') = reads E + reads E'"
  by (simp_all add: reads_def)

text \<open>What every step of the memory side leaves alone.\<close>

definition front_kept :: "mmi \<Rightarrow> mmi \<Rightarrow> bool" where
  "front_kept f f' \<longleftrightarrow> front_frame f f' \<and> acct f' = acct f"

lemma front_kept_trans: "front_kept f g \<Longrightarrow> front_kept g h \<Longrightarrow> front_kept f h"
  by (auto simp: front_kept_def front_frame_def)

lemma front_kept_refl [simp]: "front_kept f f"
  by (simp add: front_kept_def)

lemma callbacks_ok:
  assumes "front_wf n f" and "balanced n R f" and "unat st < n" and "reads (mset evs) \<subseteq># R (unat st)"
  shows "\<exists>f'. res_fold (call_event (ReadCallback st) (WriteCallback st)) evs f = Inr f' \<and> front_wf n f' \<and> front_kept f f' \<and>
    read_request_queue f' = read_request_queue f \<and> balanced n (R(unat st := R (unat st) - reads (mset evs))) f'"
  using assms
proof (induction evs arbitrary: f R)
  case (Cons e evs)
  show ?case
  proof (cases "fst e")
    case True
    then show ?thesis using Cons by (simp add: call_event_def WriteCallback_def)
  next
    case False
    then have e: "snd e \<in># R (unat st)" using Cons.prems(4) by (auto dest: mset_subset_eqD)
    obtain f1 where f1: "ReadCallback st (snd e) f = Inr f1" "front_wf n f1" "front_frame f f1" "acct f1 = acct f"
      "read_request_queue f1 = read_request_queue f" "balanced n (R(unat st := R (unat st) - {#snd e#})) f1"
      by (rule ReadCallback_ok [OF Cons.prems(1,2,3) e])
    let ?R = "R(unat st := R (unat st) - {#snd e#})"
    have "reads (mset evs) \<subseteq># ?R (unat st)" using Cons.prems(4) False by (simp add: insert_subset_eq_iff)
    from Cons.IH [OF f1(2,6) Cons.prems(3) this] obtain f2 where f2:
      "res_fold (call_event (ReadCallback st) (WriteCallback st)) evs f1 = Inr f2" "front_wf n f2" "front_kept f1 f2"
      "read_request_queue f2 = read_request_queue f1" "balanced n (?R(unat st := ?R (unat st) - reads (mset evs))) f2" by blast
    have "front_kept f f2" using f1(3,4) f2(3) by (auto simp: front_kept_def front_frame_def)
    moreover have "call_event (ReadCallback st) (WriteCallback st) e f = Inr f1" using f1(1) False by (simp add: call_event_def)
    moreover have "?R(unat st := ?R (unat st) - reads (mset evs)) = R(unat st := R (unat st) - reads (mset (e # evs)))"
      using False by (simp add: fun_eq_iff)
    ultimately show ?thesis using f1(5) f2
      by (intro exI [of _ f2] conjI) (simp_all only: res_fold.simps res_bind_Inr)
  qed
qed simp

section \<open>Requests\<close>

lemma RequestRead_ok:
  assumes wf: "front_wf n f" and bal: "balanced n R f" and i: "i < id_num f"
    and x: "stack_map (mapper f) x = (st, a)" and st: "unat st < n" and a: "a \<noteq> - 1"
  obtains f' where "RequestRead i x f = Inr f'" and "front_wf n f'" and "front_frame f f'" and "balanced n R f'"
    and "acct f' = (acct f)(unat st := (acct f (unat st))(i := add_mset a (acct f (unat st) i)))"
    and "read_ready_queues f' = read_ready_queues f"
proof -
  have l: "length (id_map f) = n" "length (read_request_queue f) = n" and sw: "switch_wf n (memory_switch f)"
    and c: "unat (core_of f i) < n" using wf i by (simp_all add: front_wf_def)
  let ?ms = "(id_map f)[unat st := mm_insert a i (id_map f ! unat st)]"
  note answer = that
  have step: thesis
    if g: "RequestRead i x f = Inr (g\<lparr>id_map := ?ms\<rparr>)" "front_wf n g" "front_frame f g" "id_map g = id_map f"
      "read_ready_queues g = read_ready_queues f"
      "pend n g (unat st) = pend n f (unat st) + {#a#}" "\<forall>s. s \<noteq> unat st \<longrightarrow> pend n g s = pend n f s" "returning n g = returning n f" for g
  proof -
    have "\<forall>e\<in>set (mm_insert a i (id_map f ! unat st)). snd e < id_num f \<and> fst e \<noteq> - 1"
      using i a front_wf_nth(2) [OF wf st] by (auto simp: mm_insert_def)
    then have "front_wf n (g\<lparr>id_map := ?ms\<rparr>)"
      using g(2,3,4) unfolding front_wf_def core_of_def front_frame_def by (auto elim!: set_upd_E)
    moreover have "balanced n R (g\<lparr>id_map := ?ms\<rparr>)"
    proof -
      have "pend n (g\<lparr>id_map := ?ms\<rparr>) = pend n g" "returning n (g\<lparr>id_map := ?ms\<rparr>) = returning n f"
        using g(8) by (simp_all add: pend_def returning_def fun_eq_iff)
      then have "mm_keys (?ms ! s) = pend n (g\<lparr>id_map := ?ms\<rparr>) s + R s + returning n (g\<lparr>id_map := ?ms\<rparr>) s" if "s < n" for s
        using bal g(6,7) l(1) that by (cases "s = unat st") (simp_all add: balanced_def)
      then show ?thesis by (simp add: balanced_def)
    qed
    moreover have "acct (g\<lparr>id_map := ?ms\<rparr>) = (acct f)(unat st := (acct f (unat st))(i := add_mset a (acct f (unat st) i)))"
      using st l(1) g(5) by (auto simp: acct_def fun_eq_iff mm_insert_def nth_list_update)
    ultimately show thesis using g(1,3,5) by (intro answer [of "g\<lparr>id_map := ?ms\<rparr>"]) (simp_all add: front_frame_def)
  qed
  have u: "use_memory_switch \<noteq> 0" by (simp add: use_memory_switch_def)
  show thesis
  proof (cases "core_of f i = st")
    case True
    let ?g = "f\<lparr>read_request_queue := (read_request_queue f)[unat st := insort a (read_request_queue f ! unat st)]\<rparr>"
    show thesis
    proof (rule step [of ?g])
      show "RequestRead i x f = Inr (?g\<lparr>id_map := ?ms\<rparr>)"
        using st l x u True by (simp add: RequestRead_def insert_request_def uget_def' uset_def')
      show "front_wf n ?g" using wf by (simp add: front_wf_def core_of_def)
      show "pend n ?g (unat st) = pend n f (unat st) + {#a#}" using st l by (simp add: pend_def)
    qed (simp_all add: front_frame_def pend_def returning_def fun_eq_iff)
  next
    case False
    from sw obtain s' where s': "sendReq (core_of f i) st a (memory_switch f) = Inr s'" "switch_wf n s'" "res_flow s' = res_flow (memory_switch f)"
      "req_flow s' = upd_flow (req_flow (memory_switch f)) (unat (core_of f i)) (unat st) (req_flow (memory_switch f) (unat (core_of f i)) (unat st) @ [a])"
      by (rule sendReq_flow [OF _ c st])
    let ?g = "f\<lparr>memory_switch := s'\<rparr>"
    have "(\<Sum>d<n. mset (req_flow s' d (unat st))) = (\<Sum>d<n. mset (req_flow (memory_switch f) d (unat st))) + {#a#}"
      by (rule sum_flow_upd [OF c]) (simp_all add: s'(4))
    then have p: "pend n ?g (unat st) = pend n f (unat st) + {#a#}" by (simp add: pend_def)
    show thesis
    proof (rule step [of ?g, OF _ switch_step_wf [OF wf s'(2)] _ _ _ p])
      show "RequestRead i x f = Inr (?g\<lparr>id_map := ?ms\<rparr>)"
        using st l x u False s'(1) by (simp add: RequestRead_def uget_def' uset_def')
    qed (simp_all add: front_frame_def pend_def returning_def fun_eq_iff s'(3,4))
  qed
qed

section \<open>The switch\<close>

lemma pend_key: "balanced n R f \<Longrightarrow> st < n \<Longrightarrow> a \<in># pend n f st \<Longrightarrow> a \<in># mm_keys (id_map f ! st)"
  by (simp add: balanced_def)

lemma returning_key: "balanced n R f \<Longrightarrow> st < n \<Longrightarrow> a \<in># returning n f st \<Longrightarrow> a \<in># mm_keys (id_map f ! st)"
  by (simp add: balanced_def)

lemma key_not_sentinel: "front_wf n f \<Longrightarrow> st < n \<Longrightarrow> a \<in># mm_keys (id_map f ! st) \<Longrightarrow> a \<noteq> - 1"
  using front_wf_nth(2) by (fastforce simp: mm_keys_def)

lemma flow_mem_sum: "(c :: nat) < n \<Longrightarrow> x \<in> set (F c) \<Longrightarrow> x \<in># (\<Sum>d<n. mset (F d))"
  by (simp add: sum.remove [of "{..<n}" c "\<lambda>d. mset (F d)"])

lemma req_loop_ok:
  assumes "front_wf n f" and "balanced n R f" and "unat st < n"
  shows "\<exists>f'. req_loop st f = Inr f' \<and> front_wf n f' \<and> balanced n R f' \<and> front_kept f f'"
  using assms
proof (induction "length (req_out (memory_switch f) ! unat st)" arbitrary: f rule: less_induct)
  case less
  note wf = less.prems(1) and bal = less.prems(2) and st = less.prems(3)
  have sw: "switch_wf n (memory_switch f)" and l: "length (read_request_queue f) = n" using wf by (simp_all add: front_wf_def)
  from sw st show ?case
  proof (cases rule: getReq_flow)
    case empty
    then show ?thesis using wf bal by (simp add: req_loop.simps [of st f])
  next
    case (packet src a s')
    let ?q = "read_request_queue f ! unat st"
    let ?f = "f\<lparr>memory_switch := s', read_request_queue := (read_request_queue f)[unat st := insort a ?q]\<rparr>"
    have "a \<in># pend n f (unat st)"
      using flow_mem_sum [OF packet(3), of a "\<lambda>c. req_flow (memory_switch f) c (unat st)"] packet(5) by (simp add: pend_def)
    then have a: "a \<noteq> - 1" using key_not_sentinel [OF wf st] pend_key [OF bal st] by blast
    have "(\<Sum>d<n. mset (req_flow (memory_switch f) d (unat st))) = (\<Sum>d<n. mset (req_flow s' d (unat st))) + {#a#}"
      by (rule sum_flow_upd [OF packet(3)]) (simp_all add: packet(5,6))
    then have "pend n ?f (unat st) = pend n f (unat st)" using st l by (simp add: pend_def)
    moreover have "s \<noteq> unat st \<Longrightarrow> pend n ?f s = pend n f s" for s by (simp add: pend_def packet(6))
    moreover have "returning n ?f s = returning n f s" for s by (simp add: returning_def packet(4))
    ultimately have bal': "balanced n R ?f" using bal by (simp add: balanced_def) metis
    have wf': "front_wf n ?f" using wf packet(2) by (simp add: front_wf_def core_of_def)
    have "acct ?f = acct f" by (rule acct_cong) simp_all
    then have k: "front_kept f ?f" by (simp add: front_kept_def front_frame_def)
    obtain f' where "req_loop st ?f = Inr f'" "front_wf n f'" "balanced n R f'" "front_kept ?f f'"
      using less.hyps [of ?f] packet(7) wf' bal' st by auto
    then show ?thesis using front_kept_trans [OF k] packet(1) a st l
      by (simp add: req_loop.simps [of st f] uget_def' uset_def')
  qed
qed

lemma res_loop_ok:
  assumes "front_wf n f" and "balanced n R f" and "unat core < n"
  shows "\<exists>f'. res_loop core f = Inr f' \<and> front_wf n f' \<and> balanced n R f' \<and> front_kept f f'"
  using assms
proof (induction "length (res_out (memory_switch f) ! unat core)" arbitrary: f rule: less_induct)
  case less
  note wf = less.prems(1) and bal = less.prems(2) and core = less.prems(3)
  have sw: "switch_wf n (memory_switch f)" and l: "length (id_map f) = n" and n: "n < 2 ^ 31" using wf by (simp_all add: front_wf_def)
  from sw core show ?case
  proof (cases rule: getRes_flow)
    case empty
    then show ?thesis using wf bal by (simp add: res_loop.simps [of core f])
  next
    case (packet p s')
    let ?st = "unat (fst p)" and ?a = "snd p" and ?g = "f\<lparr>memory_switch := s'\<rparr>"
    have st: "?st < n" by (rule packet(3))
    have "unat (- 1 :: u64) = 2 ^ 64 - 1" by (simp add: unsigned_minus_1_eq_mask mask_eq_exp_minus_1)
    then have p: "fst p \<noteq> - 1" using st n by auto
    have ret: "?a \<in># returning n f ?st"
      using flow_mem_sum [OF core, of ?a "\<lambda>c. res_flow (memory_switch f) ?st c"] packet(5) by (simp add: returning_def)
    then have key: "?a \<in># mm_keys (id_map f ! ?st)" by (rule returning_key [OF bal st])
    then obtain i where find: "mm_find ?a (id_map ?g ! ?st) = Some i" using mm_find_None [of ?a "id_map f ! ?st"] by auto
    obtain f1 where f1: "make_ready (fst p) i ?a ?g = Inr f1" "front_wf n f1" "front_frame ?g f1" "acct f1 = acct ?g"
      "memory_switch f1 = memory_switch ?g" "read_request_queue f1 = read_request_queue ?g"
      "id_map f1 = (id_map ?g)[?st := mm_erase_first ?a (id_map ?g ! ?st)]"
      by (rule make_ready_ok [OF switch_step_wf [OF wf packet(2)] st find])
    have r: "returning n f ?st = returning n f1 ?st + {#?a#}"
      unfolding returning_def by (rule sum_flow_upd [OF core]) (simp_all add: packet(5,6) f1(5))
    moreover have "s \<noteq> ?st \<Longrightarrow> returning n f1 s = returning n f s" for s by (simp add: returning_def packet(6) f1(5))
    moreover have "pend n f1 s = pend n f s" for s using f1(5,6) by (simp add: pend_def packet(4))
    ultimately have "mm_keys (id_map f1 ! s) = pend n f1 s + R s + returning n f1 s" if "s < n" for s
      using bal that f1(7) l mm_keys_erase_first [OF key] by (cases "s = ?st") (simp_all add: balanced_def)
    then have bal': "balanced n R f1" by (simp add: balanced_def)
    have "acct ?g = acct f" by (rule acct_cong) simp_all
    then have k: "front_kept f f1" using f1(3,4) by (simp add: front_kept_def front_frame_def)
    have "length (res_out (memory_switch f1) ! unat core) < length (res_out (memory_switch f) ! unat core)"
      using packet(7) f1(5) by simp
    then obtain f' where "res_loop core f1 = Inr f'" "front_wf n f'" "balanced n R f'" "front_kept f1 f'"
      using less.hyps [OF _ f1(2) bal' core] by blast
    then show ?thesis using front_kept_trans [OF k] packet(1) p st l find f1(1)
      by (simp add: res_loop.simps [of core f] uget_def')
  qed
qed

text \<open>The part of a tick before the memories run.\<close>

definition switch_phase :: "mmi \<Rightarrow> mmi res" where
  "switch_phase f =
     res_bind (switch_ClockTick (memory_switch f)) (\<lambda>sw.
     res_bind (res_fold req_loop (urange (st_num f)) (f\<lparr>memory_switch := sw\<rparr>)) (\<lambda>f1.
       res_fold res_loop (urange (st_num f)) f1))"

lemma urange_stacks: "front_wf n f \<Longrightarrow> s \<in> set (urange (st_num f)) \<Longrightarrow> unat s < n"
proof -
  assume wf: "front_wf n f" and s: "s \<in> set (urange (st_num f))"
  have n: "unat (st_num f) = n" using wf by (auto simp: front_wf_def intro!: unat_of_nat_less)
  then obtain k where k: "k < n" "s = of_nat k" using s by (auto simp: urange_def)
  then have "unat s = k" using wf by (simp add: front_wf_def unat_of_nat_less)
  then show ?thesis using k(1) by simp
qed

lemma switch_phase_ok:
  assumes wf: "front_wf n f" and bal: "balanced n R f"
  obtains f' where "switch_phase f = Inr f'" and "front_wf n f'" and "balanced n R f'" and "front_kept f f'"
proof -
  have sw: "switch_wf n (memory_switch f)" "n < 2 ^ 64" using wf by (simp_all add: front_wf_def)
  obtain s where s: "switch_ClockTick (memory_switch f) = Inr s" "switch_wf n s"
    "req_flow s = req_flow (memory_switch f)" "res_flow s = res_flow (memory_switch f)"
    by (rule switch_tick_flow [OF sw])
  let ?f = "f\<lparr>memory_switch := s\<rparr>" and ?P = "\<lambda>g. front_wf n g \<and> balanced n R g \<and> front_kept f g"
  have "acct ?f = acct f" by (rule acct_cong) simp_all
  moreover have "balanced n R ?f" using bal s(3,4) by (simp add: balanced_def pend_def returning_def)
  ultimately have 0: "?P ?f" using switch_step_wf [OF wf s(2)] by (simp add: front_kept_def front_frame_def)
  have "\<exists>f1. res_fold req_loop (urange (st_num f)) ?f = Inr f1 \<and> ?P f1"
    by (rule res_fold_ok [of _ ?P, OF _ 0])
      (use req_loop_ok urange_stacks [OF wf] front_kept_trans in blast)
  then obtain f1 where f1: "res_fold req_loop (urange (st_num f)) ?f = Inr f1" "?P f1" by blast
  have "\<exists>f2. res_fold res_loop (urange (st_num f)) f1 = Inr f2 \<and> ?P f2"
    by (rule res_fold_ok [of _ ?P, OF _ f1(2)])
      (use res_loop_ok urange_stacks [OF wf] front_kept_trans in blast)
  then show thesis using s(1) f1(1) that by (auto simp: switch_phase_def)
qed

section \<open>The memories\<close>

context memory_backend
begin

text \<open>The loop that hands requests over stops at the first the memory does not accept.\<close>

lemma submit_ok:
  "inv m \<Longrightarrow> \<exists>p q' m'. submit_loop accepts add q m cnt = Inr (q', m', cnt + of_nat (length p)) \<and> q = p @ q' \<and>
     inv m' \<and> call m' = call m \<and> outs m' = outs m + image_mset (Pair False) (mset p)"
proof (induction q arbitrary: m cnt)
  case Nil
  then show ?case by (intro exI [of _ "[]"]) simp
next
  case (Cons a q)
  obtain b where b: "accepts m a False = Inr b" using accepts_law [OF Cons.prems] by blast
  show ?case
  proof (cases b)
    case False
    then show ?thesis using b Cons.prems by (intro exI [of _ "[]"] exI [of _ "a # q"] exI [of _ m]) simp
  next
    case True
    then obtain m1 where m1: "add m a False = Inr (True, m1)" "inv m1" "call m1 = call m" "outs m1 = add_mset (False, a) (outs m)"
      using add_law [OF Cons.prems, of a False] b by auto
    obtain p q' m' where "submit_loop accepts add q m1 (cnt + 1) = Inr (q', m', cnt + 1 + of_nat (length p))" "q = p @ q'"
      "inv m'" "call m' = call m1" "outs m' = outs m1 + image_mset (Pair False) (mset p)"
      using Cons.IH [OF m1(2)] by blast
    then show ?thesis using b True m1 by (intro exI [of _ "a # p"] exI [of _ q'] exI [of _ m']) (simp add: add.assoc)
  qed
qed

end

definition out_reads_of :: "MultiMemoryInterface \<Rightarrow> nat \<Rightarrow> u64 multiset" where
  "out_reads_of mi st = reads (mem_outs (memory_system_list mi ! st))"

definition mems_ok :: "nat \<Rightarrow> mmi MemorySystem list \<Rightarrow> bool" where
  "mems_ok n ms \<longleftrightarrow> length ms = n \<and>
     (\<forall>st<n. mem_inv (ms ! st) \<and> mem_call (ms ! st) = call_event (ReadCallback (of_nat st)) (WriteCallback (of_nat st)))"

text \<open>The invariant of the interface over \<open>n\<close> stacks.\<close>

definition mi_inv :: "nat \<Rightarrow> MultiMemoryInterface \<Rightarrow> bool" where
  "mi_inv n mi \<longleftrightarrow> front_wf n (front mi) \<and> mems_ok n (memory_system_list mi) \<and> balanced n (out_reads_of mi) (front mi) \<and>
     (\<forall>x. unat (fst (stack_map (mapper (front mi)) x)) < n \<and> snd (stack_map (mapper (front mi)) x) \<noteq> - 1)"

lemma reads_mono: "E \<subseteq># E' \<Longrightarrow> reads E \<subseteq># reads E'"
  by (simp add: reads_def image_mset_subseteq_mono multiset_filter_mono)

lemma reads_added [simp]: "reads (image_mset (Pair False) m) = m"
  by (induction m) simp_all

lemma stack_tick_ok:
  assumes inv: "mi_inv n mi" and i: "i < n" and t: "mem_may_tick (memory_system_list mi ! i)"
  obtains mi' tv' where "stack_tick (int i) (mi, tv) = Inr (mi', tv')" and "mi_inv n mi'" and "front_kept (front mi) (front mi')"
    and "\<forall>j. j \<noteq> i \<longrightarrow> memory_system_list mi' ! j = memory_system_list mi ! j"
proof -
  let ?m = "memory_system_list mi ! i" and ?f = "front mi" and ?R = "out_reads_of mi"
  have wf: "front_wf n ?f" and bal: "balanced n ?R ?f" and ms: "mems_ok n (memory_system_list mi)" using inv by (simp_all add: mi_inv_def)
  have iu: "unat (of_nat i :: u64) = i" using wf i by (simp add: front_wf_def unat_of_nat_less)
  have m: "mem_inv ?m" "mem_call ?m = call_event (ReadCallback (of_nat i)) (WriteCallback (of_nat i))" and lm: "length (memory_system_list mi) = n"
    using ms i by (simp_all add: mems_ok_def)
  have "reads (mset (mem_events ?m)) \<subseteq># ?R i" unfolding out_reads_of_def by (rule reads_mono [OF mem.events_held [OF m(1) t]])
  then have "\<exists>f1. res_fold (mem_call ?m) (mem_events ?m) ?f = Inr f1 \<and> (front_wf n f1 \<and> front_kept ?f f1 \<and>
      balanced n (?R(i := ?R i - reads (mset (mem_events ?m)))) f1)"
    using callbacks_ok [OF wf bal, of "of_nat i" "mem_events ?m"] i iu m(2) by auto
  from mem.tick_ok [OF m(1) t this] obtain m1 f1 where m1: "mem_ClockTick ?m ?f = Inr (m1, f1)" "mem_inv m1" "mem_call m1 = mem_call ?m"
      "mem_outs ?m = mset (mem_events ?m) + mem_outs m1"
    and f1: "front_wf n f1" "front_kept ?f f1" "balanced n (?R(i := ?R i - reads (mset (mem_events ?m)))) f1" by auto
  have bal1: "balanced n (?R(i := reads (mem_outs m1))) f1" using f1(3) m1(4) by (simp add: out_reads_of_def)
  have lq: "length (read_request_queue f1) = n" using f1(1) by (simp add: front_wf_def)
  let ?q = "read_request_queue f1 ! i"
  obtain p q' m2 where m2: "submit_loop mem_WillAcceptTransaction mem_AddTransaction ?q m1 (memory_req_cnt tv) = Inr (q', m2, memory_req_cnt tv + of_nat (length p))"
    "?q = p @ q'" "mem_inv m2" "mem_call m2 = mem_call m1" "mem_outs m2 = mem_outs m1 + image_mset (Pair False) (mset p)"
    using mem.submit_ok [OF m1(2)] by blast
  let ?f2 = "f1\<lparr>read_request_queue := (read_request_queue f1)[i := q']\<rparr>" and ?ms = "(memory_system_list mi)[i := m2]"
  let ?mi = "mi\<lparr>memory_system_list := ?ms, front := ?f2\<rparr>"
  have "balanced n (out_reads_of ?mi) ?f2"
    unfolding balanced_def
  proof (intro allI impI)
    fix s assume s: "s < n"
    have b: "mm_keys (id_map f1 ! s) = pend n f1 s + (?R(i := reads (mem_outs m1))) s + returning n f1 s" using bal1 s by (simp add: balanced_def)
    have r: "returning n ?f2 s = returning n f1 s" by (simp add: returning_def)
    show "mm_keys (id_map ?f2 ! s) = pend n ?f2 s + out_reads_of ?mi s + returning n ?f2 s"
    proof (cases "s = i")
      case True
      have "pend n f1 i = pend n ?f2 i + mset p" using m2(2) lq i by (simp add: pend_def)
      moreover have "out_reads_of ?mi i = reads (mem_outs m1) + mset p" using m2(5) lm i by (simp add: out_reads_of_def)
      ultimately show ?thesis using b r True by simp
    next
      case False
      then show ?thesis using b r by (simp add: out_reads_of_def pend_def)
    qed
  qed
  moreover have "front_wf n ?f2" using f1(1) by (simp add: front_wf_def core_of_def)
  moreover have "mems_ok n ?ms" using ms m2(3,4) m1(3) m(2) i by (auto simp: mems_ok_def nth_list_update)
  moreover have "acct ?f2 = acct f1" by (rule acct_cong) simp_all
  moreover from this have "front_kept ?f ?f2" using f1(2) by (simp add: front_kept_def front_frame_def)
  moreover have "mapper ?f2 = mapper ?f" using f1(2) by (simp add: front_kept_def front_frame_def)
  moreover have "stack_tick (int i) (mi, tv) = Inr (?mi, tv\<lparr>memory_req_cnt := memory_req_cnt tv + of_nat (length p)\<rparr>)"
    using i lm lq m1(1) m2(1) by (simp add: stack_tick_def vget_def vset_def)
  ultimately show thesis using inv by (intro that [of ?mi]) (simp_all add: mi_inv_def)
qed

lemma mmi_ClockTick_ok:
  assumes inv: "mi_inv n mi" and t: "\<forall>m\<in>set (memory_system_list mi). mem_may_tick m"
  obtains mi' tv' where "mmi_ClockTick mi tv = Inr (mi', tv')" and "mi_inv n mi'" and "front_kept (front mi) (front mi')"
proof -
  have wf: "front_wf n (front mi)" and bal: "balanced n (out_reads_of mi) (front mi)" using inv by (simp_all add: mi_inv_def)
  obtain f where f: "switch_phase (front mi) = Inr f" "front_wf n f" "balanced n (out_reads_of mi) f" "front_kept (front mi) f"
    by (rule switch_phase_ok [OF wf bal])
  let ?mi = "mi\<lparr>front := f\<rparr>"
  have "out_reads_of ?mi = out_reads_of mi" by (simp add: out_reads_of_def fun_eq_iff)
  then have inv0: "mi_inv n ?mi" using inv f by (simp add: mi_inv_def front_kept_def front_frame_def)
  have lm: "length (memory_system_list mi) = n" using inv by (simp add: mi_inv_def mems_ok_def)
  have "\<exists>mi' tv'. res_fold stack_tick (map int [0..<k]) (?mi, tv) = Inr (mi', tv') \<and> mi_inv n mi' \<and> front_kept f (front mi') \<and>
      (\<forall>j\<ge>k. memory_system_list mi' ! j = memory_system_list mi ! j)" if "k \<le> n" for k
    using that
  proof (induction k)
    case 0
    then show ?case using inv0 by simp
  next
    case (Suc k)
    then obtain mi1 tv1 where r: "res_fold stack_tick (map int [0..<k]) (?mi, tv) = Inr (mi1, tv1)" "mi_inv n mi1" "front_kept f (front mi1)"
      "\<forall>j\<ge>k. memory_system_list mi1 ! j = memory_system_list mi ! j" by auto
    have k: "k < n" using Suc.prems by simp
    have "mem_may_tick (memory_system_list mi1 ! k)" using t r(4) lm k by simp
    from r(2) k this obtain mi2 tv2 where "stack_tick (int k) (mi1, tv1) = Inr (mi2, tv2)" "mi_inv n mi2" "front_kept (front mi1) (front mi2)"
      "\<forall>j. j \<noteq> k \<longrightarrow> memory_system_list mi2 ! j = memory_system_list mi1 ! j" by (rule stack_tick_ok)
    then show ?case using r front_kept_trans by fastforce
  qed
  from this [OF order_refl] obtain mi' tv' where r: "res_fold stack_tick (map int [0..<n]) (?mi, tv) = Inr (mi', tv')" "mi_inv n mi'" "front_kept f (front mi')"
    by blast
  have "st_num f = of_nat n" "n < 2 ^ 64" using f(2) by (simp_all add: front_wf_def)
  then have u: "irange (uint (st_num f)) = map int [0..<n]" by (simp add: irange_def unat_of_nat_less flip: unat_eq_nat_uint)
  have "mmi_ClockTick mi tv = Inr (mi', tv')"
    using f(1) r(1) u by (simp add: mmi_ClockTick_def switch_phase_def use_memory_switch_def Let_def)
  then show thesis using r(2) front_kept_trans [OF f(4) r(3)] by (rule that)
qed

end
