(* ===== verification/Anna_Memory_Run.thy ===== *)
theory Anna_Memory_Run
  imports Anna_Memory_Inv
begin

text \<open>
  Executions of the multi-stack memory interface: readers register, send requests and collect
  answers while the clock ticks. The interface never aborts, and every reader is answered
  exactly once for every request it sent.
\<close>

section \<open>Readers\<close>

text \<open>The new queues of a reader, stack by stack.\<close>

lemma add_reader_prefix:
  "k \<le> length (read_ready_queues f) \<Longrightarrow> k < 2 ^ 64 \<Longrightarrow>
    res_fold add_reader (map of_nat [0..<k]) f =
      Inr (f\<lparr>read_ready_queues := map (\<lambda>qs. qs @ [[]]) (take k (read_ready_queues f)) @ drop k (read_ready_queues f)\<rparr>)"
proof (induction k)
  case (Suc k)
  have u: "unat (of_nat k :: u64) = k" using Suc.prems(2) by (intro unat_of_nat_less) simp
  have d: "drop k (read_ready_queues f) = read_ready_queues f ! k # drop (Suc k) (read_ready_queues f)"
    and t: "take (Suc k) (read_ready_queues f) = take k (read_ready_queues f) @ [read_ready_queues f ! k]"
    using Suc.prems(1) by (simp_all add: Cons_nth_drop_Suc take_Suc_conv_app_nth)
  show ?case using Suc u
    by (simp add: add_reader_def uget_def' uset_def' nth_append d t list_update_append)
qed simp

lemma RegisterId_eq:
  assumes wf: "front_wf n f"
  shows "RegisterId core f = Inr (id_num f, f\<lparr>id2core := sm_put (id_num f) core (id2core f), id_num := id_num f + 1,
    read_ready_queues := map (\<lambda>qs. qs @ [[]]) (read_ready_queues f)\<rparr>)"
proof -
  let ?g = "f\<lparr>id2core := sm_put (id_num f) core (id2core f), id_num := id_num f + 1\<rparr>"
  have n: "n < 2 ^ 64" "length (read_ready_queues f) = n" "urange (st_num f) = map of_nat [0..<n]"
    using wf by (simp_all add: front_wf_def urange_def unat_of_nat_less)
  have "res_fold add_reader (urange (st_num f)) ?g = Inr (?g\<lparr>read_ready_queues := map (\<lambda>qs. qs @ [[]]) (read_ready_queues f)\<rparr>)"
    using add_reader_prefix [of n ?g] n by simp
  then show ?thesis by (simp add: RegisterId_def)
qed

lemma RegisterId_ok:
  assumes wf: "front_wf n f" and bal: "balanced n R f" and core: "unat core < n" and new: "id_num f \<noteq> - 1"
  obtains f' where "RegisterId core f = Inr (id_num f, f')" and "front_wf n f'" and "balanced n R f'"
    and "id_num f' = id_num f + 1" and "mapper f' = mapper f"
    and "\<forall>st<n. \<forall>i<id_num f. acct f' st i = acct f st i" and "\<forall>st<n. acct f' st (id_num f) = {#}"
    and "\<forall>i. core_of f' i = (if i = id_num f then core else core_of f i)"
proof -
  let ?f = "f\<lparr>id2core := sm_put (id_num f) core (id2core f), id_num := id_num f + 1, read_ready_queues := map (\<lambda>qs. qs @ [[]]) (read_ready_queues f)\<rparr>"
  have s: "unat (id_num f + 1) = Suc (unat (id_num f))" using new unatSuc [of "id_num f"] by (simp add: add.commute add_eq_0_iff)
  then have less: "i < id_num f + 1 \<longleftrightarrow> i < id_num f \<or> i = id_num f" for i
    by (metis less_Suc_eq of_nat_unat_self word_less_nat_alt)
  have "front_wf n ?f" using wf core s unfolding front_wf_def core_of_def by (auto simp: less)
  moreover have "balanced n R ?f" using bal by (simp add: balanced_def pend_def returning_def)
  moreover have "acct ?f st i = acct f st i" if "st < n" "i < id_num f" for st i
    using that wf front_wf_nth(1) [OF wf that(1)] by (simp add: acct_def front_wf_def nth_append word_less_nat_alt)
  moreover have "acct ?f st (id_num f) = {#}" if st: "st < n" for st
  proof -
    have "\<forall>e\<in>set (id_map f ! st). snd e \<noteq> id_num f" using front_wf_nth(2) [OF wf st] by force
    then have "filter_mset (\<lambda>e. snd e = id_num f) (mset (id_map f ! st)) = {#}" by (simp add: filter_empty_conv flip: mset_filter)
    then show ?thesis using st wf front_wf_nth(1) [OF wf st] by (simp add: acct_def front_wf_def nth_append)
  qed
  moreover have "core_of ?f i = (if i = id_num f then core else core_of f i)" for i by (simp add: core_of_def)
  ultimately show thesis using RegisterId_eq [OF wf, of core] by (intro that [of ?f]) simp_all
qed

section \<open>Receipts\<close>

lemma take_ready_prefix:
  assumes wf: "front_wf n f" and i: "i < id_num f"
  shows "k \<le> n \<Longrightarrow> res_fold (take_ready i) (map of_nat [0..<k]) (c, f) =
    Inr (c + of_nat (\<Sum>st<k. length (read_ready_queues f ! st ! unat i)),
      f\<lparr>read_ready_queues := map (\<lambda>qs. qs[unat i := []]) (take k (read_ready_queues f)) @ drop k (read_ready_queues f)\<rparr>)"
proof (induction k)
  case (Suc k)
  have l: "length (read_ready_queues f) = n" and k: "k < n" "k < 2 ^ 64" using wf Suc.prems by (simp_all add: front_wf_def)
  have u: "unat (of_nat k :: u64) = k" using k(2) by (rule unat_of_nat_less)
  have iu: "unat i < length (read_ready_queues f ! k)" using front_wf_nth(1) [OF wf k(1)] i by (simp add: word_less_nat_alt)
  have d: "drop k (read_ready_queues f) = read_ready_queues f ! k # drop (Suc k) (read_ready_queues f)"
    and t: "take (Suc k) (read_ready_queues f) = take k (read_ready_queues f) @ [read_ready_queues f ! k]"
    using k(1) l by (simp_all add: Cons_nth_drop_Suc take_Suc_conv_app_nth)
  show ?case using Suc u l k(1) iu
    by (simp add: take_ready_def uget_def' uset_def' nth_append d t list_update_append)
qed simp

lemma GetAllReadyReadRequest_ok:
  assumes wf: "front_wf n f" and bal: "balanced n R f" and i: "i < id_num f"
  obtains f' k where "GetAllReadyReadRequest i f = Inr (of_nat k, f')" and "front_wf n f'" and "balanced n R f'" and "front_frame f f'"
    and "(\<Sum>st<n. size (acct f st i)) = k + (\<Sum>st<n. size (acct f' st i))"
    and "\<forall>st<n. \<forall>j<id_num f. j \<noteq> i \<longrightarrow> acct f' st j = acct f st j"
    and "\<forall>st<n. read_ready_queues f' ! st ! unat i = []"
proof -
  let ?q = "\<lambda>st. read_ready_queues f ! st ! unat i" and ?f = "f\<lparr>read_ready_queues := map (\<lambda>qs. qs[unat i := []]) (read_ready_queues f)\<rparr>"
  have n: "length (read_ready_queues f) = n" "urange (st_num f) = map of_nat [0..<n]"
    using wf by (simp_all add: front_wf_def urange_def unat_of_nat_less)
  have "GetAllReadyReadRequest i f = Inr (of_nat (\<Sum>st<n. length (?q st)), ?f)"
    using take_ready_prefix [OF wf i order_refl, of 0] n by (simp add: GetAllReadyReadRequest_def)
  moreover have iu: "unat i < length (read_ready_queues f ! st)" if "st < n" for st
    using front_wf_nth(1) [OF wf that] i by (simp add: word_less_nat_alt)
  moreover have "size (acct f st i) = length (?q st) + size (acct ?f st i)" if "st < n" for st
    using that n(1) iu [OF that] by (simp add: acct_def)
  then have "(\<Sum>st<n. size (acct f st i)) = (\<Sum>st<n. length (?q st)) + (\<Sum>st<n. size (acct ?f st i))"
    by (simp flip: sum.distrib)
  moreover have "acct ?f st j = acct f st j" if "st < n" "j \<noteq> i" for st j
  proof -
    have "unat j \<noteq> unat i" using that(2) by (metis of_nat_unat_self)
    then show ?thesis using that(1) n(1) by (simp add: acct_def)
  qed
  moreover have "front_wf n ?f" using wf by (simp add: front_wf_def core_of_def)
  moreover have "balanced n R ?f" using bal by (simp add: balanced_def pend_def returning_def)
  ultimately show thesis using n(1) iu by (intro that [of "\<Sum>st<n. length (?q st)" ?f]) (simp_all add: front_frame_def)
qed

section \<open>Construction\<close>

lemma sum_empty_mset: "\<forall>x\<in>A. g x = {#} \<Longrightarrow> sum g A = {#}"
  by (rule sum.neutral)

lemma MultiMemoryInterface_of_ok:
  assumes cfg: "\<forall>i. mem_cfg_ok (cfg i)"
  obtains mi where "MultiMemoryInterface_of 8 cfg = Inr mi" and "mi_inv 8 mi" and "id_num (front mi) = 0"
    and "\<forall>m\<in>set (memory_system_list mi). \<exists>i. mem_fresh (cfg i) m"
proof -
  obtain mp where mp: "AddressStackMaper_new MAPPER_OFFSET (MAPPER_OFFSET + 3) = Inr mp" "l_pos mp = 16" "r_pos mp = 19"
    by (simp add: MAPPER_OFFSET_def AddressStackMaper_new_def field_mask_def)
  have sw: "stack_wf mp" by (rule AddressStackMaper_new_wf [OF mp(1)]) (simp add: MAPPER_OFFSET_def)
  obtain f where f: "mmi_new 8 = Inr f"
    "f = \<lparr>st_num = 8, read_request_queue = replicate 8 [], read_ready_queues = replicate 8 [],
         id_map = replicate 8 [], id_num = 0, id2core = [], memory_switch = MemorySwitch_new 8, mapper = mp\<rparr>"
    by (simp add: mmi_new_def mp(1))
  let ?cb = "\<lambda>i. call_event (ReadCallback i) (WriteCallback i)"
  let ?Q = "\<lambda>i m. mem_inv m \<and> mem_outs m = {#} \<and> mem_call m = ?cb (of_int i) \<and> mem_fresh (cfg i) m"
  have "\<exists>ms. res_map (\<lambda>i. MemorySystem_of (cfg i) (ReadCallback (of_int i)) (WriteCallback (of_int i))) (irange 8) = Inr ms \<and>
      list_all2 ?Q (irange 8) ms"
  proof (rule res_map_ok)
    fix i
    have "mem_cfg_ok (cfg i)" using cfg by blast
    then show "\<exists>m. MemorySystem_of (cfg i) (ReadCallback (of_int i)) (WriteCallback (of_int i)) = Inr m \<and> ?Q i m"
      by (rule MemorySystem_of_ok [of "cfg i" "ReadCallback (of_int i)" "WriteCallback (of_int i)"]) auto
  qed
  then obtain ms where ms: "res_map (\<lambda>i. MemorySystem_of (cfg i) (ReadCallback (of_int i)) (WriteCallback (of_int i))) (irange 8) = Inr ms"
    "list_all2 ?Q (irange 8) ms" by blast
  have len: "length ms = 8" using list_all2_lengthD [OF ms(2)] by simp
  have q: "?Q (int st) (ms ! st)" if "st < 8" for st
    using list_all2_nthD2 [OF ms(2), of st] that len by (simp add: irange_def)
  let ?mi = "\<lparr>memory_system_list = ms, front = f\<rparr>"
  have wf: "front_wf 8 f" using MemorySwitch_new_wf(1) [of 8] by (simp add: f(2) front_wf_def)
  have e: "req_flow (MemorySwitch_new 8) c st = [] \<and> res_flow (MemorySwitch_new 8) c st = []" if "c < 8" "st < 8" for c st
    using MemorySwitch_new_wf(2) [of c 8 st] that by simp
  have "balanced 8 (out_reads_of ?mi) f"
    unfolding balanced_def
  proof (intro allI impI)
    fix st :: nat assume st: "st < 8"
    have "pend 8 f st = {#}" "returning 8 f st = {#}"
      using st e by (simp_all add: pend_def returning_def f(2) sum_empty_mset)
    then show "mm_keys (id_map f ! st) = pend 8 f st + out_reads_of ?mi st + returning 8 f st"
      using st q [OF st] by (simp add: f(2) out_reads_of_def)
  qed
  moreover have "mems_ok 8 ms" using len q by (simp add: mems_ok_def)
  moreover have "unat (fst (stack_map (mapper f) x)) < 8 \<and> snd (stack_map (mapper f) x) \<noteq> - 1" for x
    using stack_map_st [OF sw, of x] stack_map_not_sentinel [OF sw, of x] mp(2,3) by (simp add: f(2))
  ultimately have "mi_inv 8 ?mi" using wf by (simp add: mi_inv_def)
  moreover have "\<forall>m\<in>set ms. \<exists>i. mem_fresh (cfg i) m"
    using q len by (metis in_set_conv_nth)
  moreover have "MultiMemoryInterface_of 8 cfg = Inr ?mi" using f(1) ms(1) by (simp add: MultiMemoryInterface_of_def)
  ultimately show thesis using f(2) by (intro that [of ?mi]) simp_all
qed

section \<open>Executions\<close>

text \<open>
  An execution of the interface by its readers. The relation counts the requests of every reader
  and the answers it collected; the tick is taken in states in which the clocks of the memories
  have not reached the bound of the dual-command mode.
\<close>

inductive mi_run :: "MultiMemoryInterface \<Rightarrow> (u64 \<Rightarrow> nat) \<Rightarrow> (u64 \<Rightarrow> u64) \<Rightarrow> MultiMemoryInterface \<Rightarrow> bool" for mi0 where
  mi_start: "mi_run mi0 (\<lambda>i. 0) (\<lambda>i. 0) mi0"
| mi_register: "mi_run mi0 req got mi \<Longrightarrow> core < st_num (front mi) \<Longrightarrow> id_num (front mi) \<noteq> - 1 \<Longrightarrow>
    RegisterId core (front mi) = Inr (i, f) \<Longrightarrow> mi_run mi0 req got (mi\<lparr>front := f\<rparr>)"
| mi_request: "mi_run mi0 req got mi \<Longrightarrow> i < id_num (front mi) \<Longrightarrow> RequestRead i x (front mi) = Inr f \<Longrightarrow>
    mi_run mi0 (req(i := Suc (req i))) got (mi\<lparr>front := f\<rparr>)"
| mi_collect: "mi_run mi0 req got mi \<Longrightarrow> i < id_num (front mi) \<Longrightarrow> GetAllReadyReadRequest i (front mi) = Inr (k, f) \<Longrightarrow>
    mi_run mi0 req (got(i := got i + k)) (mi\<lparr>front := f\<rparr>)"
| mi_tick: "mi_run mi0 req got mi \<Longrightarrow> \<forall>m\<in>set (memory_system_list mi). mem_may_tick m \<Longrightarrow> mmi_ClockTick mi tv = Inr (mi', tv') \<Longrightarrow>
    mi_run mi0 req got mi'"

definition owed :: "nat \<Rightarrow> mmi \<Rightarrow> u64 \<Rightarrow> nat" where
  "owed n f i = (\<Sum>st<n. size (acct f st i))"

lemma out_reads_front [simp]: "out_reads_of (mi\<lparr>front := f\<rparr>) = out_reads_of mi"
  by (simp add: out_reads_of_def fun_eq_iff)

lemma mi_inv_front:
  "mi_inv n mi \<Longrightarrow> front_wf n f \<Longrightarrow> balanced n (out_reads_of mi) f \<Longrightarrow> mapper f = mapper (front mi) \<Longrightarrow> mi_inv n (mi\<lparr>front := f\<rparr>)"
  by (simp add: mi_inv_def)

lemma owed_add:
  assumes "acct f' = (acct f)(st := (acct f st)(i := add_mset a (acct f st i)))" and "st < n"
  shows "owed n f' j = (if j = i then Suc (owed n f j) else owed n f j)"
proof -
  have "(\<Sum>s\<in>{..<n} - {st}. size (acct f' s j)) = (\<Sum>s\<in>{..<n} - {st}. size (acct f s j))"
    by (rule sum.cong) (auto simp: assms(1))
  then show ?thesis using assms by (simp add: owed_def sum.remove [of "{..<n}" st])
qed

definition accounts :: "nat \<Rightarrow> (u64 \<Rightarrow> nat) \<Rightarrow> (u64 \<Rightarrow> u64) \<Rightarrow> mmi \<Rightarrow> bool" where
  "accounts n req got f \<longleftrightarrow>
     (\<forall>i<id_num f. of_nat (req i) = got i + of_nat (owed n f i)) \<and> (\<forall>i\<ge>id_num f. req i = 0 \<and> got i = 0)"

lemma mi_run_inv:
  assumes "mi_run mi0 req got mi" and "mi_inv n mi0" and "id_num (front mi0) = 0"
  shows "mi_inv n mi \<and> accounts n req got (front mi)"
  using assms
proof (induction rule: mi_run.induct)
  case mi_start
  then show ?case by (simp add: accounts_def)
next
  case (mi_register req got mi core i f)
  then have inv: "mi_inv n mi" and acc: "accounts n req got (front mi)" by auto
  then have wf: "front_wf n (front mi)" "balanced n (out_reads_of mi) (front mi)" by (simp_all add: mi_inv_def)
  have c: "unat core < n" using mi_register.hyps(2) wf(1) by (simp add: front_wf_def word_less_nat_alt unat_of_nat_less)
  from wf c mi_register.hyps(3) obtain f' where f': "RegisterId core (front mi) = Inr (id_num (front mi), f')" "front_wf n f'"
    "balanced n (out_reads_of mi) f'" "id_num f' = id_num (front mi) + 1" "mapper f' = mapper (front mi)"
    "\<forall>st<n. \<forall>i<id_num (front mi). acct f' st i = acct (front mi) st i" "\<forall>st<n. acct f' st (id_num (front mi)) = {#}"
    by (rule RegisterId_ok)
  have f: "f = f'" using f'(1) mi_register.hyps(4) by simp
  have "unat (id_num (front mi) + 1) = Suc (unat (id_num (front mi)))"
    using mi_register.hyps(3) unatSuc [of "id_num (front mi)"] by (simp add: add.commute add_eq_0_iff)
  then have less: "j < id_num f' \<longleftrightarrow> j < id_num (front mi) \<or> j = id_num (front mi)" for j
    unfolding f'(4) by (metis less_Suc_eq of_nat_unat_self word_less_nat_alt)
  have "owed n f' j = owed n (front mi) j" if "j < id_num (front mi)" for j using f'(6) that by (simp add: owed_def)
  moreover have "owed n f' (id_num (front mi)) = 0" using f'(7) by (simp add: owed_def)
  ultimately have "accounts n req got f'" using acc unfolding accounts_def by (auto simp: less not_less [symmetric])
  then show ?case using mi_inv_front [OF inv f'(2,3,5)] f by simp
next
  case (mi_request req got mi i x f)
  then have inv: "mi_inv n mi" and acc: "accounts n req got (front mi)" by auto
  then have wf: "front_wf n (front mi)" "balanced n (out_reads_of mi) (front mi)" by (simp_all add: mi_inv_def)
  obtain st a where x: "stack_map (mapper (front mi)) x = (st, a)" by (cases "stack_map (mapper (front mi)) x")
  have st: "unat st < n" "a \<noteq> - 1" using inv x unfolding mi_inv_def by (metis fst_conv, metis snd_conv)
  from wf mi_request.hyps(2) x st obtain f' where f': "RequestRead i x (front mi) = Inr f'" "front_wf n f'" "front_frame (front mi) f'"
    "balanced n (out_reads_of mi) f'"
    "acct f' = (acct (front mi))(unat st := (acct (front mi) (unat st))(i := add_mset a (acct (front mi) (unat st) i)))"
    by (rule RequestRead_ok)
  have f: "f = f'" using f'(1) mi_request.hyps(3) by simp
  have fr: "mapper f' = mapper (front mi)" "id_num f' = id_num (front mi)" using f'(3) by (simp_all add: front_frame_def)
  have "accounts n (req(i := Suc (req i))) got f'"
    using acc mi_request.hyps(2) owed_add [OF f'(5) st(1)] by (auto simp: accounts_def fr)
  then show ?case using mi_inv_front [OF inv f'(2,4) fr(1)] f by (simp add: fun_upd_def)
next
  case (mi_collect req got mi i k f)
  then have inv: "mi_inv n mi" and acc: "accounts n req got (front mi)" by auto
  then have wf: "front_wf n (front mi)" "balanced n (out_reads_of mi) (front mi)" by (simp_all add: mi_inv_def)
  from wf mi_collect.hyps(2) obtain f' c where f': "GetAllReadyReadRequest i (front mi) = Inr (of_nat c, f')" "front_wf n f'"
    "balanced n (out_reads_of mi) f'" "front_frame (front mi) f'"
    "(\<Sum>st<n. size (acct (front mi) st i)) = c + (\<Sum>st<n. size (acct f' st i))"
    "\<forall>st<n. \<forall>j<id_num (front mi). j \<noteq> i \<longrightarrow> acct f' st j = acct (front mi) st j" by (rule GetAllReadyReadRequest_ok)
  have f: "f = f'" "k = of_nat c" using f'(1) mi_collect.hyps(3) by simp_all
  have fr: "mapper f' = mapper (front mi)" "id_num f' = id_num (front mi)" using f'(4) by (simp_all add: front_frame_def)
  have "owed n f' j = owed n (front mi) j" if "j < id_num (front mi)" "j \<noteq> i" for j using f'(6) that by (simp add: owed_def)
  moreover have "owed n (front mi) i = c + owed n f' i" using f'(5) by (simp add: owed_def)
  ultimately have "accounts n req (got(i := got i + k)) f'"
    using acc mi_collect.hyps(2) by (auto simp: accounts_def fr f(2))
  then show ?case using mi_inv_front [OF inv f'(2,3) fr(1)] f(1) by (simp add: fun_upd_def)
next
  case (mi_tick req got mi tv mi' tv')
  then have inv: "mi_inv n mi" and acc: "accounts n req got (front mi)" by auto
  from inv mi_tick.hyps(2) obtain mi1 tv1 where t: "mmi_ClockTick mi tv = Inr (mi1, tv1)" "mi_inv n mi1" "front_kept (front mi) (front mi1)"
    by (rule mmi_ClockTick_ok)
  have "accounts n req got (front mi1)" using acc t(3) by (simp add: accounts_def owed_def front_kept_def front_frame_def)
  then show ?case using t mi_tick.hyps(3) by simp
qed

section \<open>Properties\<close>


text \<open>An execution with one reader and one request.\<close>

lemma sample_mi_run:
  obtains mi0 mi where "MultiMemoryInterface_of 8 (\<lambda>_. hbm2_config) = Inr mi0" and "mi_run mi0 ((\<lambda>i. 0)(0 := 1)) (\<lambda>i. 0) mi"
    and "id_num (front mi) = 1" and "\<forall>m\<in>set (memory_system_list mi). mem_may_tick m"
proof -
  obtain mi0 where mi0: "MultiMemoryInterface_of 8 (\<lambda>_. hbm2_config) = Inr mi0" "mi_inv 8 mi0" "id_num (front mi0) = 0"
    "\<forall>m\<in>set (memory_system_list mi0). \<exists>i :: int. mem_fresh hbm2_config m"
    by (rule MultiMemoryInterface_of_ok [of "\<lambda>_. hbm2_config"]) (use hbm2_mem_ok in auto)
  have wf0: "front_wf 8 (front mi0)" "balanced 8 (out_reads_of mi0) (front mi0)" using mi0(2) by (simp_all add: mi_inv_def)
  obtain f1 where f1: "RegisterId 3 (front mi0) = Inr (0, f1)" "front_wf 8 f1" "balanced 8 (out_reads_of mi0) f1" "id_num f1 = 1" "mapper f1 = mapper (front mi0)"
    by (rule RegisterId_ok [OF wf0, of 3]) (simp_all add: mi0(3))
  have "st_num (front mi0) = 8" using wf0(1) by (simp add: front_wf_def)
  then have r1: "mi_run mi0 (\<lambda>i. 0) (\<lambda>i. 0) (mi0\<lparr>front := f1\<rparr>)"
    by (intro mi_register [OF mi_start _ _ f1(1)]) (simp_all add: mi0(3))
  obtain st a where x: "stack_map (mapper f1) 0x30000 = (st, a)" by (cases "stack_map (mapper f1) 0x30000")
  have st: "unat st < 8" "a \<noteq> - 1" using mi0(2) x unfolding mi_inv_def f1(5) by (metis fst_conv, metis snd_conv)
  obtain f2 where f2: "RequestRead 0 0x30000 f1 = Inr f2" "front_frame f1 f2"
    by (rule RequestRead_ok [OF f1(2,3) _ x st, of 0]) (simp_all add: f1(4))
  have "mi_run mi0 ((\<lambda>i. 0)(0 := Suc 0)) (\<lambda>i. 0) (mi0\<lparr>front := f1, front := f2\<rparr>)"
    using mi_request [OF r1, of 0 "0x30000" f2] by (simp add: f1(4) f2(1))
  moreover have "mem_may_tick m" if "m \<in> set (memory_system_list mi0)" for m
    using mi0(4) that fresh_may_tick [OF _ hbm2_rw_gap] by auto
  ultimately show thesis using mi0(1) f2(2) f1(4)
    by (intro that [of mi0 "mi0\<lparr>front := f1, front := f2\<rparr>"]) (simp_all add: front_frame_def)
qed


text \<open>The memory interface never aborts. In every execution a registered reader can send a
  request for any address and collect its answers, and the clock can tick: the assertion of
  \<^verbatim>\<open>ReadCallback\<close> holds, every response finds its reader, no queue index is out of
  range and no memory is handed a transaction it does not accept.\<close>

theorem interface_never_aborts:
  assumes "\<forall>i. mem_cfg_ok (cfg i)" and "MultiMemoryInterface_of 8 cfg = Inr mi0" and "mi_run mi0 req got mi"
    and "i < id_num (front mi)" and "\<forall>m\<in>set (memory_system_list mi). mem_may_tick m"
  shows "is_ok (RequestRead i x (front mi)) \<and> is_ok (GetAllReadyReadRequest i (front mi)) \<and> is_ok (mmi_ClockTick mi tv)"
proof -
  obtain mi1 where "MultiMemoryInterface_of 8 cfg = Inr mi1" "mi_inv 8 mi1" "id_num (front mi1) = 0"
    by (rule MultiMemoryInterface_of_ok [OF assms(1)])
  then have "mi_inv 8 mi0" "id_num (front mi0) = 0" using assms(2) by auto
  from mi_run_inv [OF assms(3) this] have inv: "mi_inv 8 mi" by simp
  then have wf: "front_wf 8 (front mi)" "balanced 8 (out_reads_of mi) (front mi)" by (simp_all add: mi_inv_def)
  obtain st a where x: "stack_map (mapper (front mi)) x = (st, a)" by (cases "stack_map (mapper (front mi)) x")
  have st: "unat st < 8" "a \<noteq> - 1" using inv x unfolding mi_inv_def by (metis fst_conv, metis snd_conv)
  have "is_ok (RequestRead i x (front mi))" by (rule RequestRead_ok [OF wf assms(4) x st]) simp
  moreover have "is_ok (GetAllReadyReadRequest i (front mi))" by (rule GetAllReadyReadRequest_ok [OF wf assms(4)]) simp
  moreover have "is_ok (mmi_ClockTick mi tv)" by (rule mmi_ClockTick_ok [OF inv assms(5), of tv]) simp
  ultimately show ?thesis by blast
qed

theorem interface_never_aborts_witness:
  "\<exists>mi0 mi req. MultiMemoryInterface_of 8 (\<lambda>_. hbm2_config) = Inr mi0 \<and> mi_run mi0 req (\<lambda>i. 0) mi \<and>
     is_ok (mmi_ClockTick mi TestValue_new)"
proof -
  obtain mi0 mi where r: "MultiMemoryInterface_of 8 (\<lambda>_. hbm2_config) = Inr mi0" "mi_run mi0 ((\<lambda>i. 0)(0 := 1)) (\<lambda>i. 0) mi"
    "id_num (front mi) = 1" "\<forall>m\<in>set (memory_system_list mi). mem_may_tick m" by (rule sample_mi_run)
  have "\<forall>i. mem_cfg_ok ((\<lambda>_. hbm2_config) (i :: int))" using hbm2_mem_ok by simp
  from interface_never_aborts [OF this r(1,2) _ r(4), of 0] r(1,2,3) show ?thesis by auto
qed

end
