(* ===== verification/Anna_Reader_Run.thy ===== *)
theory Anna_Reader_Run
  imports Anna_Reader Anna_Memory_Run
begin

text \<open>
  The readers over the memory interface: the requests of a range cover it block by block, and the
  counter of a reader is exact, so that a reader is ready exactly when everything it was asked
  for has been answered and collected.
\<close>

section \<open>The invariant of a reader\<close>

definition reader_inv :: "nat \<Rightarrow> mmi \<Rightarrow> MemoryReader \<Rightarrow> bool" where
  "reader_inv n f r \<longleftrightarrow> reader_id r < id_num f \<and>
     processing_num r = of_nat (length (request_queue r)) + of_nat (owed n f (reader_id r))"

text \<open>What a step of one reader guarantees to the others and to the memories.\<close>

definition front_ok :: "nat \<Rightarrow> (nat \<Rightarrow> u64 multiset) \<Rightarrow> mmi \<Rightarrow> bool" where
  "front_ok n R f \<longleftrightarrow> front_wf n f \<and> balanced n R f \<and>
     (\<forall>x. unat (fst (stack_map (mapper f) x)) < n \<and> snd (stack_map (mapper f) x) \<noteq> - 1)"

lemma mi_inv_front_ok: "mi_inv n mi \<longleftrightarrow> front_ok n (out_reads_of mi) (front mi) \<and> mems_ok n (memory_system_list mi)"
  by (auto simp: mi_inv_def front_ok_def)

definition others_kept :: "nat \<Rightarrow> u64 set \<Rightarrow> mmi \<Rightarrow> mmi \<Rightarrow> bool" where
  "others_kept n I f f' \<longleftrightarrow> front_frame f f' \<and> (\<forall>j<id_num f. j \<notin> I \<longrightarrow> owed n f' j = owed n f j)"

lemma others_kept_refl [simp]: "others_kept n I f f"
  by (simp add: others_kept_def)

lemma others_kept_trans:
  "others_kept n I f g \<Longrightarrow> others_kept n J g h \<Longrightarrow> I \<subseteq> K \<Longrightarrow> J \<subseteq> K \<Longrightarrow> others_kept n K f h"
  unfolding others_kept_def front_frame_def by (metis subsetD)

lemma others_kept_inv:
  "others_kept n I f f' \<Longrightarrow> reader_inv n f r \<Longrightarrow> reader_id r \<notin> I \<Longrightarrow> reader_inv n f' r"
  by (auto simp: others_kept_def reader_inv_def front_frame_def)

lemma kept_reader_inv: "front_kept f f' \<Longrightarrow> reader_inv n f r \<Longrightarrow> reader_inv n f' r"
  by (simp add: reader_inv_def front_kept_def front_frame_def owed_def)

section \<open>Operations\<close>

lemma request_step:
  assumes ok: "front_ok n R f" and i: "i < id_num f"
  obtains f' where "RequestRead i x f = Inr f'" and "front_ok n R f'" and "others_kept n {i} f f'"
    and "owed n f' i = Suc (owed n f i)"
proof -
  obtain st a where x: "stack_map (mapper f) x = (st, a)" by (cases "stack_map (mapper f) x")
  have wf: "front_wf n f" "balanced n R f" and st: "unat st < n" "a \<noteq> - 1"
    using ok x unfolding front_ok_def by (auto, metis fst_conv, metis snd_conv)
  obtain f' where f': "RequestRead i x f = Inr f'" "front_wf n f'" "front_frame f f'" "balanced n R f'"
    "acct f' = (acct f)(unat st := (acct f (unat st))(i := add_mset a (acct f (unat st) i)))"
    by (rule RequestRead_ok [OF wf i x st])
  note o = owed_add [OF f'(5) st(1)]
  show thesis using f' ok o by (intro that [of f']) (simp_all add: front_ok_def others_kept_def front_frame_def)
qed

lemma send_requests_ok:
  "front_ok n R f \<Longrightarrow> i < id_num f \<Longrightarrow> unat cnt \<le> 16 \<Longrightarrow>
    \<exists>f'. send_requests i cnt q f = Inr (drop (17 - unat cnt) q, f') \<and> front_ok n R f' \<and> others_kept n {i} f f' \<and>
      owed n f' i = owed n f i + length (take (17 - unat cnt) q)"
proof (induction q arbitrary: cnt f)
  case (Cons a q)
  obtain f1 where f1: "RequestRead i a f = Inr f1" "front_ok n R f1" "others_kept n {i} f f1" "owed n f1 i = Suc (owed n f i)"
    by (rule request_step [OF Cons.prems(1,2)])
  have u: "unat (cnt + 1) = Suc (unat cnt)"
    using unat_add_lem [of cnt 1] Cons.prems(3) by simp
  have i1: "i < id_num f1" using f1(3) Cons.prems(2) by (simp add: others_kept_def front_frame_def)
  show ?case
  proof (cases "cnt + 1 > 16")
    case True
    then have "unat cnt = 16" using u Cons.prems(3) by (simp add: word_less_nat_alt)
    then show ?thesis using True f1 by simp
  next
    case False
    then have c: "unat (cnt + 1) \<le> 16" by (simp add: word_less_nat_alt)
    have d: "17 - unat cnt = Suc (17 - unat (cnt + 1))" using c u by simp
    obtain f' where "send_requests i (cnt + 1) q f1 = Inr (drop (17 - unat (cnt + 1)) q, f')" "front_ok n R f'" "others_kept n {i} f1 f'"
      "owed n f' i = owed n f1 i + length (take (17 - unat (cnt + 1)) q)" using Cons.IH [OF f1(2) i1 c] by blast
    then show ?thesis using False f1 others_kept_trans [OF f1(3)] by (simp add: d)
  qed
qed simp

lemma reader_ClockTick_ok:
  assumes ok: "front_ok n R f" and inv: "reader_inv n f r"
  obtains r' f' where "reader_ClockTick r f = Inr (r', f')" and "front_ok n R f'" and "others_kept n {reader_id r} f f'"
    and "reader_inv n f' r'" and "reader_id r' = reader_id r" and "request_queue r' = drop 17 (request_queue r)"
    and "reader_finished r' = reader_finished r"
    and "length (request_queue r') + owed n f' (reader_id r) \<le> length (request_queue r) + owed n f (reader_id r)"
proof -
  let ?i = "reader_id r" and ?q = "request_queue r"
  have i: "?i < id_num f" using inv by (simp add: reader_inv_def)
  obtain f1 where f1: "send_requests ?i 0 ?q f = Inr (drop 17 ?q, f1)" "front_ok n R f1" "others_kept n {?i} f f1"
    "owed n f1 ?i = owed n f ?i + length (take 17 ?q)" using send_requests_ok [OF ok i, of 0 ?q] by auto
  have wf1: "front_wf n f1" "balanced n R f1" and i1: "?i < id_num f1" and fr1: "mapper f1 = mapper f" "id_num f1 = id_num f"
    using f1(2,3) i by (simp_all add: front_ok_def others_kept_def front_frame_def)
  obtain f2 k where f2: "GetAllReadyReadRequest ?i f1 = Inr (of_nat k, f2)" "front_wf n f2" "balanced n R f2" "front_frame f1 f2"
    "(\<Sum>st<n. size (acct f1 st ?i)) = k + (\<Sum>st<n. size (acct f2 st ?i))"
    "\<forall>st<n. \<forall>j<id_num f1. j \<noteq> ?i \<longrightarrow> acct f2 st j = acct f1 st j"
    by (rule GetAllReadyReadRequest_ok [OF wf1 i1])
  let ?r = "r\<lparr>request_queue := drop 17 ?q, processing_num := processing_num r - of_nat k\<rparr>"
  have "others_kept n {?i} f1 f2" using f2(4,6) by (simp add: others_kept_def owed_def)
  then have k: "others_kept n {?i} f f2" by (rule others_kept_trans [OF f1(3)]) simp_all
  have ok2: "front_ok n R f2" using f2(2,3,4) f1(2) by (simp add: front_ok_def front_frame_def)
  have "owed n f1 ?i = k + owed n f2 ?i" using f2(5) by (simp add: owed_def)
  then have sum: "length ?q + owed n f ?i = length (drop 17 ?q) + k + owed n f2 ?i" using f1(4) by simp
  then have "(of_nat (length ?q + owed n f ?i) :: u64) = of_nat (length (drop 17 ?q) + k + owed n f2 ?i)" by (rule arg_cong)
  then have "processing_num r = of_nat (length (drop 17 ?q)) + of_nat k + of_nat (owed n f2 ?i)"
    using inv by (simp only: reader_inv_def of_nat_add)
  then have "reader_inv n f2 ?r" using i fr1 f2(4) by (simp add: reader_inv_def front_frame_def)
  then show thesis using f1(1) f2(1) k ok2 sum by (intro that [of ?r f2]) (simp_all add: reader_ClockTick_def)
qed

lemma SubmitReadRequest_ok:
  assumes "reader_inv n f r" and "read_addrs a len strd = Inr as"
  obtains r' where "SubmitReadRequest a len strd r = Inr r'" and "reader_inv n f r'" and "reader_id r' = reader_id r"
    and "request_queue r' = request_queue r @ as"
  using assms by (intro that [of "r\<lparr>request_queue := request_queue r @ as, processing_num := processing_num r + of_nat (length as), reader_finished := False\<rparr>"])
    (simp_all add: SubmitReadRequest_def reader_inv_def)

text \<open>A length that leaves room for one more stride below the end of the 64-bit range.\<close>

lemma read_addrs_ok:
  assumes "unat len + 64 < 2 ^ 64"
  shows "read_addrs a len 64 = Inr (map (\<lambda>k. a + of_nat k * 64) [0..<(unat len + 63) div 64])"
proof -
  have c: "read_count len 64 = (unat len + 63) div 64" by (simp add: read_count_def)
  have "(unat len + 63) div 64 * 64 \<le> unat len + 63" by simp
  then show ?thesis using assms by (auto simp: read_addrs_def c)
qed

lemma FinishAndReset_inv: "reader_inv n f (snd (FinishAndReset r)) = reader_inv n f r" "reader_id (snd (FinishAndReset r)) = reader_id r"
  by (simp_all add: FinishAndReset_def reader_inv_def)

lemma MemoryReader_new_ok:
  assumes ok: "front_ok n R f" and core: "unat core < n" and new: "id_num f \<noteq> - 1"
  obtains r f' where "MemoryReader_new core f = Inr (r, f')" and "front_ok n R f'" and "reader_inv n f' r"
    and "reader_id r = id_num f" and "id_num f' = id_num f + 1" and "request_queue r = []"
    and "\<forall>r. reader_inv n f r \<longrightarrow> reader_inv n f' r" and "reader_finished r" and "owed n f' (id_num f) = 0"
    and "\<forall>i<id_num f. owed n f' i = owed n f i"
proof -
  have wf: "front_wf n f" "balanced n R f" using ok by (simp_all add: front_ok_def)
  obtain f' where f': "RegisterId core f = Inr (id_num f, f')" "front_wf n f'" "balanced n R f'" "id_num f' = id_num f + 1"
    "mapper f' = mapper f" "\<forall>st<n. \<forall>i<id_num f. acct f' st i = acct f st i" "\<forall>st<n. acct f' st (id_num f) = {#}"
    by (rule RegisterId_ok [OF wf core new])
  have u: "unat (id_num f + 1) = Suc (unat (id_num f))" using new unatSuc [of "id_num f"] by (simp add: add.commute add_eq_0_iff)
  let ?r = "\<lparr>reader_id = id_num f, request_queue = [], processing_num = 0, reader_finished = True\<rparr>"
  have "reader_inv n f' ?r" using f'(4,7) u by (simp add: reader_inv_def owed_def word_less_nat_alt)
  moreover have "reader_inv n f' r" if "reader_inv n f r" for r
    using that f'(4,6) u by (simp add: reader_inv_def owed_def word_less_nat_alt)
  moreover have "front_ok n R f'" using ok f'(2,3,5) by (simp add: front_ok_def)
  moreover have "owed n f' (id_num f) = 0" "\<forall>i<id_num f. owed n f' i = owed n f i" using f'(6,7) by (simp_all add: owed_def)
  ultimately show thesis using f'(1,4) by (intro that [of ?r f']) (simp_all add: MemoryReader_new_def)
qed

section \<open>Properties\<close>



text \<open>C39. The requests of a range cover it. For a range that ends at least one stride below the
  end of the 64-bit address space, a reader asks for as many blocks of 64 bytes as the length
  needs, rounded up, all of them different, and every byte of the range lies in exactly one
  requested block.\<close>

theorem range_requests_cover:
  assumes "unat a + unat len + 64 < 2 ^ 64"
  shows "\<exists>as. read_addrs a len 64 = Inr as \<and> length as = (unat len + 63) div 64 \<and> distinct as \<and>
    (\<forall>b<unat len. \<exists>!x. x \<in> set as \<and> unat x \<le> unat a + b \<and> unat a + b < unat x + 64)"
proof -
  let ?n = "(unat len + 63) div 64" and ?x = "\<lambda>k. a + of_nat k * 64 :: u64"
  have u: "unat (?x k) = unat a + k * 64" if "k < ?n" for k
  proof -
    have "k * 64 \<le> unat len" using that by linarith
    moreover have "?x k = of_nat (unat a + k * 64)" by (simp add: of_nat_unat_self)
    ultimately show ?thesis using assms by (simp only: unat_of_nat_less)
  qed
  have "distinct (map ?x [0..<?n])"
    unfolding distinct_map by (auto intro!: inj_onI dest!: arg_cong [where f = unat] simp: u)
  moreover have "\<exists>!x. x \<in> set (map ?x [0..<?n]) \<and> unat x \<le> unat a + b \<and> unat a + b < unat x + 64" if b: "b < unat len" for b
  proof (rule ex1I [of _ "?x (b div 64)"])
    have k: "b div 64 < ?n" using b by linarith
    have "?x (b div 64) \<in> set (map ?x [0..<?n])" by (simp only: set_map) (rule imageI, use k in simp)
    then show "?x (b div 64) \<in> set (map ?x [0..<?n]) \<and> unat (?x (b div 64)) \<le> unat a + b \<and> unat a + b < unat (?x (b div 64)) + 64"
      using u [OF k] by linarith
    fix x assume "x \<in> set (map ?x [0..<?n]) \<and> unat x \<le> unat a + b \<and> unat a + b < unat x + 64"
    then obtain k' where k': "k' < ?n" "x = ?x k'" "unat x \<le> unat a + b" "unat a + b < unat x + 64" by auto
    then have "k' * 64 \<le> b" "b < k' * 64 + 64" using u [OF k'(1)] by simp_all
    then have "k' = b div 64" by linarith
    then show "x = ?x (b div 64)" using k'(2) by simp
  qed
  ultimately show ?thesis using read_addrs_ok [of len a] assms by simp
qed

theorem range_requests_cover_witness:
  "\<exists>as. read_addrs 0x30000 100 64 = Inr as \<and> length as = 2 \<and> (\<exists>!x. x \<in> set as \<and> unat x \<le> 196608 + 99 \<and> 196608 + 99 < unat x + 64)"
proof -
  obtain as where as: "read_addrs 0x30000 100 64 = Inr as" "length as = 2"
    "\<forall>b<100. \<exists>!x. x \<in> set as \<and> unat x \<le> 196608 + b \<and> 196608 + b < unat x + 64"
    using range_requests_cover [of "0x30000" 100] by force
  then show ?thesis using as(3) [rule_format, of 99] by (intro exI [of _ as] conjI) simp_all
qed

end
