(* ===== verification/Anna_Modules_Run.thy ===== *)
theory Anna_Modules_Run
  imports Anna_Modules Anna_Reader_Run
begin

text \<open>
  The modules of a core over the memory interface: their ticks do not abort and keep the
  invariants of their readers; the similarity module is busy for the number of cycles its
  work needs, counted in unsigned numbers, which wrap for an empty cluster.
\<close>

section \<open>Tables and counters\<close>

definition tables_ok :: "anna_tables \<Rightarrow> bool" where
  "tables_ok tb \<longleftrightarrow> length (metadata_addr tb) = length (cluster_addr tb) \<and> length (cluster_centroid tb) = length (cluster_addr tb) \<and>
     (\<forall>(a, len)\<in>set (metadata_addr tb). unat len + 64 < 2 ^ 64) \<and> (\<forall>cl\<in>set (cluster_addr tb). unat (cluster_bytes cl) + 64 < 2 ^ 64)"

definition is_cluster :: "anna_tables \<Rightarrow> u64 \<Rightarrow> bool" where
  "is_cluster tb c \<longleftrightarrow> unat c < length (cluster_addr tb)"

text \<open>The clocks of the queries are the only counters that are read back.\<close>

definition clocks_kept :: "TestValue \<Rightarrow> TestValue \<Rightarrow> bool" where
  "clocks_kept tv tv' \<longleftrightarrow> queries_start_clock tv' = queries_start_clock tv \<and> queries_end_clock tv' = queries_end_clock tv"

lemma clocks_kept_refl [simp]: "clocks_kept tv tv"
  by (simp add: clocks_kept_def)

lemma clocks_kept_trans: "clocks_kept tv tv1 \<Longrightarrow> clocks_kept tv1 tv2 \<Longrightarrow> clocks_kept tv tv2"
  by (simp add: clocks_kept_def)

section \<open>Cluster and codebook processing\<close>

lemma submit_block:
  assumes "reader_inv n f r" and "unat len + 64 < 2 ^ 64"
  obtains r' where "SubmitReadRequest a len default_stride r = Inr r'" and "reader_inv n f r'" and "reader_id r' = reader_id r"
  using SubmitReadRequest_ok [OF assms(1) read_addrs_ok [OF assms(2), of a]] unfolding default_stride_def by metis

lemma submit_centroids_ok:
  "reader_inv n f (cpm_reader c) \<Longrightarrow>
    \<exists>c'. submit_centroids k c = Inr c' \<and> reader_inv n f (cpm_reader c') \<and> reader_id (cpm_reader c') = reader_id (cpm_reader c)"
proof (induction k arbitrary: c)
  case (Suc k)
  show ?case
  proof (cases "wait_addr c")
    case (Cons a rest)
    have "unat VECTOR_SIZE + 64 < 2 ^ 64" by (simp add: anna_constants)
    then obtain r where r: "SubmitReadRequest a VECTOR_SIZE default_stride (cpm_reader c) = Inr r" "reader_inv n f r"
      "reader_id r = reader_id (cpm_reader c)" by (rule submit_block [OF Suc.prems])
    have "reader_inv n f (cpm_reader (c\<lparr>cpm_reader := r, wait_addr := rest\<rparr>))" using r(2) by simp
    from Suc.IH [OF this] show ?thesis using r Cons by simp
  qed (use Suc.prems in simp)
qed simp

lemma cpm_ClockTick_ok:
  assumes ok: "front_ok n R f" and inv: "reader_inv n f (cpm_reader c)"
  obtains c' f' tv' where "cpm_ClockTick c f tv = Inr (c', f', tv')" and "front_ok n R f'"
    and "others_kept n {reader_id (cpm_reader c)} f f'" and "reader_inv n f' (cpm_reader c')"
    and "reader_id (cpm_reader c') = reader_id (cpm_reader c)" and "clocks_kept tv tv'"
proof -
  obtain r f1 where r: "reader_ClockTick (cpm_reader c) f = Inr (r, f1)" "front_ok n R f1" "others_kept n {reader_id (cpm_reader c)} f f1"
    "reader_inv n f1 r" "reader_id r = reader_id (cpm_reader c)" by (rule reader_ClockTick_ok [OF ok inv])
  let ?c = "c\<lparr>cpm_reader := snd (FinishAndReset r)\<rparr>"
  have rd: "reader_inv n f1 (cpm_reader ?c)" "reader_id (cpm_reader ?c) = reader_id (cpm_reader c)"
    using r(4,5) by (simp_all add: FinishAndReset_inv)
  from submit_centroids_ok [OF rd(1), of "unat N_cu"] rd(2)
  obtain c2 where c2: "submit_centroids (unat N_cu) ?c = Inr c2" "reader_inv n f1 (cpm_reader c2)"
    "reader_id (cpm_reader c2) = reader_id (cpm_reader c)" by auto
  have "\<exists>c' tv'. cpm_ClockTick c f tv = Inr (c', f1, tv') \<and> reader_inv n f1 (cpm_reader c') \<and>
      reader_id (cpm_reader c') = reader_id (cpm_reader c) \<and> clocks_kept tv tv'"
    using r(1,4,5) rd c2 by (simp add: cpm_ClockTick_def Let_def clocks_kept_def)
  then show thesis using r(2,3) that by blast
qed

section \<open>Encoded vector fetch\<close>

definition efm_ids :: "EFM \<Rightarrow> u64 set" where
  "efm_ids e = {reader_id (metadata_reader e), reader_id (vector_reader e)}"

definition efm_inv :: "anna_tables \<Rightarrow> nat \<Rightarrow> mmi \<Rightarrow> EFM \<Rightarrow> bool" where
  "efm_inv tb n f e \<longleftrightarrow> reader_inv n f (metadata_reader e) \<and> reader_inv n f (vector_reader e) \<and>
     reader_id (metadata_reader e) \<noteq> reader_id (vector_reader e) \<and>
     (\<forall>c\<in>set (metadata_queue e) \<union> set (vector_queue e) \<union> set (cluster_queue e). is_cluster tb c)"

lemma read_metadata_ok:
  assumes tb: "tables_ok tb" and q: "\<forall>c\<in>set q. is_cluster tb c" and inv: "reader_inv n f r"
  shows "\<exists>r' tv'. res_fold (read_metadata tb) q (r, tv) = Inr (r', tv') \<and> reader_inv n f r' \<and> reader_id r' = reader_id r \<and> clocks_kept tv tv'"
proof -
  let ?P = "\<lambda>(r', tv'). reader_inv n f r' \<and> reader_id r' = reader_id r \<and> clocks_kept tv tv'"
  have "\<exists>s'. res_fold (read_metadata tb) q (r, tv) = Inr s' \<and> ?P s'"
  proof (rule res_fold_ok)
    fix c s assume c: "c \<in> set q" and s: "?P s"
    obtain r1 tv1 where s1: "s = (r1, tv1)" by (cases s)
    obtain a len where e: "metadata_addr tb ! unat c = (a, len)" by (cases "metadata_addr tb ! unat c")
    have l: "unat c < length (metadata_addr tb)" using c q tb by (auto simp: is_cluster_def tables_ok_def)
    then have "(a, len) \<in> set (metadata_addr tb)" using e by (metis nth_mem)
    then have "unat len + 64 < 2 ^ 64" using tb by (auto simp: tables_ok_def)
    moreover have "reader_inv n f r1" using s s1 by simp
    ultimately obtain r2 where "SubmitReadRequest a len default_stride r1 = Inr r2" "reader_inv n f r2" "reader_id r2 = reader_id r1"
      by (metis submit_block)
    then show "\<exists>s'. read_metadata tb c s = Inr s' \<and> ?P s'"
      using s s1 l e by (simp add: read_metadata_def uget_def' clocks_kept_def)
  qed (use inv in simp)
  then show ?thesis by auto
qed

lemma read_vectors_ok:
  assumes tb: "tables_ok tb" and q: "\<forall>c\<in>set q. is_cluster tb c" and inv: "reader_inv n f r"
  shows "\<exists>r' tv'. res_fold (read_vectors tb) q (r, tv) = Inr (r', tv') \<and> reader_inv n f r' \<and> reader_id r' = reader_id r \<and> clocks_kept tv tv'"
proof -
  let ?P = "\<lambda>(r', tv'). reader_inv n f r' \<and> reader_id r' = reader_id r \<and> clocks_kept tv tv'"
  have "\<exists>s'. res_fold (read_vectors tb) q (r, tv) = Inr s' \<and> ?P s'"
  proof (rule res_fold_ok)
    fix c s assume c: "c \<in> set q" and s: "?P s"
    obtain r1 tv1 where s1: "s = (r1, tv1)" by (cases s)
    have l: "unat c < length (cluster_addr tb)" using c q by (simp add: is_cluster_def)
    then have "unat (cluster_bytes (cluster_addr tb ! unat c)) + 64 < 2 ^ 64" using tb by (simp add: tables_ok_def)
    moreover have "reader_inv n f r1" using s s1 by simp
    ultimately obtain r2 where "SubmitReadRequest (start_addr (cluster_addr tb ! unat c)) (cluster_bytes (cluster_addr tb ! unat c)) default_stride r1 = Inr r2"
      "reader_inv n f r2" "reader_id r2 = reader_id r1" by (metis submit_block)
    then show "\<exists>s'. read_vectors tb c s = Inr s' \<and> ?P s'"
      using s s1 l by (simp add: read_vectors_def uget_def' clocks_kept_def)
  qed (use inv in simp)
  then show ?thesis by auto
qed

lemma fetch_metadata_ok:
  assumes tb: "tables_ok tb" and inv: "efm_inv tb n f e"
  obtains e' tv' where "efm_fetch_metadata tb (e, tv) = Inr (e', tv')" and "efm_inv tb n f e'" and "efm_ids e' = efm_ids e"
    and "clocks_kept tv tv'"
proof -
  have q: "\<forall>c\<in>set (metadata_queue e). is_cluster tb c" and r: "reader_inv n f (metadata_reader e)" using inv by (auto simp: efm_inv_def)
  obtain r' tv' where r': "res_fold (read_metadata tb) (metadata_queue e) (metadata_reader e, tv) = Inr (r', tv')" "reader_inv n f r'"
    "reader_id r' = reader_id (metadata_reader e)" "clocks_kept tv tv'" using read_metadata_ok [OF tb q r] by blast
  let ?e = "e\<lparr>metadata_reader := r', vector_queue := vector_queue e @ cluster_queue e, cluster_queue := metadata_queue e, metadata_queue := []\<rparr>"
  have "efm_inv tb n f ?e" "efm_ids ?e = efm_ids e" using inv r' by (auto simp: efm_inv_def efm_ids_def)
  note e = this
  show thesis
  proof (cases "fetching_request_num e = submited_request_num e - 1 \<and> reader_IsReady (metadata_reader e)")
    case True
    then show thesis using r' e by (intro that [of ?e tv']) (simp_all add: efm_fetch_metadata_def)
  next
    case False
    then show thesis using inv by (intro that [of e tv]) (auto simp: efm_fetch_metadata_def)
  qed
qed

lemma fetch_vectors_ok:
  assumes tb: "tables_ok tb" and inv: "efm_inv tb n f e"
  obtains e' tv' where "efm_fetch_vectors tb (e, tv) = Inr (e', tv')" and "efm_inv tb n f e'" and "efm_ids e' = efm_ids e"
    and "clocks_kept tv tv'"
proof -
  have q: "\<forall>c\<in>set (vector_queue e). is_cluster tb c" and r: "reader_inv n f (vector_reader e)" using inv by (auto simp: efm_inv_def)
  obtain r' tv' where r': "res_fold (read_vectors tb) (vector_queue e) (vector_reader e, tv) = Inr (r', tv')" "reader_inv n f r'"
    "reader_id r' = reader_id (vector_reader e)" "clocks_kept tv tv'" using read_vectors_ok [OF tb q r] by blast
  let ?e = "e\<lparr>vector_reader := r', vector_queue := []\<rparr>"
  have "efm_inv tb n f ?e" "efm_ids ?e = efm_ids e" using inv r' by (auto simp: efm_inv_def efm_ids_def)
  note e = this
  show thesis
  proof (cases "fetched_request_num e = fetching_request_num e - 1 \<and> reader_IsReady (vector_reader e)")
    case True
    then show thesis using r' e by (intro that [of ?e tv']) (simp_all add: efm_fetch_vectors_def)
  next
    case False
    then show thesis using inv by (intro that [of e tv]) (auto simp: efm_fetch_vectors_def)
  qed
qed

lemma efm_ClockTick_ok:
  assumes tb: "tables_ok tb" and ok: "front_ok n R f" and inv: "efm_inv tb n f e"
  obtains e' f' tv' where "efm_ClockTick tb e f tv = Inr (e', f', tv')" and "front_ok n R f'" and "others_kept n (efm_ids e) f f'"
    and "efm_inv tb n f' e'" and "efm_ids e' = efm_ids e" and "clocks_kept tv tv'"
proof -
  have i: "reader_inv n f (metadata_reader e)" "reader_inv n f (vector_reader e)" "reader_id (metadata_reader e) \<noteq> reader_id (vector_reader e)"
    and q: "\<forall>c\<in>set (metadata_queue e) \<union> set (vector_queue e) \<union> set (cluster_queue e). is_cluster tb c" using inv by (auto simp: efm_inv_def)
  obtain mr f1 where m: "reader_ClockTick (metadata_reader e) f = Inr (mr, f1)" "front_ok n R f1"
    "others_kept n {reader_id (metadata_reader e)} f f1" "reader_inv n f1 mr" "reader_id mr = reader_id (metadata_reader e)"
    by (rule reader_ClockTick_ok [OF ok i(1)])
  have "reader_inv n f1 (vector_reader e)" using others_kept_inv [OF m(3) i(2)] i(3) by simp
  then obtain vr f2 where v: "reader_ClockTick (vector_reader e) f1 = Inr (vr, f2)" "front_ok n R f2"
    "others_kept n {reader_id (vector_reader e)} f1 f2" "reader_inv n f2 vr" "reader_id vr = reader_id (vector_reader e)"
    by (rule reader_ClockTick_ok [OF m(2)])
  have m2: "reader_inv n f2 mr" using others_kept_inv [OF v(3) m(4)] m(5) i(3) by simp
  have k: "others_kept n (efm_ids e) f f2" by (rule others_kept_trans [OF m(3) v(3)]) (simp_all add: efm_ids_def)
  obtain mdone mr1 where fm: "FinishAndReset mr = (mdone, mr1)" by (cases "FinishAndReset mr")
  let ?e1 = "e\<lparr>metadata_reader := mr1, vector_reader := vr,
      fetching_request_num := (if mdone then fetching_request_num e + 1 else fetching_request_num e)\<rparr>"
  let ?tv1 = "if \<not> reader_IsReady (metadata_reader ?e1) \<or> \<not> reader_IsReady (vector_reader ?e1)
      then tv\<lparr>efm_blocked_cycle_cnt := efm_blocked_cycle_cnt tv + 1\<rparr> else tv"
  have mr1: "reader_inv n f2 mr1" "reader_id mr1 = reader_id (metadata_reader e)" using m2 m(5) FinishAndReset_inv(1) [of n f2 mr] FinishAndReset_inv(2) [of mr] fm by simp_all
  have e1: "efm_inv tb n f2 ?e1" "efm_ids ?e1 = efm_ids e" using mr1 v(4,5) i(3) q by (simp_all add: efm_inv_def efm_ids_def)
  obtain e2 tv2 where e2: "efm_fetch_metadata tb (?e1, ?tv1) = Inr (e2, tv2)" "efm_inv tb n f2 e2" "efm_ids e2 = efm_ids ?e1" "clocks_kept ?tv1 tv2"
    by (rule fetch_metadata_ok [OF tb e1(1)])
  obtain vdone vr1 where fv: "FinishAndReset (vector_reader e2) = (vdone, vr1)" by (cases "FinishAndReset (vector_reader e2)")
  let ?e3 = "e2\<lparr>vector_reader := vr1, fetched_request_num := (if vdone then fetched_request_num e2 + 1 else fetched_request_num e2)\<rparr>"
  have vr1: "reader_inv n f2 vr1" "reader_id vr1 = reader_id (vector_reader e2)"
    using e2(2) FinishAndReset_inv(1) [of n f2 "vector_reader e2"] FinishAndReset_inv(2) [of "vector_reader e2"] fv by (simp_all add: efm_inv_def)
  have e3: "efm_inv tb n f2 ?e3" "efm_ids ?e3 = efm_ids e2" using vr1 e2(2) by (simp_all add: efm_inv_def efm_ids_def)
  obtain e4 tv3 where e4: "efm_fetch_vectors tb (?e3, tv2) = Inr (e4, tv3)" "efm_inv tb n f2 e4" "efm_ids e4 = efm_ids ?e3" "clocks_kept tv2 tv3"
    by (rule fetch_vectors_ok [OF tb e3(1)])
  have "clocks_kept tv ?tv1" by (simp add: clocks_kept_def)
  then have "clocks_kept tv tv3" by (rule clocks_kept_trans [OF clocks_kept_trans [OF _ e2(4)] e4(4)])
  moreover have "efm_ClockTick tb e f tv = Inr (e4, f2, tv3)"
    by (simp only: efm_ClockTick_def m(1) v(1) res_bind_Inr prod.case Let_def fm e2(1) fv e4(1))
  ultimately show thesis using v(2) k e4(2,3) e3(2) e2(3) e1(2) by (intro that [of e4 f2 tv3]) simp_all
qed

section \<open>Similarity computation\<close>

lemma scm_ticks: "scm_remind ((scm_ClockTick ^^ k) s) = of_nat (unat (scm_remind s) - k)"
proof (induction k)
  case 0
  show ?case by (simp add: of_nat_unat_self)
next
  case (Suc k)
  let ?r = "scm_remind ((scm_ClockTick ^^ k) s)"
  have u: "unat ?r = unat (scm_remind s) - k"
    unfolding Suc.IH by (intro unat_of_nat_less) (use unsigned_less [of "scm_remind s", where 'a = nat] in simp)
  show ?case
  proof (cases "unat (scm_remind s) - k")
    case 0
    then show ?thesis using Suc.IH by (simp add: scm_ClockTick_def)
  next
    case d: (Suc d)
    then have "?r \<noteq> 0" using u by auto
    then have "scm_remind ((scm_ClockTick ^^ Suc k) s) = ?r - 1" by (simp add: scm_ClockTick_def)
    also have "?r = of_nat (Suc d)" using Suc.IH d by simp
    also have "of_nat (Suc d) - 1 = (of_nat d :: u64)" by simp
    also have "d = unat (scm_remind s) - Suc k" using d by simp
    finally show ?thesis .
  qed
qed

text \<open>The cycles of a submission: one for every 36 vectors, rounded up, but nearly \<open>2 ^ 59\<close> for none.\<close>

definition scm_cycles :: "u64 \<Rightarrow> nat" where
  "scm_cycles v = (if v = 0 then 512409557603043101 else (unat v + 35) div 36)"

lemma scm_Submit_cycles: "unat (scm_remind (fst (scm_Submit v s tv))) = scm_cycles v"
proof -
  have "unat (v - 1) = (if v = 0 then 2 ^ 64 - 1 else unat v - 1)"
    by (simp add: unat_minus_one unsigned_minus_1_eq_mask mask_eq_exp_minus_1)
  then have d: "unat ((v - 1) div 36) = (if v = 0 then 2 ^ 64 - 1 else unat v - 1) div 36" by (simp only: unat_div) simp
  moreover have v: "unat v < 2 ^ 64" using unsigned_less [of v, where 'a = nat] by simp
  ultimately have "unat (1 + (v - 1) div 36) = 1 + unat ((v - 1) div 36)"
    by (subst unat_add_lem [THEN iffD1]) auto
  moreover have "1 + (unat v - 1) div 36 = (unat v + 35) div 36" if "v \<noteq> 0"
  proof -
    have "0 < unat v" using that by (simp add: unat_gt_0)
    then show ?thesis by linarith
  qed
  ultimately have "unat (1 + (v - 1) div 36) = scm_cycles v" using d by (simp add: scm_cycles_def)
  then show ?thesis by (simp add: scm_Submit_def Let_def SCM_COMPUTING_CYCLE_NUM_def anna_constants)
qed

section \<open>Properties\<close>

text \<open>C38. The similarity module is busy for exactly the cycles of its work. After the submission
  of \<open>v\<close> vectors the module becomes ready at the tick number \<open>(v + 35) div 36\<close>, and the counter of its busy cycles
  grows by this number. A submission of no vectors is the exception: its counter wraps around, and the
  module is busy for 512409557603043101 cycles.\<close>

theorem scm_ready_after_its_cycles:
  "(scm_IsReady ((scm_ClockTick ^^ k) (fst (scm_Submit v s tv))) \<longleftrightarrow> scm_cycles v \<le> k) \<and>
    scm_computing_cycle_cnt (snd (scm_Submit v s tv)) = scm_computing_cycle_cnt tv + of_nat (scm_cycles v)"
proof -
  let ?s = "fst (scm_Submit v s tv)"
  have "scm_cycles v < 2 ^ 64" using unsigned_less [of "scm_remind ?s", where 'a = nat] scm_Submit_cycles [of v s tv] by simp
  then have "unat (of_nat (scm_cycles v - k) :: u64) = scm_cycles v - k" by (intro unat_of_nat_less) simp
  then have "scm_remind ((scm_ClockTick ^^ k) ?s) = 0 \<longleftrightarrow> scm_cycles v - k = 0"
    unfolding scm_ticks scm_Submit_cycles by (metis semiring_1_class.of_nat_0 unsigned_0)
  moreover have "scm_remind ?s = of_nat (scm_cycles v)" using scm_Submit_cycles [of v s tv] by (metis of_nat_unat_self)
  ultimately show ?thesis by (simp add: scm_IsReady_def scm_Submit_def Let_def)
qed

end
