(* ===== verification/Anna_Core_Run.thy ===== *)
theory Anna_Core_Run
  imports Anna_Core Anna_Modules_Run
begin

text \<open>
  The cores over the memory interface: the stages of a core hold indices into its work list, its
  ticks never abort, and so the whole accelerator runs without an abort from the distribution of
  the queries on.
\<close>

section \<open>The invariant of a core\<close>

definition stage_ok :: "u64 list list \<Rightarrow> u64 \<Rightarrow> u64 \<Rightarrow> bool" where
  "stage_ok sets i r \<longleftrightarrow> i = none \<or> unat i < length sets \<and> unat r \<le> length (sets ! unat i)"

definition core_wf :: "anna_tables \<Rightarrow> nat \<Rightarrow> ANNACore \<Rightarrow> bool" where
  "core_wf tb Q c \<longleftrightarrow> length (core_query_set_list c) = length (core_cluster_list c) \<and>
     length (core_cluster_list c) \<le> length (cluster_addr tb) \<and> (\<forall>cl\<in>set (core_cluster_list c). is_cluster tb cl) \<and>
     (\<forall>s\<in>set (core_query_set_list c). \<forall>q\<in>set s. unat q < Q) \<and>
     stage_ok (core_query_set_list c) (cpm_processing_index c) (next_queries_r c) \<and>
     stage_ok (core_query_set_list c) (efm_processing_index c) (process_queries_r c) \<and>
     stage_ok (core_query_set_list c) (scm_processing_index c) (saving_queries_r c)"

definition core_ids :: "ANNACore \<Rightarrow> u64 set" where
  "core_ids c = insert (reader_id (cpm_reader (cpm c))) (efm_ids (efm c))"

definition core_inv :: "anna_tables \<Rightarrow> nat \<Rightarrow> nat \<Rightarrow> mmi \<Rightarrow> ANNACore \<Rightarrow> bool" where
  "core_inv tb Q n f c \<longleftrightarrow> core_wf tb Q c \<and> reader_inv n f (cpm_reader (cpm c)) \<and> efm_inv tb n f (efm c) \<and>
     reader_id (cpm_reader (cpm c)) \<notin> efm_ids (efm c)"

definition clocks_len :: "nat \<Rightarrow> TestValue \<Rightarrow> bool" where
  "clocks_len Q tv \<longleftrightarrow> length (queries_start_clock tv) = Q \<and> length (queries_end_clock tv) = Q"

lemma clocks_len_kept: "clocks_len Q tv \<Longrightarrow> clocks_kept tv tv' \<Longrightarrow> clocks_len Q tv'"
  by (simp add: clocks_len_def clocks_kept_def)

lemma between_less:
  assumes "j \<in> set (between l r)"
  shows "unat j < unat r"
proof -
  obtain k where k: "k < unat r" "j = of_nat k" using assms by (auto simp: between_def)
  have "k < 2 ^ 64" using k(1) unsigned_less [of r, where 'a = nat] by simp
  then show ?thesis using k by (simp add: unat_of_nat_less)
qed

lemma stage_query:
  assumes "core_wf tb Q c" and "stage_ok (core_query_set_list c) i r" and "i \<noteq> none" and "j \<in> set (between l r)"
  shows "unat i < length (core_query_set_list c)" and "unat j < length (core_query_set_list c ! unat i)"
    and "unat (core_query_set_list c ! unat i ! unat j) < Q"
proof -
  show i: "unat i < length (core_query_set_list c)" and j: "unat j < length (core_query_set_list c ! unat i)"
    using assms(2,3) between_less [OF assms(4)] by (auto simp: stage_ok_def)
  then show "unat (core_query_set_list c ! unat i ! unat j) < Q" using assms(1) unfolding core_wf_def by (meson nth_mem)
qed

section \<open>The stages\<close>

lemma save_step_ok:
  assumes wf: "core_wf tb Q c" and len: "clocks_len Q tv"
  obtains c' tv' where "save_step c tv = Inr (c', tv')" and "core_wf tb Q c'" and "clocks_len Q tv'"
    and "cpm c' = cpm c" and "efm c' = efm c"
proof (cases "scm_processing_index c \<noteq> none \<and> scm_IsReady (scm c)")
  case False
  then show thesis using wf len by (intro that [of c tv]) (auto simp: save_step_def)
next
  case True
  let ?i = "scm_processing_index c" and ?sets = "core_query_set_list c"
  have st: "stage_ok ?sets ?i (saving_queries_r c)" using wf by (simp add: core_wf_def)
  then have i: "unat ?i < length ?sets" using True by (auto simp: stage_ok_def)
  have "\<exists>e. res_fold (\<lambda>i ends. res_bind (uget ?sets ?i) (\<lambda>qs. res_bind (uget qs i) (\<lambda>q. uset ends q (core_clock c))))
      (between (saving_queries_l c) (saving_queries_r c)) (queries_end_clock tv) = Inr e \<and> length e = Q"
  proof (rule res_fold_ok)
    fix j and e :: "u64 list" assume "j \<in> set (between (saving_queries_l c) (saving_queries_r c))" and e: "length e = Q"
    note q = stage_query [OF wf st _ this(1)]
    show "\<exists>e'. res_bind (uget ?sets ?i) (\<lambda>qs. res_bind (uget qs j) (\<lambda>q. uset e q (core_clock c))) = Inr e' \<and> length e' = Q"
      using q True e by (simp add: uget_def' uset_def')
  qed (use len in \<open>simp add: clocks_len_def\<close>)
  then obtain e where e: "res_fold (\<lambda>i ends. res_bind (uget ?sets ?i) (\<lambda>qs. res_bind (uget qs i) (\<lambda>q. uset ends q (core_clock c))))
      (between (saving_queries_l c) (saving_queries_r c)) (queries_end_clock tv) = Inr e" "length e = Q" by blast
  let ?last = "?i = of_nat (length (core_cluster_list c)) - 1 \<and> saving_queries_r c = of_nat (length (?sets ! unat ?i))"
  have wf': "core_wf tb Q (c\<lparr>core_Finished := b, scm_processing_index := none\<rparr>)" for b
    using wf by (simp add: core_wf_def) (simp add: stage_ok_def)
  show thesis
  proof (rule that [OF _ wf'])
    show "save_step c tv = Inr (c\<lparr>core_Finished := core_Finished c \<or> ?last, scm_processing_index := none\<rparr>, tv\<lparr>queries_end_clock := e\<rparr>)"
      using True e(1) i by (auto simp: save_step_def uget_def')
  qed (use e(2) len in \<open>simp_all add: clocks_len_def\<close>)
qed

lemma scm_step_ok:
  assumes wf: "core_wf tb Q c" and len: "clocks_len Q tv"
  obtains c' tv' where "scm_step tb c tv = Inr (c', tv')" and "core_wf tb Q c'" and "clocks_len Q tv'"
    and "cpm c' = cpm c" and "efm c' = efm c"
proof (cases "efm_processing_index c \<noteq> none \<and> scm_processing_index c = none \<and>
         GetFetchedRequestNum (efm c) = efm_fetching_request_num c \<and> scm_IsReady (scm c)")
  case False
  then show thesis using wf len by (intro that [of c tv]) (auto simp: scm_step_def)
next
  case True
  let ?i = "efm_processing_index c" and ?sets = "core_query_set_list c"
  have i: "unat ?i < length ?sets" "unat ?i < length (cluster_addr tb)" using wf True by (auto simp: core_wf_def stage_ok_def)
  obtain s tv1 where s: "scm_Submit (vector_num (cluster_addr tb ! unat ?i) * of_nat (length (?sets ! unat ?i))) (scm c) tv = (s, tv1)"
    by (cases "scm_Submit (vector_num (cluster_addr tb ! unat ?i) * of_nat (length (?sets ! unat ?i))) (scm c) tv")
  let ?c = "c\<lparr>scm := s, scm_processing_index := ?i, saving_queries_l := process_queries_l c,
               saving_queries_r := process_queries_r c, efm_processing_index := none\<rparr>"
  have "core_wf tb Q ?c" using wf True by (simp add: core_wf_def) (simp add: stage_ok_def)
  moreover have "clocks_len Q tv1" using s len by (auto simp: scm_Submit_def Let_def clocks_len_def)
  ultimately show thesis using True i s
    by (intro that [of ?c "tv1\<lparr>efm_encoded_vector_buffer_read := efm_encoded_vector_buffer_read tv1 + cluster_bytes (cluster_addr tb ! unat ?i) * of_nat (length (?sets ! unat ?i))\<rparr>"])
      (simp_all add: scm_step_def uget_def' Let_def clocks_len_def)
qed

lemma fetch_step_ok:
  assumes wf: "core_wf tb Q c" and inv: "efm_inv tb n f (efm c)"
  obtains c' where "fetch_step c = Inr c'" and "core_wf tb Q c'" and "cpm c' = cpm c" and "efm_inv tb n f (efm c')" and "efm_ids (efm c') = efm_ids (efm c)"
proof (cases "cpm_processing_index c \<noteq> none \<and> efm_processing_index c = none \<and> cpm_IsFinished (cpm c) \<and> efm_IsReadySubmit (efm c)")
  case False
  then show thesis using wf inv by (intro that [of c]) (auto simp: fetch_step_def)
next
  case True
  let ?i = "cpm_processing_index c" and ?cl = "core_cluster_list c ! unat (cpm_processing_index c)"
  have i: "unat ?i < length (core_cluster_list c)" using wf True by (auto simp: core_wf_def stage_ok_def)
  then have cl: "is_cluster tb ?cl" using wf by (simp add: core_wf_def)
  have mq: "metadata_queue (efm c) = []" using True by (simp add: efm_IsReadySubmit_def)
  let ?e = "(efm c)\<lparr>metadata_queue := [?cl], submited_request_num := submited_request_num (efm c) + 1\<rparr>"
  let ?c = "if ?i \<noteq> pre_efm_processing_index c then c\<lparr>efm := ?e, efm_fetching_request_num := submited_request_num (efm c)\<rparr> else c"
  let ?c' = "?c\<lparr>efm_processing_index := ?i, pre_efm_processing_index := ?i, process_queries_l := next_queries_l c,
            process_queries_r := next_queries_r c, cpm_processing_index := none\<rparr>"
  have "efm_inv tb n f ?e" "efm_ids ?e = efm_ids (efm c)" using inv cl by (auto simp: efm_inv_def efm_ids_def)
  moreover have "fetch_step c = Inr ?c'"
    using True i mq by (simp add: fetch_step_def uget_def' efm_SubmitRequest_def Let_def)
  moreover have "core_wf tb Q ?c'" using wf True by (auto simp: core_wf_def stage_ok_def)
  ultimately show thesis using inv by (intro that [of ?c']) simp_all
qed

lemma unat_of_nat_le: "unat (of_nat k :: u64) \<le> k"
  by (simp add: unat_of_nat)

lemma cpm_step_ok:
  assumes wf: "core_wf tb Q c" and tb: "tables_ok tb" and len: "clocks_len Q tv"
  obtains c' tv' where "cpm_step tb c tv = Inr (c', tv')" and "core_wf tb Q c'" and "clocks_len Q tv'"
    and "cpm_reader (cpm c') = cpm_reader (cpm c)" and "efm c' = efm c"
proof (cases "cpm_processing_index c = none \<and> cpm_IsReadySubmit (cpm c) \<and> unat (slice c) < length (core_cluster_list c)")
  case False
  then show thesis using wf len by (intro that [of c tv]) (auto simp: cpm_step_def)
next
  case True
  let ?i = "slice c" and ?sets = "core_query_set_list c"
  define c1 where "c1 = (if slice_changed c \<noteq> 0 then c\<lparr>next_queries_l := 0, slice_queries := 0, slice_changed := 0\<rparr>
      else c\<lparr>slice_queries := slice_queries c + core_batch_size c, next_queries_l := slice_queries c + core_batch_size c\<rparr>)"
  define r where "r = min (next_queries_l c1 + core_batch_size c1) (of_nat (length (?sets ! unat ?i)))"
  have c1: "core_query_set_list c1 = ?sets" "core_cluster_list c1 = core_cluster_list c" "cpm c1 = cpm c" "efm c1 = efm c"
    "efm_processing_index c1 = efm_processing_index c" "scm_processing_index c1 = scm_processing_index c"
    "process_queries_r c1 = process_queries_r c" "saving_queries_r c1 = saving_queries_r c" "core_clock c1 = core_clock c"
    by (simp_all add: c1_def)
  have i: "unat ?i < length ?sets" "unat ?i < length (core_cluster_list c)" using wf True by (simp_all add: core_wf_def)
  have "r \<le> of_nat (length (?sets ! unat ?i))" by (simp add: r_def)
  then have rl: "unat r \<le> length (?sets ! unat ?i)" using unat_of_nat_le [of "length (?sets ! unat ?i)"] by (simp add: word_le_nat_alt)
  have sub: "\<And>j. j \<in> set (between (next_queries_l c1) r) \<Longrightarrow> unat j < length (?sets ! unat ?i)" using between_less rl by fastforce
  have qb: "\<forall>q\<in>set (?sets ! unat ?i). unat q < Q" using wf i unfolding core_wf_def by (meson nth_mem)
  let ?body = "\<lambda>j starts. res_bind (uget (?sets ! unat ?i) j) (\<lambda>q.
      res_bind (uget starts q) (\<lambda>t. if t = none then uset starts q (core_clock c) else Inr starts))"
  have "\<exists>st. res_fold ?body (between (next_queries_l c1) r) (queries_start_clock tv) = Inr st \<and> length st = Q"
  proof (rule res_fold_ok)
    fix j and st :: "u64 list" assume j: "j \<in> set (between (next_queries_l c1) r)" and st: "length st = Q"
    have "unat (?sets ! unat ?i ! unat j) < Q" using qb sub [OF j] by simp
    then show "\<exists>st'. ?body j st = Inr st' \<and> length st' = Q" using sub [OF j] st by (simp add: uget_def' uset_def')
  qed (use len in \<open>simp add: clocks_len_def\<close>)
  then obtain st where st: "res_fold ?body (between (next_queries_l c1) r) (queries_start_clock tv) = Inr st" "length st = Q" by blast
  let ?c2 = "c1\<lparr>cpm_processing_index := ?i, next_queries_r := r\<rparr>"
  define c3 where "c3 = (if r = of_nat (length (?sets ! unat ?i)) then ?c2\<lparr>slice_changed := 1, slice := slice ?c2 + 1\<rparr> else ?c2)"
  have c3: "core_query_set_list c3 = ?sets" "core_cluster_list c3 = core_cluster_list c" "cpm c3 = cpm c" "efm c3 = efm c"
    "efm_processing_index c3 = efm_processing_index c" "scm_processing_index c3 = scm_processing_index c"
    "process_queries_r c3 = process_queries_r c" "saving_queries_r c3 = saving_queries_r c"
    "cpm_processing_index c3 = ?i" "next_queries_r c3 = r" by (simp_all add: c3_def c1)
  let ?cl = "core_cluster_list c ! unat ?i"
  have "is_cluster tb ?cl" using wf i(2) by (simp add: core_wf_def)
  then have "unat ?cl < length (cluster_centroid tb)" using tb by (simp add: is_cluster_def tables_ok_def)
  then obtain m where m: "SubmitClusterRequest tb [?cl] (cpm c) = Inr m" "cpm_reader m = cpm_reader (cpm c)"
    by (simp add: SubmitClusterRequest_def uget_def')
  have u: "uget (core_query_set_list c1) ?i = Inr (?sets ! unat ?i)" "uget (core_cluster_list c3) ?i = Inr ?cl"
    "SubmitClusterRequest tb [?cl] (cpm c3) = Inr m" using i m(1) by (simp_all add: c1 c3 uget_def')
  have "cpm_step tb c tv = Inr (c3\<lparr>cpm := m\<rparr>, tv\<lparr>queries_start_clock := st\<rparr>)"
    unfolding cpm_step_def if_P [OF True] Let_def
    by (simp only: c1_def [symmetric] u(1) res_bind_Inr r_def [symmetric] c1(9) st(1) c3_def [symmetric] u(2,3))
  moreover have "core_wf tb Q (c3\<lparr>cpm := m\<rparr>)" using wf i rl by (simp add: core_wf_def c3) (simp add: stage_ok_def)
  ultimately show thesis using m(2) c3(4) st(2) len
    by (intro that [of "c3\<lparr>cpm := m\<rparr>" "tv\<lparr>queries_start_clock := st\<rparr>"]) (simp_all add: clocks_len_def)
qed

lemma core_ClockTick_ok:
  assumes tb: "tables_ok tb" and ok: "front_ok n R f" and inv: "core_inv tb Q n f c" and len: "clocks_len Q tv"
  obtains c' f' tv' where "core_ClockTick tb c f tv = Inr (c', f', tv')" and "front_ok n R f'" and "others_kept n (core_ids c) f f'"
    and "core_inv tb Q n f' c'" and "core_ids c' = core_ids c" and "clocks_len Q tv'"
proof -
  have i: "reader_inv n f (cpm_reader (cpm c))" "efm_inv tb n f (efm c)" "reader_id (cpm_reader (cpm c)) \<notin> efm_ids (efm c)" "core_wf tb Q c"
    using inv by (simp_all add: core_inv_def)
  obtain m f1 tv1 where m: "cpm_ClockTick (cpm c) f tv = Inr (m, f1, tv1)" "front_ok n R f1" "others_kept n {reader_id (cpm_reader (cpm c))} f f1"
    "reader_inv n f1 (cpm_reader m)" "reader_id (cpm_reader m) = reader_id (cpm_reader (cpm c))" "clocks_kept tv tv1"
    by (rule cpm_ClockTick_ok [OF ok i(1)])
  have "efm_inv tb n f1 (efm c)" using i(2,3) others_kept_inv [OF m(3)] by (auto simp: efm_inv_def efm_ids_def)
  then obtain e f2 tv2 where e: "efm_ClockTick tb (efm c) f1 tv1 = Inr (e, f2, tv2)" "front_ok n R f2" "others_kept n (efm_ids (efm c)) f1 f2"
    "efm_inv tb n f2 e" "efm_ids e = efm_ids (efm c)" "clocks_kept tv1 tv2" by (rule efm_ClockTick_ok [OF tb m(2)])
  have rd: "reader_inv n f2 (cpm_reader m)" using others_kept_inv [OF e(3) m(4)] m(5) i(3) by simp
  have k: "others_kept n (core_ids c) f f2" by (rule others_kept_trans [OF m(3) e(3)]) (auto simp: core_ids_def)
  let ?c1 = "c\<lparr>core_clock := core_clock c + 1, cpm := m, efm := e, scm := scm_ClockTick (scm c)\<rparr>"
  have w1: "core_wf tb Q ?c1" using i(4) by (simp add: core_wf_def)
  have l2: "clocks_len Q tv2" using len m(6) e(6) clocks_len_kept by blast
  obtain c2 tv3 where c2: "save_step ?c1 tv2 = Inr (c2, tv3)" "core_wf tb Q c2" "clocks_len Q tv3" "cpm c2 = cpm ?c1" "efm c2 = efm ?c1"
    by (rule save_step_ok [OF w1 l2])
  obtain c3 tv4 where c3: "scm_step tb c2 tv3 = Inr (c3, tv4)" "core_wf tb Q c3" "clocks_len Q tv4" "cpm c3 = cpm c2" "efm c3 = efm c2"
    by (rule scm_step_ok [OF c2(2,3)])
  have "efm_inv tb n f2 (efm c3)" using e(4) c2(5) c3(5) by simp
  then obtain c4 where c4: "fetch_step c3 = Inr c4" "core_wf tb Q c4" "cpm c4 = cpm c3" "efm_inv tb n f2 (efm c4)" "efm_ids (efm c4) = efm_ids (efm c3)"
    by (rule fetch_step_ok [OF c3(2)])
  obtain c5 tv5 where c5: "cpm_step tb c4 tv4 = Inr (c5, tv5)" "core_wf tb Q c5" "clocks_len Q tv5"
    "cpm_reader (cpm c5) = cpm_reader (cpm c4)" "efm c5 = efm c4" by (rule cpm_step_ok [OF c4(2) tb c3(3)])
  have "core_ClockTick tb c f tv = Inr (c5, f2, tv5)"
    by (simp only: core_ClockTick_def m(1) e(1) res_bind_Inr prod.case Let_def c2(1) c3(1) c4(1) c5(1))
  moreover have "core_ids c5 = core_ids c" using c5(4,5) c4(3,5) c3(4,5) c2(4,5) m(5) e(5) by (simp add: core_ids_def)
  moreover have "core_inv tb Q n f2 c5" using c5(2,4,5) c4(3,4,5) c3(4,5) c2(4,5) rd m(5) e(5) i(3) by (simp add: core_inv_def)
  ultimately show thesis using e(2) k c5(3) by (intro that)
qed

lemma core_inv_kept: "core_inv tb Q n f c \<Longrightarrow> others_kept n I f f' \<Longrightarrow> core_ids c \<inter> I = {} \<Longrightarrow> core_inv tb Q n f' c"
  using others_kept_inv unfolding core_inv_def efm_inv_def efm_ids_def core_ids_def by blast

section \<open>The accelerator\<close>

text \<open>No two cores share a reader.\<close>

fun disjoint_sets :: "'a set list \<Rightarrow> bool" where
  "disjoint_sets [] = True"
| "disjoint_sets (s # ss) = ((\<forall>t\<in>set ss. s \<inter> t = {}) \<and> disjoint_sets ss)"

abbreviation ids_disjoint :: "ANNACore list \<Rightarrow> bool" where
  "ids_disjoint cs \<equiv> disjoint_sets (map core_ids cs)"

lemma tick_cores_ok:
  assumes tb: "tables_ok tb"
  shows "front_ok n R f \<Longrightarrow> \<forall>c\<in>set cs. core_inv tb Q n f c \<Longrightarrow> ids_disjoint cs \<Longrightarrow> clocks_len Q tv \<Longrightarrow>
    \<exists>cs' f' tv'. tick_cores tb cs (f, tv) = Inr (cs', f', tv') \<and> front_ok n R f' \<and> others_kept n (\<Union>(core_ids ` set cs)) f f' \<and>
      (\<forall>c\<in>set cs'. core_inv tb Q n f' c) \<and> map core_ids cs' = map core_ids cs \<and> clocks_len Q tv'"
proof (induction cs arbitrary: f tv)
  case Nil
  then show ?case by (simp add: tick_cores_def)
next
  case (Cons c cs)
  have ci: "core_inv tb Q n f c" and dj: "\<forall>d\<in>set cs. core_ids c \<inter> core_ids d = {}" "ids_disjoint cs"
    using Cons.prems by simp_all
  obtain c1 f1 tv1 where c1: "core_ClockTick tb c f tv = Inr (c1, f1, tv1)" "front_ok n R f1" "others_kept n (core_ids c) f f1"
    "core_inv tb Q n f1 c1" "core_ids c1 = core_ids c" "clocks_len Q tv1" by (rule core_ClockTick_ok [OF tb Cons.prems(1) ci Cons.prems(4)])
  have "core_inv tb Q n f1 d" if "d \<in> set cs" for d
    using core_inv_kept [OF _ c1(3), of tb Q d] Cons.prems(2) dj(1) that by (simp add: Int_commute)
  then obtain cs' f' tv' where r: "tick_cores tb cs (f1, tv1) = Inr (cs', f', tv')" "front_ok n R f'" "others_kept n (\<Union>(core_ids ` set cs)) f1 f'"
    "\<forall>c\<in>set cs'. core_inv tb Q n f' c" "map core_ids cs' = map core_ids cs" "clocks_len Q tv'"
    using Cons.IH [OF c1(2) _ dj(2) c1(6)] by blast
  have "core_inv tb Q n f' c1" by (rule core_inv_kept [OF c1(4) r(3)]) (use dj(1) c1(5) in auto)
  moreover have "others_kept n (\<Union>(core_ids ` set (c # cs))) f f'" by (rule others_kept_trans [OF c1(3) r(3)]) auto
  moreover have "tick_cores tb (c # cs) (f, tv) = Inr (c1 # cs', f', tv')" using c1(1) r(1) by (simp add: tick_cores_def)
  ultimately show ?case using r c1(5) by auto
qed

definition anna_inv :: "anna_tables \<Rightarrow> nat \<Rightarrow> nat \<Rightarrow> MultiANNA \<Rightarrow> bool" where
  "anna_inv tb Q n a \<longleftrightarrow> mi_inv n (memory a) \<and> (\<forall>c\<in>set (anna_core_list a). core_inv tb Q n (front (memory a)) c) \<and>
     ids_disjoint (anna_core_list a)"

definition anna_may_tick :: "MultiANNA \<Rightarrow> bool" where
  "anna_may_tick a \<longleftrightarrow> (\<forall>m\<in>set (memory_system_list (memory a)). mem_may_tick m)"

lemma core_inv_front_kept: "core_inv tb Q n f c \<Longrightarrow> front_kept f f' \<Longrightarrow> core_inv tb Q n f' c"
  using kept_reader_inv unfolding core_inv_def efm_inv_def by blast

lemma mmi_ClockTick_clocks:
  assumes "mmi_ClockTick mi tv = Inr (mi', tv')"
  shows "clocks_kept tv tv'"
proof -
  obtain f where "res_fold stack_tick (irange (uint (st_num f))) (mi\<lparr>front := f\<rparr>, tv) = Inr (mi', tv')"
    using assms by (auto simp: mmi_ClockTick_def Let_def res_simps)
  then have "clocks_kept tv (snd (mi', tv'))"
    by (rule res_fold_invariant [of _ "\<lambda>s. clocks_kept tv (snd s)", rotated])
      (auto simp: stack_tick_def res_simps clocks_kept_def)
  then show ?thesis by simp
qed

lemma anna_ClockTick_ok:
  assumes tb: "tables_ok tb" and inv: "anna_inv tb Q n a" and len: "clocks_len Q tv" and t: "anna_may_tick a"
  obtains a' tv' where "anna_ClockTick tb a tv = Inr (a', tv')" and "anna_inv tb Q n a'" and "clocks_len Q tv'"
    and "clock a' = clock a + 1"
proof -
  have mi: "mi_inv n (memory a)" using inv by (simp add: anna_inv_def)
  obtain mi1 tv1 where m: "mmi_ClockTick (memory a) tv = Inr (mi1, tv1)" "mi_inv n mi1" "front_kept (front (memory a)) (front mi1)" "clocks_kept tv tv1"
    using mmi_ClockTick_ok [OF mi t [unfolded anna_may_tick_def]] mmi_ClockTick_clocks by metis
  have ok: "front_ok n (out_reads_of mi1) (front mi1)" and ms: "mems_ok n (memory_system_list mi1)" using m(2) by (simp_all add: mi_inv_front_ok)
  have ci: "\<forall>c\<in>set (anna_core_list a). core_inv tb Q n (front mi1) c" and dj: "ids_disjoint (anna_core_list a)"
    using inv core_inv_front_kept [OF _ m(3)] by (simp_all add: anna_inv_def)
  have "clocks_len Q tv1" by (rule clocks_len_kept [OF len m(4)])
  from tick_cores_ok [OF tb ok ci dj this] obtain cs f tv2 where r: "tick_cores tb (anna_core_list a) (front mi1, tv1) = Inr (cs, f, tv2)"
    "front_ok n (out_reads_of mi1) f" "\<forall>c\<in>set cs. core_inv tb Q n f c" "map core_ids cs = map core_ids (anna_core_list a)" "clocks_len Q tv2" by blast
  let ?a = "a\<lparr>clock := clock a + 1, memory := mi1\<lparr>front := f\<rparr>, anna_core_list := cs\<rparr>"
  have "anna_inv tb Q n ?a" using r(2,3,4) ms dj by (simp add: anna_inv_def mi_inv_front_ok)
  moreover have "anna_ClockTick tb a tv = Inr (?a, tv2)" using m(1) r(1) by (simp add: anna_ClockTick_def)
  ultimately show thesis using r(5) by (intro that [of ?a tv2]) simp_all
qed

end
