(* ===== verification/Anna_Distribute.thy ===== *)
theory Anna_Distribute
  imports Anna_Core_Run
begin

text \<open>
  The distribution of the queries by \<^verbatim>\<open>MultiANNA::Run\<close>: the queries of a batch are
  grouped by cluster and the groups dealt to the cores in turn. Every probe of a cluster by a query ends
  up in the work list of exactly one core, exactly as often as the query names the cluster.
\<close>

section \<open>Grouping\<close>

text \<open>The probes of the queries with the given numbers, and the probes of a work list.\<close>

definition probes :: "u64 list list \<Rightarrow> u64 list \<Rightarrow> (u64 \<times> u64) multiset" where
  "probes qs is = (\<Sum>i\<leftarrow>is. image_mset (\<lambda>c. (c, i)) (mset (qs ! unat i)))"

definition work :: "u64 list \<Rightarrow> u64 list list \<Rightarrow> (u64 \<times> u64) multiset" where
  "work cl sets = (\<Sum>(c, s)\<leftarrow>zip cl sets. image_mset (Pair c) (mset s))"

definition table_work :: "u64 list list \<Rightarrow> (u64 \<times> u64) multiset" where
  "table_work now = (\<Sum>c<length now. image_mset (Pair (of_nat c)) (mset (now ! c)))"

definition queries_ok :: "nat \<Rightarrow> u64 list list \<Rightarrow> bool" where
  "queries_ok n qs \<longleftrightarrow> (\<forall>q\<in>set qs. \<forall>c\<in>set q. unat c < n)"

lemma table_work_push:
  assumes "unat c < length now"
  shows "table_work (now[unat c := now ! unat c @ [i]]) = add_mset (c, i) (table_work now)"
  unfolding table_work_def length_list_update add_mset_add_single [of _ "sum _ _"]
  by (rule sum_flow_upd [OF assms]) (use assms in \<open>simp_all add: of_nat_unat_self\<close>)

lemma sort_query_ok:
  assumes "unat i < length qs" and "queries_ok n qs" and "length now = n"
  obtains now' where "sort_query qs i now = Inr now'" and "length now' = n"
    and "table_work now' = table_work now + image_mset (\<lambda>c. (c, i)) (mset (qs ! unat i))"
proof -
  let ?f = "\<lambda>c now. res_bind (uget now c) (\<lambda>l. uset now c (l @ [i]))"
  have "\<exists>now'. res_fold ?f q now = Inr now' \<and> length now' = n \<and> table_work now' = table_work now + image_mset (\<lambda>c. (c, i)) (mset q)"
    if "\<forall>c\<in>set q. unat c < n" "length now = n" for q now
    using that
  proof (induction q arbitrary: now)
    case (Cons c q)
    let ?now = "now[unat c := now ! unat c @ [i]]"
    have c: "unat c < length now" using Cons.prems by simp
    obtain now' where "res_fold ?f q ?now = Inr now'" "length now' = n" "table_work now' = table_work ?now + image_mset (\<lambda>c. (c, i)) (mset q)"
      using Cons.IH [of ?now] Cons.prems by auto
    then show ?case using c table_work_push [OF c] by (simp add: uget_def' uset_def')
  qed simp
  moreover have "\<forall>c\<in>set (qs ! unat i). unat c < n" using assms(1,2) unfolding queries_ok_def by (meson nth_mem)
  ultimately show thesis using assms(1,3) that by (simp add: sort_query_def uget_def') blast
qed

lemma sort_queries_ok:
  assumes "\<forall>i\<in>set is. unat i < length qs" and "queries_ok n qs" and "length now = n"
  shows "\<exists>now'. res_fold (sort_query qs) is now = Inr now' \<and> length now' = n \<and> table_work now' = table_work now + probes qs is"
  using assms
proof (induction "is" arbitrary: now)
  case (Cons i js)
  obtain now1 where n1: "sort_query qs i now = Inr now1" "length now1 = n"
    "table_work now1 = table_work now + image_mset (\<lambda>c. (c, i)) (mset (qs ! unat i))"
    using sort_query_ok [of i qs n now] Cons.prems by auto
  from Cons.IH [OF _ Cons.prems(2) n1(2)] Cons.prems(1) n1 show ?case by (auto simp: probes_def ac_simps)
qed (simp add: probes_def)

lemma work_map: "work cl (map f cl) = (\<Sum>c\<leftarrow>cl. image_mset (Pair c) (mset (f c)))"
  by (induction cl) (simp_all add: work_def)

lemma work_append: "length cl = length sets \<Longrightarrow> work (cl @ cl') (sets @ sets') = work cl sets + work cl' sets'"
  by (simp add: work_def)

lemma sum_list_filter_empty: "(\<Sum>c\<leftarrow>filter (\<lambda>c. f c \<noteq> []) xs. image_mset (Pair c) (mset (f c))) = (\<Sum>c\<leftarrow>xs. image_mset (Pair c) (mset (f c)))"
  by (induction xs) simp_all

lemma group_batch_ok:
  assumes qs: "queries_ok (unat n) qs" and lr: "unat r \<le> length qs"
  obtains cl sets where "group_batch n qs l r = Inr (cl, sets)" and "length cl = length sets"
    and "work cl sets = probes qs (between l r)" and "\<forall>c\<in>set cl. unat c < unat n" and "[] \<notin> set sets"
proof -
  have "\<forall>i\<in>set (between l r). unat i < length qs" using between_less lr by fastforce
  from sort_queries_ok [OF this qs, of "replicate (unat n) []"] obtain now where
    now: "res_fold (sort_query qs) (between l r) (replicate (unat n) []) = Inr now" "length now = unat n"
      "table_work now = table_work (replicate (unat n) []) + probes qs (between l r)" by auto
  let ?f = "\<lambda>c. now ! unat c" and ?used = "filter (\<lambda>c. now ! unat c \<noteq> []) (urange n)"
  have e: "table_work (replicate (unat n) []) = {#}" by (simp add: table_work_def sum_empty_mset)
  have n: "unat n < 2 ^ 64" using unsigned_less [of n, where 'a = nat] by simp
  have "work ?used (map ?f ?used) = (\<Sum>c\<leftarrow>urange n. image_mset (Pair c) (mset (?f c)))"
    by (simp only: work_map sum_list_filter_empty)
  also have "\<dots> = (\<Sum>k\<leftarrow>[0..<unat n]. image_mset (Pair (of_nat k)) (mset (now ! k)))"
    unfolding urange_def map_map using n by (intro arg_cong [where f = sum_list] map_cong) (auto simp: unat_of_nat_less)
  also have "\<dots> = table_work now" by (simp add: table_work_def now(2) sum_list_distinct_conv_sum_set atLeast0LessThan)
  finally have "work ?used (map ?f ?used) = probes qs (between l r)" using now(3) e by simp
  moreover have "\<forall>c\<in>set ?used. unat c < unat n" using n by (auto simp: urange_def unat_of_nat_less)
  moreover have "group_batch n qs l r = Inr (?used, map ?f ?used)" using now(1) by (simp add: group_batch_def Let_def)
  ultimately show thesis by (intro that [of ?used "map ?f ?used"]) auto
qed

lemma between_split: "l \<le> m \<Longrightarrow> m \<le> r \<Longrightarrow> between l r = between l m @ between m r"
  unfolding between_def map_append [symmetric] by (metis upt_add_eq_append le_add_diff_inverse word_le_nat_alt)

lemma probes_append: "probes qs (xs @ ys) = probes qs xs + probes qs ys"
  by (simp add: probes_def)

definition grouping :: "u64 \<Rightarrow> u64 list list \<Rightarrow> u64 list \<Rightarrow> u64 list \<Rightarrow> u64 list list \<Rightarrow> bool" where
  "grouping n qs is cl sets \<longleftrightarrow> length cl = length sets \<and> work cl sets = probes qs is \<and> (\<forall>c\<in>set cl. unat c < unat n) \<and> [] \<notin> set sets"

lemma group_queries_ok:
  assumes qs: "queries_ok (unat n) qs" and b: "0 < batch" and len: "length qs + unat batch < 2 ^ 64"
  shows "unat l \<le> length qs \<Longrightarrow>
    \<exists>cl sets. group_queries n qs batch l = Inr (cl, sets) \<and> grouping n qs (between l (of_nat (length qs))) cl sets"
proof (induction "length qs - unat l" arbitrary: l rule: less_induct)
  case less
  let ?total = "of_nat (length qs) :: u64" and ?r = "min (l + batch) (of_nat (length qs))"
  have t: "unat ?total = length qs" using len by (intro unat_of_nat_less) simp
  have lb: "unat (l + batch) = unat l + unat batch" using less.prems len by (subst unat_add_lem [THEN iffD1]) simp_all
  have r: "unat ?r = min (unat l + unat batch) (length qs)" using lb t by (simp add: min_def word_le_nat_alt)
  show ?case
  proof (cases "l < ?total")
    case False
    then have "unat l = length qs" using less.prems t by (simp add: word_less_nat_alt)
    then have "between l ?total = []" using t by (simp add: between_def)
    then show ?thesis using False by (subst group_queries.simps) (simp add: grouping_def work_def probes_def)
  next
    case True
    have lt: "unat l < length qs" using True t by (simp add: word_less_nat_alt)
    have "0 < unat batch" using b by (simp add: word_less_nat_alt)
    then have lr: "l < ?r" using r lt by (simp add: word_less_nat_alt)
    have rq: "unat ?r \<le> length qs" using r by simp
    obtain cl sets where g: "group_batch n qs l ?r = Inr (cl, sets)" "length cl = length sets" "work cl sets = probes qs (between l ?r)"
      "\<forall>c\<in>set cl. unat c < unat n" "[] \<notin> set sets" by (rule group_batch_ok [OF qs rq])
    show ?thesis
    proof (cases "?r < ?total")
      case False
      then have "?r = ?total" by (auto simp: min_def not_less)
      then show ?thesis using g True lr False by (subst group_queries.simps) (simp add: Let_def grouping_def)
    next
      case again: True
      have "length qs - unat ?r < length qs - unat l" using lr lt by (simp add: word_less_nat_alt)
      from less.hyps [OF this rq] obtain cl' sets' where g': "group_queries n qs batch ?r = Inr (cl', sets')"
        "grouping n qs (between ?r ?total) cl' sets'" by blast
      have "between l ?total = between l ?r @ between ?r ?total" by (rule between_split) (rule less_imp_le [OF lr], rule less_imp_le [OF again])
      then have "grouping n qs (between l ?total) (cl @ cl') (sets @ sets')"
        using g g'(2) by (auto simp: grouping_def work_append probes_append)
      moreover have "group_queries n qs batch l = Inr (cl @ cl', sets @ sets')"
        using g(1) g'(1) True lr again by (subst group_queries.simps) (simp add: Let_def)
      ultimately show ?thesis by blast
    qed
  qed
qed

section \<open>Dealing\<close>

lemma deal_zip: "length cl = length sets \<Longrightarrow>
    work (deal k cl i) (deal k sets i) = (\<Sum>j\<leftarrow>filter (\<lambda>j. j mod unat k = i) [0..<length cl]. image_mset (Pair (cl ! j)) (mset (sets ! j)))"
  by (simp add: work_def deal_def zip_map_map zip_same_conv_map comp_def)

lemma work_nth: "length cl = length sets \<Longrightarrow> work cl sets = (\<Sum>j\<leftarrow>[0..<length cl]. image_mset (Pair (cl ! j)) (mset (sets ! j)))"
proof -
  assume l: "length cl = length sets"
  have "zip cl sets = map (\<lambda>j. (cl ! j, sets ! j)) [0..<length cl]" using l by (intro nth_equalityI) auto
  then show ?thesis by (simp add: work_def comp_def)
qed

lemma sum_residues:
  fixes F :: "nat \<Rightarrow> 'a multiset"
  assumes "0 < k"
  shows "(\<Sum>i<k. \<Sum>j\<leftarrow>filter (\<lambda>j. j mod k = i) xs. F j) = (\<Sum>j\<leftarrow>xs. F j)"
proof (induction xs)
  case (Cons x xs)
  have "(\<Sum>i<k. \<Sum>j\<leftarrow>filter (\<lambda>j. j mod k = i) (x # xs). F j) = (\<Sum>i<k. \<Sum>j\<leftarrow>filter (\<lambda>j. j mod k = i) xs. F j) + F x"
    by (rule sum_flow_upd [of "x mod k"]) (use assms in simp_all)
  then show ?case using Cons by (simp add: add.commute)
qed simp

lemma deal_work:
  assumes "length cl = length sets" and "0 < unat k"
  shows "(\<Sum>i<unat k. work (deal k cl i) (deal k sets i)) = work cl sets"
  by (simp only: deal_zip [OF assms(1)] sum_residues [OF assms(2)] work_nth [OF assms(1)])

lemma anna_prepare_ok:
  assumes "queries_ok (unat n) (queries a)" and "0 < batch" and "length (queries a) + unat batch < 2 ^ 64"
    and "cluster_list a = []" and "query_set_list a = []" and "0 < core_num a" and "unat (core_num a) = length (anna_core_list a)"
  shows "\<exists>a' cl sets. anna_prepare n batch a = Inr a' \<and> length (anna_core_list a') = length (anna_core_list a) \<and>
    a' = a\<lparr>cluster_list := cl, query_set_list := sets, batch_size := batch, anna_core_list := map (\<lambda>i.
      core_Setup (deal (core_num a) cl i) (deal (core_num a) sets i) (signed_take_bit 31 (uint batch)) (anna_core_list a ! i)) [0..<length (anna_core_list a)]\<rparr> \<and>
    grouping n (queries a) (between 0 (of_nat (length (queries a)))) cl sets \<and>
    (\<Sum>c\<leftarrow>anna_core_list a'. work (core_cluster_list c) (core_query_set_list c)) =
      (\<Sum>i<length (queries a). image_mset (\<lambda>c. (c, of_nat i)) (mset (queries a ! i)))"
proof -
  let ?qs = "queries a" and ?k = "core_num a" and ?N = "length (queries a)"
  obtain cl sets where g: "group_queries n ?qs batch 0 = Inr (cl, sets)" "grouping n ?qs (between 0 (of_nat ?N)) cl sets"
    using group_queries_ok [OF assms(1,2,3), of 0] by auto
  have gl: "length cl = length sets" and gw: "work cl sets = probes ?qs (between 0 (of_nat ?N))" using g(2) by (simp_all add: grouping_def)
  have k: "0 < unat ?k" using assms(6) by (simp add: word_less_nat_alt)
  let ?core = "\<lambda>i. core_Setup (deal ?k cl i) (deal ?k sets i) (signed_take_bit 31 (uint batch)) (anna_core_list a ! i)"
  let ?a = "a\<lparr>cluster_list := cl, query_set_list := sets, batch_size := batch, anna_core_list := map ?core [0..<length (anna_core_list a)]\<rparr>"
  have "anna_prepare n batch a = Inr ?a"
    using g(1) assms(4,5,6,7) by (auto simp: anna_prepare_def Let_def)
  moreover have "(\<Sum>c\<leftarrow>anna_core_list ?a. work (core_cluster_list c) (core_query_set_list c)) = work cl sets"
    using deal_work [OF gl k] assms(7)
    by (simp add: comp_def core_Setup_def sum_list_distinct_conv_sum_set atLeast0LessThan)
  moreover have "work cl sets = (\<Sum>i<?N. image_mset (\<lambda>c. (c, of_nat i)) (mset (?qs ! i)))"
  proof -
    have N: "?N < 2 ^ 64" using assms(3) by simp
    then have "between 0 (of_nat ?N) = map of_nat [0..<?N]" by (simp add: between_def unat_of_nat_less)
    then have "work cl sets = (\<Sum>i\<leftarrow>[0..<?N]. image_mset (\<lambda>c. (c, of_nat i)) (mset (?qs ! unat (of_nat i :: u64))))"
      by (simp add: gw probes_def comp_def)
    also have "\<dots> = (\<Sum>i<?N. image_mset (\<lambda>c. (c, of_nat i)) (mset (?qs ! i)))"
      using N by (simp add: sum_list_distinct_conv_sum_set atLeast0LessThan unat_of_nat_less)
    finally show ?thesis .
  qed
  ultimately show ?thesis using g(2) by (intro exI [of _ ?a] exI [of _ cl] exI [of _ sets]) simp
qed

text \<open>The share of a core: at most one group more than the others.\<close>

lemma deal_length:
  assumes "i < unat k"
  shows "length (deal k xs i) \<le> (length xs + unat k - 1) div unat k"
proof -
  let ?k = "unat k" and ?S = "{j. j < length xs \<and> j mod unat k = i}"
  have "length (deal k xs i) = card ?S"
    by (simp add: deal_def distinct_length_filter) (rule arg_cong [where f = card], auto)
  also have "\<dots> \<le> card {..<(length xs + ?k - 1) div ?k}"
  proof (rule card_inj_on_le [where f = "\<lambda>j. j div ?k"])
    show "inj_on (\<lambda>j. j div ?k) ?S" by (rule inj_onI) (metis (mono_tags, lifting) mem_Collect_eq mult_div_mod_eq)
    have "j div ?k < (length xs + ?k - 1) div ?k" if "j < length xs" for j
    proof -
      have "Suc (j div ?k) = (j + ?k) div ?k" using assms by simp
      also have "\<dots> \<le> (length xs + ?k - 1) div ?k" using that by (intro div_le_mono) simp
      finally show ?thesis by simp
    qed
    then show "(\<lambda>j. j div ?k) ` ?S \<subseteq> {..<(length xs + ?k - 1) div ?k}" by auto
  qed simp
  finally show ?thesis by simp
qed

lemma deal_set: "set (deal k xs i) \<subseteq> set xs"
  by (auto simp: deal_def)

lemma grouping_queries:
  assumes "grouping n qs is cl sets" and "s \<in> set sets" and "q \<in> set s"
  shows "q \<in> set is"
proof -
  obtain j where j: "j < length sets" "sets ! j = s" using assms(2) by (auto simp: in_set_conv_nth)
  have "length cl = length sets" "work cl sets = probes qs is" using assms(1) by (simp_all add: grouping_def)
  moreover have "(cl ! j, q) \<in># work cl sets" unfolding work_nth [OF calculation(1)]
    using j assms(3) calculation(1) by (auto simp: set_mset_sum_list)
  ultimately have "(cl ! j, q) \<in># probes qs is" by simp
  then show ?thesis by (auto simp: probes_def set_mset_sum_list)
qed

lemma grouping_length:
  assumes "grouping n qs is cl sets"
  shows "length cl \<le> (\<Sum>i\<leftarrow>is. length (qs ! unat i))"
proof -
  have g: "length cl = length sets" "work cl sets = probes qs is" "[] \<notin> set sets" using assms by (simp_all add: grouping_def)
  have "length sets \<le> size (work cl sets)" using g(1,3)
  proof (induction cl sets rule: list_induct2)
    case (Cons c cl s sets)
    then have "1 \<le> length s" by (cases s) auto
    moreover have "length sets \<le> size (work cl sets)" using Cons by simp
    ultimately show ?case by (simp add: work_def)
  qed simp
  also have "\<dots> = (\<Sum>i\<leftarrow>is. length (qs ! unat i))" unfolding g(2) by (induction "is") (simp_all add: probes_def)
  finally show ?thesis using g(1) by simp
qed

end
