(* ===== verification/Anna_System.thy ===== *)
theory Anna_System
  imports Anna_Distribute
begin

text \<open>
  The accelerator from its constructor on: its cores own three readers each, a prepared run satisfies the
  invariant of the cores, and no tick of the run aborts. Then the behaviours of the cores that the
  code does not intend: a core without work keeps a run from ending, and the cost of a similarity
  computation is that of another cluster.
\<close>

section \<open>Construction\<close>

text \<open>A fetch module that has not been used.\<close>

definition efm_fresh :: "EFM \<Rightarrow> bool" where
  "efm_fresh e \<longleftrightarrow> (\<forall>r\<in>{metadata_reader e, vector_reader e}. request_queue r = [] \<and> reader_finished r) \<and>
     metadata_queue e = [] \<and> vector_queue e = [] \<and> cluster_queue e = [] \<and>
     fetched_request_num e = 0 \<and> submited_request_num e = 0 \<and> fetching_request_num e = 0"

definition core_built :: "anna_tables \<Rightarrow> nat \<Rightarrow> mmi \<Rightarrow> ANNACore \<Rightarrow> bool" where
  "core_built tb n f c \<longleftrightarrow> reader_inv n f (cpm_reader (cpm c)) \<and> efm_inv tb n f (efm c) \<and>
     reader_id (cpm_reader (cpm c)) \<notin> efm_ids (efm c) \<and> efm_fresh (efm c) \<and> (\<forall>i\<in>core_ids c. owed n f i = 0)"

lemma core_built_ids: "core_built tb n f c \<Longrightarrow> i \<in> core_ids c \<Longrightarrow> i < id_num f"
  by (auto simp: core_built_def core_ids_def efm_ids_def efm_inv_def reader_inv_def)

lemma next_id:
  assumes "Suc (unat (x :: u64)) < 2 ^ 64"
  shows "x \<noteq> - 1" and "unat (x + 1) = Suc (unat x)"
proof -
  show "unat (x + 1) = Suc (unat x)" using unat_add_lem [of x 1] assms by simp
  then show "x \<noteq> - 1" by auto
qed

lemma ANNACore_new_ok:
  assumes ok: "front_ok n R f" and cid: "unat cid < n" and room: "unat (id_num f) + 3 < 2 ^ 64"
  obtains c f' where "ANNACore_new cid f = Inr (c, f')" and "front_ok n R f'" and "core_built tb n f' c"
    and "unat (id_num f') = unat (id_num f) + 3" and "\<forall>i\<in>core_ids c. id_num f \<le> i"
    and "\<forall>r. reader_inv n f r \<longrightarrow> reader_inv n f' r" and "\<forall>i<id_num f. owed n f' i = owed n f i"
proof -
  have "Suc (unat (id_num f)) < 2 ^ 64" using room by simp
  note i0 = next_id [OF this]
  obtain r1 f1 where r1: "MemoryReader_new cid f = Inr (r1, f1)" "front_ok n R f1" "reader_inv n f1 r1" "reader_id r1 = id_num f"
    "id_num f1 = id_num f + 1" "\<forall>r. reader_inv n f r \<longrightarrow> reader_inv n f1 r" "request_queue r1 = []" "reader_finished r1"
    "owed n f1 (id_num f) = 0" "\<forall>i<id_num f. owed n f1 i = owed n f i"
    by (rule MemoryReader_new_ok [OF ok cid]) (rule i0(1))
  have u1: "unat (id_num f1) = Suc (unat (id_num f))" unfolding r1(5) by (rule i0(2))
  then have "Suc (unat (id_num f1)) < 2 ^ 64" using room by simp
  note i1 = next_id [OF this]
  obtain r2 f2 where r2: "MemoryReader_new cid f1 = Inr (r2, f2)" "front_ok n R f2" "reader_inv n f2 r2" "reader_id r2 = id_num f1"
    "id_num f2 = id_num f1 + 1" "\<forall>r. reader_inv n f1 r \<longrightarrow> reader_inv n f2 r" "request_queue r2 = []" "reader_finished r2"
    "owed n f2 (id_num f1) = 0" "\<forall>i<id_num f1. owed n f2 i = owed n f1 i"
    by (rule MemoryReader_new_ok [OF r1(2) cid]) (rule i1(1))
  have u2: "unat (id_num f2) = Suc (unat (id_num f1))" unfolding r2(5) by (rule i1(2))
  then have "Suc (unat (id_num f2)) < 2 ^ 64" using room u1 by simp
  note i2 = next_id [OF this]
  obtain r3 f3 where r3: "MemoryReader_new cid f2 = Inr (r3, f3)" "front_ok n R f3" "reader_inv n f3 r3" "reader_id r3 = id_num f2"
    "id_num f3 = id_num f2 + 1" "\<forall>r. reader_inv n f2 r \<longrightarrow> reader_inv n f3 r" "request_queue r3 = []" "reader_finished r3"
    "owed n f3 (id_num f2) = 0" "\<forall>i<id_num f2. owed n f3 i = owed n f2 i"
    by (rule MemoryReader_new_ok [OF r2(2) cid]) (rule i2(1))
  have u: "unat (id_num f1) = unat (id_num f) + 1" "unat (id_num f2) = unat (id_num f) + 2" "unat (id_num f3) = unat (id_num f) + 3"
    using u1 u2 i2(2) unfolding r3(5) by simp_all
  have neq: "unat x \<noteq> unat y \<Longrightarrow> x \<noteq> y" for x y :: u64 by (erule contrapos_nn) (rule arg_cong)
  have d: "id_num f \<noteq> id_num f1" "id_num f \<noteq> id_num f2" "id_num f1 \<noteq> id_num f2" by (rule neq, simp add: u)+
  obtain c where c: "ANNACore_new cid f = Inr (c, f3)" "cpm_reader (cpm c) = r1" "metadata_reader (efm c) = r2" "vector_reader (efm c) = r3"
    "metadata_queue (efm c) = []" "vector_queue (efm c) = []" "cluster_queue (efm c) = []" "efm_fresh (efm c)"
    using r1(1) r2(1,7,8) r3(1,7,8) by (simp add: ANNACore_new_def CPM_new_def EFM_new_def efm_fresh_def)
  have ids: "core_ids c = {id_num f, id_num f1, id_num f2}" using c r1(4) r2(4) r3(4) by (auto simp: core_ids_def efm_ids_def)
  have lt: "id_num f < id_num f1" "id_num f < id_num f2" "id_num f1 < id_num f2" using u by (simp_all add: word_less_nat_alt)
  have old: "owed n f3 i = owed n f i" if "i < id_num f" for i using that r1(10) r2(10) r3(10) lt by (metis less_trans)
  have "owed n f3 (id_num f) = 0" "owed n f3 (id_num f1) = 0" "owed n f3 (id_num f2) = 0" using r1(9) r2(9,10) r3(9,10) lt by simp_all
  then have "core_built tb n f3 c"
    using c d r1(3,4,6) r2(3,4,6) r3(3,4,6) ids by (simp add: core_built_def efm_inv_def efm_ids_def)
  moreover have "\<forall>i\<in>core_ids c. id_num f \<le> i" using u by (simp add: ids word_le_nat_alt)
  ultimately show thesis using c(1) r3(2) u(3) r1(6) r2(6) r3(6) old by (intro that [of c f3]) simp_all
qed

lemma disjoint_sets_snoc: "disjoint_sets (ss @ [s]) \<longleftrightarrow> disjoint_sets ss \<and> (\<forall>t\<in>set ss. t \<inter> s = {})"
  by (induction ss) auto

lemma add_cores_ok:
  assumes ok: "front_ok n R f" and z: "id_num f = 0"
  shows "k \<le> n \<Longrightarrow> \<exists>f' cs. res_fold add_core (map int [0..<k]) (f, []) = Inr (f', cs) \<and> front_ok n R f' \<and> length cs = k \<and>
    unat (id_num f') = 3 * k \<and> (\<forall>c\<in>set cs. core_built tb n f' c) \<and> ids_disjoint cs"
proof (induction k)
  case 0
  then show ?case using ok z by simp
next
  case (Suc k)
  then obtain f1 cs where r: "res_fold add_core (map int [0..<k]) (f, []) = Inr (f1, cs)" "front_ok n R f1" "length cs = k"
    "unat (id_num f1) = 3 * k" "\<forall>c\<in>set cs. core_built tb n f1 c" "ids_disjoint cs" by auto
  have n: "n < 2 ^ 31" using r(2) by (simp add: front_ok_def front_wf_def)
  have kc: "unat (of_int (int k) :: u64) < n" using Suc.prems n unat_of_nat_less [of k] by simp
  have room: "unat (id_num f1) + 3 < 2 ^ 64" using r(4) Suc.prems n by simp
  obtain c f2 where c: "ANNACore_new (of_int (int k)) f1 = Inr (c, f2)" "front_ok n R f2" "core_built tb n f2 c"
    "unat (id_num f2) = unat (id_num f1) + 3" "\<forall>i\<in>core_ids c. id_num f1 \<le> i" "\<forall>r. reader_inv n f1 r \<longrightarrow> reader_inv n f2 r"
    "\<forall>i<id_num f1. owed n f2 i = owed n f1 i"
    by (rule ANNACore_new_ok [OF r(2) kc room])
  have "core_built tb n f2 d" if "d \<in> set cs" for d using r(5) c(6,7) that core_built_ids [of tb n f1 d] by (simp add: core_built_def efm_inv_def)
  moreover have "ids_disjoint (cs @ [c])"
    using r(5,6) c(5) core_built_ids by (fastforce simp: disjoint_sets_snoc)
  moreover have "res_fold add_core (map int [0..<Suc k]) (f, []) = Inr (f2, cs @ [c])" using r(1) c(1) by (simp add: add_core_def)
  ultimately show ?case using c r(3,4) by auto
qed

definition anna_built :: "anna_tables \<Rightarrow> nat \<Rightarrow> MultiANNA \<Rightarrow> bool" where
  "anna_built tb n a \<longleftrightarrow> mi_inv n (memory a) \<and> (\<forall>c\<in>set (anna_core_list a). core_built tb n (front (memory a)) c) \<and>
     ids_disjoint (anna_core_list a) \<and> length (anna_core_list a) = n \<and> unat (core_num a) = n \<and> cluster_list a = [] \<and> query_set_list a = []"

lemma MultiANNA_of_ok:
  assumes "\<forall>i. mem_cfg_ok (cfg i)"
  obtains a where "MultiANNA_of 8 cfg = Inr a" and "anna_built tb 8 a"
    and "\<forall>m\<in>set (memory_system_list (memory a)). \<exists>i. mem_fresh (cfg i) m"
proof -
  obtain mi where mi: "MultiMemoryInterface_of 8 cfg = Inr mi" "mi_inv 8 mi" "id_num (front mi) = 0"
    "\<forall>m\<in>set (memory_system_list mi). \<exists>i. mem_fresh (cfg i) m"
    by (rule MultiMemoryInterface_of_ok [OF assms])
  have ok: "front_ok 8 (out_reads_of mi) (front mi)" and ms: "mems_ok 8 (memory_system_list mi)" using mi(2) by (simp_all add: mi_inv_front_ok)
  obtain f cs where r: "res_fold add_core (map int [0..<8]) (front mi, []) = Inr (f, cs)" "front_ok 8 (out_reads_of mi) f" "length cs = 8"
    "\<forall>c\<in>set cs. core_built tb 8 f c" "ids_disjoint cs" using add_cores_ok [OF ok mi(3) order_refl, of tb] by auto
  let ?a = "\<lparr>memory = mi\<lparr>front := f\<rparr>, anna_core_list = cs, cluster_list = [], query_set_list = [], batch_size = 0,
         queries = [], core_num = 8, clock = 0\<rparr>"
  have "irange 8 = map int [0..<8]" by (simp add: irange_def)
  then have "MultiANNA_of 8 cfg = Inr ?a" using mi(1) r(1) by (simp add: MultiANNA_of_def del: upt_rec_numeral)
  moreover have "anna_built tb 8 ?a" using r ms by (simp add: anna_built_def mi_inv_front_ok)
  ultimately show thesis using mi(4) by (intro that [of ?a]) simp_all
qed

section \<open>A prepared run\<close>

lemma deal_lengths: "length cl = length sets \<Longrightarrow> length (deal k sets i) = length (deal k cl i)"
  by (simp add: deal_def)

lemma sum_lengths: "length qs < 2 ^ 64 \<Longrightarrow> (\<Sum>i\<leftarrow>between 0 (of_nat (length qs)). length (qs ! unat i)) = (\<Sum>q\<leftarrow>qs. length q)"
proof -
  assume n: "length qs < 2 ^ 64"
  have "map (\<lambda>i. length (qs ! unat i)) (between 0 (of_nat (length qs))) = map length qs"
    using n by (intro nth_equalityI) (simp_all add: between_def unat_of_nat_less)
  then show ?thesis by simp
qed

lemma anna_prepare_inv:
  assumes built: "anna_built tb 8 a" and tb: "length (cluster_addr tb) = unat n"
    and qs: "queries_ok (unat n) (queries a)" "0 < batch" "length (queries a) + unat batch < 2 ^ 64" "length (queries a) \<le> Q"
    and small: "(\<Sum>q\<leftarrow>queries a. length q) \<le> 8 * unat n"
  obtains a' where "anna_prepare n batch a = Inr a'" and "anna_inv tb Q 8 a'" and "memory a' = memory a"
proof -
  have b: "cluster_list a = []" "query_set_list a = []" "0 < core_num a" "unat (core_num a) = length (anna_core_list a)" "length (anna_core_list a) = 8"
    using built by (auto simp: anna_built_def word_less_nat_alt)
  obtain a' cl sets where p: "anna_prepare n batch a = Inr a'" "a' = a\<lparr>cluster_list := cl, query_set_list := sets, batch_size := batch,
      anna_core_list := map (\<lambda>i. core_Setup (deal (core_num a) cl i) (deal (core_num a) sets i) (signed_take_bit 31 (uint batch))
        (anna_core_list a ! i)) [0..<length (anna_core_list a)]\<rparr>"
    and g: "grouping n (queries a) (between 0 (of_nat (length (queries a)))) cl sets"
    using anna_prepare_ok [OF qs(1,2,3) b(1,2,3,4)] by blast
  let ?core = "\<lambda>i. core_Setup (deal (core_num a) cl i) (deal (core_num a) sets i) (signed_take_bit 31 (uint batch)) (anna_core_list a ! i)"
  have N: "length (queries a) < 2 ^ 64" using qs(3) by simp
  have "length cl \<le> 8 * unat n" using grouping_length [OF g] sum_lengths [OF N] small by simp
  then have short: "length (deal (core_num a) cl i) \<le> unat n" if "i < 8" for i
    using deal_length [of i "core_num a" cl] that b(4,5) by (simp add: div_le_mono [THEN order_trans])
  have q: "unat q < Q" if "s \<in> set sets" "q \<in> set s" for s q
    using grouping_queries [OF g that] between_less qs(4) unat_of_nat_less [OF N] by fastforce
  have cl: "\<forall>c\<in>set cl. is_cluster tb c" and len: "length cl = length sets" using g tb by (simp_all add: grouping_def is_cluster_def)
  have "core_wf tb Q (?core i)" if "i < 8" for i
    using short [OF that] q cl deal_set [of "core_num a" cl i] deal_set [of "core_num a" sets i] deal_lengths [OF len] tb
    by (auto simp: core_wf_def core_Setup_def stage_ok_def)
  moreover have "core_built tb 8 (front (memory a)) (anna_core_list a ! i)" if "i < 8" for i using built b(5) that by (simp add: anna_built_def)
  ultimately have "core_inv tb Q 8 (front (memory a)) (?core i)" if "i < 8" for i
    using that by (simp add: core_inv_def core_built_def core_Setup_def)
  then have "\<forall>c\<in>set (anna_core_list a'). core_inv tb Q 8 (front (memory a')) c" using p(2) b(5) by auto
  moreover have "map core_ids (anna_core_list a') = map core_ids (anna_core_list a)"
    using p(2) by (intro nth_equalityI) (simp_all add: core_ids_def core_Setup_def)
  ultimately have "anna_inv tb Q 8 a'" using built p(2) by (simp add: anna_inv_def anna_built_def)
  then show thesis using p by (intro that [of a']) simp_all
qed

section \<open>Executions\<close>

inductive anna_reach :: "anna_tables \<Rightarrow> MultiANNA \<Rightarrow> TestValue \<Rightarrow> MultiANNA \<Rightarrow> TestValue \<Rightarrow> bool" for tb a0 tv0 where
  reach_start: "anna_reach tb a0 tv0 a0 tv0"
| reach_tick: "anna_reach tb a0 tv0 a tv \<Longrightarrow> anna_may_tick a \<Longrightarrow> anna_ClockTick tb a tv = Inr (a', tv') \<Longrightarrow> anna_reach tb a0 tv0 a' tv'"

lemma anna_reach_inv:
  assumes "anna_reach tb a0 tv0 a tv" and "tables_ok tb" and "anna_inv tb Q n a0" and "clocks_len Q tv0"
  shows "anna_inv tb Q n a \<and> clocks_len Q tv"
  using assms
proof (induction rule: anna_reach.induct)
  case (reach_tick a tv a' tv')
  then have "anna_inv tb Q n a" "clocks_len Q tv" by auto
  then obtain a1 tv1 where "anna_ClockTick tb a tv = Inr (a1, tv1)" "anna_inv tb Q n a1" "clocks_len Q tv1"
    using anna_ClockTick_ok reach_tick.prems(1) reach_tick.hyps(2) by metis
  then show ?case using reach_tick.hyps(3) by simp
qed simp

section \<open>The tables of the program\<close>

lemma prepare_config_tables:
  assumes "prepare_config n sizes = Inr tb"
    and "\<forall>i<unat n. 0 \<le> sizes ! i \<and> sizes ! i < 2 ^ 31" and "unat n \<le> length sizes" and "unat n \<le> 2 ^ 24"
  shows "tables_ok tb" and "length (cluster_addr tb) = unat n"
proof -
  obtain cl now where cl: "res_fold (layout_step sizes) (urange n) ([], cluster_addr_start) = Inr (cl, now)" "length cl = unat n"
    "\<forall>i<unat n. unat (cluster_bytes (cl ! i)) = 32 * nat (sizes ! i)" using layout_run [OF assms(2,3,4)] unfolding urange_def by blast
  have tb: "tb = \<lparr>metadata_addr = map (\<lambda>i. (metadata_addr_start + i * METADATA_LEN, METADATA_LEN)) (urange n), cluster_addr = cl,
      cluster_centroid = map (\<lambda>i. cluster_centroid_addr_start + i * VECTOR_SIZE) (urange n)\<rparr>"
    using assms(1) cl(1) by (simp add: prepare_config_def)
  have "unat (cluster_bytes c) + 64 < 2 ^ 64" if c: "c \<in> set cl" for c
  proof -
    obtain i where i: "i < unat n" "c = cl ! i" using c cl(2) by (auto simp: in_set_conv_nth)
    have "nat (sizes ! i) < nat (2 ^ 31)" using assms(2) i(1) by (intro nat_mono_iff [THEN iffD2]) auto
    then show ?thesis using cl(3) i by (simp add: nat_power_eq)
  qed
  then show "tables_ok tb" using cl(2) by (auto simp: tb tables_ok_def urange_def anna_constants)
  show "length (cluster_addr tb) = unat n" using cl(2) by (simp add: tb)
qed

lemma prepare_test_value_clocks: "prepare_test_value tb qs query_num = Inr tv \<Longrightarrow> clocks_len (unat query_num) tv"
  by (auto simp: prepare_test_value_def Let_def res_simps clocks_len_def)

section \<open>Cores without work\<close>

definition idle :: "ANNACore \<Rightarrow> bool" where
  "idle c \<longleftrightarrow> core_cluster_list c = [] \<and> cpm_processing_index c = none \<and> efm_processing_index c = none \<and>
     scm_processing_index c = none \<and> \<not> core_Finished c"

lemma idle_tick: "idle c \<Longrightarrow> core_ClockTick tb c f tv = Inr (c', f', tv') \<Longrightarrow> idle c'"
  by (auto simp: idle_def core_ClockTick_def res_simps Let_def save_step_def scm_step_def fetch_step_def cpm_step_def)

lemma idle_tick_cores:
  "tick_cores tb cs ft = Inr (cs', ft') \<Longrightarrow> \<exists>c\<in>set cs. idle c \<Longrightarrow> \<exists>c\<in>set cs'. idle c"
proof (induction cs arbitrary: ft cs')
  case (Cons c cs)
  obtain f tv where ft: "ft = (f, tv)" by (cases ft)
  from Cons.prems(1) obtain c1 f1 tv1 cs1 where r: "core_ClockTick tb c f tv = Inr (c1, f1, tv1)"
    "tick_cores tb cs (f1, tv1) = Inr (cs1, ft')" "cs' = c1 # cs1"
    by (auto simp: tick_cores_def ft res_simps)
  then show ?case using Cons.IH [OF r(2)] Cons.prems(2) idle_tick [OF _ r(1)] by auto
qed simp

lemma idle_run: "\<exists>c\<in>set (anna_core_list a). idle c \<Longrightarrow> \<not> is_ok (run_loop k tb a tv)"
proof (induction k arbitrary: a tv)
  case (Suc k)
  show ?case
  proof (cases "anna_ClockTick tb a tv")
    case (Inr p)
    obtain a1 tv1 where p: "p = (a1, tv1)" by (cases p)
    obtain mi tv0 where m: "mmi_ClockTick (memory a) tv = Inr (mi, tv0)" using Inr by (auto simp: anna_ClockTick_def res_simps)
    obtain cs f tv2 where t: "tick_cores tb (anna_core_list a) (front mi, tv0) = Inr (cs, f, tv2)"
      using Inr m by (auto simp: anna_ClockTick_def res_simps)
    then have "tick_cores tb (anna_core_list a) (front mi, tv0) = Inr (anna_core_list a1, f, tv2)"
      using Inr p m by (auto simp: anna_ClockTick_def)
    from idle_tick_cores [OF this Suc.prems] have i: "\<exists>c\<in>set (anna_core_list a1). idle c" .
    then have "\<not> list_all core_IsFinished (anna_core_list a1)" by (auto simp: list_all_iff idle_def core_IsFinished_def)
    then show ?thesis using Inr p Suc.IH [OF i] by simp
  qed simp
qed simp

text \<open>The accelerator over the HBM2 configuration, and two queries over three clusters.\<close>

definition sample_queries :: "u64 list list" where
  "sample_queries = [[0, 2], [2]]"

lemma sample_sum: "(\<Sum>q\<leftarrow>sample_queries. length q) = 3" "length sample_queries = 2" "queries_ok 3 sample_queries"
  by (simp_all add: sample_queries_def queries_ok_def)

lemma sample_accelerator:
  obtains a where "MultiANNA_of 8 (\<lambda>_. hbm2_config) = Inr a" and "anna_built tb 8 (anna_Setup sample_queries a)"
    and "queries (anna_Setup sample_queries a) = sample_queries"
    and "\<forall>b. memory b = memory a \<longrightarrow> anna_may_tick b"
proof -
  obtain a where a: "MultiANNA_of 8 (\<lambda>_. hbm2_config) = Inr a" "anna_built tb 8 a"
    "\<forall>m\<in>set (memory_system_list (memory a)). \<exists>i :: int. mem_fresh hbm2_config m"
    by (rule MultiANNA_of_ok [of "\<lambda>_. hbm2_config"]) (use hbm2_mem_ok in auto)
  then show thesis using fresh_may_tick [OF _ hbm2_rw_gap]
    by (intro that [of a]) (auto simp: anna_built_def anna_Setup_def anna_may_tick_def)
qed

lemma anna_prepare_memory: "anna_prepare n batch a = Inr a' \<Longrightarrow> memory a' = memory a"
  by (auto simp: anna_prepare_def Let_def res_simps split: if_splits)

section \<open>Properties\<close>

text \<open>C4. Every probe is assigned to one core exactly once. For a batch size above 0, fewer than
  \<open>2 ^ 64\<close> queries and clusters within the table, the preparation of a run succeeds, and the
  work lists of the cores hold together, with multiplicity, exactly the pairs of a query and a cluster it names.\<close>

theorem every_probe_assigned_once:
  assumes "queries_ok (unat n) (queries a)" and "0 < batch" and "length (queries a) + unat batch < 2 ^ 64"
    and "cluster_list a = []" and "query_set_list a = []" and "0 < core_num a" and "unat (core_num a) = length (anna_core_list a)"
  shows "\<exists>a'. anna_prepare n batch a = Inr a' \<and> length (anna_core_list a') = length (anna_core_list a) \<and>
    (\<Sum>c\<leftarrow>anna_core_list a'. work (core_cluster_list c) (core_query_set_list c)) =
      (\<Sum>i<length (queries a). image_mset (\<lambda>c. (c, of_nat i)) (mset (queries a ! i)))"
  using anna_prepare_ok [OF assms] by blast

theorem every_probe_assigned_once_witness:
  "\<exists>a a'. MultiANNA_of 8 (\<lambda>_. hbm2_config) = Inr a \<and> anna_prepare 3 16 (anna_Setup sample_queries a) = Inr a' \<and>
    (\<Sum>c\<leftarrow>anna_core_list a'. work (core_cluster_list c) (core_query_set_list c)) = {#(0, 0), (2, 0), (2, 1)#}"
proof -
  obtain a where a: "MultiANNA_of 8 (\<lambda>_. hbm2_config) = Inr a" "anna_built tb 8 (anna_Setup sample_queries a)"
    "queries (anna_Setup sample_queries a) = sample_queries" by (rule sample_accelerator)
  then have "queries_ok (unat (3 :: u64)) (queries (anna_Setup sample_queries a))" "0 < core_num (anna_Setup sample_queries a)"
    "unat (core_num (anna_Setup sample_queries a)) = length (anna_core_list (anna_Setup sample_queries a))"
    "cluster_list (anna_Setup sample_queries a) = []" "query_set_list (anna_Setup sample_queries a) = []"
    by (auto simp: sample_sum anna_built_def word_less_nat_alt)
  from every_probe_assigned_once [OF this(1) _ _ this(4,5,2,3), of 16] a(1,3) show ?thesis
    by (auto simp: sample_sum) (auto simp: sample_queries_def lessThan_Suc numeral_2_eq_2 add_mset_commute)
qed

text \<open>C1. The accelerator never aborts. Take the accelerator of eight cores over valid memory
  configurations, the tables that the program prepares for \<open>n\<close> clusters, and queries that name existing clusters, at most \<open>8 * n\<close> times
  together. Then the preparation of the run succeeds, and in every state that its ticks reach the
  next tick succeeds: no assertion fails, no index is out of range and no iterator is invalid, in the
  cores, their modules and readers, the switch, the memory controllers or the channels.\<close>

theorem accelerator_never_aborts:
  assumes "\<forall>i. mem_cfg_ok (cfg i)" and "MultiANNA_of 8 cfg = Inr a0"
    and "prepare_config n sizes = Inr tb" and "\<forall>i<unat n. 0 \<le> sizes ! i \<and> sizes ! i < 2 ^ 31" and "unat n \<le> length sizes" and "unat n \<le> 2 ^ 24"
    and "prepare_test_value tb qs query_num = Inr tv1" and "length qs \<le> unat query_num"
    and "queries_ok (unat n) qs" and "(\<Sum>q\<leftarrow>qs. length q) \<le> 8 * unat n" and "0 < batch" and "length qs + unat batch < 2 ^ 64"
  shows "\<exists>a1. anna_prepare n batch (anna_Setup qs a0) = Inr a1 \<and>
    (\<forall>a tv. anna_reach tb a1 tv1 a tv \<longrightarrow> anna_may_tick a \<longrightarrow> is_ok (anna_ClockTick tb a tv))"
proof -
  let ?Q = "unat query_num"
  have tb: "tables_ok tb" "length (cluster_addr tb) = unat n" by (rule prepare_config_tables [OF assms(3-6)])+
  have len: "clocks_len ?Q tv1" by (rule prepare_test_value_clocks [OF assms(7)])
  obtain a where "MultiANNA_of 8 cfg = Inr a" "anna_built tb 8 a" by (rule MultiANNA_of_ok [OF assms(1)])
  then have "anna_built tb 8 (anna_Setup qs a0)" using assms(2) by (auto simp: anna_built_def anna_Setup_def)
  moreover have "queries (anna_Setup qs a0) = qs" by (simp add: anna_Setup_def)
  ultimately obtain a1 where a1: "anna_prepare n batch (anna_Setup qs a0) = Inr a1" "anna_inv tb ?Q 8 a1"
    using anna_prepare_inv [of tb "anna_Setup qs a0" n batch ?Q] tb(2) assms(8-12) by auto
  have "is_ok (anna_ClockTick tb a tv)" if "anna_reach tb a1 tv1 a tv" "anna_may_tick a" for a tv
  proof -
    have "anna_inv tb ?Q 8 a" "clocks_len ?Q tv" using anna_reach_inv [OF that(1) tb(1) a1(2) len] by simp_all
    then show ?thesis by (rule anna_ClockTick_ok [OF tb(1) _ _ that(2)]) simp
  qed
  then show ?thesis using a1(1) by blast
qed

theorem accelerator_never_aborts_witness:
  "\<exists>a0 tb tv1 a1. MultiANNA_of 8 (\<lambda>_. hbm2_config) = Inr a0 \<and> prepare_config 3 [5, 0, 7] = Inr tb \<and>
    prepare_test_value tb sample_queries 2 = Inr tv1 \<and> anna_prepare 3 16 (anna_Setup sample_queries a0) = Inr a1 \<and>
    is_ok (anna_ClockTick tb a1 tv1)"
proof -
  have n: "unat (3 :: u64) = 3" "unat (2 :: u64) = 2" by simp_all
  have sizes: "\<forall>i<unat (3 :: u64). 0 \<le> [5, 0, 7 :: int] ! i \<and> [5, 0, 7 :: int] ! i < 2 ^ 31"
    unfolding n by (auto simp: less_Suc_eq numeral_3_eq_3)
  obtain cl now where "res_fold (layout_step [5, 0, 7]) (urange 3) ([], cluster_addr_start) = Inr (cl, now)" "length cl = 3"
    using layout_run [OF sizes [unfolded n]] unfolding urange_def n by auto
  then obtain tb where tb: "prepare_config 3 [5, 0, 7] = Inr tb" "length (cluster_addr tb) = 3" by (simp add: prepare_config_def)
  obtain tv1 where tv1: "prepare_test_value tb sample_queries 2 = Inr tv1"
    by (simp add: prepare_test_value_def sample_queries_def query_step_def uget_def' tb(2) Let_def)
  obtain a0 where a0: "MultiANNA_of 8 (\<lambda>_. hbm2_config) = Inr a0" "\<forall>b. memory b = memory a0 \<longrightarrow> anna_may_tick b" by (rule sample_accelerator)
  have "\<forall>i. mem_cfg_ok ((\<lambda>_. hbm2_config) (i :: int))" using hbm2_mem_ok by simp
  from accelerator_never_aborts [OF this a0(1) tb(1) sizes _ _ tv1, of 16]
  obtain a1 where a1: "anna_prepare 3 16 (anna_Setup sample_queries a0) = Inr a1"
    "\<forall>a tv. anna_reach tb a1 tv1 a tv \<longrightarrow> anna_may_tick a \<longrightarrow> is_ok (anna_ClockTick tb a tv)" by (auto simp: sample_sum n)
  have "anna_may_tick a1" using a0(2) anna_prepare_memory [OF a1(1)] by (simp add: anna_Setup_def)
  then show ?thesis using a1 reach_start a0(1) tb(1) tv1 by blast
qed

text \<open>C40. A core without work keeps the run from ending. When the queries make fewer groups than
  there are cores, the run never stops: for no number of ticks does the main loop return,
  because a core with an empty work list never sets \<^verbatim>\<open>Finished\<close>.\<close>

theorem idle_core_never_finishes:
  assumes "anna_prepare n batch a = Inr a1" and "length (cluster_list a1) < length (anna_core_list a1)"
  shows "\<not> is_ok (run_loop k tb a1 tv)"
proof (rule idle_run)
  let ?N = "length (anna_core_list a)"
  obtain cl sets where a1: "a1 = a\<lparr>cluster_list := cl, query_set_list := sets, batch_size := batch,
      anna_core_list := map (\<lambda>i. core_Setup (deal (core_num a) cl i) (deal (core_num a) sets i) (signed_take_bit 31 (uint batch))
        (anna_core_list a ! i)) [0..<?N]\<rparr>" and k: "unat (core_num a) = ?N"
    using assms(1) by (auto simp: anna_prepare_def Let_def res_simps split: if_splits)
  have l: "length cl < ?N" using assms(2) a1 by simp
  let ?c = "core_Setup (deal (core_num a) cl (?N - 1)) (deal (core_num a) sets (?N - 1)) (signed_take_bit 31 (uint batch)) (anna_core_list a ! (?N - 1))"
  have "deal (core_num a) cl (?N - 1) = []" using l by (auto simp: deal_def k filter_empty_conv)
  then have "idle ?c" by (simp add: idle_def core_Setup_def)
  moreover have "?c \<in> set (anna_core_list a1)" using a1 l by auto
  ultimately show "\<exists>c\<in>set (anna_core_list a1). idle c" by blast
qed

theorem idle_core_never_finishes_witness:
  "\<exists>a a1. MultiANNA_of 8 (\<lambda>_. hbm2_config) = Inr a \<and> anna_prepare 3 16 (anna_Setup sample_queries a) = Inr a1 \<and>
    (\<forall>tb tv. \<not> is_ok (run_loop 1000000 tb a1 tv))"
proof -
  obtain a where a: "MultiANNA_of 8 (\<lambda>_. hbm2_config) = Inr a" "anna_built tb 8 (anna_Setup sample_queries a)"
    "queries (anna_Setup sample_queries a) = sample_queries" by (rule sample_accelerator)
  let ?a = "anna_Setup sample_queries a"
  have b: "queries_ok (unat (3 :: u64)) (queries ?a)" "0 < core_num ?a" "unat (core_num ?a) = length (anna_core_list ?a)"
    "cluster_list ?a = []" "query_set_list ?a = []" "length (anna_core_list ?a) = 8"
    using a by (auto simp: sample_sum anna_built_def word_less_nat_alt)
  obtain a1 cl sets where p: "anna_prepare 3 16 ?a = Inr a1" "length (anna_core_list a1) = length (anna_core_list ?a)" "cluster_list a1 = cl"
    "grouping 3 (queries ?a) (between 0 (of_nat (length (queries ?a)))) cl sets"
    using anna_prepare_ok [OF b(1) _ _ b(4,5,2,3), of 16] a(3) by (force simp: sample_sum)
  have "length cl \<le> 3" using grouping_length [OF p(4)] sum_lengths [of "queries ?a"] a(3) by (simp add: sample_sum)
  then have "length (cluster_list a1) < length (anna_core_list a1)" using p(2,3) b(6) by simp
  from idle_core_never_finishes [OF p(1) this] p(1) a(1) show ?thesis by blast
qed

text \<open>The cost of a similarity computation is that of another cluster. The step that starts it
  takes the number of vectors and bytes of the cluster whose number is the position in the
  work list: the clusters in the work list do not matter for it.\<close>

theorem scm_cost_ignores_work_list:
  "scm_step tb (c\<lparr>core_cluster_list := cl\<rparr>) tv = res_bind (scm_step tb c tv) (\<lambda>(c', tv'). Inr (c'\<lparr>core_cluster_list := cl\<rparr>, tv'))"
  by (cases "uget (cluster_addr tb) (efm_processing_index c)"; cases "uget (core_query_set_list c) (efm_processing_index c)")
    (auto simp: scm_step_def Let_def scm_Submit_def)

end
