(* ===== verification/Anna_Pipeline.thy ===== *)
theory Anna_Pipeline
  imports Anna_System
begin

text \<open>
  The pipeline of a core: the counters by which a core and its fetch module agree on what
  has been read. Lemmas: the counters are linked in every reachable state; a core with work
  that has not finished always has a step to take, a timer that runs or a read that the memory
  owes it; the vectors of a cluster are read one request late.
\<close>

section \<open>Readers\<close>

text \<open>A reader that has been reset owes nothing and waits for nothing; the counter of a reader
  does not wrap around.\<close>

definition reader_sync :: "nat \<Rightarrow> mmi \<Rightarrow> MemoryReader \<Rightarrow> bool" where
  "reader_sync n f r \<longleftrightarrow> length (request_queue r) + owed n f (reader_id r) < 2 ^ 64 \<and>
     (reader_finished r \<longrightarrow> request_queue r = [] \<and> owed n f (reader_id r) = 0)"

definition unf :: "MemoryReader \<Rightarrow> nat" where
  "unf r = (if reader_finished r then 0 else 1)"

lemma ready_empty:
  assumes "reader_inv n f r" and "reader_sync n f r"
  shows "reader_IsReady r \<longleftrightarrow> request_queue r = [] \<and> owed n f (reader_id r) = 0"
proof -
  let ?k = "length (request_queue r) + owed n f (reader_id r)"
  have "processing_num r = of_nat ?k" and k: "?k < 2 ^ 64" using assms by (simp_all add: reader_inv_def reader_sync_def)
  then have "unat (processing_num r) = ?k" using unat_of_nat_less [OF k] by simp
  then have "reader_IsReady r \<longleftrightarrow> ?k = 0" by (metis reader_IsReady_def of_nat_unat_self semiring_1_class.of_nat_0 unsigned_0)
  then show ?thesis by simp
qed

lemma sync_kept: "others_kept n I f f' \<Longrightarrow> reader_inv n f r \<Longrightarrow> reader_sync n f r \<Longrightarrow> reader_id r \<notin> I \<Longrightarrow> reader_sync n f' r"
  by (simp add: reader_sync_def others_kept_def reader_inv_def)

lemma reader_tick_sync:
  assumes "front_ok n R f" and "reader_inv n f r" and "reader_sync n f r" and "reader_ClockTick r f = Inr (r', f')"
  shows "front_ok n R f'" and "others_kept n {reader_id r} f f'" and "reader_inv n f' r'" and "reader_id r' = reader_id r"
    and "reader_finished r' = reader_finished r" and "reader_sync n f' r'" and "reader_finished r \<Longrightarrow> reader_IsReady r'"
proof -
  obtain r1 f1 where r1: "reader_ClockTick r f = Inr (r1, f1)" "front_ok n R f1" "others_kept n {reader_id r} f f1"
    "reader_inv n f1 r1" "reader_id r1 = reader_id r" "request_queue r1 = drop 17 (request_queue r)"
    "reader_finished r1 = reader_finished r"
    "length (request_queue r1) + owed n f1 (reader_id r) \<le> length (request_queue r) + owed n f (reader_id r)"
    by (rule reader_ClockTick_ok [OF assms(1,2)]) blast
  have e: "r1 = r'" "f1 = f'" using r1(1) assms(4) by simp_all
  show "front_ok n R f'" "others_kept n {reader_id r} f f'" "reader_inv n f' r'" "reader_id r' = reader_id r" "reader_finished r' = reader_finished r"
    using r1 e by simp_all
  show s: "reader_sync n f' r'" using assms(3) r1(5,6,7,8) unfolding e by (auto simp: reader_sync_def)
  show "reader_IsReady r'" if "reader_finished r"
    using ready_empty [OF r1(4) [unfolded e] s] s that r1(7) by (simp add: e reader_sync_def)
qed

lemma reset_sync:
  assumes "reader_inv n f r" and "reader_sync n f r" and "FinishAndReset r = (d, r')"
  shows "reader_inv n f r'" and "reader_sync n f r'" and "reader_id r' = reader_id r" and "reader_IsReady r' \<longleftrightarrow> reader_IsReady r"
    and "reader_IsReady r' \<Longrightarrow> reader_finished r'" and "unf r = unf r' + (if d then 1 else 0)"
  using assms ready_empty [OF assms(1,2)]
  by (auto simp: FinishAndReset_def reader_sync_def reader_IsReady_def reader_inv_def unf_def split: if_splits)

lemma submit_sync:
  assumes "reader_inv n f r" and "reader_sync n f r" and "reader_IsReady r" and "unat len + 64 < 2 ^ 64"
    and "SubmitReadRequest a len default_stride r = Inr r'"
  shows "reader_sync n f r'" and "\<not> reader_finished r'" and "reader_id r' = reader_id r" and "reader_inv n f r'"
proof -
  have z: "request_queue r = []" "owed n f (reader_id r) = 0" using ready_empty [OF assms(1,2)] assms(3) by simp_all
  have "(unat len + 63) div 64 < 2 ^ 64" using assms(4) by simp
  then show "reader_sync n f r'" "\<not> reader_finished r'" "reader_id r' = reader_id r" "reader_inv n f r'"
    using assms(1,5) z read_addrs_ok [OF assms(4), of a] by (auto simp: SubmitReadRequest_def default_stride_def reader_sync_def reader_inv_def)
qed

section \<open>The fetch module\<close>

text \<open>Every request is counted once: as waiting, as read or as being read.\<close>

definition efm_sync :: "nat \<Rightarrow> mmi \<Rightarrow> EFM \<Rightarrow> bool" where
  "efm_sync n f e \<longleftrightarrow> reader_sync n f (metadata_reader e) \<and> reader_sync n f (vector_reader e)"

definition efm_link :: "EFM \<Rightarrow> bool" where
  "efm_link e \<longleftrightarrow> length (metadata_queue e) \<le> 1 \<and> length (cluster_queue e) \<le> 1 \<and> vector_queue e = [] \<and>
     submited_request_num e = fetching_request_num e + of_nat (unf (metadata_reader e) + length (metadata_queue e)) \<and>
     fetched_request_num e + of_nat (unf (vector_reader e) + length (cluster_queue e)) =
       fetching_request_num e + of_nat (unf (metadata_reader e)) \<and>
     (metadata_queue e \<noteq> [] \<longrightarrow> cluster_queue e \<noteq> [] \<longrightarrow> reader_finished (vector_reader e))"

lemma small_word [simp]: "k < 2 ^ 64 \<Longrightarrow> (of_nat k = (0 :: u64)) = (k = 0)"
  by (metis semiring_1_class.of_nat_0 unat_of_nat_less unsigned_0)

lemma fire_iff:
  assumes "efm_link e" and "reader_IsReady (metadata_reader e) \<Longrightarrow> reader_finished (metadata_reader e)"
  shows "fetching_request_num e = submited_request_num e - 1 \<and> reader_IsReady (metadata_reader e) \<longleftrightarrow>
    metadata_queue e \<noteq> [] \<and> reader_IsReady (metadata_reader e)"
proof (cases "reader_IsReady (metadata_reader e)")
  case True
  then have s: "submited_request_num e = fetching_request_num e + of_nat (length (metadata_queue e))" and l: "length (metadata_queue e) \<le> 1"
    using assms by (simp_all add: efm_link_def unf_def)
  show ?thesis using True l by (cases "metadata_queue e") (simp_all add: s)
qed simp

lemma single: "length q \<le> 1 \<Longrightarrow> q \<noteq> [] \<Longrightarrow> \<exists>x. q = [x]"
  by (cases q) auto

lemma fetch_metadata_link:
  assumes tb: "tables_ok tb" and inv: "efm_inv tb n f e" and sy: "efm_sync n f e" and link: "efm_link e"
    and fin: "reader_IsReady (metadata_reader e) \<Longrightarrow> reader_finished (metadata_reader e)"
    and run: "efm_fetch_metadata tb (e, tv) = Inr (e', tv')"
  shows "e' = e \<or> (\<exists>r. e' = e\<lparr>metadata_reader := r, vector_queue := cluster_queue e, cluster_queue := metadata_queue e, metadata_queue := []\<rparr> \<and>
    metadata_queue e \<noteq> [] \<and> reader_finished (metadata_reader e) \<and> \<not> reader_finished r \<and> reader_sync n f r \<and> reader_id r = reader_id (metadata_reader e))"
proof (cases "metadata_queue e \<noteq> [] \<and> reader_IsReady (metadata_reader e)")
  case False
  then have "\<not> (fetching_request_num e = submited_request_num e - 1 \<and> reader_IsReady (metadata_reader e))" using fire_iff [OF link fin] by simp
  then show ?thesis using run by (simp add: efm_fetch_metadata_def del: de_Morgan_conj)
next
  case True
  then obtain c where c: "metadata_queue e = [c]" using link single unfolding efm_link_def by blast
  have vq: "vector_queue e = []" and i: "reader_inv n f (metadata_reader e)" and cl: "is_cluster tb c" and s: "reader_sync n f (metadata_reader e)"
    using inv sy link c by (simp_all add: efm_inv_def efm_sync_def efm_link_def)
  obtain a len where m: "metadata_addr tb ! unat c = (a, len)" by (cases "metadata_addr tb ! unat c")
  have l: "unat c < length (metadata_addr tb)" using cl tb by (simp add: is_cluster_def tables_ok_def)
  have "(a, len) \<in> set (metadata_addr tb)" using l m nth_mem by metis
  then have b: "unat len + 64 < 2 ^ 64" using tb by (auto simp: tables_ok_def)
  have "fetching_request_num e = submited_request_num e - 1 \<and> reader_IsReady (metadata_reader e)" using fire_iff [OF link fin] True by simp
  then obtain r where r: "SubmitReadRequest a len default_stride (metadata_reader e) = Inr r"
    "e' = e\<lparr>metadata_reader := r, vector_queue := cluster_queue e, cluster_queue := [c], metadata_queue := []\<rparr>"
    using run c m l vq by (auto simp: efm_fetch_metadata_def read_metadata_def uget_def' res_simps)
  show ?thesis using submit_sync [OF i s _ b r(1)] r(2) c True fin by auto
qed

lemma fetch_vectors_link:
  assumes tb: "tables_ok tb" and inv: "efm_inv tb n f e" and sy: "efm_sync n f e"
    and run: "efm_fetch_vectors tb (e, tv) = Inr (e', tv')"
    and q: "vector_queue e \<noteq> [] \<Longrightarrow> (\<exists>c. vector_queue e = [c]) \<and> fetched_request_num e = fetching_request_num e - 1 \<and> reader_IsReady (vector_reader e)"
  shows "vector_queue e = [] \<and> e' = e \<or> (\<exists>r. e' = e\<lparr>vector_reader := r, vector_queue := []\<rparr> \<and>
    vector_queue e \<noteq> [] \<and> \<not> reader_finished r \<and> reader_sync n f r \<and> reader_id r = reader_id (vector_reader e))"
proof (cases "vector_queue e = []")
  case True
  then have "e' = e" using run by (auto simp: efm_fetch_vectors_def split: if_splits)
  then show ?thesis using True by simp
next
  case False
  then obtain c where c: "vector_queue e = [c]" "fetched_request_num e = fetching_request_num e - 1" "reader_IsReady (vector_reader e)" using q by blast
  have i: "reader_inv n f (vector_reader e)" and l: "unat c < length (cluster_addr tb)" and s: "reader_sync n f (vector_reader e)"
    using inv sy c by (simp_all add: efm_inv_def efm_sync_def is_cluster_def)
  let ?cl = "cluster_addr tb ! unat c"
  have b: "unat (cluster_bytes ?cl) + 64 < 2 ^ 64" using tb l by (simp add: tables_ok_def)
  obtain r where r: "SubmitReadRequest (start_addr ?cl) (cluster_bytes ?cl) default_stride (vector_reader e) = Inr r"
    "e' = e\<lparr>vector_reader := r, vector_queue := []\<rparr>"
    using run c l by (auto simp: efm_fetch_vectors_def read_vectors_def uget_def' res_simps)
  show ?thesis using submit_sync [OF i s c(3) b r(1)] r(2) False by auto
qed

lemma efm_tick_unfold:
  assumes "efm_ClockTick tb e f tv = Inr (e', f', tv')"
  obtains mr f1 vr d mr1 tv1 e2 tv2 d' vr1 where "reader_ClockTick (metadata_reader e) f = Inr (mr, f1)"
    and "reader_ClockTick (vector_reader e) f1 = Inr (vr, f')" and "FinishAndReset mr = (d, mr1)"
    and "efm_fetch_metadata tb (e\<lparr>metadata_reader := mr1, vector_reader := vr,
        fetching_request_num := (if d then fetching_request_num e + 1 else fetching_request_num e)\<rparr>, tv1) = Inr (e2, tv2)"
    and "FinishAndReset (vector_reader e2) = (d', vr1)"
    and "efm_fetch_vectors tb (e2\<lparr>vector_reader := vr1,
        fetched_request_num := (if d' then fetched_request_num e2 + 1 else fetched_request_num e2)\<rparr>, tv2) = Inr (e', tv')" and "queries_size tv1 = queries_size tv"
proof -
  obtain mr f1 where m: "reader_ClockTick (metadata_reader e) f = Inr (mr, f1)" using assms by (auto simp: efm_ClockTick_def res_simps)
  obtain vr f2 where v: "reader_ClockTick (vector_reader e) f1 = Inr (vr, f2)" using assms m by (auto simp: efm_ClockTick_def res_simps)
  obtain d mr1 where r: "FinishAndReset mr = (d, mr1)" by (cases "FinishAndReset mr")
  let ?e1 = "e\<lparr>metadata_reader := mr1, vector_reader := vr, fetching_request_num := (if d then fetching_request_num e + 1 else fetching_request_num e)\<rparr>"
  let ?tv1 = "if \<not> reader_IsReady (metadata_reader ?e1) \<or> \<not> reader_IsReady (vector_reader ?e1)
      then tv\<lparr>efm_blocked_cycle_cnt := efm_blocked_cycle_cnt tv + 1\<rparr> else tv"
  note run = assms [unfolded efm_ClockTick_def m v res_bind_Inr prod.case r Let_def]
  obtain e2 tv2 where e2: "efm_fetch_metadata tb (?e1, ?tv1) = Inr (e2, tv2)" using run by (cases "efm_fetch_metadata tb (?e1, ?tv1)") auto
  obtain d' vr1 where r': "FinishAndReset (vector_reader e2) = (d', vr1)" by (cases "FinishAndReset (vector_reader e2)")
  note run' = run [unfolded e2 res_bind_Inr prod.case r']
  show thesis by (rule that [OF m _ r e2 r']) (use run' v in \<open>auto simp: res_simps\<close>)
qed

lemma efm_tick_link:
  assumes tb: "tables_ok tb" and ok: "front_ok n R f" and inv: "efm_inv tb n f e" and sy: "efm_sync n f e" and link: "efm_link e"
    and run: "efm_ClockTick tb e f tv = Inr (e', f', tv')"
  shows "efm_sync n f' e' \<and> efm_link e' \<and> submited_request_num e' = submited_request_num e \<and>
    last (cluster_queue e' @ metadata_queue e') = last (cluster_queue e @ metadata_queue e) \<and>
    (cluster_queue e' @ metadata_queue e' = [] \<longleftrightarrow> cluster_queue e @ metadata_queue e = []) \<and>
    (reader_finished (vector_reader e) \<longrightarrow> fetched_request_num e' = fetched_request_num e)"
proof -
  obtain mr f1 vr d mr1 tv1 e2 tv2 d' vr1 where u: "reader_ClockTick (metadata_reader e) f = Inr (mr, f1)"
    "reader_ClockTick (vector_reader e) f1 = Inr (vr, f')" "FinishAndReset mr = (d, mr1)"
    "efm_fetch_metadata tb (e\<lparr>metadata_reader := mr1, vector_reader := vr,
        fetching_request_num := (if d then fetching_request_num e + 1 else fetching_request_num e)\<rparr>, tv1) = Inr (e2, tv2)"
    "FinishAndReset (vector_reader e2) = (d', vr1)"
    "efm_fetch_vectors tb (e2\<lparr>vector_reader := vr1,
        fetched_request_num := (if d' then fetched_request_num e2 + 1 else fetched_request_num e2)\<rparr>, tv2) = Inr (e', tv')"
    using run by (rule efm_tick_unfold) blast
  let ?e1 = "e\<lparr>metadata_reader := mr1, vector_reader := vr, fetching_request_num := (if d then fetching_request_num e + 1 else fetching_request_num e)\<rparr>"
  let ?e3 = "e2\<lparr>vector_reader := vr1, fetched_request_num := (if d' then fetched_request_num e2 + 1 else fetched_request_num e2)\<rparr>"
  have i: "reader_inv n f (metadata_reader e)" "reader_inv n f (vector_reader e)" "reader_id (metadata_reader e) \<noteq> reader_id (vector_reader e)"
    and s: "reader_sync n f (metadata_reader e)" "reader_sync n f (vector_reader e)" using inv sy by (simp_all add: efm_inv_def efm_sync_def)
  note m = reader_tick_sync [OF ok i(1) s(1) u(1)]
  have "reader_inv n f1 (vector_reader e)" "reader_sync n f1 (vector_reader e)"
    using others_kept_inv [OF m(2) i(2)] sync_kept [OF m(2) i(2) s(2)] i(3) by simp_all
  note v = reader_tick_sync [OF m(1) this u(2)]
  have "reader_inv n f' mr" "reader_sync n f' mr" using others_kept_inv [OF v(2) m(3)] sync_kept [OF v(2) m(3,6)] m(4) i(3) by simp_all
  note r = reset_sync [OF this u(3)]
  have e1: "efm_inv tb n f' ?e1" "efm_sync n f' ?e1" using inv r v m(4) by (simp_all add: efm_inv_def efm_sync_def)
  have "unf mr = unf (metadata_reader e)" and un: "unf vr = unf (vector_reader e)" using m(5) v(5) by (simp_all add: unf_def)
  then have un1: "unf (metadata_reader e) = unf mr1 + (if d then 1 else 0)" using r(6) by simp
  have l1: "efm_link ?e1" using link v(5) by (cases d) (simp_all add: efm_link_def un un1 ac_simps)
  have fin: "reader_finished mr1" if "reader_IsReady mr1" by (rule r(5) [OF that])
  have cases2: "e2 = ?e1 \<or> (\<exists>r. e2 = ?e1\<lparr>metadata_reader := r, vector_queue := cluster_queue e, cluster_queue := metadata_queue e, metadata_queue := []\<rparr> \<and>
    metadata_queue e \<noteq> [] \<and> reader_finished mr1 \<and> \<not> reader_finished r \<and> reader_sync n f' r \<and> reader_id r = reader_id mr1)"
    using fetch_metadata_link [OF tb e1 l1 _ u(4)] fin by simp
  then have v2: "vector_reader e2 = vr" by auto
  have e2: "efm_inv tb n f' e2" using fetch_metadata_ok [OF tb e1(1)] u(4) by (metis Inr_inject prod.inject)
  have s2: "efm_sync n f' e2" using cases2 e1(2) by (auto simp: efm_sync_def)
  have "reader_inv n f' vr" "reader_sync n f' vr" by (rule v(3), rule v(6))
  note rv = reset_sync [OF this u(5) [unfolded v2]]
  have e3: "efm_inv tb n f' ?e3" "efm_sync n f' ?e3" using e2 s2 rv v2 by (simp_all add: efm_inv_def efm_sync_def)
  have fv: "d' = False \<and> reader_finished vr1 \<and> reader_IsReady vr1" if "reader_finished (vector_reader e)"
    using that v(5,7) u(5) rv(4) by (auto simp: FinishAndReset_def v2 split: if_splits)
  show ?thesis using cases2
  proof (elim disjE exE conjE)
    assume eq: "e2 = ?e1"
    have "e' = ?e3" using fetch_vectors_link [OF tb e3 u(6)] link eq by (auto simp: efm_link_def)
    moreover have "efm_link ?e3" using l1 rv(5,6) fv eq v(5) by (auto simp: efm_link_def ac_simps)
    ultimately show ?thesis using e3(2) fv eq by auto
  next
    fix w assume eq: "e2 = ?e1\<lparr>metadata_reader := w, vector_queue := cluster_queue e, cluster_queue := metadata_queue e, metadata_queue := []\<rparr>"
      and w: "metadata_queue e \<noteq> []" "reader_finished mr1" "\<not> reader_finished w"
    obtain c where c: "metadata_queue e = [c]" using w(1) link single unfolding efm_link_def by blast
    show ?thesis
    proof (cases "cluster_queue e = []")
      case True
      then have "e' = ?e3" using fetch_vectors_link [OF tb e3 u(6)] eq by auto
      moreover have "efm_link ?e3" using l1 rv(6) w eq c True by (auto simp: efm_link_def unf_def ac_simps)
      ultimately show ?thesis using e3(2) fv eq True by auto
    next
      case False
      then obtain q where q: "cluster_queue e = [q]" using link single unfolding efm_link_def by blast
      have vf: "reader_finished (vector_reader e)" using link w(1) False by (simp add: efm_link_def)
      note f3 = fv [OF vf]
      have cnt: "fetched_request_num e + 1 = fetching_request_num ?e1" using l1 w(2) q vf v(5) by (simp add: efm_link_def unf_def)
      then have "fetched_request_num ?e3 = fetching_request_num ?e3 - 1" using eq f3 by (auto simp: eq_diff_eq)
      then have "(\<exists>c. vector_queue ?e3 = [c]) \<and> fetched_request_num ?e3 = fetching_request_num ?e3 - 1 \<and> reader_IsReady (vector_reader ?e3)"
        and "vector_queue ?e3 \<noteq> []" using eq f3 q by simp_all
      then obtain x where x: "e' = ?e3\<lparr>vector_reader := x, vector_queue := []\<rparr>" "\<not> reader_finished x" "reader_sync n f' x"
        using fetch_vectors_link [OF tb e3 u(6)] by blast
      have "efm_link e'" using l1 cnt x(1,2) w eq c q f3 by (cases d) (simp_all add: efm_link_def unf_def ac_simps)
      then show ?thesis using e3(2) x f3 eq c q by (simp add: efm_sync_def)
    qed
  qed
qed

section \<open>The stages of a core\<close>

text \<open>What the core remembers of the requests it handed to its fetch module: the cluster of the
  last request is the last one in the queues of the module, and an idle fetch stage means that all
  the requests before the last one have been fetched.\<close>

definition fetch_link :: "ANNACore \<Rightarrow> bool" where
  "fetch_link c \<longleftrightarrow> (let e = efm c; p = pre_efm_processing_index c; q = cluster_queue e @ metadata_queue e in
     efm_link e \<and> (efm_processing_index c \<noteq> none \<longrightarrow> efm_processing_index c = p) \<and> (p = none \<longrightarrow> q = []) \<and>
     (p \<noteq> none \<longrightarrow> unat p < length (core_cluster_list c) \<and> q \<noteq> [] \<and> last q = core_cluster_list c ! unat p \<and>
       efm_fetching_request_num c = submited_request_num e - 1 \<and>
       (efm_processing_index c = none \<longrightarrow> fetched_request_num e = efm_fetching_request_num c)))"

text \<open>When every slice has been started, its last batch is in one of the stages or the core has finished.\<close>

definition final_batch :: "ANNACore \<Rightarrow> u64 \<Rightarrow> u64 \<Rightarrow> bool" where
  "final_batch c i r \<longleftrightarrow> i = of_nat (length (core_cluster_list c)) - 1 \<and> r = of_nat (length (core_query_set_list c ! unat i))"

definition final_at :: "ANNACore \<Rightarrow> bool" where
  "final_at c \<longleftrightarrow> core_Finished c \<or> final_batch c (cpm_processing_index c) (next_queries_r c) \<or>
     cpm_processing_index c = none \<and> final_batch c (efm_processing_index c) (process_queries_r c) \<or>
     cpm_processing_index c = none \<and> efm_processing_index c = none \<and> final_batch c (scm_processing_index c) (saving_queries_r c)"

definition finish_link :: "ANNACore \<Rightarrow> bool" where
  "finish_link c \<longleftrightarrow> unat (slice c) \<le> length (core_cluster_list c) \<and>
     (unat (slice c) = length (core_cluster_list c) \<longrightarrow> core_cluster_list c \<noteq> [] \<longrightarrow> final_at c)"

text \<open>When the last request is next to be computed, its vectors have not been asked for.\<close>

lemma fetched_last:
  assumes "efm_link e" and "cluster_queue e @ metadata_queue e \<noteq> []" and "fetched_request_num e = submited_request_num e - 1"
  shows "reader_finished (vector_reader e)" and "length (cluster_queue e) + length (metadata_queue e) = 1"
proof -
  let ?k = "unf (vector_reader e) + length (cluster_queue e) + length (metadata_queue e)"
  have "submited_request_num e = fetched_request_num e + of_nat ?k" using assms(1) by (simp add: efm_link_def ac_simps)
  then have "(of_nat ?k :: u64) = of_nat 1" using assms(3) by (simp add: algebra_simps)
  moreover have "?k < 2 ^ 64" using assms(1) by (simp add: efm_link_def unf_def)
  ultimately have "?k = 1" by (metis unat_of_nat_less one_less_numeral_iff semiring_norm(76) power_one_right le_less_trans less_imp_le one_less_power zero_less_numeral)
  then show "reader_finished (vector_reader e)" "length (cluster_queue e) + length (metadata_queue e) = 1"
    using assms(2) by (auto simp: unf_def split: if_splits)
qed

lemma save_step_result:
  assumes "save_step c tv = Inr (c', tv')"
  shows "c' = c \<or> scm_processing_index c \<noteq> none \<and>
    c' = c\<lparr>core_Finished := core_Finished c \<or> final_batch c (scm_processing_index c) (saving_queries_r c), scm_processing_index := none\<rparr>"
  using assms by (auto simp: save_step_def final_batch_def uget_def' res_simps split: if_splits)

lemma scm_step_result:
  assumes "scm_step tb c tv = Inr (c', tv')"
  shows "c' = c \<or> efm_processing_index c \<noteq> none \<and> fetched_request_num (efm c) = efm_fetching_request_num c \<and>
    (\<exists>s. c' = c\<lparr>scm := s, scm_processing_index := efm_processing_index c, saving_queries_l := process_queries_l c,
       saving_queries_r := process_queries_r c, efm_processing_index := none\<rparr>)"
  using assms by (auto simp: scm_step_def scm_Submit_def GetFetchedRequestNum_def Let_def res_simps split: if_splits)

lemma fetch_step_result:
  assumes "fetch_step c = Inr c'"
  shows "c' = c \<or> (let i = cpm_processing_index c; e = efm c;
      c1 = (if i \<noteq> pre_efm_processing_index c then
        c\<lparr>efm := e\<lparr>metadata_queue := [core_cluster_list c ! unat i], submited_request_num := submited_request_num e + 1\<rparr>,
          efm_fetching_request_num := submited_request_num e\<rparr> else c)
    in i \<noteq> none \<and> efm_processing_index c = none \<and> metadata_queue e = [] \<and>
      c' = c1\<lparr>efm_processing_index := i, pre_efm_processing_index := i, process_queries_l := next_queries_l c,
        process_queries_r := next_queries_r c, cpm_processing_index := none\<rparr>)"
  using assms by (auto simp: fetch_step_def efm_SubmitRequest_def efm_IsReadySubmit_def uget_def' Let_def res_simps split: if_splits)

lemma cpm_step_result:
  assumes "cpm_step tb c tv = Inr (c', tv')"
  shows "c' = c \<or> cpm_processing_index c = none \<and> unat (slice c) < length (core_cluster_list c) \<and>
    efm c' = efm c \<and> core_cluster_list c' = core_cluster_list c \<and> core_query_set_list c' = core_query_set_list c \<and>
    efm_processing_index c' = efm_processing_index c \<and> scm_processing_index c' = scm_processing_index c \<and>
    pre_efm_processing_index c' = pre_efm_processing_index c \<and> efm_fetching_request_num c' = efm_fetching_request_num c \<and>
    core_Finished c' = core_Finished c \<and> cpm_processing_index c' = slice c \<and>
    slice c' = (if next_queries_r c' = of_nat (length (core_query_set_list c ! unat (slice c))) then slice c + 1 else slice c)"
  using assms by (auto simp: cpm_step_def uget_def' Let_def res_simps split: if_splits)

lemma fetch_step_link:
  assumes link: "fetch_link c" and wf: "core_wf tb Q c" and run: "fetch_step c = Inr c'"
  shows "fetch_link c'"
proof -
  let ?i = "cpm_processing_index c" and ?p = "pre_efm_processing_index c" and ?e = "efm c"
  let ?cl = "core_cluster_list c"
  consider (same) "c' = c" | (go) "?i \<noteq> none" "efm_processing_index c = none" "metadata_queue ?e = []"
    "c' = (if ?i \<noteq> ?p then
        c\<lparr>efm := ?e\<lparr>metadata_queue := [?cl ! unat ?i], submited_request_num := submited_request_num ?e + 1\<rparr>,
          efm_fetching_request_num := submited_request_num ?e\<rparr> else c)
      \<lparr>efm_processing_index := ?i, pre_efm_processing_index := ?i, process_queries_l := next_queries_l c,
        process_queries_r := next_queries_r c, cpm_processing_index := none\<rparr>"
    using fetch_step_result [OF run] unfolding Let_def by blast
  then show ?thesis
  proof cases
    case go
    have i: "unat ?i < length ?cl" using wf go(1) by (auto simp: core_wf_def stage_ok_def)
    show ?thesis
    proof (cases "?i = ?p")
      case True
      then show ?thesis using go link by (simp add: fetch_link_def Let_def)
    next
      case False
      have v: "reader_finished (vector_reader ?e)" if "cluster_queue ?e \<noteq> []"
      proof (rule fetched_last(1))
        show "fetched_request_num ?e = submited_request_num ?e - 1" and "efm_link ?e" and "cluster_queue ?e @ metadata_queue ?e \<noteq> []"
          using link go(2) that by (auto simp: fetch_link_def Let_def)
      qed
      have "efm_link (?e\<lparr>metadata_queue := [?cl ! unat ?i], submited_request_num := submited_request_num ?e + 1\<rparr>)"
        using link go(3) v by (auto simp: fetch_link_def efm_link_def Let_def)
      then show ?thesis using False go i by (simp add: fetch_link_def Let_def)
    qed
  qed (use link in simp)
qed

lemma fetch_link_cong:
  "efm c' = efm c \<Longrightarrow> efm_processing_index c' = efm_processing_index c \<Longrightarrow> pre_efm_processing_index c' = pre_efm_processing_index c \<Longrightarrow>
    core_cluster_list c' = core_cluster_list c \<Longrightarrow> efm_fetching_request_num c' = efm_fetching_request_num c \<Longrightarrow> fetch_link c' = fetch_link c"
  by (simp add: fetch_link_def)

lemma save_fetch_link:
  assumes "fetch_link c" and "save_step c tv = Inr (c', tv')"
  shows "fetch_link c'"
proof -
  have "fetch_link c' = fetch_link c" by (rule fetch_link_cong) (use save_step_result [OF assms(2)] in \<open>elim disjE conjE; simp\<close>)+
  then show ?thesis using assms(1) by simp
qed

lemma cpm_fetch_link:
  assumes "fetch_link c" and "cpm_step tb c tv = Inr (c', tv')"
  shows "fetch_link c'"
proof -
  have "fetch_link c' = fetch_link c" by (rule fetch_link_cong) (use cpm_step_result [OF assms(2)] in \<open>elim disjE conjE; simp\<close>)+
  then show ?thesis using assms(1) by simp
qed

lemma scm_fetch_link:
  assumes "fetch_link c" and "scm_step tb c tv = Inr (c', tv')"
  shows "fetch_link c'"
  using scm_step_result [OF assms(2)]
proof (elim disjE conjE exE)
  fix s assume "efm_processing_index c \<noteq> none" and "fetched_request_num (efm c) = efm_fetching_request_num c"
    and "c' = c\<lparr>scm := s, scm_processing_index := efm_processing_index c, saving_queries_l := process_queries_l c,
       saving_queries_r := process_queries_r c, efm_processing_index := none\<rparr>"
  then show ?thesis using assms(1) by (simp add: fetch_link_def Let_def)
qed (use assms in simp)

lemma final_none: "final_batch c i r \<Longrightarrow> length (core_cluster_list c) < 2 ^ 64 \<Longrightarrow> core_cluster_list c \<noteq> [] \<Longrightarrow> i \<noteq> none"
  by (auto simp: final_batch_def)

lemma final_batch_cong:
  "core_cluster_list c' = core_cluster_list c \<Longrightarrow> core_query_set_list c' = core_query_set_list c \<Longrightarrow> final_batch c' = final_batch c"
  by (simp add: final_batch_def fun_eq_iff)

lemma finish_link_step:
  assumes "finish_link c" and "slice c' = slice c" and "core_cluster_list c' = core_cluster_list c"
    and "core_cluster_list c \<noteq> [] \<Longrightarrow> final_at c \<Longrightarrow> final_at c'"
  shows "finish_link c'"
  using assms by (auto simp: finish_link_def)

lemma save_finish_link:
  assumes "finish_link c" and "length (core_cluster_list c) < 2 ^ 64" and "save_step c tv = Inr (c', tv')"
  shows "finish_link c'"
  using save_step_result [OF assms(3)]
proof (elim disjE conjE)
  assume i: "scm_processing_index c \<noteq> none"
    and c': "c' = c\<lparr>core_Finished := core_Finished c \<or> final_batch c (scm_processing_index c) (saving_queries_r c), scm_processing_index := none\<rparr>"
  have "final_batch c' = final_batch c" by (rule final_batch_cong) (simp_all add: c')
  then show ?thesis by (intro finish_link_step [OF assms(1)]) (auto simp: final_at_def c')
qed (use assms in simp)

lemma scm_finish_link:
  assumes "finish_link c" and "length (core_cluster_list c) < 2 ^ 64" and "scm_step tb c tv = Inr (c', tv')"
  shows "finish_link c'"
  using scm_step_result [OF assms(3)]
proof (elim disjE conjE exE)
  fix s assume i: "efm_processing_index c \<noteq> none"
    and c': "c' = c\<lparr>scm := s, scm_processing_index := efm_processing_index c, saving_queries_l := process_queries_l c,
       saving_queries_r := process_queries_r c, efm_processing_index := none\<rparr>"
  have "final_batch c' = final_batch c" by (rule final_batch_cong) (simp_all add: c')
  then show ?thesis using i by (intro finish_link_step [OF assms(1)]) (auto simp: final_at_def c')
qed (use assms in simp)

lemma fetch_finish_link:
  assumes "finish_link c" and "length (core_cluster_list c) < 2 ^ 64" and "fetch_step c = Inr c'"
  shows "finish_link c'"
  using fetch_step_result [OF assms(3)]
proof (elim disjE)
  assume "let i = cpm_processing_index c; e = efm c;
      c1 = (if i \<noteq> pre_efm_processing_index c then
        c\<lparr>efm := e\<lparr>metadata_queue := [core_cluster_list c ! unat i], submited_request_num := submited_request_num e + 1\<rparr>,
          efm_fetching_request_num := submited_request_num e\<rparr> else c)
    in i \<noteq> none \<and> efm_processing_index c = none \<and> metadata_queue e = [] \<and>
      c' = c1\<lparr>efm_processing_index := i, pre_efm_processing_index := i, process_queries_l := next_queries_l c,
        process_queries_r := next_queries_r c, cpm_processing_index := none\<rparr>"
  then have i: "cpm_processing_index c \<noteq> none" "cpm_processing_index c' = none" "efm_processing_index c' = cpm_processing_index c"
    "process_queries_r c' = next_queries_r c" "core_Finished c' = core_Finished c" "slice c' = slice c"
    "core_cluster_list c' = core_cluster_list c" "core_query_set_list c' = core_query_set_list c" by (simp_all add: Let_def)
  show ?thesis using i(1-5) final_batch_cong [OF i(7,8)] by (intro finish_link_step [OF assms(1) i(6,7)]) (auto simp: final_at_def)
qed (use assms in simp)

lemma cpm_finish_link:
  assumes "finish_link c" and "length (core_cluster_list c) < 2 ^ 64" and "cpm_step tb c tv = Inr (c', tv')"
  shows "finish_link c'"
proof (cases "c' = c")
  case False
  note r = cpm_step_result [OF assms(3)]
  have s: "unat (slice c) < length (core_cluster_list c)" "core_cluster_list c' = core_cluster_list c" "cpm_processing_index c' = slice c"
    "slice c' = (if next_queries_r c' = of_nat (length (core_query_set_list c ! unat (slice c))) then slice c + 1 else slice c)"
    "final_batch c' = final_batch c"
    using r False by (simp, simp, simp, simp) (rule final_batch_cong, use r False in simp_all)
  have u: "unat (slice c + 1) = Suc (unat (slice c))" by (rule next_id(2)) (use s(1) assms(2) in simp)
  have "final_batch c (slice c) (next_queries_r c')" if "slice c' = slice c + 1" "unat (slice c + 1) = length (core_cluster_list c)"
  proof -
    have "slice c + 1 = of_nat (length (core_cluster_list c))" using that(2) by (metis of_nat_unat_self)
    then have "slice c = of_nat (length (core_cluster_list c)) - 1" by (simp add: eq_diff_eq)
    then show ?thesis using that(1) s(4) by (auto simp: final_batch_def split: if_splits)
  qed
  then show ?thesis using s u by (auto simp: finish_link_def final_at_def split: if_splits)
qed (use assms in simp)

definition pipe_inv :: "nat \<Rightarrow> mmi \<Rightarrow> ANNACore \<Rightarrow> bool" where
  "pipe_inv n f c \<longleftrightarrow> length (core_cluster_list c) < 2 ^ 64 \<and> efm_sync n f (efm c) \<and> fetch_link c \<and> finish_link c"

text \<open>The tick of the fetch module keeps what the core remembers of it.\<close>

lemma efm_fetch_link:
  assumes "fetch_link c" and "efm_link e'" and "submited_request_num e' = submited_request_num (efm c)"
    and "last (cluster_queue e' @ metadata_queue e') = last (cluster_queue (efm c) @ metadata_queue (efm c))"
    and "cluster_queue e' @ metadata_queue e' = [] \<longleftrightarrow> cluster_queue (efm c) @ metadata_queue (efm c) = []"
    and "reader_finished (vector_reader (efm c)) \<longrightarrow> fetched_request_num e' = fetched_request_num (efm c)"
  shows "fetch_link (c\<lparr>core_clock := k, cpm := m, efm := e', scm := s\<rparr>)"
proof -
  have "fetched_request_num e' = fetched_request_num (efm c)"
    if "efm_processing_index c = none" "pre_efm_processing_index c \<noteq> none"
  proof -
    have "reader_finished (vector_reader (efm c))"
      by (rule fetched_last(1)) (use assms(1) that in \<open>auto simp: fetch_link_def Let_def\<close>)
    then show ?thesis using assms(6) by simp
  qed
  then show ?thesis using assms(1-5) by (simp add: fetch_link_def Let_def del: append_is_Nil_conv)
qed

lemma core_tick_pipe:
  assumes tb: "tables_ok tb" and ok: "front_ok n R f" and inv: "core_inv tb Q n f c" and len: "clocks_len Q tv"
    and pipe: "pipe_inv n f c" and run: "core_ClockTick tb c f tv = Inr (c', f', tv')"
  shows "pipe_inv n f' c'"
proof -
  have i: "reader_inv n f (cpm_reader (cpm c))" "efm_inv tb n f (efm c)" "reader_id (cpm_reader (cpm c)) \<notin> efm_ids (efm c)" "core_wf tb Q c"
    using inv by (simp_all add: core_inv_def)
  have p: "length (core_cluster_list c) < 2 ^ 64" "efm_sync n f (efm c)" "fetch_link c" "finish_link c" using pipe by (simp_all add: pipe_inv_def)
  obtain m f1 tv1 where m: "cpm_ClockTick (cpm c) f tv = Inr (m, f1, tv1)" "front_ok n R f1" "others_kept n {reader_id (cpm_reader (cpm c))} f f1"
    "clocks_kept tv tv1" by (rule cpm_ClockTick_ok [OF ok i(1)])
  have e1: "efm_inv tb n f1 (efm c)" "efm_sync n f1 (efm c)"
    using i(2,3) p(2) others_kept_inv [OF m(3)] sync_kept [OF m(3)] by (auto simp: efm_inv_def efm_sync_def efm_ids_def)
  obtain e f2 tv2 where e: "efm_ClockTick tb (efm c) f1 tv1 = Inr (e, f2, tv2)" "clocks_kept tv1 tv2" by (rule efm_ClockTick_ok [OF tb m(2) e1(1)])
  have lk: "efm_link (efm c)" using p(3) by (simp add: fetch_link_def Let_def)
  note t = efm_tick_link [OF tb m(2) e1 lk e(1)]
  let ?c1 = "c\<lparr>core_clock := core_clock c + 1, cpm := m, efm := e, scm := scm_ClockTick (scm c)\<rparr>"
  have l1: "fetch_link ?c1" by (rule efm_fetch_link [OF p(3)]) (use t in simp_all)
  have "final_batch ?c1 = final_batch c" by (rule final_batch_cong) simp_all
  then have n1: "finish_link ?c1" by (intro finish_link_step [OF p(4)]) (simp_all add: final_at_def)
  have w1: "core_wf tb Q ?c1" using i(4) by (simp add: core_wf_def)
  have t2: "clocks_len Q tv2" using len m(4) e(2) clocks_len_kept by blast
  obtain c2 tv3 where c2: "save_step ?c1 tv2 = Inr (c2, tv3)" "core_wf tb Q c2" "clocks_len Q tv3" "efm c2 = efm ?c1" by (rule save_step_ok [OF w1 t2])
  have k2: "core_cluster_list c2 = core_cluster_list c" using save_step_result [OF c2(1)] by auto
  obtain c3 tv4 where c3: "scm_step tb c2 tv3 = Inr (c3, tv4)" "core_wf tb Q c3" "efm c3 = efm c2" by (rule scm_step_ok [OF c2(2,3)])
  have k3: "core_cluster_list c3 = core_cluster_list c" using scm_step_result [OF c3(1)] k2 by auto
  note run' = run [unfolded core_ClockTick_def m(1) e(1) res_bind_Inr prod.case Let_def c2(1) c3(1)]
  obtain c4 where c4: "fetch_step c3 = Inr c4" using run' by (auto simp: res_simps)
  have r4: "core_cluster_list c4 = core_cluster_list c" "metadata_reader (efm c4) = metadata_reader e" "vector_reader (efm c4) = vector_reader e"
    using fetch_step_result [OF c4] k3 c3(3) c2(4) by (auto simp: Let_def)
  obtain tv5 where c5: "cpm_step tb c4 tv4 = Inr (c', tv5)" "f2 = f'" using run' c4 by (auto simp: res_simps)
  have r5: "core_cluster_list c' = core_cluster_list c" "efm c' = efm c4" using cpm_step_result [OF c5(1)] r4(1) by auto
  note small = p(1) [folded k2] p(1) [folded k3] p(1) [folded r4(1)]
  have "fetch_link c2" by (rule save_fetch_link [OF l1 c2(1)])
  from fetch_step_link [OF scm_fetch_link [OF this c3(1)] c3(2) c4] have l4: "fetch_link c4" .
  have "finish_link c2" by (rule save_finish_link [OF n1 _ c2(1)]) (use p(1) in simp)
  then have "finish_link c3" by (rule scm_finish_link [OF _ small(1) c3(1)])
  then have "finish_link c4" by (rule fetch_finish_link [OF _ small(2) c4])
  from cpm_finish_link [OF this small(3) c5(1)] cpm_fetch_link [OF l4 c5(1)] show ?thesis
    using t p(1) r4 r5 c5(2) by (simp add: pipe_inv_def efm_sync_def)
qed

section \<open>Properties of every core\<close>

text \<open>
  The interface between the cores and the accelerator: a property of a core that its own tick
  keeps, and that neither the ticks of the other cores nor those of the memory touch. Such a
  property holds for every core of every state that the accelerator reaches.
\<close>

locale core_property =
  fixes P :: "nat \<Rightarrow> mmi \<Rightarrow> ANNACore \<Rightarrow> bool"
  assumes own_tick: "tables_ok tb \<Longrightarrow> front_ok n R f \<Longrightarrow> core_inv tb Q n f c \<Longrightarrow> clocks_len Q tv \<Longrightarrow> P n f c \<Longrightarrow>
      core_ClockTick tb c f tv = Inr (c', f', tv') \<Longrightarrow> P n f' c'"
    and others: "core_inv tb Q n f c \<Longrightarrow> P n f c \<Longrightarrow> others_kept n I f f' \<Longrightarrow> core_ids c \<inter> I = {} \<Longrightarrow> P n f' c"
    and memory_tick: "P n f c \<Longrightarrow> front_kept f f' \<Longrightarrow> P n f' c"
begin

lemma tick_cores_keep:
  "tables_ok tb \<Longrightarrow> front_ok n R f \<Longrightarrow> \<forall>c\<in>set cs. core_inv tb Q n f c \<and> P n f c \<Longrightarrow> ids_disjoint cs \<Longrightarrow> clocks_len Q tv \<Longrightarrow>
    tick_cores tb cs (f, tv) = Inr (cs', f', tv') \<Longrightarrow> \<forall>c\<in>set cs'. P n f' c"
proof (induction cs arbitrary: f tv cs')
  case (Cons c cs)
  have ci: "core_inv tb Q n f c" "P n f c" and dj: "\<forall>d\<in>set cs. core_ids d \<inter> core_ids c = {}" "ids_disjoint cs" using Cons.prems(3,4) by auto
  obtain c1 f1 tv1 where c1: "core_ClockTick tb c f tv = Inr (c1, f1, tv1)" "front_ok n R f1" "others_kept n (core_ids c) f f1"
    "core_inv tb Q n f1 c1" "core_ids c1 = core_ids c" "clocks_len Q tv1"
    by (rule core_ClockTick_ok [OF Cons.prems(1,2) ci(1) Cons.prems(5)])
  obtain cs1 where r: "tick_cores tb cs (f1, tv1) = Inr (cs1, f', tv')" "cs' = c1 # cs1"
    using Cons.prems(6) c1(1) by (auto simp: tick_cores_def res_simps)
  have rest: "\<forall>d\<in>set cs. core_inv tb Q n f1 d \<and> P n f1 d"
    using Cons.prems(3) dj(1) core_inv_kept [OF _ c1(3)] others [OF _ _ c1(3)] by (metis list.set_intros(2))
  then have "\<forall>d\<in>set cs1. P n f' d" by (intro Cons.IH [OF Cons.prems(1) c1(2) _ dj(2) c1(6) r(1)])
  moreover have "P n f1 c1" by (rule own_tick [OF Cons.prems(1,2) ci(1) Cons.prems(5) ci(2) c1(1)])
  moreover have "others_kept n (\<Union>(core_ids ` set cs)) f1 f'"
    using tick_cores_ok [OF Cons.prems(1) c1(2) _ dj(2) c1(6)] rest r(1) by (metis Inr_inject prod.inject)
  ultimately show ?case using others [OF c1(4), of "\<Union>(core_ids ` set cs)"] dj(1) c1(5) r(2) by auto
qed (simp add: tick_cores_def)

lemma tick_keeps:
  assumes "tables_ok tb" and "anna_inv tb Q n a" and "clocks_len Q tv" and "anna_may_tick a"
    and "\<forall>c\<in>set (anna_core_list a). P n (front (memory a)) c" and "anna_ClockTick tb a tv = Inr (a', tv')"
  shows "\<forall>c\<in>set (anna_core_list a'). P n (front (memory a')) c"
proof -
  have mi: "mi_inv n (memory a)" and dj: "ids_disjoint (anna_core_list a)" using assms(2) by (simp_all add: anna_inv_def)
  obtain mi1 tv1 where m: "mmi_ClockTick (memory a) tv = Inr (mi1, tv1)" "mi_inv n mi1" "front_kept (front (memory a)) (front mi1)" "clocks_kept tv tv1"
    using mmi_ClockTick_ok [OF mi assms(4) [unfolded anna_may_tick_def]] mmi_ClockTick_clocks by metis
  have ok: "front_ok n (out_reads_of mi1) (front mi1)" using m(2) by (simp add: mi_inv_front_ok)
  have c: "\<forall>c\<in>set (anna_core_list a). core_inv tb Q n (front mi1) c \<and> P n (front mi1) c"
    using assms(2,5) core_inv_front_kept [OF _ m(3)] memory_tick [OF _ m(3)] by (simp add: anna_inv_def)
  obtain cs f tv2 where r: "tick_cores tb (anna_core_list a) (front mi1, tv1) = Inr (cs, f, tv2)"
    "anna_core_list a' = cs" "front (memory a') = f" using assms(6) m(1) by (auto simp: anna_ClockTick_def res_simps)
  show ?thesis using tick_cores_keep [OF assms(1) ok c dj clocks_len_kept [OF assms(3) m(4)] r(1)] r(2,3) by simp
qed

lemma reach_keeps:
  assumes "anna_reach tb a0 tv0 a tv" and "tables_ok tb" and "anna_inv tb Q n a0" and "clocks_len Q tv0"
    and "\<forall>c\<in>set (anna_core_list a0). P n (front (memory a0)) c"
  shows "\<forall>c\<in>set (anna_core_list a). P n (front (memory a)) c"
  using assms
proof (induction rule: anna_reach.induct)
  case (reach_tick a tv a' tv')
  have "anna_inv tb Q n a" "clocks_len Q tv" using anna_reach_inv [OF reach_tick.hyps(1) reach_tick.prems(1-3)] by simp_all
  then show ?case using tick_keeps [OF reach_tick.prems(1) _ _ reach_tick.hyps(2) _ reach_tick.hyps(3)] reach_tick by blast
qed simp

end

lemma pipe_others:
  assumes "core_inv tb Q n f c" and "pipe_inv n f c" and "others_kept n I f f'" and "core_ids c \<inter> I = {}"
  shows "pipe_inv n f' c"
proof -
  have "reader_id (metadata_reader (efm c)) \<notin> I" "reader_id (vector_reader (efm c)) \<notin> I" using assms(4) by (auto simp: core_ids_def efm_ids_def)
  then show ?thesis using assms(1,2) sync_kept [OF assms(3)] by (simp add: pipe_inv_def efm_sync_def core_inv_def efm_inv_def)
qed

interpretation pipe: core_property pipe_inv
proof
  show "pipe_inv n f' c'" if "tables_ok tb" "front_ok n R f" "core_inv tb Q n f c" "clocks_len Q tv" "pipe_inv n f c"
    "core_ClockTick tb c f tv = Inr (c', f', tv')" for tb n R f Q c tv c' f' tv'
    by (rule core_tick_pipe [OF that])
  show "pipe_inv n f' c" if "core_inv tb Q n f c" "pipe_inv n f c" "others_kept n I f f'" "core_ids c \<inter> I = {}" for tb Q n f c I f'
    by (rule pipe_others [OF that])
  show "pipe_inv n f' c" if "pipe_inv n f c" "front_kept f f'" for n f c f'
    using that by (simp add: pipe_inv_def efm_sync_def reader_sync_def owed_def front_kept_def front_frame_def)
qed

text \<open>The pipeline of a core at the start of a run.\<close>

lemma setup_pipe:
  assumes "core_built tb n f c" and "length cl < 2 ^ 64"
  shows "pipe_inv n f (core_Setup cl sets b c)"
proof -
  have z: "owed n f (reader_id (metadata_reader (efm c))) = 0" "owed n f (reader_id (vector_reader (efm c))) = 0" "efm_fresh (efm c)"
    using assms(1) by (simp_all add: core_built_def core_ids_def efm_ids_def)
  then have "efm_sync n f (efm c)" "efm_link (efm c)" by (simp_all add: efm_sync_def reader_sync_def efm_fresh_def efm_link_def unf_def)
  then show ?thesis using assms(2) z(3) by (simp add: pipe_inv_def fetch_link_def finish_link_def core_Setup_def Let_def efm_fresh_def)
qed

lemma anna_prepare_pipe:
  assumes "anna_prepare n batch a = Inr a'" and "anna_inv tb Q 8 a'" and "length (cluster_addr tb) < 2 ^ 64"
    and "\<forall>c\<in>set (anna_core_list a). core_built tb k (front (memory a)) c"
  shows "\<forall>c\<in>set (anna_core_list a'). pipe_inv k (front (memory a')) c"
proof
  fix c assume c: "c \<in> set (anna_core_list a')"
  then have "length (core_cluster_list c) < 2 ^ 64" using assms(2,3) by (force simp: anna_inv_def core_inv_def core_wf_def)
  moreover obtain cl sets where a': "a' = a\<lparr>cluster_list := cl, query_set_list := sets, batch_size := batch,
      anna_core_list := map (\<lambda>i. core_Setup (deal (core_num a) cl i) (deal (core_num a) sets i) (signed_take_bit 31 (uint batch))
        (anna_core_list a ! i)) [0..<length (anna_core_list a)]\<rparr>"
    using assms(1) by (auto simp: anna_prepare_def Let_def res_simps split: if_splits)
  moreover obtain i where "i < length (anna_core_list a)" "c = core_Setup (deal (core_num a) cl i) (deal (core_num a) sets i)
      (signed_take_bit 31 (uint batch)) (anna_core_list a ! i)" using c a' by auto
  moreover have "core_cluster_list (core_Setup cl sets b d) = cl" for cl sets b d by (simp add: core_Setup_def)
  ultimately show "pipe_inv k (front (memory a')) c" using assms(4) by (simp add: setup_pipe [where tb = tb])
qed

text \<open>Every reachable state of a run of the program.\<close>

lemma run_pipe:
  assumes "\<forall>i. mem_cfg_ok (cfg i)" and "MultiANNA_of 8 cfg = Inr a0"
    and "prepare_config n sizes = Inr tb" and "\<forall>i<unat n. 0 \<le> sizes ! i \<and> sizes ! i < 2 ^ 31" and "unat n \<le> length sizes" and "unat n \<le> 2 ^ 24"
    and "prepare_test_value tb qs query_num = Inr tv1" and "length qs \<le> unat query_num"
    and "queries_ok (unat n) qs" and "(\<Sum>q\<leftarrow>qs. length q) \<le> 8 * unat n" and "0 < batch" and "length qs + unat batch < 2 ^ 64"
    and "anna_prepare n batch (anna_Setup qs a0) = Inr a1" and "anna_reach tb a1 tv1 a tv" and "c \<in> set (anna_core_list a)"
  shows "pipe_inv 8 (front (memory a)) c \<and> core_inv tb (unat query_num) 8 (front (memory a)) c"
proof -
  let ?Q = "unat query_num"
  have tb: "tables_ok tb" "length (cluster_addr tb) = unat n" by (rule prepare_config_tables [OF assms(3-6)])+
  have len: "clocks_len ?Q tv1" by (rule prepare_test_value_clocks [OF assms(7)])
  obtain a' where "MultiANNA_of 8 cfg = Inr a'" "anna_built tb 8 a'" by (rule MultiANNA_of_ok [OF assms(1)])
  then have b: "anna_built tb 8 (anna_Setup qs a0)" using assms(2) by (auto simp: anna_built_def anna_Setup_def)
  have q: "queries (anna_Setup qs a0) = qs" by (simp add: anna_Setup_def)
  obtain a2 where "anna_prepare n batch (anna_Setup qs a0) = Inr a2" "anna_inv tb ?Q 8 a2"
    by (rule anna_prepare_inv [OF b tb(2), of batch ?Q]) (use assms(8-12) q in simp_all)
  then have i: "anna_inv tb ?Q 8 a1" using assms(13) by simp
  have "\<forall>c\<in>set (anna_core_list a1). pipe_inv 8 (front (memory a1)) c"
    by (rule anna_prepare_pipe [OF assms(13) i]) (use tb(2) assms(6) b in \<open>simp_all add: anna_built_def\<close>)
  from pipe.reach_keeps [OF assms(14) tb(1) i len this] anna_reach_inv [OF assms(14) tb(1) i len] assms(15)
  show ?thesis by (simp add: anna_inv_def)
qed

section \<open>A prepared run of the samples\<close>

lemma sample_prepared:
  obtains a0 tb tv1 a1 c where "MultiANNA_of 8 (\<lambda>_. hbm2_config) = Inr a0" and "prepare_config 3 [5, 0, 7] = Inr tb"
    and "prepare_test_value tb sample_queries 2 = Inr tv1" and "anna_prepare 3 16 (anna_Setup sample_queries a0) = Inr a1"
    and "c \<in> set (anna_core_list a1)" and "core_cluster_list c \<noteq> []"
    and "\<forall>i<unat (3 :: u64). 0 \<le> [5, 0, 7 :: int] ! i \<and> [5, 0, 7 :: int] ! i < 2 ^ 31"
proof -
  have n: "unat (3 :: u64) = 3" by simp
  have sizes: "\<forall>i<unat (3 :: u64). 0 \<le> [5, 0, 7 :: int] ! i \<and> [5, 0, 7 :: int] ! i < 2 ^ 31"
    unfolding n by (auto simp: less_Suc_eq numeral_3_eq_3)
  obtain cl now where "res_fold (layout_step [5, 0, 7]) (urange 3) ([], cluster_addr_start) = Inr (cl, now)" "length cl = 3"
    using layout_run [OF sizes [unfolded n]] unfolding urange_def n by auto
  then obtain tb where tb: "prepare_config 3 [5, 0, 7] = Inr tb" "length (cluster_addr tb) = 3" by (simp add: prepare_config_def)
  obtain tv1 where tv1: "prepare_test_value tb sample_queries 2 = Inr tv1"
    by (simp add: prepare_test_value_def sample_queries_def query_step_def uget_def' tb(2) Let_def)
  obtain a where a: "MultiANNA_of 8 (\<lambda>_. hbm2_config) = Inr a" "anna_built tb 8 (anna_Setup sample_queries a)"
    "queries (anna_Setup sample_queries a) = sample_queries" by (rule sample_accelerator)
  let ?a = "anna_Setup sample_queries a"
  have b: "queries_ok (unat (3 :: u64)) (queries ?a)" "0 < core_num ?a" "unat (core_num ?a) = length (anna_core_list ?a)"
    "cluster_list ?a = []" "query_set_list ?a = []" using a by (auto simp: sample_sum anna_built_def word_less_nat_alt)
  obtain a1 where a1: "anna_prepare 3 16 ?a = Inr a1" "(\<Sum>c\<leftarrow>anna_core_list a1. work (core_cluster_list c) (core_query_set_list c)) =
      (\<Sum>i<length (queries ?a). image_mset (\<lambda>c. (c, of_nat i)) (mset (queries ?a ! i)))"
    using anna_prepare_ok [OF b(1) _ _ b(4,5,2,3), of 16] a(3) by (force simp: sample_sum)
  have "(\<Sum>i<length sample_queries. image_mset (\<lambda>c. (c, of_nat i :: u64)) (mset (sample_queries ! i))) \<noteq> {#}"
    by (simp add: sample_queries_def lessThan_Suc numeral_2_eq_2)
  then have ne: "(\<Sum>c\<leftarrow>anna_core_list a1. work (core_cluster_list c) (core_query_set_list c)) \<noteq> {#}" using a1(2) a(3) by simp
  have "(\<Sum>c\<leftarrow>cs. work (core_cluster_list c) (core_query_set_list c)) = {#}" if "\<forall>c\<in>set cs. work (core_cluster_list c) (core_query_set_list c) = {#}" for cs
    using that by (induction cs) simp_all
  then have "\<not> (\<forall>c\<in>set (anna_core_list a1). work (core_cluster_list c) (core_query_set_list c) = {#})" using ne by blast
  then obtain c where "c \<in> set (anna_core_list a1)" "core_cluster_list c \<noteq> []" by (metis (no_types, lifting) list.simps(8) sum_list.Nil work_def zip_Nil)
  then show thesis by (rule that [OF a(1) tb(1) tv1 a1(1) _ _ sizes])
qed

section \<open>Properties\<close>

text \<open>A read of the core is outstanding; a timer of the core runs or a completed read is about to be noticed; one of
  the four parts of the tick of the core has its condition satisfied.\<close>

definition awaits_memory :: "ANNACore \<Rightarrow> bool" where
  "awaits_memory c \<longleftrightarrow> \<not> reader_IsReady (cpm_reader (cpm c)) \<or> \<not> reader_IsReady (metadata_reader (efm c)) \<or> \<not> reader_IsReady (vector_reader (efm c))"

definition works :: "ANNACore \<Rightarrow> bool" where
  "works c \<longleftrightarrow> \<not> cpm_IsFinished (cpm c) \<or> \<not> scm_IsReady (scm c) \<or>
     \<not> reader_finished (metadata_reader (efm c)) \<or> \<not> reader_finished (vector_reader (efm c)) \<or>
     metadata_queue (efm c) \<noteq> [] \<and> fetching_request_num (efm c) = submited_request_num (efm c) - 1"

definition may_step :: "ANNACore \<Rightarrow> bool" where
  "may_step c \<longleftrightarrow> scm_processing_index c \<noteq> none \<and> scm_IsReady (scm c) \<or>
     efm_processing_index c \<noteq> none \<and> scm_processing_index c = none \<and>
       GetFetchedRequestNum (efm c) = efm_fetching_request_num c \<and> scm_IsReady (scm c) \<or>
     cpm_processing_index c \<noteq> none \<and> efm_processing_index c = none \<and> cpm_IsFinished (cpm c) \<and> efm_IsReadySubmit (efm c) \<or>
     cpm_processing_index c = none \<and> cpm_IsReadySubmit (cpm c) \<and> unat (slice c) < length (core_cluster_list c)"

lemma not_stuck:
  assumes pipe: "pipe_inv n f c" and work: "core_cluster_list c \<noteq> []"
  shows "core_Finished c \<or> awaits_memory c \<or> works c \<or> may_step c"
proof (rule ccontr)
  assume "\<not> ?thesis"
  then have fin: "\<not> core_Finished c" and w: "\<not> works c" and st: "\<not> may_step c" by blast+
  let ?e = "efm c"
  have link: "efm_link ?e" and fl: "fetch_link c" and len: "length (core_cluster_list c) < 2 ^ 64"
    using pipe by (auto simp: pipe_inv_def fetch_link_def Let_def)
  have idle: "cpm_IsFinished (cpm c)" "scm_IsReady (scm c)" "reader_finished (metadata_reader ?e)" "reader_finished (vector_reader ?e)"
    using w by (simp_all add: works_def)
  have s: "submited_request_num ?e = fetching_request_num ?e + of_nat (length (metadata_queue ?e))"
    "fetched_request_num ?e + of_nat (length (cluster_queue ?e)) = fetching_request_num ?e"
    using link idle by (simp_all add: efm_link_def unf_def)
  have mq: "metadata_queue ?e = []" using w s(1) link by (cases "metadata_queue ?e") (auto simp: works_def efm_link_def)
  have scm: "scm_processing_index c = none" using st idle(2) by (auto simp: may_step_def)
  have efm: "efm_processing_index c = none"
  proof (rule ccontr)
    assume e: "efm_processing_index c \<noteq> none"
    then have "efm_fetching_request_num c = submited_request_num ?e - 1" "cluster_queue ?e \<noteq> []" using fl mq by (auto simp: fetch_link_def Let_def)
    moreover from this(2) obtain q where "cluster_queue ?e = [q]" using link single unfolding efm_link_def by blast
    ultimately have "GetFetchedRequestNum ?e = efm_fetching_request_num c" using s(1) s(2) [symmetric] mq by (simp add: GetFetchedRequestNum_def)
    then show False using st e scm idle(2) by (simp add: may_step_def)
  qed
  have cpm: "cpm_processing_index c = none" using st efm idle(1) mq by (auto simp: may_step_def efm_IsReadySubmit_def)
  have "\<not> unat (slice c) < length (core_cluster_list c)" using st cpm idle(1) by (auto simp: may_step_def cpm_IsReadySubmit_def cpm_IsFinished_def)
  then have "final_at c" using pipe work by (simp add: pipe_inv_def finish_link_def)
  then show False using fin cpm efm scm final_none [OF _ len work] by (auto simp: final_at_def)
qed

text \<open>C5. A core with work is never stuck. In every state that a run of the program reaches, a core with a non-empty
  work list has finished, or the memory owes it a read, or one of its modules works (a timer
  runs, a completed read is noticed by the next tick, or a request for metadata is sent by the next tick), or
  one of the four parts of its next tick has its condition satisfied. So the stages of the pipeline never
  wait for each other in a circle, and when nothing moves any more and no read is outstanding, the results
  of the last batch have been saved.\<close>

theorem core_never_stuck:
  assumes "\<forall>i. mem_cfg_ok (cfg i)" and "MultiANNA_of 8 cfg = Inr a0"
    and "prepare_config n sizes = Inr tb" and "\<forall>i<unat n. 0 \<le> sizes ! i \<and> sizes ! i < 2 ^ 31" and "unat n \<le> length sizes" and "unat n \<le> 2 ^ 24"
    and "prepare_test_value tb qs query_num = Inr tv1" and "length qs \<le> unat query_num"
    and "queries_ok (unat n) qs" and "(\<Sum>q\<leftarrow>qs. length q) \<le> 8 * unat n" and "0 < batch" and "length qs + unat batch < 2 ^ 64"
    and "anna_prepare n batch (anna_Setup qs a0) = Inr a1" and "anna_reach tb a1 tv1 a tv"
    and "c \<in> set (anna_core_list a)" and "core_cluster_list c \<noteq> []"
  shows "core_Finished c \<or> awaits_memory c \<or> works c \<or> may_step c"
  using not_stuck [OF conjunct1 [OF run_pipe [OF assms(1-15)]] assms(16)] .

theorem core_never_stuck_witness:
  "\<exists>a0 tb tv1 a1 c. MultiANNA_of 8 (\<lambda>_. hbm2_config) = Inr a0 \<and> prepare_config 3 [5, 0, 7] = Inr tb \<and>
    prepare_test_value tb sample_queries 2 = Inr tv1 \<and> anna_prepare 3 16 (anna_Setup sample_queries a0) = Inr a1 \<and>
    c \<in> set (anna_core_list a1) \<and> core_cluster_list c \<noteq> [] \<and> (core_Finished c \<or> awaits_memory c \<or> works c \<or> may_step c)"
proof -
  obtain a0 tb tv1 a1 c where s: "MultiANNA_of 8 (\<lambda>_. hbm2_config) = Inr a0" "prepare_config 3 [5, 0, 7] = Inr tb"
    "prepare_test_value tb sample_queries 2 = Inr tv1" "anna_prepare 3 16 (anna_Setup sample_queries a0) = Inr a1"
    "c \<in> set (anna_core_list a1)" "core_cluster_list c \<noteq> []"
    "\<forall>i<unat (3 :: u64). 0 \<le> [5, 0, 7 :: int] ! i \<and> [5, 0, 7 :: int] ! i < 2 ^ 31" by (rule sample_prepared)
  have "\<forall>i. mem_cfg_ok ((\<lambda>_. hbm2_config) (i :: int))" using hbm2_mem_ok by simp
  from core_never_stuck [OF this s(1,2,7) _ _ s(3) _ _ _ _ _ s(4) reach_start s(5,6)] s show ?thesis by (auto simp: sample_sum)
qed

text \<open>C6. The vectors of a cluster are read one request late. In every state that a run reaches, the fetch module has counted
  every request once: those whose vectors are read, the one being read and the clusters in
  its queues make up the requests submitted. The cluster that the core handed over last is the last one in these
  queues, and when the core finds its fetch complete and starts the similarity computation, no vector of this cluster has
  been asked for: they are read when the next cluster is handed over, and for the last cluster of a core never.\<close>

theorem vectors_read_one_request_late:
  assumes "\<forall>i. mem_cfg_ok (cfg i)" and "MultiANNA_of 8 cfg = Inr a0"
    and "prepare_config n sizes = Inr tb" and "\<forall>i<unat n. 0 \<le> sizes ! i \<and> sizes ! i < 2 ^ 31" and "unat n \<le> length sizes" and "unat n \<le> 2 ^ 24"
    and "prepare_test_value tb qs query_num = Inr tv1" and "length qs \<le> unat query_num"
    and "queries_ok (unat n) qs" and "(\<Sum>q\<leftarrow>qs. length q) \<le> 8 * unat n" and "0 < batch" and "length qs + unat batch < 2 ^ 64"
    and "anna_prepare n batch (anna_Setup qs a0) = Inr a1" and "anna_reach tb a1 tv1 a tv"
    and "c \<in> set (anna_core_list a)"
  shows "let e = efm c; waiting = cluster_queue e @ metadata_queue e; p = pre_efm_processing_index c in
    fetched_request_num e + of_nat (unf (vector_reader e) + length waiting) = submited_request_num e \<and> vector_queue e = [] \<and>
    (p \<noteq> none \<longrightarrow> waiting \<noteq> [] \<and> last waiting = core_cluster_list c ! unat p \<and>
      (GetFetchedRequestNum e = efm_fetching_request_num c \<longrightarrow> reader_finished (vector_reader e) \<and> waiting = [core_cluster_list c ! unat p]))"
proof -
  let ?e = "efm c" and ?p = "pre_efm_processing_index c"
  have link: "efm_link ?e" and fl: "fetch_link c" using run_pipe [OF assms] by (auto simp: pipe_inv_def fetch_link_def Let_def)
  let ?w = "cluster_queue ?e @ metadata_queue ?e"
  have "fetched_request_num ?e + of_nat (unf (vector_reader ?e) + length ?w) = submited_request_num ?e" "vector_queue ?e = []"
    using link by (simp_all add: efm_link_def add.assoc [symmetric])
  moreover have "?w \<noteq> [] \<and> last ?w = core_cluster_list c ! unat ?p" if "?p \<noteq> none" using that fl by (simp add: fetch_link_def Let_def)
  moreover have "reader_finished (vector_reader ?e) \<and> ?w = [core_cluster_list c ! unat ?p]"
    if p: "?p \<noteq> none" and g: "GetFetchedRequestNum ?e = efm_fetching_request_num c"
  proof -
    have w: "?w \<noteq> []" "last ?w = core_cluster_list c ! unat ?p" "fetched_request_num ?e = submited_request_num ?e - 1"
      using p g fl by (auto simp: fetch_link_def Let_def GetFetchedRequestNum_def)
    note f = fetched_last [OF link w(1,3)]
    obtain x where "?w = [x]" using f(2) single [of ?w] w(1) by auto
    then show ?thesis using f(1) w(2) by simp
  qed
  ultimately show ?thesis unfolding Let_def by blast
qed

theorem vectors_read_one_request_late_witness:
  "\<exists>a0 tb tv1 a1 c. MultiANNA_of 8 (\<lambda>_. hbm2_config) = Inr a0 \<and> prepare_config 3 [5, 0, 7] = Inr tb \<and>
    prepare_test_value tb sample_queries 2 = Inr tv1 \<and> anna_prepare 3 16 (anna_Setup sample_queries a0) = Inr a1 \<and>
    c \<in> set (anna_core_list a1) \<and> vector_queue (efm c) = [] \<and>
    fetched_request_num (efm c) + of_nat (unf (vector_reader (efm c)) + length (cluster_queue (efm c) @ metadata_queue (efm c))) = submited_request_num (efm c)"
proof -
  obtain a0 tb tv1 a1 c where s: "MultiANNA_of 8 (\<lambda>_. hbm2_config) = Inr a0" "prepare_config 3 [5, 0, 7] = Inr tb"
    "prepare_test_value tb sample_queries 2 = Inr tv1" "anna_prepare 3 16 (anna_Setup sample_queries a0) = Inr a1"
    "c \<in> set (anna_core_list a1)" "core_cluster_list c \<noteq> []"
    "\<forall>i<unat (3 :: u64). 0 \<le> [5, 0, 7 :: int] ! i \<and> [5, 0, 7 :: int] ! i < 2 ^ 31" by (rule sample_prepared)
  have "\<forall>i. mem_cfg_ok ((\<lambda>_. hbm2_config) (i :: int))" using hbm2_mem_ok by simp
  from vectors_read_one_request_late [OF this s(1,2,7) _ _ s(3) _ _ _ _ _ s(4) reach_start s(5)] s show ?thesis
    by (auto simp: sample_sum Let_def)
qed

end
