(* ===== verification/Dram_Ini.thy ===== *)
theory Dram_Ini
  imports Dram_Sample "HOL-Library.AList"
begin

text \<open>
  \<^verbatim>\<open>dramsim3/ext/headers/INIReader.h\<close>: the parser behind the configuration files.
  A file is its text, or nothing when it cannot be opened; a line buffer is the C string that
  \<^verbatim>\<open>fgets\<close> leaves in it, and a pointer into the buffer is the rest of the string. Lemmas: a
  document that is written line by line is read back as the table of its entries; the
  configuration file that the accelerator opens is read as the table of \<open>Dram_Sample\<close>.
\<close>

section \<open>Strings\<close>

definition INI_MAX_LINE :: nat where
  "INI_MAX_LINE = 200"

definition MAX_SECTION :: nat where
  "MAX_SECTION = 50"

definition MAX_NAME :: nat where
  "MAX_NAME = 50"

definition rstrip :: "string \<Rightarrow> string" where
  "rstrip s = rev (dropWhile isspace (rev s))"

definition lskip :: "string \<Rightarrow> string" where
  "lskip s = dropWhile isspace s"

text \<open>The string up to the character that is found, and the rest from it on; \<open>was_space\<close>
  is the local variable of the loop.\<close>

fun find_from :: "bool \<Rightarrow> char list \<Rightarrow> string \<Rightarrow> string \<times> string" where
  "find_from was_space chars [] = ([], [])"
| "find_from was_space chars (c # s) =
     (if c \<in> set chars \<or> was_space \<and> c = CHR '';'' then ([], c # s)
      else let (a, b) = find_from (isspace c) chars s in (c # a, b))"

definition find_chars_or_comment :: "string \<Rightarrow> char list \<Rightarrow> string \<times> string" where
  "find_chars_or_comment s chars = find_from False chars s"

definition strncpy0 :: "string \<Rightarrow> nat \<Rightarrow> string" where
  "strncpy0 src n = take (n - 1) src"

text \<open>\<^verbatim>\<open>fgets\<close> reads to the end of a line, of the buffer or of the file; the string ends at a
  null character.\<close>

definition newline :: char where
  "newline = CHR 0x0A"

definition fgets :: "nat \<Rightarrow> string \<Rightarrow> (string \<times> string) option" where
  "fgets n s =
     (if s = [] then None
      else let l = takeWhile (\<lambda>c. c \<noteq> newline) s; k = min (n - 1) (if length l < length s then length l + 1 else length l)
           in Some (takeWhile (\<lambda>c. c \<noteq> CHR 0x00) (take k s), drop k s))"

section \<open>The parser\<close>

record ini_state =
  p_section :: string
  prev_name :: string
  lineno :: int
  p_error :: int
  p_reader :: INIReader

definition ValueHandler :: "string \<Rightarrow> string \<Rightarrow> string \<Rightarrow> INIReader \<Rightarrow> INIReader" where
  "ValueHandler sec name value r =
     (let key = MakeKey sec name; old = (case map_of (ini_values r) key of None \<Rightarrow> [] | Some v \<Rightarrow> v)
      in r\<lparr>ini_values := AList.update key ((if 0 < length old then old @ [newline] else old) @ value) (ini_values r),
           ini_sections := (if sec \<in> set (ini_sections r) then ini_sections r else ini_sections r @ [sec])\<rparr>)"

definition line_error :: "ini_state \<Rightarrow> ini_state" where
  "line_error st = (if p_error st = 0 then st\<lparr>p_error := lineno st\<rparr> else st)"

text \<open>One iteration of the loop of \<^verbatim>\<open>ini_parse_stream\<close>. The handler always returns 1.\<close>

definition parse_line :: "string \<Rightarrow> ini_state \<Rightarrow> ini_state" where
  "parse_line line st0 =
     (let st = st0\<lparr>lineno := lineno st0 + 1\<rparr>;
          bom = (lineno st = 1 \<and> 3 \<le> length line \<and> take 3 line = [CHR 0xEF, CHR 0xBB, CHR 0xBF]);
          start0 = (if bom then drop 3 line else line);
          start = lskip (rstrip start0)
      in if start \<noteq> [] \<and> (hd start = CHR '';'' \<or> hd start = CHR ''#'') then st
         else if prev_name st \<noteq> [] \<and> start \<noteq> [] \<and> (bom \<or> isspace (hd start0)) then
           let start' = rstrip (fst (find_chars_or_comment start []))
           in st\<lparr>p_reader := ValueHandler (p_section st) (prev_name st) start' (p_reader st)\<rparr>
         else if start \<noteq> [] \<and> hd start = CHR ''['' then
           (case find_chars_or_comment (tl start) [CHR '']''] of
              (sec, e # _) \<Rightarrow> if e = CHR '']'' then st\<lparr>p_section := strncpy0 sec MAX_SECTION, prev_name := []\<rparr> else line_error st
            | (sec, []) \<Rightarrow> line_error st)
         else if start \<noteq> [] then
           (case find_chars_or_comment start [CHR ''='', CHR '':''] of
              (nm, e # rest) \<Rightarrow>
                if e = CHR ''='' \<or> e = CHR '':'' then
                  let name = rstrip nm; value = rstrip (fst (find_chars_or_comment (lskip rest) []))
                  in st\<lparr>prev_name := strncpy0 name MAX_NAME, p_reader := ValueHandler (p_section st) name value (p_reader st)\<rparr>
                else line_error st
            | (nm, []) \<Rightarrow> line_error st)
         else st)"

function parse_lines :: "string \<Rightarrow> ini_state \<Rightarrow> ini_state" where
  "parse_lines s st =
     (case fgets INI_MAX_LINE s of
        None \<Rightarrow> st
      | Some (line, s') \<Rightarrow> parse_lines s' (parse_line line st))"
  by pat_completeness auto

lemma fgets_shrinks: "fgets n s = Some (l, s') \<Longrightarrow> 1 < n \<Longrightarrow> length s' < length s"
  by (cases s) (auto simp: fgets_def Let_def min_def split: if_splits)

termination parse_lines
  by (relation "measure (\<lambda>(s, st). length s)") (auto simp: INI_MAX_LINE_def intro: fgets_shrinks)

declare parse_lines.simps [simp del]

definition empty_reader :: INIReader where
  "empty_reader = \<lparr>ini_error = 0, ini_values = [], ini_sections = []\<rparr>"

definition ini_parse :: "string option \<Rightarrow> INIReader \<Rightarrow> int \<times> INIReader" where
  "ini_parse file r =
     (case file of
        None \<Rightarrow> (- 1, r)
      | Some s \<Rightarrow> (let st = parse_lines s \<lparr>p_section = [], prev_name = [], lineno = 0, p_error = 0, p_reader = r\<rparr> in (p_error st, p_reader st)))"

definition INIReader_new :: "string option \<Rightarrow> INIReader" where
  "INIReader_new file = (let (e, r) = ini_parse file empty_reader in r\<lparr>ini_error := e\<rparr>)"

section \<open>Documents\<close>

text \<open>A document as a list of lines, and its text.\<close>

datatype ini_item = Blank | Section string | Entry string string

fun print_item :: "ini_item \<Rightarrow> string" where
  "print_item Blank = [newline]"
| "print_item (Section sec) = ''['' @ sec @ '']'' @ [newline]"
| "print_item (Entry name value) = name @ '' = '' @ value @ [newline]"

definition print_ini :: "ini_item list \<Rightarrow> string" where
  "print_ini doc = concat (map print_item doc)"

text \<open>Names and values that the syntax can carry on one line.\<close>

definition plain :: "string \<Rightarrow> bool" where
  "plain s \<longleftrightarrow> s \<noteq> [] \<and> (\<forall>c\<in>set s. \<not> isspace c \<and> of_char c < (128 :: nat) \<and> c \<notin> set (CHR 0x00 # '';#=:[]''))"

definition plain_value :: "string \<Rightarrow> bool" where
  "plain_value v \<longleftrightarrow> v \<noteq> [] \<and> \<not> isspace (hd v) \<and> \<not> isspace (last v) \<and> (\<forall>c\<in>set v. c \<noteq> CHR 0x00 \<and> c \<noteq> newline \<and> c \<noteq> CHR '';'')"

fun item_ok :: "ini_item \<Rightarrow> bool" where
  "item_ok Blank \<longleftrightarrow> True"
| "item_ok (Section sec) \<longleftrightarrow> plain sec \<and> length sec < MAX_SECTION"
| "item_ok (Entry name value) \<longleftrightarrow> plain name \<and> plain_value value \<and> length name + length value + 4 < INI_MAX_LINE"

text \<open>The entries of a document with their sections, and the table they make.\<close>

fun entries :: "string \<Rightarrow> ini_item list \<Rightarrow> (string \<times> string \<times> string) list" where
  "entries sec [] = []"
| "entries sec (Blank # doc) = entries sec doc"
| "entries sec (Section sec' # doc) = entries sec' doc"
| "entries sec (Entry name value # doc) = (sec, name, value) # entries sec doc"

definition table :: "(string \<times> string \<times> string) list \<Rightarrow> (string \<times> string) list" where
  "table es = map (\<lambda>(sec, name, value). (MakeKey sec name, value)) es"

definition add_section :: "string \<times> string \<times> string \<Rightarrow> string list \<Rightarrow> string list" where
  "add_section e secs = (if fst e \<in> set secs then secs else secs @ [fst e])"

text \<open>What the parser does for a line of a document.\<close>

fun item_step :: "ini_item \<Rightarrow> ini_state \<Rightarrow> ini_state" where
  "item_step Blank st = st\<lparr>lineno := lineno st + 1\<rparr>"
| "item_step (Section sec) st = st\<lparr>lineno := lineno st + 1, p_section := sec, prev_name := []\<rparr>"
| "item_step (Entry name value) st = st\<lparr>lineno := lineno st + 1, prev_name := strncpy0 name MAX_NAME,
     p_reader := ValueHandler (p_section st) name value (p_reader st)\<rparr>"

lemma isspace_newline [simp]: "isspace newline" "isspace CHR '' ''" "\<not> isspace CHR ''[''" "\<not> isspace CHR '']''"
  by (simp_all add: isspace_def newline_def)

lemma rstrip_space [simp]: "isspace c \<Longrightarrow> rstrip (s @ [c]) = rstrip s"
  by (simp add: rstrip_def)

lemma rstrip_last: "s \<noteq> [] \<Longrightarrow> \<not> isspace (last s) \<Longrightarrow> rstrip s = s"
  by (cases s rule: rev_cases) (auto simp: rstrip_def)

lemma lskip_hd: "s \<noteq> [] \<Longrightarrow> \<not> isspace (hd s) \<Longrightarrow> lskip s = s"
  by (cases s) (auto simp: lskip_def)

lemma find_at:
  "\<forall>c\<in>set s. c \<notin> set chars \<and> c \<noteq> CHR '';'' \<Longrightarrow> e \<in> set chars \<Longrightarrow> find_from w chars (s @ e # t) = (s, e # t)"
  by (induction s arbitrary: w) auto

lemma find_none: "\<forall>c\<in>set s. c \<noteq> CHR '';'' \<Longrightarrow> find_from w [] s = (s, [])"
  by (induction s arbitrary: w) auto

lemma plainD:
  assumes "plain s"
  shows "s \<noteq> []" and "\<not> isspace (hd s)" and "\<not> isspace (last s)" and "of_char (hd s) < (128 :: nat)"
    and "hd s \<noteq> CHR '';''" "hd s \<noteq> CHR ''#''" "hd s \<noteq> CHR ''[''"
    and "\<forall>c\<in>set s. c \<noteq> CHR 0x00 \<and> c \<noteq> CHR '';'' \<and> c \<noteq> CHR ''='' \<and> c \<noteq> CHR '':'' \<and> c \<noteq> CHR '']'' \<and> c \<noteq> newline"
proof -
  have all: "\<not> isspace c \<and> of_char c < (128 :: nat) \<and> c \<noteq> CHR 0x00 \<and> c \<noteq> CHR '';'' \<and> c \<noteq> CHR ''#'' \<and> c \<noteq> CHR ''='' \<and>
      c \<noteq> CHR '':'' \<and> c \<noteq> CHR ''['' \<and> c \<noteq> CHR '']''" if "c \<in> set s" for c
    using assms that by (simp_all add: plain_def)
  have s: "s \<noteq> []" using assms by (simp add: plain_def)
  note h = all [OF hd_in_set [OF s]] and l = all [OF last_in_set [OF s]]
  show "s \<noteq> []" "\<not> isspace (hd s)" "\<not> isspace (last s)" "of_char (hd s) < (128 :: nat)" "hd s \<noteq> CHR '';''" "hd s \<noteq> CHR ''#''" "hd s \<noteq> CHR ''[''"
    using s h l by simp_all
  have "c \<noteq> newline" if "c \<in> set s" for c using all [OF that] isspace_newline(1) by metis
  then show "\<forall>c\<in>set s. c \<noteq> CHR 0x00 \<and> c \<noteq> CHR '';'' \<and> c \<noteq> CHR ''='' \<and> c \<noteq> CHR '':'' \<and> c \<noteq> CHR '']'' \<and> c \<noteq> newline"
    using all by simp
qed

lemma no_bom: "of_char (hd l) < (128 :: nat) \<Longrightarrow> take 3 l \<noteq> [CHR 0xEF, CHR 0xBB, CHR 0xBF]"
  by (cases l) auto

lemma parse_section:
  assumes "plain sec" and "length sec < MAX_SECTION"
  shows "parse_line (''['' @ sec @ '']'' @ [newline]) st = item_step (Section sec) st"
proof -
  let ?l = "''['' @ sec @ '']''"
  have r: "rstrip (''['' @ sec @ '']'' @ [newline]) = ?l" using rstrip_space [of newline ?l] rstrip_last [of ?l] by simp
  have "find_chars_or_comment (sec @ '']'') [CHR '']''] = (sec, '']'')"
    unfolding find_chars_or_comment_def by (rule find_at [of sec]) (use plainD(8) [OF assms(1)] in auto)
  moreover have "take 3 (''['' @ sec @ '']'' @ [newline]) \<noteq> [CHR 0xEF, CHR 0xBB, CHR 0xBF]" by (rule no_bom) simp
  moreover have "strncpy0 sec MAX_SECTION = sec" using assms(2) by (simp add: strncpy0_def)
  ultimately show ?thesis using r lskip_hd [of ?l] by (simp add: parse_line_def Let_def)
qed

lemma parse_entry:
  assumes "plain name" and "plain_value v"
  shows "parse_line (name @ '' = '' @ v @ [newline]) st = item_step (Entry name v) st"
proof -
  let ?l = "name @ '' = '' @ v"
  have v: "v \<noteq> []" "\<not> isspace (hd v)" "\<not> isspace (last v)" "\<forall>c\<in>set v. c \<noteq> CHR '';''" using assms(2) by (auto simp: plain_value_def)
  note n = plainD [OF assms(1)]
  have r: "rstrip (name @ '' = '' @ v @ [newline]) = ?l" using rstrip_space [of newline ?l] rstrip_last [of ?l] v by simp
  have s: "lskip ?l = ?l" by (rule lskip_hd) (use n in simp_all)
  have f: "find_chars_or_comment ((name @ '' '') @ CHR ''='' # CHR '' '' # v) [CHR ''='', CHR '':''] = (name @ '' '', CHR ''='' # CHR '' '' # v)"
    unfolding find_chars_or_comment_def by (rule find_at) (use n(8) in auto)
  have nm: "rstrip (name @ '' '') = name" using rstrip_space [of "CHR '' ''" name] rstrip_last [OF n(1,3)] by simp
  have "lskip (CHR '' '' # v) = v" using lskip_hd [OF v(1,2)] by (simp add: lskip_def)
  moreover have "find_chars_or_comment v [] = (v, [])" unfolding find_chars_or_comment_def by (rule find_none [OF v(4)])
  moreover have "take 3 (name @ '' = '' @ v @ [newline]) \<noteq> [CHR 0xEF, CHR 0xBB, CHR 0xBF]" by (rule no_bom) (use n in simp)
  moreover have "hd (name @ t) = hd name" "name @ t \<noteq> []" for t using n(1) by simp_all
  ultimately show ?thesis using r s f nm n rstrip_last [OF v(1,3)] by (simp add: parse_line_def Let_def)
qed

lemma parse_blank: "parse_line [newline] st = item_step Blank st"
  by (simp add: parse_line_def Let_def rstrip_def lskip_def)

text \<open>A line of a document fits the buffer, so the reader hands it over as it is.\<close>

lemma fgets_line:
  assumes "\<forall>c\<in>set l. c \<noteq> newline \<and> c \<noteq> CHR 0x00" and "length l + 1 < n"
  shows "fgets n (l @ newline # t) = Some (l @ [newline], t)"
proof -
  have "takeWhile (\<lambda>c. c \<noteq> newline) (l @ newline # t) = l" using assms(1) by (simp add: takeWhile_append2)
  moreover have "takeWhile (\<lambda>c. c \<noteq> CHR 0x00) (l @ [newline]) = l @ [newline]" using assms(1) by (simp add: takeWhile_eq_all_conv newline_def)
  moreover have "min (n - 1) (length l + 1) = length l + 1" using assms(2) by simp
  ultimately show ?thesis by (simp add: fgets_def Let_def)
qed

lemma parse_item:
  assumes "item_ok it"
  shows "parse_lines (print_item it @ t) st = parse_lines t (item_step it st)"
proof (cases it)
  case Blank
  have "fgets INI_MAX_LINE (newline # t) = Some ([newline], t)" using fgets_line [of "[]" INI_MAX_LINE t] by (simp add: INI_MAX_LINE_def)
  then show ?thesis using Blank parse_blank by (simp add: parse_lines.simps [of "newline # t"])
next
  case (Section sec)
  have ok: "plain sec" "length sec < MAX_SECTION" using assms Section by simp_all
  have "fgets INI_MAX_LINE ((''['' @ sec @ '']'') @ newline # t) = Some ((''['' @ sec @ '']'') @ [newline], t)"
    by (rule fgets_line) (use plainD(8) [OF ok(1)] ok(2) in \<open>auto simp: INI_MAX_LINE_def MAX_SECTION_def newline_def\<close>)
  then show ?thesis using Section parse_section [OF ok] by (simp add: parse_lines.simps [of "CHR ''['' # sec @ CHR '']'' # newline # t"])
next
  case (Entry name v)
  have ok: "plain name" "plain_value v" "length name + length v + 4 < INI_MAX_LINE" using assms Entry by simp_all
  have "fgets INI_MAX_LINE ((name @ '' = '' @ v) @ newline # t) = Some ((name @ '' = '' @ v) @ [newline], t)"
    by (rule fgets_line) (use plainD(8) [OF ok(1)] ok(2,3) in \<open>auto simp: plain_value_def newline_def\<close>)
  then show ?thesis using Entry parse_entry [OF ok(1,2)] by (simp add: parse_lines.simps [of "name @ CHR '' '' # CHR ''='' # CHR '' '' # v @ newline # t"])
qed

lemma parse_document: "\<forall>it\<in>set doc. item_ok it \<Longrightarrow> parse_lines (print_ini doc) st = fold item_step doc st"
proof (induction doc arbitrary: st)
  case Nil
  then show ?case by (simp add: print_ini_def parse_lines.simps fgets_def)
next
  case (Cons it doc)
  then show ?case using parse_item [of it "print_ini doc" st] by (simp add: print_ini_def)
qed

text \<open>The table after the lines of a document, from a table without its keys.\<close>

lemma update_new: "k \<notin> fst ` set m \<Longrightarrow> AList.update k v m = m @ [(k, v)]"
  by (induction m) auto

lemma fold_items:
  assumes "\<forall>it\<in>set doc. item_ok it" and "distinct (map fst (ini_values (p_reader st) @ table (entries (p_section st) doc)))"
  shows "ini_values (p_reader (fold item_step doc st)) = ini_values (p_reader st) @ table (entries (p_section st) doc) \<and>
    p_error (fold item_step doc st) = p_error st \<and>
    ini_sections (p_reader (fold item_step doc st)) = fold add_section (entries (p_section st) doc) (ini_sections (p_reader st))"
  using assms
proof (induction doc arbitrary: st)
  case (Cons it doc)
  show ?case
  proof (cases it)
    case (Entry name v)
    let ?k = "MakeKey (p_section st) name" and ?st = "item_step it st"
    have new: "?k \<notin> fst ` set (ini_values (p_reader st))" using Cons.prems(2) Entry by (auto simp: table_def)
    then have "map_of (ini_values (p_reader st)) ?k = None" by (simp add: map_of_eq_None_iff)
    then have st: "ini_values (p_reader ?st) = ini_values (p_reader st) @ [(?k, v)]" "p_section ?st = p_section st" "p_error ?st = p_error st"
      "ini_sections (p_reader ?st) = add_section (p_section st, name, v) (ini_sections (p_reader st))"
      using Entry update_new [OF new] by (simp_all add: ValueHandler_def Let_def add_section_def)
    have "distinct (map fst (ini_values (p_reader ?st) @ table (entries (p_section ?st) doc)))"
      using Cons.prems(2) Entry st by (simp add: table_def)
    from Cons.IH [OF _ this] show ?thesis using Cons.prems(1) Entry st by (simp add: table_def)
  qed (use Cons in \<open>simp_all add: table_def\<close>)
qed (simp add: table_def)

text \<open>C19. A configuration document is read back as it was written. For any sections, names and values that fit
  on a line, with keys that differ when their case is ignored, the reader of the
  printed text reports no error, its table holds exactly the entries, each under its
  section, and looking up an entry gives its value.\<close>

theorem ini_roundtrip:
  assumes "\<forall>it\<in>set doc. item_ok it" and "distinct (map fst (table (entries [] doc)))"
  shows "let r = INIReader_new (Some (print_ini doc)) in ini_error r = 0 \<and> ini_values r = table (entries [] doc) \<and>
    (\<forall>(sec, name, value)\<in>set (entries [] doc). ini_Get r sec name d = value)"
proof -
  let ?st = "\<lparr>p_section = [], prev_name = [], lineno = 0, p_error = 0, p_reader = empty_reader\<rparr>" and ?r = "INIReader_new (Some (print_ini doc))"
  have "ini_values (p_reader (fold item_step doc ?st)) = table (entries [] doc)" "p_error (fold item_step doc ?st) = 0"
    using fold_items [OF assms(1), of ?st] assms(2) by (simp_all add: empty_reader_def)
  then have r: "ini_error ?r = 0" "ini_values ?r = table (entries [] doc)"
    by (simp_all add: INIReader_new_def ini_parse_def Let_def parse_document [OF assms(1)])
  moreover have "ini_Get ?r sec name d = v" if "(sec, name, v) \<in> set (entries [] doc)" for sec name v
  proof -
    have "(MakeKey sec name, v) \<in> set (table (entries [] doc))" using that by (force simp: table_def)
    then have "map_of (table (entries [] doc)) (MakeKey sec name) = Some v" using assms(2) by simp
    then show ?thesis by (simp add: ini_Get_def r(2))
  qed
  ultimately show ?thesis by (auto simp: Let_def)
qed

text \<open>The file \<^verbatim>\<open>configs/HBM2_8Gb_x128.ini\<close>, line by line.\<close>

definition hbm2_doc :: "ini_item list" where
  "hbm2_doc =
     [Section ''dram_structure'',
      Entry ''protocol'' ''HBM'',
      Entry ''bankgroups'' ''4'',
      Entry ''banks_per_group'' ''4'',
      Entry ''rows'' ''32768'',
      Entry ''columns'' ''64'',
      Entry ''device_width'' ''128'',
      Entry ''BL'' ''4'',
      Entry ''num_dies'' ''4'',
      Blank,
      Section ''timing'',
      Entry ''tCK'' ''1'',
      Entry ''CL'' ''14'',
      Entry ''CWL'' ''4'',
      Entry ''tRCDRD'' ''14'',
      Entry ''tRCDWR'' ''14'',
      Entry ''tRP'' ''14'',
      Entry ''tRAS'' ''34'',
      Entry ''tRFC'' ''260'',
      Entry ''tREFI'' ''3900'',
      Entry ''tREFIb'' ''128'',
      Entry ''tRPRE'' ''1'',
      Entry ''tWPRE'' ''1'',
      Entry ''tRRD_S'' ''4'',
      Entry ''tRRD_L'' ''6'',
      Entry ''tWTR_S'' ''6'',
      Entry ''tWTR_L'' ''8'',
      Entry ''tFAW'' ''30'',
      Entry ''tWR'' ''16'',
      Entry ''tCCD_S'' ''1'',
      Entry ''tCCD_L'' ''2'',
      Entry ''tXS'' ''268'',
      Entry ''tCKE'' ''8'',
      Entry ''tCKSRE'' ''10'',
      Entry ''tXP'' ''8'',
      Entry ''tRTP_L'' ''6'',
      Entry ''tRTP_S'' ''4'',
      Blank,
      Section ''power'',
      Entry ''VDD'' ''1.2'',
      Entry ''IDD0'' ''65'',
      Entry ''IDD2P'' ''28'',
      Entry ''IDD2N'' ''40'',
      Entry ''IDD3P'' ''40'',
      Entry ''IDD3N'' ''55'',
      Entry ''IDD4W'' ''500'',
      Entry ''IDD4R'' ''390'',
      Entry ''IDD5AB'' ''250'',
      Entry ''IDD6x'' ''31'',
      Blank,
      Section ''system'',
      Entry ''channel_size'' ''1024'',
      Entry ''channels'' ''8'',
      Entry ''bus_width'' ''128'',
      Entry ''address_mapping'' ''rorabgbachco'',
      Entry ''queue_structure'' ''PER_BANK'',
      Entry ''row_buf_policy'' ''OPEN_PAGE'',
      Entry ''cmd_queue_size'' ''8'',
      Entry ''trans_queue_size'' ''32'',
      Entry ''unified_queue'' ''False'',
      Blank,
      Section ''other'',
      Entry ''epoch_period'' ''1000000'',
      Entry ''output_level'' ''1'',
      Blank]"

lemma hbm2_items: "list_all item_ok hbm2_doc"
  by code_simp

lemma hbm2_table: "table (entries [] hbm2_doc) = ini_values hbm2_ini"
  by code_simp

lemma hbm2_distinct: "distinct (map fst (ini_values hbm2_ini))"
  by code_simp

theorem ini_roundtrip_witness:
  "ini_error (INIReader_new (Some (print_ini hbm2_doc))) = 0 \<and> ini_values (INIReader_new (Some (print_ini hbm2_doc))) = ini_values hbm2_ini"
  using ini_roundtrip [of hbm2_doc "[]"] hbm2_items hbm2_table hbm2_distinct by (simp add: list_all_iff Let_def)

lemma hbm2_sections: "fold add_section (entries [] hbm2_doc) [] = ini_sections hbm2_ini"
  by code_simp

text \<open>The reader of this file is the table of the other examples.\<close>

lemma hbm2_read: "INIReader_new (Some (print_ini hbm2_doc)) = hbm2_ini"
proof -
  let ?st = "\<lparr>p_section = [], prev_name = [], lineno = 0, p_error = 0, p_reader = empty_reader\<rparr>"
  have ok: "\<forall>it\<in>set hbm2_doc. item_ok it" using hbm2_items by (simp add: list_all_iff)
  note f = fold_items [OF ok, of ?st, simplified empty_reader_def ini_state.simps INIReader.simps append_Nil, OF hbm2_distinct [folded hbm2_table]]
  have "INIReader_new (Some (print_ini hbm2_doc)) =
      (p_reader (fold item_step hbm2_doc ?st))\<lparr>ini_error := p_error (fold item_step hbm2_doc ?st)\<rparr>"
    by (simp add: INIReader_new_def ini_parse_def Let_def parse_document [OF ok])
  then show ?thesis using f hbm2_table hbm2_sections
    by (intro INIReader.equality) (simp_all add: empty_reader_def, simp_all add: hbm2_ini_def)
qed

end
