(* ===== verification/Dram_Shipped.thy ===== *)
theory Dram_Shipped
  imports Dram_Ini
begin

text \<open>
  The configuration object that the constructor of \<^verbatim>\<open>Config\<close> builds from the file
  \<^verbatim>\<open>configs/HBM2_8Gb_x128.ini\<close>: the parser reads the table \<open>hbm2_ini\<close>, and the five
  initialisation functions turn it into \<open>hbm2_config\<close>. The C library function \<^verbatim>\<open>strtod\<close> is a
  parameter; what it has to return is its value on the decimal numbers of the file.
\<close>

section \<open>Look-ups\<close>

lemma hbm2_ints:
  "GetInteger hbm2_ini ''dram_structure'' ''BL'' 8 = 4"
  "GetInteger hbm2_ini ''dram_structure'' ''bankgroups'' 2 = 4"
  "GetInteger hbm2_ini ''dram_structure'' ''banks_per_group'' 2 = 4"
  "GetInteger hbm2_ini ''dram_structure'' ''columns'' 1024 = 64"
  "GetInteger hbm2_ini ''dram_structure'' ''device_width'' 8 = 128"
  "GetInteger hbm2_ini ''dram_structure'' ''num_dies'' 1 = 4"
  "GetInteger hbm2_ini ''dram_structure'' ''rows'' 65536 = 32768"
  "GetInteger hbm2_ini ''hmc'' ''block_size'' 64 = 64"
  "GetInteger hbm2_ini ''hmc'' ''link_speed'' 15000 = 15000"
  "GetInteger hbm2_ini ''hmc'' ''link_width'' 16 = 16"
  "GetInteger hbm2_ini ''hmc'' ''num_links'' 4 = 4"
  "GetInteger hbm2_ini ''hmc'' ''xbar_queue_depth'' 16 = 16"
  "GetInteger hbm2_ini ''other'' ''epoch_period'' 100000 = 1000000"
  "GetInteger hbm2_ini ''system'' ''bus_width'' 64 = 128"
  "GetInteger hbm2_ini ''system'' ''channel_size'' 1024 = 1024"
  "GetInteger hbm2_ini ''system'' ''channels'' 1 = 8"
  "GetInteger hbm2_ini ''system'' ''cmd_queue_size'' 16 = 8"
  "GetInteger hbm2_ini ''system'' ''sref_threshold'' 1000 = 1000"
  "GetInteger hbm2_ini ''system'' ''trans_queue_size'' 32 = 32"
  "GetInteger hbm2_ini ''system'' ''write_buf_size'' 16 = 16"
  "GetInteger hbm2_ini ''timing'' ''AL'' 0 = 0"
  "GetInteger hbm2_ini ''timing'' ''CL'' 12 = 14"
  "GetInteger hbm2_ini ''timing'' ''CWL'' 12 = 4"
  "GetInteger hbm2_ini ''timing'' ''ideal_memory_latency'' 10 = 10"
  "GetInteger hbm2_ini ''timing'' ''t32AW'' 330 = 330"
  "GetInteger hbm2_ini ''timing'' ''tCCD_L'' 6 = 2"
  "GetInteger hbm2_ini ''timing'' ''tCCD_S'' 4 = 1"
  "GetInteger hbm2_ini ''timing'' ''tCKE'' 6 = 8"
  "GetInteger hbm2_ini ''timing'' ''tCKESR'' 12 = 12"
  "GetInteger hbm2_ini ''timing'' ''tFAW'' 50 = 30"
  "GetInteger hbm2_ini ''timing'' ''tPPD'' 0 = 0"
  "GetInteger hbm2_ini ''timing'' ''tRAS'' 24 = 34"
  "GetInteger hbm2_ini ''timing'' ''tRCD'' 10 = 10"
  "GetInteger hbm2_ini ''timing'' ''tRCDRD'' 24 = 14"
  "GetInteger hbm2_ini ''timing'' ''tRCDWR'' 20 = 14"
  "GetInteger hbm2_ini ''timing'' ''tREFI'' 7800 = 3900"
  "GetInteger hbm2_ini ''timing'' ''tREFIb'' 1950 = 128"
  "GetInteger hbm2_ini ''timing'' ''tRFC'' 74 = 260"
  "GetInteger hbm2_ini ''timing'' ''tRFCb'' 20 = 20"
  "GetInteger hbm2_ini ''timing'' ''tRP'' 10 = 14"
  "GetInteger hbm2_ini ''timing'' ''tRPRE'' 1 = 1"
  "GetInteger hbm2_ini ''timing'' ''tRRD_L'' 4 = 6"
  "GetInteger hbm2_ini ''timing'' ''tRRD_S'' 4 = 4"
  "GetInteger hbm2_ini ''timing'' ''tRTP'' 5 = 5"
  "GetInteger hbm2_ini ''timing'' ''tRTRS'' 2 = 2"
  "GetInteger hbm2_ini ''timing'' ''tWPRE'' 1 = 1"
  "GetInteger hbm2_ini ''timing'' ''tWR'' 10 = 16"
  "GetInteger hbm2_ini ''timing'' ''tWTR_L'' 5 = 8"
  "GetInteger hbm2_ini ''timing'' ''tWTR_S'' 5 = 6"
  "GetInteger hbm2_ini ''timing'' ''tXP'' 8 = 8"
  "GetInteger hbm2_ini ''timing'' ''tXS'' 432 = 268"
  "ini_GetInteger hbm2_ini ''other'' ''output_level'' 1 = 1"
  by code_simp+

lemma hbm2_bools:
  "ini_GetBoolean hbm2_ini ''dram_structure'' ''bankgroup_enable'' True = True"
  "ini_GetBoolean hbm2_ini ''dram_structure'' ''hbm_dual_cmd'' True = True"
  "ini_GetBoolean hbm2_ini ''system'' ''aggressive_precharging_enabled'' False = False"
  "ini_GetBoolean hbm2_ini ''system'' ''enable_self_refresh'' False = False"
  "ini_GetBoolean hbm2_ini ''system'' ''unified_queue'' False = False"
  by code_simp+

lemma hbm2_strings:
  "ini_Get hbm2_ini ''dram_structure'' ''protocol'' ''DDR3'' = ''HBM''"
  "ini_Get hbm2_ini ''other'' ''output_prefix'' ''dramsim3'' = ''dramsim3''"
  "ini_Get hbm2_ini ''system'' ''address_mapping'' ''chrobabgraco'' = ''rorabgbachco''"
  "ini_Get hbm2_ini ''system'' ''queue_structure'' ''PER_BANK'' = ''PER_BANK''"
  "ini_Get hbm2_ini ''system'' ''refresh_policy'' ''RANK_LEVEL_STAGGERED'' = ''RANK_LEVEL_STAGGERED''"
  "ini_Get hbm2_ini ''system'' ''row_buf_policy'' ''OPEN_PAGE'' = ''OPEN_PAGE''"
  "ini_Get hbm2_ini ''power'' ''IDD0'' '''' = ''65''"
  "ini_Get hbm2_ini ''power'' ''IDD2N'' '''' = ''40''"
  "ini_Get hbm2_ini ''power'' ''IDD2P'' '''' = ''28''"
  "ini_Get hbm2_ini ''power'' ''IDD3N'' '''' = ''55''"
  "ini_Get hbm2_ini ''power'' ''IDD4R'' '''' = ''390''"
  "ini_Get hbm2_ini ''power'' ''IDD4W'' '''' = ''500''"
  "ini_Get hbm2_ini ''power'' ''IDD5AB'' '''' = ''250''"
  "ini_Get hbm2_ini ''power'' ''IDD5PB'' '''' = ''''"
  "ini_Get hbm2_ini ''power'' ''IDD6x'' '''' = ''31''"
  "ini_Get hbm2_ini ''power'' ''VDD'' '''' = ''1.2''"
  "ini_Get hbm2_ini ''timing'' ''tCK'' '''' = ''1''"
  by code_simp+

definition reads_decimals :: "(string \<Rightarrow> real option) \<Rightarrow> bool" where
  "reads_decimals strtod \<longleftrightarrow> strtod [] = None \<and> strtod ''1'' = Some 1 \<and> strtod ''1.2'' = Some (6 / 5) \<and> strtod ''250'' = Some 250 \<and> strtod ''28'' = Some 28 \<and> strtod ''31'' = Some 31 \<and> strtod ''390'' = Some 390 \<and> strtod ''40'' = Some 40 \<and> strtod ''500'' = Some 500 \<and> strtod ''55'' = Some 55 \<and> strtod ''65'' = Some 65"

lemma hbm2_reals:
  assumes "reads_decimals strtod"
  shows
  "ini_GetReal strtod hbm2_ini ''power'' ''IDD0'' d = 65"
  "ini_GetReal strtod hbm2_ini ''power'' ''IDD2N'' d = 40"
  "ini_GetReal strtod hbm2_ini ''power'' ''IDD2P'' d = 28"
  "ini_GetReal strtod hbm2_ini ''power'' ''IDD3N'' d = 55"
  "ini_GetReal strtod hbm2_ini ''power'' ''IDD4R'' d = 390"
  "ini_GetReal strtod hbm2_ini ''power'' ''IDD4W'' d = 500"
  "ini_GetReal strtod hbm2_ini ''power'' ''IDD5AB'' d = 250"
  "ini_GetReal strtod hbm2_ini ''power'' ''IDD5PB'' d = d"
  "ini_GetReal strtod hbm2_ini ''power'' ''IDD6x'' d = 31"
  "ini_GetReal strtod hbm2_ini ''power'' ''VDD'' d = (6 / 5)"
  "ini_GetReal strtod hbm2_ini ''timing'' ''tCK'' d = 1"
  using assms by (simp_all add: ini_GetReal_def hbm2_strings reads_decimals_def)

section \<open>The initialisation functions\<close>

lemma hbm2_system:
  "InitSystemParams hbm2_ini raw = Inr (raw\<lparr>channel_size := 1024, channels := 8, bus_width := 128, address_mapping := ''rorabgbachco'',
     queue_structure := ''PER_BANK'', row_buf_policy := ''OPEN_PAGE'', cmd_queue_size := 8, trans_queue_size := 32, unified_queue := False,
     write_buf_size := 16, refresh_policy := RANK_LEVEL_STAGGERED, enable_self_refresh := False, sref_threshold := 1000,
     aggressive_precharging_enabled := False\<rparr>)"
  by (simp add: InitSystemParams_def hbm2_ints hbm2_bools hbm2_strings)

lemma hbm2_dram:
  "InitDRAMParams hbm2_ini c = Inr (c\<lparr>protocol := HBM, bankgroups := 4, banks_per_group := 4, banks := 16, rows := 32768, columns := 128, device_width := 128,
     BL := 4, num_dies := 4, enable_hbm_dual_cmd := True, num_links := 4, link_width := 16, link_speed := 15000, block_size := 64, xbar_queue_depth := 16,
     burst_cycle := 2\<rparr>)"
  by (simp add: InitDRAMParams_def hbm2_ints hbm2_bools hbm2_strings GetDRAMProtocol_def IsHBM_def IsHMC_def IsGDDR_def signed_divide_int_def)

lemma hbm2_size:
  "columns c = 128 \<Longrightarrow> device_width c = 128 \<Longrightarrow> bus_width c = 128 \<Longrightarrow> rows c = 32768 \<Longrightarrow> banks c = 16 \<Longrightarrow> channel_size c = 1024 \<Longrightarrow>
    CalculateSize c = Inr (c\<lparr>devices_per_rank := 1, ranks := 1\<rparr>)"
  by (simp add: CalculateSize_def megs_per_rank_of_def idiv_def signed_divide_int_def Let_def)

lemma hbm2_mapping:
  assumes "channels c = 8" "ranks c = 1" "bankgroups c = 4" "banks_per_group c = 4" "rows c = 32768" "columns c = 128" "BL c = 4" "bus_width c = 128"
    "address_mapping c = ''rorabgbachco''"
  shows "SetAddressMapping c = Inr (c\<lparr>request_size_bytes := 64, shift_bits := 6, ch_pos := 5, ra_pos := 12, bg_pos := 10, ba_pos := 8, ro_pos := 12, co_pos := 0,
    ch_mask := 7, ra_mask := 0, bg_mask := 3, ba_mask := 3, ro_mask := 32767, co_mask := 31\<rparr>)"
proof -
  have lg: "LogBase2 1 = 0" "LogBase2 8 = 3" "LogBase2 4 = 2" "LogBase2 32768 = 15" "LogBase2 128 = 7" "LogBase2 64 = 6"
    using LogBase2_power [of 0] LogBase2_power [of 3] LogBase2_power [of 2] LogBase2_power [of 15] LogBase2_power [of 7] LogBase2_power [of 6] by simp_all
  have m: "mask 3 = (7 :: u64)" "mask 0 = (0 :: u64)" "mask 2 = (3 :: u64)" "mask 15 = (32767 :: u64)" "mask 5 = (31 :: u64)" by (simp_all add: mask_eq_exp_minus_1)
  show ?thesis using assms by (simp add: SetAddressMapping_def field_widths_of_def map_at_def field_mask_def lg m Let_def signed_divide_int_def)
qed

lemma hbm2_timing:
  assumes "reads_decimals strtod" and "burst_cycle c = 2"
  shows "InitTimingParams strtod hbm2_ini c = c\<lparr>tCK := 1, AL := 0, CL := 14, CWL := 4, tCCD_L := 2, tCCD_S := 1, tRTRS := 2, tRTP := 5, tWTR_L := 8, tWTR_S := 6, tWR := 16, tRP := 14, tRRD_L := 6, tRRD_S := 4, tRAS := 34, tRCD := 10, tRFC := 260, tRC := 48, tCKE := 8, tCKESR := 12, tXS := 268, tXP := 8, tRFCb := 20, tREFI := 3900, tREFIb := 128, tFAW := 30, tRPRE := 1, tWPRE := 1, tPPD := 0, t32AW := 330, tRCDRD := 14, tRCDWR := 14, ideal_memory_latency := 10, RL := 14, WL := 4, read_delay := 16, write_delay := 6\<rparr>"
  using assms(2) by (simp add: InitTimingParams_def hbm2_ints hbm2_reals [OF assms(1)])

lemma hbm2_power:
  assumes "reads_decimals strtod" and "tRC c = 48" "tRAS c = 34" "tRP c = 14" "burst_cycle c = 2" "tRFC c = 260" "tRFCb c = 20" "devices_per_rank c = 1"
  shows "InitPowerParams strtod hbm2_ini c = c\<lparr>act_energy_inc := (6 / 5) * (65 * 48 - (55 * 34 + 40 * 14)), read_energy_inc := (6 / 5) * (390 - 55) * 2, write_energy_inc := (6 / 5) * (500 - 55) * 2, ref_energy_inc := (6 / 5) * (250 - 55) * 260, refb_energy_inc := (6 / 5) * (5 - 55) * 20, act_stb_energy_inc := (6 / 5) * 55, pre_stb_energy_inc := (6 / 5) * 40, pre_pd_energy_inc := (6 / 5) * 28, sref_energy_inc := (6 / 5) * 31\<rparr>"
  using assms(2-) by (simp add: InitPowerParams_def hbm2_reals [OF assms(1)])

text \<open>The file does not name the output directory: it is the one of the caller when it
  exists, and the current directory otherwise.\<close>

definition with_output :: "string \<Rightarrow> Config \<Rightarrow> Config" where
  "with_output dir c = c\<lparr>output_dir := dir, output_prefix := dir @ ''dramsim3'', json_stats_name := dir @ ''dramsim3.json'',
     json_epoch_name := dir @ ''dramsim3epoch.json'', txt_stats_name := dir @ ''dramsim3.txt''\<rparr>"

definition chosen_dir :: "(string \<Rightarrow> bool) \<Rightarrow> string \<Rightarrow> string" where
  "chosen_dir dir_exist dir = (if dir_exist dir then dir @ ''/'' else ''./'')"

lemma hbm2_other:
  "InitOtherParams dir_exist hbm2_ini c = with_output (chosen_dir dir_exist (output_dir c)) (c\<lparr>epoch_period := 1000000, output_level := 1\<rparr>)"
  by (simp add: InitOtherParams_def hbm2_ints hbm2_strings with_output_def chosen_dir_def)

lemma hbm2_config_built_any:
  assumes "reads_decimals strtod"
  shows "Config_new strtod dir_exist raw (INIReader_new (Some (print_ini hbm2_doc))) dir =
    Inr (with_output (chosen_dir dir_exist dir) hbm2_config)"
proof -
  have e: "ini_error hbm2_ini = 0" by (simp add: hbm2_ini_def)
  show ?thesis
    by (cases raw) (simp add: hbm2_read Config_new_def e hbm2_system hbm2_dram hbm2_size hbm2_mapping hbm2_timing [OF assms] hbm2_power [OF assms]
      hbm2_other with_output_def hbm2_config_def)
qed

text \<open>C18. The shipped configuration. When \<^verbatim>\<open>strtod\<close> reads the decimal numbers of the file
  \<^verbatim>\<open>configs/HBM2_8Gb_x128.ini\<close>, the constructor of \<^verbatim>\<open>Config\<close>, over the reader of the
  bytes of that file, ends without an exit and gives \<open>hbm2_config\<close>, whatever the members held
  before: 8 channels of one rank with 16 banks, 64-byte requests, the address fields at their
  positions and every timing and energy parameter with its value; the names of the output files are
  those of the given directory if it exists and of the current one otherwise.\<close>

theorem hbm2_config_built:
  assumes "reads_decimals strtod"
  shows "Config_new strtod dir_exist raw (INIReader_new (Some (print_ini hbm2_doc))) dir =
    Inr (with_output (chosen_dir dir_exist dir) hbm2_config)"
  by (rule hbm2_config_built_any [OF assms])

text \<open>A reader of plain decimal numbers that satisfies the hypothesis.\<close>

definition is_dec :: "char \<Rightarrow> bool" where
  "is_dec c \<longleftrightarrow> digit_value c < 10"

definition decimal :: "string \<Rightarrow> real option" where
  "decimal s =
     (let whole = takeWhile is_dec s; rest = dropWhile is_dec s;
          frac = (case rest of [] \<Rightarrow> [] | c # cs \<Rightarrow> if c = CHR ''.'' then takeWhile is_dec cs else [])
      in if whole = [] then None else Some (of_int (digits_value 10 0 whole) + of_int (digits_value 10 0 frac) / 10 ^ length frac))"

lemma decimal_reads: "reads_decimals decimal"
  by (simp add: reads_decimals_def decimal_def is_dec_def digit_value_def Let_def)

theorem hbm2_config_built_witness:
  "reads_decimals decimal \<and> Config_new decimal (\<lambda>_. False) hbm2_config (INIReader_new (Some (print_ini hbm2_doc))) ''out'' = Inr hbm2_config"
  using hbm2_config_built [OF decimal_reads, of "\<lambda>_. False" hbm2_config "''out''"] decimal_reads
  by (simp add: with_output_def chosen_dir_def) (simp add: hbm2_config_def)

end
