(* ===== verification/Dram_Clock.thy ===== *)
theory Dram_Clock
  imports Dram_Backend Dram_Shipped
begin

text \<open>
  A memory over its life: its clock counts its ticks, so the number of ticks bounds the times at
  which a tick may fail to keep two columns apart; its configuration does not change; closing
  its statistics at the end never fails. The place of the output files does not matter for any
  of this.
\<close>

section \<open>The place of the output files\<close>

lemma with_output_simps [simp]:
  "AddressMapping (with_output d c) = AddressMapping c" "cfg_wf (with_output d c) = cfg_wf c"
  "IsHMC (with_output d c) = IsHMC c" "queue_structure (with_output d c) = queue_structure c"
  "enable_self_refresh (with_output d c) = enable_self_refresh c" "epoch_period (with_output d c) = epoch_period c"
  "enable_hbm_dual_cmd (with_output d c) = enable_hbm_dual_cmd c" "channels (with_output d c) = channels c"
  "Refresh_new (with_output d c) = Refresh_new c" "refresh_wf (with_output d c) = refresh_wf c" "valid_bank (with_output d c) = valid_bank c"
  by (simp_all add: with_output_def AddressMapping_def cfg_wf_def IsHMC_def Refresh_new_def refresh_wf_def fun_eq_iff)

lemma chan_ok_fields:
  "chan_ok c \<longleftrightarrow> (\<forall>hex. let x = to_int (and (drop_bit (nat (ch_pos c)) (drop_bit (nat (shift_bits c)) hex)) (ch_mask c)) in 0 \<le> x \<and> x < channels c)"
  (is "?l \<longleftrightarrow> ?r")
proof
  assume l: ?l
  have "sys_config (BaseDRAMSystem_new c (\<lambda>_ _. Inr ()) (\<lambda>_ _. Inr ())) = c" by (simp add: BaseDRAMSystem_new_def)
  from l [unfolded chan_ok_def, rule_format, OF this] this show ?r by (simp add: GetChannel_def Let_def)
qed (auto simp: chan_ok_def GetChannel_def Let_def)

lemma with_output_ok: "jedec_cfg_ok (with_output d c) = jedec_cfg_ok c"
proof -
  have "chan_ok (with_output d c) = chan_ok c" unfolding chan_ok_fields by (simp add: with_output_def)
  then show ?thesis by (simp add: jedec_cfg_ok_def sys_cfg_ok_def addr_ok_def)
qed

section \<open>The clock\<close>

text \<open>A memory of controllers over a configuration, after \<open>k\<close> ticks.\<close>

definition mem_at :: "Config \<Rightarrow> nat \<Rightarrow> 's MemorySystem \<Rightarrow> bool" where
  "mem_at cfg k m \<longleftrightarrow> (\<exists>d. mem_dram m = Jedec d \<and> sys_config d = cfg \<and> sys_clk d = of_nat k)"

lemma mem_tick_at:
  assumes "mem_at cfg k m" and "mem_ClockTick m u = Inr (m', u')"
  shows "mem_at cfg (Suc k) m'"
proof -
  obtain d where d: "mem_dram m = Jedec d" "sys_config d = cfg" "sys_clk d = of_nat k" using assms(1) by (auto simp: mem_at_def)
  obtain d' where d': "jedec_ClockTick d u = Inr (d', u')" "m' = m\<lparr>mem_dram := Jedec d'\<rparr>"
    using assms(2) d(1) by (auto simp: mem_ClockTick_def res_simps)
  have "sys_config d' = cfg \<and> sys_clk d' = sys_clk d + 1"
    using d'(1) d(2) by (auto simp: jedec_ClockTick_def sys_PrintEpochStats_def Let_def res_simps split: if_splits)
  then show ?thesis using d(3) d'(2) by (simp add: mem_at_def)
qed

lemma mem_add_at: "mem_at cfg k m \<Longrightarrow> mem_AddTransaction m a w = Inr (b, m') \<Longrightarrow> mem_at cfg k m'"
  by (auto simp: mem_at_def mem_AddTransaction_def jedec_AddTransaction_def Let_def res_simps split: if_splits)

lemma at_may_tick: "mem_at cfg k m \<Longrightarrow> (enable_hbm_dual_cmd cfg \<Longrightarrow> rw_gap cfg (of_nat k)) \<Longrightarrow> mem_may_tick m"
  by (auto simp: mem_at_def mem_may_tick_def sys_may_tick_def)

lemma built_at: "MemorySystem_of cfg rcb wcb = Inr m \<Longrightarrow> \<not> IsHMC cfg \<Longrightarrow> mem_at cfg 0 m"
  by (auto simp: MemorySystem_of_def JedecDRAMSystem_new_def BaseDRAMSystem_new_def mem_at_def Let_def res_simps split: if_splits)

lemma hbm2_gap: "k < 2 ^ 63 \<Longrightarrow> rw_gap (with_output d hbm2_config) (of_nat k)"
proof -
  assume "k < 2 ^ 63"
  then have "uint (of_nat k :: u64) = int k" by (simp add: uint_nat unat_of_nat take_bit_nat_eq_self)
  moreover have "rw_delays (with_output d hbm2_config) = rw_delays hbm2_config" by (simp add: rw_delays_def timing_delay_defs with_output_def)
  ultimately show ?thesis using \<open>k < 2 ^ 63\<close> by (simp add: rw_gap_def rw_delays_def timing_delay_defs)
qed

section \<open>Closing the statistics\<close>

lemma UpdateFinalStats_ok:
  assumes wf: "stats_wf cfg s"
  shows "\<exists>s'. UpdateFinalStats cfg s = Inr s'"
proof -
  obtain s1 where s1: "UpdateCounters s = Inr s1" "stats_wf cfg s1" using UpdateCounters_spec [OF wf] by blast
  obtain d where d: "command_energy cfg (counters s1) s1 = s1\<lparr>doubles := d\<rparr>" using command_energy_frame by blast
  obtain vd e where bg: "res_fold (background_step cfg (vec_counters s1)) (irange (ranks cfg)) (vec_doubles s1, 0) = Inr (vd, e)"
    "map fst vd = vec_double_names" "\<forall>n\<in>set vec_double_names. length (sm_get [] vd n) = nat (ranks cfg)"
    by (rule background_ok [of "vec_counters s1" cfg "vec_doubles s1"]) (use s1(2) in \<open>auto simp: stats_wf_def\<close>)
  let ?s2 = "s1\<lparr>doubles := d, vec_doubles := vd\<rparr>"
  have "stats_wf cfg ?s2" using s1(2) bg(2,3) by (simp add: stats_wf_def)
  then obtain s3 where s3: "UpdateHistoBins ?s2 = Inr s3" "stats_wf cfg s3" by (rule UpdateHistoBins_spec)
  obtain c where "calculated_stats cfg (counters s3) (histo_counts s3) e s3 = Inr (s3\<lparr>calculated := c\<rparr>)"
    using calculated_stats_ok [of "histo_counts s3"] s3(2) unfolding stats_wf_def by blast
  then show ?thesis using s1(1) bg(1) s3(1) by (simp add: UpdateFinalStats_def d)
qed

lemma mem_PrintStats_ok:
  assumes "mem_inv m" and "mem_at cfg k m"
  shows "\<exists>m'. mem_PrintStats m = Inr m'"
proof -
  obtain d where d: "mem_dram m = Jedec d" "sys_wf d" using assms by (auto simp: mem_at_def mem_inv_def jedec_inv_def)
  have "\<exists>c'. ctrl_PrintFinalStats (sys_config d) c = Inr c'" if "c \<in> set (ctrls d)" for c
  proof -
    have "stats_wf (sys_config d) (ctrl_stats c)" using d(2) that by (simp add: sys_wf_def ctrl_wf_def core_ok_def)
    then show ?thesis using UpdateFinalStats_ok by (fastforce simp: ctrl_PrintFinalStats_def stats_PrintFinalStats_def)
  qed
  then have "\<exists>cs. res_map (ctrl_PrintFinalStats (sys_config d)) (ctrls d) = Inr cs \<and> list_all2 (\<lambda>_ _. True) (ctrls d) cs"
    by (intro res_map_ok) simp
  then obtain cs where "res_map (ctrl_PrintFinalStats (sys_config d)) (ctrls d) = Inr cs" by blast
  then show ?thesis using d(1) by (simp add: mem_PrintStats_def sys_PrintStats_def)
qed

end
