(* ===== verification/Anna_Run.thy ===== *)
theory Anna_Run
  imports Anna_Pipeline Dram_Clock
begin

text \<open>
  The main loop for a bounded number of ticks: the clocks of the memories count the ticks of the
  accelerator, so no tick of the loop aborts as long as their clocks stay below a bound. The
  sizes of the queries, which the report reads, are not touched by a run.
\<close>

section \<open>The clocks of the memories\<close>

definition ticked :: "Config set \<Rightarrow> nat \<Rightarrow> 's MemorySystem \<Rightarrow> bool" where
  "ticked C k m \<longleftrightarrow> (\<exists>cfg\<in>C. mem_at cfg k m)"

lemma submit_ticked:
  "submit_loop mem_WillAcceptTransaction mem_AddTransaction q m cnt = Inr (q', m', cnt') \<Longrightarrow> ticked C k m \<Longrightarrow> ticked C k m'"
proof (induction q arbitrary: m cnt)
  case (Cons a q)
  then obtain b where b: "mem_WillAcceptTransaction m a False = Inr b" by (auto simp: res_simps)
  show ?case
  proof (cases b)
    case True
    then obtain r m1 where m1: "mem_AddTransaction m a False = Inr (r, m1)"
      "submit_loop mem_WillAcceptTransaction mem_AddTransaction q m1 (cnt + 1) = Inr (q', m', cnt')" using Cons.prems(1) b by (auto simp: res_simps)
    then show ?thesis using Cons.IH [OF m1(2)] Cons.prems(2) mem_add_at [OF _ m1(1)] by (auto simp: ticked_def)
  qed (use Cons.prems b in simp)
qed simp

lemma stack_tick_ticked:
  assumes "stack_tick i (mi, tv) = Inr (mi', tv')" and "ticked C k (memory_system_list mi ! nat i)"
  shows "\<exists>m. memory_system_list mi' = (memory_system_list mi)[nat i := m] \<and> ticked C (Suc k) m"
proof -
  obtain m1 f1 q q' m2 cnt where s: "mem_ClockTick (memory_system_list mi ! nat i) (front mi) = Inr (m1, f1)"
    "submit_loop mem_WillAcceptTransaction mem_AddTransaction q m1 (memory_req_cnt tv) = Inr (q', m2, cnt)"
    "memory_system_list mi' = (memory_system_list mi)[nat i := m2]"
    using assms(1) by (auto simp: stack_tick_def res_simps)
  have "ticked C (Suc k) m1" using assms(2) mem_tick_at [OF _ s(1)] by (auto simp: ticked_def)
  then show ?thesis using submit_ticked [OF s(2)] s(3) by blast
qed

lemma stacks_ticked:
  assumes "\<forall>m\<in>set (memory_system_list mi). ticked C k m" and "res_fold stack_tick (map int [0..<j]) (mi, tv) = Inr (mi', tv')"
    and "j \<le> length (memory_system_list mi)"
  shows "length (memory_system_list mi') = length (memory_system_list mi) \<and>
    (\<forall>i<length (memory_system_list mi). ticked C (if i < j then Suc k else k) (memory_system_list mi' ! i))"
  using assms(2,3)
proof (induction j arbitrary: mi' tv')
  case 0
  then show ?case using assms(1) by simp
next
  case (Suc j)
  obtain mi1 tv1 where r: "res_fold stack_tick (map int [0..<j]) (mi, tv) = Inr (mi1, tv1)" "stack_tick (int j) (mi1, tv1) = Inr (mi', tv')"
    using Suc.prems(1) by (auto simp: res_simps)
  have ih: "length (memory_system_list mi1) = length (memory_system_list mi)"
    "\<forall>i<length (memory_system_list mi). ticked C (if i < j then Suc k else k) (memory_system_list mi1 ! i)" using Suc.IH [OF r(1)] Suc.prems(2) by simp_all
  then have "ticked C k (memory_system_list mi1 ! nat (int j))" using ih(2) [rule_format, of j] Suc.prems(2) by simp
  from stack_tick_ticked [OF r(2) this] obtain m where "memory_system_list mi' = (memory_system_list mi1)[j := m]" "ticked C (Suc k) m" by auto
  then show ?case using ih by (auto simp: nth_list_update less_Suc_eq)
qed

lemma mmi_tick_ticked:
  assumes inv: "mi_inv n mi" and t: "\<forall>m\<in>set (memory_system_list mi). ticked C k m" and run: "mmi_ClockTick mi tv = Inr (mi', tv')"
  shows "\<forall>m\<in>set (memory_system_list mi'). ticked C (Suc k) m"
proof -
  have wf: "front_wf n (front mi)" and bal: "balanced n (out_reads_of mi) (front mi)" and lm: "length (memory_system_list mi) = n"
    using inv by (simp_all add: mi_inv_def mems_ok_def)
  obtain f where f: "switch_phase (front mi) = Inr f" "front_wf n f" by (rule switch_phase_ok [OF wf bal])
  have "st_num f = of_nat n" "n < 2 ^ 64" using f(2) by (simp_all add: front_wf_def)
  then have u: "irange (uint (st_num f)) = map int [0..<n]" by (simp add: irange_def unat_of_nat_less flip: unat_eq_nat_uint)
  have "res_fold stack_tick (map int [0..<n]) (mi\<lparr>front := f\<rparr>, tv) = Inr (mi', tv')"
    using run f(1) u by (simp add: mmi_ClockTick_def switch_phase_def use_memory_switch_def Let_def)
  from stacks_ticked [OF _ this, of C k] t lm show ?thesis by (auto simp: in_set_conv_nth)
qed

section \<open>The sizes of the queries\<close>

lemma cpm_tick_sizes: "cpm_ClockTick c f tv = Inr (c', f', tv') \<Longrightarrow> queries_size tv' = queries_size tv"
  by (auto simp: cpm_ClockTick_def Let_def res_simps split: if_splits)

lemma save_sizes: "save_step d tv = Inr (d', tv') \<Longrightarrow> queries_size tv' = queries_size tv"
  by (auto simp: save_step_def res_simps split: if_splits)

lemma scm_sizes: "scm_step tb d tv = Inr (d', tv') \<Longrightarrow> queries_size tv' = queries_size tv"
  by (auto simp: scm_step_def scm_Submit_def Let_def res_simps split: if_splits)

lemma cpm_step_sizes: "cpm_step tb d tv = Inr (d', tv') \<Longrightarrow> queries_size tv' = queries_size tv"
  by (auto simp: cpm_step_def uget_def' Let_def res_simps split: if_splits)

lemma read_sizes:
  assumes "\<And>c s s'. step c s = Inr s' \<Longrightarrow> queries_size (snd s') = queries_size (snd s)" and "res_fold step q (r, tv) = Inr (r', tv')"
  shows "queries_size tv' = queries_size tv"
  using res_fold_invariant [of q "\<lambda>s. queries_size (snd s) = queries_size tv" step "(r, tv)" "(r', tv')"] assms by auto

lemma fetch_sizes:
  "efm_fetch_metadata tb (e, tv) = Inr (e', tv') \<Longrightarrow> queries_size tv' = queries_size tv"
  "efm_fetch_vectors tb (e, tv) = Inr (e', tv') \<Longrightarrow> queries_size tv' = queries_size tv"
proof -
  have m: "queries_size (snd s') = queries_size (snd s)" if "read_metadata tb c s = Inr s'" for c s s'
    using that by (auto simp: read_metadata_def res_simps split: prod.splits)
  show "queries_size tv' = queries_size tv" if "efm_fetch_metadata tb (e, tv) = Inr (e', tv')"
    using that read_sizes [OF m] by (auto simp: efm_fetch_metadata_def res_simps split: if_splits)
  have v: "queries_size (snd s') = queries_size (snd s)" if "read_vectors tb c s = Inr s'" for c s s'
    using that by (auto simp: read_vectors_def res_simps split: prod.splits)
  show "queries_size tv' = queries_size tv" if "efm_fetch_vectors tb (e, tv) = Inr (e', tv')"
    using that read_sizes [OF v] by (auto simp: efm_fetch_vectors_def res_simps split: if_splits)
qed

lemma efm_sizes: "efm_ClockTick tb e f tv = Inr (e', f', tv') \<Longrightarrow> queries_size tv' = queries_size tv"
  by (erule efm_tick_unfold) (simp add: fetch_sizes)

lemma core_sizes: "core_ClockTick tb c f tv = Inr (c', f', tv') \<Longrightarrow> queries_size tv' = queries_size tv"
  by (auto simp: core_ClockTick_def Let_def res_simps dest!: cpm_tick_sizes efm_sizes save_sizes scm_sizes cpm_step_sizes)

lemma tick_cores_sizes: "tick_cores tb cs (f, tv) = Inr (cs', f', tv') \<Longrightarrow> queries_size tv' = queries_size tv"
proof (induction cs arbitrary: f tv cs')
  case (Cons c cs)
  obtain c1 f1 tv1 cs1 where r: "core_ClockTick tb c f tv = Inr (c1, f1, tv1)" "tick_cores tb cs (f1, tv1) = Inr (cs1, f', tv')"
    using Cons.prems by (auto simp: tick_cores_def res_simps)
  then show ?case using Cons.IH [OF r(2)] core_sizes [OF r(1)] by simp
qed (simp add: tick_cores_def)

lemma mmi_sizes:
  assumes "mmi_ClockTick mi tv = Inr (mi', tv')"
  shows "queries_size tv' = queries_size tv"
proof -
  obtain f where "res_fold stack_tick (irange (uint (st_num f))) (mi\<lparr>front := f\<rparr>, tv) = Inr (mi', tv')"
    using assms by (auto simp: mmi_ClockTick_def Let_def res_simps)
  then have "queries_size (snd (mi', tv')) = queries_size tv"
    by (rule res_fold_invariant [of _ "\<lambda>s. queries_size (snd s) = queries_size tv", rotated]) (auto simp: stack_tick_def res_simps)
  then show ?thesis by simp
qed

section \<open>The main loop\<close>

text \<open>What holds between two ticks of the loop.\<close>

definition run_inv :: "anna_tables \<Rightarrow> nat \<Rightarrow> Config set \<Rightarrow> nat \<Rightarrow> MultiANNA \<times> TestValue \<Rightarrow> bool" where
  "run_inv tb Q C k = (\<lambda>(a, tv). anna_inv tb Q 8 a \<and> clocks_len Q tv \<and> (\<forall>m\<in>set (memory_system_list (memory a)). ticked C k m))"

lemma run_tick:
  assumes "tables_ok tb" and "run_inv tb Q C k (a, tv)" and "\<forall>cfg\<in>C. enable_hbm_dual_cmd cfg \<longrightarrow> rw_gap cfg (of_nat k)"
  obtains a' tv' where "anna_ClockTick tb a tv = Inr (a', tv')" and "run_inv tb Q C (Suc k) (a', tv')" and "queries_size tv' = queries_size tv"
    and "anna_may_tick a"
proof -
  have i: "anna_inv tb Q 8 a" "clocks_len Q tv" and c: "\<forall>m\<in>set (memory_system_list (memory a)). ticked C k m" using assms(2) by (simp_all add: run_inv_def)
  have t: "anna_may_tick a" using c assms(3) at_may_tick by (fastforce simp: anna_may_tick_def ticked_def)
  obtain a' tv' where r: "anna_ClockTick tb a tv = Inr (a', tv')" "anna_inv tb Q 8 a'" "clocks_len Q tv'" by (rule anna_ClockTick_ok [OF assms(1) i t])
  obtain mi1 tv1 cs f where m: "mmi_ClockTick (memory a) tv = Inr (mi1, tv1)" "tick_cores tb (anna_core_list a) (front mi1, tv1) = Inr (cs, f, tv')"
    "memory a' = mi1\<lparr>front := f\<rparr>" using r(1) by (auto simp: anna_ClockTick_def res_simps)
  have "\<forall>m\<in>set (memory_system_list (memory a')). ticked C (Suc k) m"
    using mmi_tick_ticked [OF _ c m(1), of 8] i(1) m(3) by (simp add: anna_inv_def)
  then show thesis using r mmi_sizes [OF m(1)] tick_cores_sizes [OF m(2)] t by (intro that [of a' tv']) (simp_all add: run_inv_def)
qed

lemma run_loop_bounded:
  assumes tb: "tables_ok tb" and gap: "\<forall>k<T. \<forall>cfg\<in>C. enable_hbm_dual_cmd cfg \<longrightarrow> rw_gap cfg (of_nat k)"
  shows "run_inv tb Q C k (a, tv) \<Longrightarrow> k + fuel \<le> T \<Longrightarrow> run_loop fuel tb a tv = Inl OutOfFuel \<or>
    (\<exists>a' tv' k'. run_loop fuel tb a tv = Inr (a', tv') \<and> run_inv tb Q C k' (a', tv') \<and> queries_size tv' = queries_size tv \<and>
      list_all core_IsFinished (anna_core_list a'))"
proof (induction fuel arbitrary: k a tv)
  case (Suc fuel)
  have "\<forall>cfg\<in>C. enable_hbm_dual_cmd cfg \<longrightarrow> rw_gap cfg (of_nat k)" using gap Suc.prems(2) by simp
  from run_tick [OF tb Suc.prems(1) this] obtain a1 tv1 where r: "anna_ClockTick tb a tv = Inr (a1, tv1)" "run_inv tb Q C (Suc k) (a1, tv1)"
    "queries_size tv1 = queries_size tv" by blast
  show ?case
  proof (cases "list_all core_IsFinished (anna_core_list a1)")
    case True
    then show ?thesis using r by auto
  next
    case False
    then show ?thesis using Suc.IH [OF r(2)] Suc.prems(2) r by auto
  qed
qed simp

end
