(* ===== verification/Anna_Program.thy ===== *)
theory Anna_Program
  imports Anna_Run
begin

text \<open>
  \<^verbatim>\<open>multi_anna/test.cpp\<close>: the program from the text of its files to its report. The
  constructors read the configuration file for every stack; \<^verbatim>\<open>main\<close> loads the sizes of
  the clusters and the clusters of the queries, prepares the tables and counters, runs the
  accelerator and computes the latencies. Paths, printing and directories are input and output; a
  file is its list of lines.
\<close>

section \<open>Constructors over a configuration file\<close>

definition MultiMemoryInterface_new ::
  "(string \<Rightarrow> real option) \<Rightarrow> (string \<Rightarrow> bool) \<Rightarrow> (int \<Rightarrow> Config) \<Rightarrow> INIReader \<Rightarrow> string \<Rightarrow> int \<Rightarrow> MultiMemoryInterface res" where
  "MultiMemoryInterface_new strtod dir_exist raw reader out_dir n =
     res_bind (mmi_new n) (\<lambda>f.
     res_bind (res_map (\<lambda>i. MemorySystem_new strtod dir_exist (raw i) reader (out_dir @ ''/'' @ dec (nat i))
         (ReadCallback (of_int i)) (WriteCallback (of_int i))) (irange n)) (\<lambda>ms.
       Inr \<lparr>memory_system_list = ms, front = f\<rparr>))"

definition MultiANNA_new ::
  "(string \<Rightarrow> real option) \<Rightarrow> (string \<Rightarrow> bool) \<Rightarrow> (int \<Rightarrow> Config) \<Rightarrow> INIReader \<Rightarrow> string \<Rightarrow> int \<Rightarrow> MultiANNA res" where
  "MultiANNA_new strtod dir_exist raw reader output_path n =
     res_bind (MultiMemoryInterface_new strtod dir_exist raw reader output_path n) (\<lambda>mi.
     res_bind (res_fold add_core (irange n) (front mi, [])) (\<lambda>(f, cs).
       Inr \<lparr>memory = mi\<lparr>front := f\<rparr>, anna_core_list = cs, cluster_list = [], query_set_list = [], batch_size = 0,
         queries = [], core_num = of_int n, clock = 0\<rparr>))"

section \<open>Loading\<close>

text \<open>The extraction of an \<^verbatim>\<open>int\<close>: a value out of range gives the nearest one.\<close>

definition extract_int :: "string \<Rightarrow> int" where
  "extract_int s =
     (let t = dropWhile (\<lambda>c. c \<in> {CHR '' '', CHR 0x09, CHR 0x0A, CHR 0x0B, CHR 0x0C, CHR 0x0D}) s;
          neg = (t \<noteq> [] \<and> hd t = CHR ''-'');
          r = (if t \<noteq> [] \<and> hd t \<in> {CHR ''-'', CHR ''+''} then tl t else t);
          v = int (dec_value (takeWhile is_digit r))
      in max (- (2 ^ 31)) (min (2 ^ 31 - 1) (if neg then - v else v)))"

definition load_sizes :: "string list \<Rightarrow> int list" where
  "load_sizes lines = LoadList extract_int lines"

definition prepare_queries :: "u64 \<Rightarrow> string list \<Rightarrow> u64 list list" where
  "prepare_queries query_num lines = LoadCSV extract_u64 (to_int query_num) (to_int W) 0 lines"

text \<open>The functions that draw tables and queries at random; \<open>rnd k\<close> is the \<open>k\<close>-th result of
  \<^verbatim>\<open>rand\<close>.\<close>

definition prepare_random_config :: "(nat \<Rightarrow> int) \<Rightarrow> u64 \<Rightarrow> anna_tables" where
  "prepare_random_config rnd n =
     (let (cl, now) = fold (\<lambda>i (cl, now).
           let len = of_int (rnd (unat i)) mod MAX_CLUSTER_LEN; bytes = (len * ENCODED_VECTOR_SIZE_PER_BITS + 7) div 8
           in (cl @ [\<lparr>start_addr = now, cluster_bytes = bytes, vector_num = len\<rparr>], now + bytes)) (urange n) ([], cluster_addr_start)
      in \<lparr>metadata_addr = map (\<lambda>i. (metadata_addr_start + i * METADATA_LEN, METADATA_LEN)) (urange n),
          cluster_addr = cl,
          cluster_centroid = map (\<lambda>i. cluster_centroid_addr_start + i * VECTOR_SIZE) (urange n)\<rparr>)"

definition prepare_random_queries :: "(nat \<Rightarrow> int) \<Rightarrow> u64 \<Rightarrow> u64 \<Rightarrow> u64 list list" where
  "prepare_random_queries rnd queries_num cluster_num =
     map (\<lambda>i. map (\<lambda>j. of_int (rnd (unat i * unat cluster_num + unat j)) mod CLUSTER_NUM) (urange cluster_num)) (urange queries_num)"

section \<open>The report\<close>

record query_line =
  ql_start :: u64
  ql_end :: u64
  ql_latency :: u64
  ql_size :: u64

definition query_report :: "TestValue \<Rightarrow> u64 \<Rightarrow> query_line res" where
  "query_report tv i =
     res_bind (uget (queries_start_clock tv) i) (\<lambda>st.
     res_bind (uget (queries_end_clock tv) i) (\<lambda>ed.
     res_bind (uget (queries_size tv) i) (\<lambda>sz.
       Inr \<lparr>ql_start = st, ql_end = ed, ql_latency = ed - st, ql_size = sz\<rparr>)))"

definition average_latency :: "query_line list \<Rightarrow> u64 \<Rightarrow> real" where
  "average_latency ls query_num = foldl (\<lambda>s r. s + u64_real (ql_latency r)) 0 ls / u64_real query_num"

definition result_counters :: "TestValue \<Rightarrow> u64 list" where
  "result_counters tv =
     [cpm_topk_calc_cnt tv, cpm_cu_calc_cnt tv, scm_topk_calc_cnt tv, scm_reduction_tree_calc_cnt tv,
      cpm_query_buffer_read tv, cpm_query_buffer_write tv, cpm_codebook_buffer_read tv, cpm_codebook_buffer_write tv,
      efm_encoded_vector_buffer_read tv, efm_encoded_vector_buffer_write tv, scm_lookup_table_buffer_read tv,
      scm_lookup_table_buffer_write tv, cpm_memory_reader_read tv, efm_memory_reader_read tv]"

text \<open>The figures that the console and the log show first.\<close>

definition summary_values :: "u64 \<Rightarrow> MultiANNA \<Rightarrow> TestValue \<Rightarrow> u64 list" where
  "summary_values query_num a tv =
     [use_memory_switch, N_u, N_cu, N_scm, W, query_num, BATCH_SIZE, getClockNum a, cluster_vector_cnt tv, memory_req_cnt tv,
      cpm_computing_cycle_cnt tv, scm_computing_cycle_cnt tv, efm_blocked_cycle_cnt tv]"

definition average_bandwidth :: "MultiANNA \<Rightarrow> TestValue \<Rightarrow> real" where
  "average_bandwidth a tv = u64_real (memory_req_cnt tv) * 64 / u64_real (getClockNum a) / 1024 * 1000 / 1024 * 1000 / 1024 * 1000"

record report =
  rp_summary :: "u64 list"
  rp_bandwidth :: real
  rp_lines :: "query_line list"
  rp_total_ms :: real
  rp_average_ms :: real
  rp_counters :: "u64 list"

definition make_report :: "u64 \<Rightarrow> MultiANNA \<Rightarrow> TestValue \<Rightarrow> report res" where
  "make_report query_num a tv =
     res_bind (res_map (query_report tv) (urange query_num)) (\<lambda>ls.
       Inr \<lparr>rp_summary = summary_values query_num a tv, rp_bandwidth = average_bandwidth a tv, rp_lines = ls, rp_total_ms = u64_real (getClockNum a) / 10 ^ 6,
            rp_average_ms = average_latency ls query_num / 10 ^ 6, rp_counters = result_counters tv\<rparr>)"

text \<open>The program, with at most \<open>fuel\<close> ticks of the main loop.\<close>

definition anna_main ::
  "nat \<Rightarrow> (string \<Rightarrow> real option) \<Rightarrow> (string \<Rightarrow> bool) \<Rightarrow> (int \<Rightarrow> Config) \<Rightarrow> string option \<Rightarrow> string list \<Rightarrow> string list \<Rightarrow> string \<Rightarrow> report res" where
  "anna_main fuel strtod dir_exist raw config_file size_lines query_lines output_path =
     res_bind (prepare_config CLUSTER_NUM (load_sizes size_lines)) (\<lambda>tb.
     (let qs = prepare_queries QUERY_NUM query_lines in
     res_bind (prepare_test_value tb qs QUERY_NUM) (\<lambda>tv.
     res_bind (MultiANNA_new strtod dir_exist raw (INIReader_new config_file) output_path 8) (\<lambda>a.
     res_bind (anna_Run fuel tb CLUSTER_NUM BATCH_SIZE (anna_Setup qs a) tv) (\<lambda>(a', tv').
       make_report QUERY_NUM a' tv')))))"

section \<open>Loading\<close>

text \<open>The random tables are those of the clusters drawn.\<close>

lemma random_config_layout:
  assumes "\<forall>k<unat n. 0 \<le> rnd k \<and> rnd k < 2 ^ 31"
  shows "prepare_config n (map (\<lambda>k. rnd k mod 20000) [0..<unat n]) = Inr (prepare_random_config rnd n)"
proof -
  let ?sizes = "map (\<lambda>k. rnd k mod 20000) [0..<unat n]"
  let ?f = "\<lambda>i (cl, now). let len = of_int (rnd (unat i)) mod MAX_CLUSTER_LEN; bytes = (len * ENCODED_VECTOR_SIZE_PER_BITS + 7) div 8
           in (cl @ [\<lparr>start_addr = now, cluster_bytes = bytes, vector_num = len\<rparr>], now + bytes)"
  have len: "(of_int (rnd k mod 20000) :: u64) = of_int (rnd k) mod MAX_CLUSTER_LEN" if "k < unat n" for k
  proof -
    have b: "0 \<le> rnd k" "rnd k < 2 ^ 31" using assms that by simp_all
    have "uint (of_int (rnd k) :: u64) = rnd k" "uint (of_int (rnd k mod 20000) :: u64) = rnd k mod 20000"
      unfolding uint_word_of_int using b by (simp_all add: take_bit_int_eq_self order.strict_trans2 [OF pos_mod_bound])
    then have "uint (of_int (rnd k mod 20000) :: u64) = uint (of_int (rnd k) mod MAX_CLUSTER_LEN :: u64)"
      by (simp add: uint_mod MAX_CLUSTER_LEN_def)
    then show ?thesis by (simp only: word_uint_eq_iff)
  qed
  have step: "layout_step ?sizes i s = Inr (?f i s)" if "i \<in> set (urange n)" for i s
  proof -
    have "unat i < unat n" using that unsigned_less [of n, where 'a = nat] by (auto simp: urange_def unat_of_nat_less)
    then show ?thesis using len by (cases s) (simp add: layout_step_def uget_def' encoded_bytes_def Let_def)
  qed
  have "res_fold (layout_step ?sizes) xs s = Inr (fold ?f xs s)" if "set xs \<subseteq> set (urange n)" for xs s
    using that by (induction xs arbitrary: s) (simp_all add: step)
  from this [of "urange n" "([], cluster_addr_start)"] show ?thesis
    by (simp add: prepare_config_def prepare_random_config_def split: prod.split)
qed

lemma csv_row_length: "length r < k \<Longrightarrow> length (csv_row ex (int k) vs r) \<le> k"
proof (induction vs arbitrary: r)
  case (Cons v vs)
  then show ?case using Cons.IH [of "r @ [ex v]"] by (simp add: Let_def)
qed simp

lemma LoadCSV_size:
  "0 < k \<Longrightarrow> length (LoadCSV ex (int m) (int k) (int c) lines) \<le> m - c \<and> (\<forall>row\<in>set (LoadCSV ex (int m) (int k) (int c) lines). length row \<le> k)"
proof (induction lines arbitrary: c)
  case (Cons line lines)
  have c: "int c + 1 = int (Suc c)" by simp
  show ?case
  proof (cases "c < m")
    case True
    have "length (csv_row ex (int k) vs []) \<le> k" for vs using csv_row_length [of "[]" k ex vs] Cons.prems by simp
    then show ?thesis using Cons.IH [of "Suc c"] Cons.prems True unfolding LoadCSV.simps c by auto
  qed simp
qed simp

lemma program_constants: "to_int QUERY_NUM = int 1024" "to_int W = int 128" "unat QUERY_NUM = 1024" "unat CLUSTER_NUM = 16384" "unat BATCH_SIZE = 16"
  by (simp_all add: anna_constants to_int_def signed_take_bit_int_eq_self)

lemma sum_bounded: "\<forall>x\<in>set xs. length x \<le> k \<Longrightarrow> (\<Sum>x\<leftarrow>xs. length x) \<le> length xs * k"
  by (induction xs) auto

lemma prepare_queries_size: "length (prepare_queries QUERY_NUM l) \<le> 1024" "(\<Sum>q\<leftarrow>prepare_queries QUERY_NUM l. length q) \<le> 8 * 16384"
proof -
  have s: "length (prepare_queries QUERY_NUM l) \<le> 1024 \<and> (\<forall>row\<in>set (prepare_queries QUERY_NUM l). length row \<le> 128)"
    using LoadCSV_size [of 128 extract_u64 1024 0 l] unfolding prepare_queries_def program_constants(1,2) by simp
  then show "length (prepare_queries QUERY_NUM l) \<le> 1024" by simp
  have "(\<Sum>q\<leftarrow>prepare_queries QUERY_NUM l. length q) \<le> length (prepare_queries QUERY_NUM l) * 128" using s by (intro sum_bounded) simp
  then show "(\<Sum>q\<leftarrow>prepare_queries QUERY_NUM l. length q) \<le> 8 * 16384" using s by linarith
qed

lemma extract_int_bound: "extract_int s < 2 ^ 31"
  by (simp add: extract_int_def Let_def)

lemma prepare_test_value_ok:
  assumes "queries_ok (length (cluster_addr tb)) qs"
  obtains tv where "prepare_test_value tb qs query_num = Inr tv" and "length (queries_size tv) = length qs"
proof -
  have one: "\<exists>tv'. query_step tb q tv = Inr tv' \<and> length (queries_size tv') = Suc (length (queries_size tv))"
    if "\<forall>c\<in>set q. unat c < length (cluster_addr tb)" for q tv
  proof -
    have "\<exists>s. res_fold (\<lambda>c (size, cnt). res_bind (uget (cluster_addr tb) c) (\<lambda>cl. Inr (size + vector_num cl, cnt + vector_num cl)))
        q (0, cluster_vector_cnt tv) = Inr s \<and> True" by (rule res_fold_ok) (use that in \<open>auto simp: uget_def'\<close>)
    then show ?thesis by (auto simp: query_step_def)
  qed
  have "\<exists>tv'. res_fold (query_step tb) qs tv = Inr tv' \<and> length (queries_size tv') = length (queries_size tv) + length qs"
    if "queries_ok (length (cluster_addr tb)) qs" for tv
    using that
  proof (induction qs arbitrary: tv)
    case (Cons q qs)
    obtain tv1 where "query_step tb q tv = Inr tv1" "length (queries_size tv1) = Suc (length (queries_size tv))"
      using one [of q tv] Cons.prems by (auto simp: queries_ok_def)
    then show ?case using Cons.IH [of tv1] Cons.prems by (auto simp: queries_ok_def)
  qed simp
  from this [OF assms, of TestValue_new] show thesis
    by (auto simp: prepare_test_value_def TestValue_new_def Let_def intro: that)
qed

section \<open>Construction\<close>

definition stack_config :: "(string \<Rightarrow> bool) \<Rightarrow> string \<Rightarrow> int \<Rightarrow> Config" where
  "stack_config dir_exist out i = with_output (chosen_dir dir_exist (out @ ''/'' @ dec (nat i))) hbm2_config"

lemma MultiANNA_new_shipped:
  assumes "reads_decimals strtod"
  shows "MultiANNA_new strtod dir_exist raw (INIReader_new (Some (print_ini hbm2_doc))) out n = MultiANNA_of n (stack_config dir_exist out)"
  by (simp add: MultiANNA_new_def MultiANNA_of_def MultiMemoryInterface_new_def MultiMemoryInterface_of_def MemorySystem_new_def
      hbm2_config_built_any [OF assms] stack_config_def)

lemma res_map_set: "res_map f xs = Inr ys \<Longrightarrow> y \<in> set ys \<Longrightarrow> \<exists>x\<in>set xs. f x = Inr y"
  by (induction xs arbitrary: ys) (auto simp: res_simps)

lemma MultiANNA_of_ticked:
  assumes "MultiANNA_of n cfg = Inr a" and "\<forall>i. cfg i \<in> C \<and> \<not> IsHMC (cfg i)"
  shows "\<forall>m\<in>set (memory_system_list (memory a)). ticked C 0 m"
proof
  fix m assume "m \<in> set (memory_system_list (memory a))"
  then obtain ms where "res_map (\<lambda>i. MemorySystem_of (cfg i) (ReadCallback (of_int i)) (WriteCallback (of_int i))) (irange n) = Inr ms" "m \<in> set ms"
    using assms(1) by (auto simp: MultiANNA_of_def MultiMemoryInterface_of_def res_simps)
  from res_map_set [OF this] show "ticked C 0 m" using built_at assms(2) unfolding ticked_def by blast
qed

section \<open>The report of a run\<close>

lemma make_report_ok:
  assumes "clocks_len (unat q) tv" and "length (queries_size tv) = unat q"
  shows "\<exists>r. make_report q a tv = Inr r \<and> length (rp_lines r) = unat q"
proof -
  have "\<exists>y. query_report tv i = Inr y \<and> True" if "i \<in> set (urange q)" for i
  proof -
    have "unat i < unat q" using that unsigned_less [of q, where 'a = nat] by (auto simp: urange_def unat_of_nat_less)
    then show ?thesis using assms by (simp add: query_report_def uget_def' clocks_len_def)
  qed
  then have "\<exists>ls. res_map (query_report tv) (urange q) = Inr ls \<and> list_all2 (\<lambda>_ _. True) (urange q) ls" by (rule res_map_ok)
  then show ?thesis by (auto simp: make_report_def urange_def dest: list_all2_lengthD)
qed

lemma PrintStats_ok:
  assumes "mi_inv n mi" and "\<forall>m\<in>set (memory_system_list mi). ticked C k m"
  shows "\<exists>mi'. mmi_PrintStats mi = Inr mi'"
proof -
  have "\<forall>m\<in>set (memory_system_list mi). mem_inv m" using assms(1) by (auto simp: mi_inv_def mems_ok_def in_set_conv_nth)
  then have "\<exists>ms. res_map mem_PrintStats (memory_system_list mi) = Inr ms \<and> list_all2 (\<lambda>_ _. True) (memory_system_list mi) ms"
    using assms(2) mem_PrintStats_ok by (intro res_map_ok) (fastforce simp: ticked_def)
  then show ?thesis by (auto simp: mmi_PrintStats_def)
qed

text \<open>The configurations of the stacks and the time for which they keep two columns apart.\<close>

definition shipped_configs :: "Config set" where
  "shipped_configs = range (\<lambda>d. with_output d hbm2_config)"

lemma shipped_gap: "\<forall>k<2 ^ 63. \<forall>cfg\<in>shipped_configs. enable_hbm_dual_cmd cfg \<longrightarrow> rw_gap cfg (of_nat k)"
  using hbm2_gap by (auto simp: shipped_configs_def)

lemma stack_config_ok: "mem_cfg_ok (stack_config de out i)" "stack_config de out i \<in> shipped_configs" "\<not> IsHMC (stack_config de out i)"
  using hbm2_jedec_ok by (simp_all add: stack_config_def mem_cfg_ok_def with_output_ok shipped_configs_def)

text \<open>The program up to its main loop.\<close>

lemma program_prepared:
  assumes "16384 \<le> length (load_sizes size_lines)" and "\<forall>n\<in>set (load_sizes size_lines). 0 \<le> n"
    and "length (prepare_queries QUERY_NUM query_lines) = 1024" and "queries_ok 16384 (prepare_queries QUERY_NUM query_lines)"
  obtains tb tv a0 a1 where "prepare_config CLUSTER_NUM (load_sizes size_lines) = Inr tb"
    and "prepare_test_value tb (prepare_queries QUERY_NUM query_lines) QUERY_NUM = Inr tv"
    and "MultiANNA_of 8 (stack_config dir_exist out) = Inr a0"
    and "anna_prepare CLUSTER_NUM BATCH_SIZE (anna_Setup (prepare_queries QUERY_NUM query_lines) a0) = Inr a1"
    and "tables_ok tb" and "run_inv tb 1024 shipped_configs 0 (a1, tv)" and "length (queries_size tv) = 1024"
proof -
  let ?n = CLUSTER_NUM and ?qs = "prepare_queries QUERY_NUM query_lines" and ?sizes = "load_sizes size_lines" and ?cfg = "stack_config dir_exist out"
  note pc = program_constants
  have "?sizes ! i < 2 ^ 31" if "i < length ?sizes" for i
    using that extract_int_bound by (simp add: load_sizes_def LoadList_def)
  then have sizes: "\<forall>i<unat ?n. 0 \<le> ?sizes ! i \<and> ?sizes ! i < 2 ^ 31" using assms(1,2) unfolding pc by simp
  have n: "unat ?n \<le> length ?sizes" "unat ?n \<le> 2 ^ 24" using assms(1) by (simp_all add: pc)
  obtain cl now where "res_fold (layout_step ?sizes) (urange ?n) ([], cluster_addr_start) = Inr (cl, now)"
    using layout_run [OF sizes n] unfolding urange_def by blast
  then obtain tb where tb: "prepare_config ?n ?sizes = Inr tb" by (simp add: prepare_config_def)
  note tbl = prepare_config_tables [OF tb sizes n]
  obtain tv where tv: "prepare_test_value tb ?qs QUERY_NUM = Inr tv" "length (queries_size tv) = length ?qs"
    by (rule prepare_test_value_ok [of tb ?qs QUERY_NUM]) (use assms(4) tbl(2) in \<open>simp add: pc\<close>)
  have len: "clocks_len 1024 tv" using prepare_test_value_clocks [OF tv(1)] by (simp add: pc)
  obtain a0 where a0: "MultiANNA_of 8 ?cfg = Inr a0" "anna_built tb 8 a0" by (rule MultiANNA_of_ok [of ?cfg]) (use stack_config_ok(1) in auto)
  let ?a = "anna_Setup ?qs a0"
  have b: "anna_built tb 8 ?a" "queries ?a = ?qs" using a0(2) by (simp_all add: anna_built_def anna_Setup_def)
  have q: "queries_ok (unat ?n) (queries ?a)" "0 < BATCH_SIZE" "length (queries ?a) + unat BATCH_SIZE < 2 ^ 64" "length (queries ?a) \<le> 1024"
    "(\<Sum>q\<leftarrow>queries ?a. length q) \<le> 8 * unat ?n"
    using assms(3,4) b(2) prepare_queries_size(2) [of query_lines] by (simp_all add: pc) (simp add: BATCH_SIZE_def)
  obtain a1 where a1: "anna_prepare ?n BATCH_SIZE ?a = Inr a1" "anna_inv tb 1024 8 a1" "memory a1 = memory ?a"
    by (rule anna_prepare_inv [OF b(1) tbl(2) q])
  have "\<forall>m\<in>set (memory_system_list (memory a1)). ticked shipped_configs 0 m"
    using MultiANNA_of_ticked [OF a0(1)] stack_config_ok(2,3) a1(3) by (simp add: anna_Setup_def)
  then have "run_inv tb 1024 shipped_configs 0 (a1, tv)" using a1(2) len by (simp add: run_inv_def)
  then show thesis using tv(2) assms(3) by (intro that [OF tb tv(1) a0(1) a1(1) tbl(1)]) simp_all
qed

text \<open>With fewer queries than lines in the report, the program reads past the end of their sizes.\<close>

lemma res_map_error:
  assumes "x \<in> set xs" and "f x = Inl e" and "\<And>y e'. f y = Inl e' \<Longrightarrow> e' = e"
  shows "res_map f xs = Inl e"
  using assms(1)
proof (induction xs)
  case (Cons y ys)
  show ?case
  proof (cases "f y")
    case (Inl e')
    from assms(3) [OF this] show ?thesis using Inl by simp
  next
    case (Inr z)
    then have "x \<noteq> y" using assms(2) by auto
    then have "res_map f ys = Inl e" using Cons by simp
    then show ?thesis using Inr by simp
  qed
qed simp

lemma report_past_end:
  assumes "length (queries_size tv) < unat q"
  shows "make_report q a tv = Inl OutOfRange"
proof -
  let ?x = "of_nat (length (queries_size tv)) :: u64"
  have "length (queries_size tv) < 2 ^ 64" using assms unsigned_less [of q, where 'a = nat] by simp
  then have "unat ?x = length (queries_size tv)" by (rule unat_of_nat_less)
  then have "query_report tv ?x = Inl OutOfRange" by (simp add: query_report_def uget_def')
  moreover have "?x \<in> set (urange q)" using assms by (auto simp: urange_def)
  moreover have "e = OutOfRange" if "query_report tv y = Inl e" for y e using that by (auto simp: query_report_def uget_def' split: if_splits)
  ultimately have "res_map (query_report tv) (urange q) = Inl OutOfRange" by (intro res_map_error)
  then show ?thesis by (simp add: make_report_def)
qed

section \<open>Properties\<close>

text \<open>C2. The program never aborts. Run it on the shipped configuration file, on any list of at least 16384
  cluster sizes, none negative, and on a file with 1024 queries that name clusters below 16384. Whatever the
  output directories are and whatever the memory held before, it ends with a report of 1024 lines, or it has
  not finished after the given number of ticks, up to \<open>2 ^ 63\<close>: parsing, construction, the
  distribution of the queries, every tick of the accelerator and its memories, the closing of the statistics
  and the report never fail an assertion, index out of range, miss a key or exit.\<close>

theorem program_never_aborts:
  assumes "reads_decimals strtod"
    and "16384 \<le> length (load_sizes size_lines)" and "\<forall>n\<in>set (load_sizes size_lines). 0 \<le> n"
    and "length (prepare_queries QUERY_NUM query_lines) = 1024" and "queries_ok 16384 (prepare_queries QUERY_NUM query_lines)"
    and "fuel \<le> 2 ^ 63"
  shows "(\<exists>r. anna_main fuel strtod dir_exist raw (Some (print_ini hbm2_doc)) size_lines query_lines out = Inr r \<and> length (rp_lines r) = 1024) \<or>
    anna_main fuel strtod dir_exist raw (Some (print_ini hbm2_doc)) size_lines query_lines out = Inl OutOfFuel"
proof -
  note pc = program_constants
  obtain tb tv a0 a1 where p: "prepare_config CLUSTER_NUM (load_sizes size_lines) = Inr tb"
    "prepare_test_value tb (prepare_queries QUERY_NUM query_lines) QUERY_NUM = Inr tv" "MultiANNA_of 8 (stack_config dir_exist out) = Inr a0"
    "anna_prepare CLUSTER_NUM BATCH_SIZE (anna_Setup (prepare_queries QUERY_NUM query_lines) a0) = Inr a1"
    "tables_ok tb" "run_inv tb 1024 shipped_configs 0 (a1, tv)" "length (queries_size tv) = 1024"
    by (rule program_prepared [OF assms(2-5)])
  have main: "anna_main fuel strtod dir_exist raw (Some (print_ini hbm2_doc)) size_lines query_lines out =
      res_bind (run_loop fuel tb a1 tv) (\<lambda>(a2, tv2). res_bind (mmi_PrintStats (memory a2)) (\<lambda>mi. make_report QUERY_NUM (a2\<lparr>memory := mi\<rparr>) tv2))"
    by (cases "run_loop fuel tb a1 tv")
      (auto simp: anna_main_def p(1-4) Let_def MultiANNA_new_shipped [OF assms(1)] anna_Run_def res_bind_assoc split: prod.splits)
  from run_loop_bounded [OF p(5) shipped_gap p(6), of fuel] assms(6)
  consider (fuel) "run_loop fuel tb a1 tv = Inl OutOfFuel" | (ended) a2 tv2 k where "run_loop fuel tb a1 tv = Inr (a2, tv2)"
    "run_inv tb 1024 shipped_configs k (a2, tv2)" "queries_size tv2 = queries_size tv" by auto
  then show ?thesis
  proof cases
    case ended
    have i: "mi_inv 8 (memory a2)" "clocks_len 1024 tv2" "\<forall>m\<in>set (memory_system_list (memory a2)). ticked shipped_configs k m"
      using ended(2) by (simp_all add: run_inv_def anna_inv_def)
    obtain mi where mi: "mmi_PrintStats (memory a2) = Inr mi" using PrintStats_ok [OF i(1,3)] by blast
    have "\<exists>r. make_report QUERY_NUM (a2\<lparr>memory := mi\<rparr>) tv2 = Inr r \<and> length (rp_lines r) = 1024"
      using make_report_ok [of QUERY_NUM tv2] i(2) ended(3) p(7) by (simp add: pc)
    then show ?thesis using ended(1) mi by (simp add: main)
  qed (simp add: main)
qed

lemma sample_queries_loaded: "prepare_queries QUERY_NUM (replicate 1024 (csv_line [7, 9])) = replicate 1024 [7, 9]"
  using LoadCSV_lines [of "replicate 1024 [7, 9]" 128 1024 0] unfolding prepare_queries_def program_constants(1,2) map_replicate
  by (simp only: take_replicate map_replicate) simp

lemma sample_sizes_loaded: "load_sizes (replicate 16384 ''5'') = replicate 16384 5"
proof -
  have "extract_int ''5'' = 5" by code_simp
  then show ?thesis by (simp add: load_sizes_def LoadList_def)
qed

theorem program_never_aborts_witness:
  "reads_decimals decimal \<and> length (load_sizes (replicate 16384 ''5'')) = 16384 \<and>
    length (prepare_queries QUERY_NUM (replicate 1024 (csv_line [7, 9]))) = 1024 \<and>
    ((\<exists>r. anna_main 100000 decimal (\<lambda>_. True) (\<lambda>_. hbm2_config) (Some (print_ini hbm2_doc)) (replicate 16384 ''5'') (replicate 1024 (csv_line [7, 9])) ''./output'' =
        Inr r \<and> length (rp_lines r) = 1024) \<or>
     anna_main 100000 decimal (\<lambda>_. True) (\<lambda>_. hbm2_config) (Some (print_ini hbm2_doc)) (replicate 16384 ''5'') (replicate 1024 (csv_line [7, 9])) ''./output'' =
        Inl OutOfFuel)"
proof -
  have "queries_ok 16384 (replicate 1024 [7, 9 :: u64])" by (simp add: queries_ok_def)
  then have h: "16384 \<le> length (load_sizes (replicate 16384 ''5''))" "\<forall>n\<in>set (load_sizes (replicate 16384 ''5'')). 0 \<le> n"
    "length (prepare_queries QUERY_NUM (replicate 1024 (csv_line [7, 9]))) = 1024"
    "queries_ok 16384 (prepare_queries QUERY_NUM (replicate 1024 (csv_line [7, 9])))"
    unfolding sample_sizes_loaded sample_queries_loaded by simp_all
  have f: "(100000 :: nat) \<le> 2 ^ 63" by simp
  have l: "length (load_sizes (replicate 16384 ''5'')) = 16384" unfolding sample_sizes_loaded by (rule length_replicate)
  show ?thesis by (intro conjI decimal_reads l h(3) program_never_aborts [OF decimal_reads h f])
qed

end
