(* ===== verification/Anna_Parallel.thy ===== *)
theory Anna_Parallel
  imports Anna_Memory_Run
begin

text \<open>
  The loop over the memory stacks in \<^verbatim>\<open>MultiMemoryInterface::ClockTick\<close> is marked
  \<^verbatim>\<open>omp parallel for\<close>. The locale \<open>indexed_state\<close> says what it takes for such a
  loop to be deterministic: every iteration reads and writes one slice of the state, and the counter
  that all iterations share is only added to. The slice of a stack is its memory, its request
  queue, its ready queues, its map of readers and its input queue of the switch; with the
  interpretation on these slices every order of the iterations gives the state of the
  sequential loop.
\<close>

section \<open>Steps on slices of a state\<close>

locale indexed_state =
  fixes valid :: "'s \<Rightarrow> bool" and idx :: "nat \<Rightarrow> bool" and shared :: "'s \<Rightarrow> 'f"
    and get :: "nat \<Rightarrow> 's \<Rightarrow> 'v" and put :: "nat \<Rightarrow> 'v \<Rightarrow> 's \<Rightarrow> 's"
    and bump :: "u64 \<Rightarrow> 't \<Rightarrow> 't"
  assumes get_same: "valid s \<Longrightarrow> idx i \<Longrightarrow> get i (put i v s) = v"
    and get_other: "valid s \<Longrightarrow> i \<noteq> j \<Longrightarrow> get j (put i v s) = get j s"
    and put_put: "valid s \<Longrightarrow> put i w (put i v s) = put i w s"
    and put_swap: "valid s \<Longrightarrow> i \<noteq> j \<Longrightarrow> put i v (put j w s) = put j w (put i v s)"
    and put_get: "valid s \<Longrightarrow> idx i \<Longrightarrow> put i (get i s) s = s"
    and valid_put: "valid s \<Longrightarrow> valid (put i v s)"
    and shared_put: "shared (put i v s) = shared s"
    and bump_swap: "bump k (bump l t) = bump l (bump k t)"
begin

text \<open>An operation is local to a slice when what it does there depends on that slice and on the
  shared part only, and it changes nothing else.\<close>

definition local_op :: "nat \<Rightarrow> ('s \<Rightarrow> 's res) \<Rightarrow> bool" where
  "local_op i F \<longleftrightarrow> (\<forall>s s' g. valid s \<longrightarrow> valid s' \<longrightarrow> shared s = shared s' \<longrightarrow> get i s = get i s' \<longrightarrow> F s = Inr g \<longrightarrow>
     (\<exists>v. g = put i v s \<and> F s' = Inr (put i v s')))"

lemma local_opD:
  assumes "local_op i F" and "valid s" and "valid s'" and "shared s = shared s'" and "get i s = get i s'" and "F s = Inr g"
  obtains v where "g = put i v s" and "F s' = Inr (put i v s')"
  using assms unfolding local_op_def by blast

lemma local_op_id: "idx i \<Longrightarrow> local_op i Inr"
  unfolding local_op_def using put_get by (metis sum.inject(2))

lemma local_op_bind:
  assumes i: "idx i" and F: "local_op i F" and G: "local_op i G"
  shows "local_op i (\<lambda>s. res_bind (F s) G)"
  unfolding local_op_def
proof (intro allI impI)
  fix s s' g
  assume s: "valid s" "valid s'" "shared s = shared s'" "get i s = get i s'" and "res_bind (F s) G = Inr g"
  then obtain t where t: "F s = Inr t" "G t = Inr g" by (auto simp: res_simps)
  obtain v where v: "t = put i v s" "F s' = Inr (put i v s')" by (rule local_opD [OF F s t(1)])
  obtain w where w: "g = put i w (put i v s)" "G (put i v s') = Inr (put i w (put i v s'))"
    by (rule local_opD [OF G, of "put i v s" "put i v s'" g]) (use s t(2) v(1) i in \<open>simp_all add: valid_put shared_put get_same\<close>)
  show "\<exists>v. g = put i v s \<and> res_bind (F s') G = Inr (put i v s')"
    using v(2) w s(1,2) by (intro exI [of _ w]) (simp add: put_put)
qed

lemma local_op_fold: "idx i \<Longrightarrow> (\<And>x. x \<in> set xs \<Longrightarrow> local_op i (F x)) \<Longrightarrow> local_op i (res_fold F xs)"
proof (induction xs)
  case Nil
  then show ?case using local_op_id by (simp add: local_op_def)
next
  case (Cons x xs)
  then show ?case using local_op_bind [of i "F x" "res_fold F xs"] by (simp add: local_op_def)
qed

text \<open>The same for an operation that also adds to the counter, from states whose slice satisfies a
  condition.\<close>

definition local_step :: "('v \<Rightarrow> bool) \<Rightarrow> nat \<Rightarrow> ('s \<times> 't \<Rightarrow> ('s \<times> 't) res) \<Rightarrow> bool" where
  "local_step Q i F \<longleftrightarrow> (\<forall>s s' t t' g u. valid s \<longrightarrow> valid s' \<longrightarrow> shared s = shared s' \<longrightarrow> get i s = get i s' \<longrightarrow> Q (get i s) \<longrightarrow>
     F (s, t) = Inr (g, u) \<longrightarrow> (\<exists>v k. g = put i v s \<and> u = bump k t \<and> F (s', t') = Inr (put i v s', bump k t')))"

lemma local_stepD:
  assumes "local_step Q i F" and "valid s" and "valid s'" and "shared s = shared s'" and "get i s = get i s'" and "Q (get i s)"
    and "F (s, t) = Inr (g, u)"
  obtains v k where "g = put i v s" and "u = bump k t" and "F (s', t') = Inr (put i v s', bump k t')"
  using assms unfolding local_step_def by meson

lemma local_step_keeps:
  assumes "local_step Q i F" and "valid s" and "Q (get i s)" and "F (s, t) = Inr (g, u)"
  shows "valid g \<and> shared g = shared s \<and> (\<forall>j. j \<noteq> i \<longrightarrow> get j g = get j s)"
  by (rule local_stepD [OF assms(1,2,2) _ _ assms(3,4)]) (use assms(2) in \<open>auto simp: valid_put shared_put get_other\<close>)

lemma local_steps_swap:
  assumes F: "local_step P i F" "P (get i s)" and G: "local_step Q j G" "Q (get j s)" and ij: "i \<noteq> j" and s: "valid s"
    and run: "F (s, t) = Inr p" "G p = Inr q"
  shows "res_bind (G (s, t)) F = Inr q"
proof -
  obtain s1 t1 s2 t2 where p: "p = (s1, t1)" "q = (s2, t2)" by (cases p, cases q)
  have k: "valid s1" "shared s1 = shared s" "get j s1 = get j s"
    using local_step_keeps [OF F(1) s F(2)] run(1) p ij by auto
  obtain w l where w: "s2 = put j w s1" "t2 = bump l t1" "G (s, t) = Inr (put j w s, bump l t)"
    by (rule local_stepD [OF G(1) k(1) s k(2,3)]) (use G(2) k(3) run(2) p in simp_all)
  obtain v m where v: "s1 = put i v s" "t1 = bump m t" "F (put j w s, bump l t) = Inr (put i v (put j w s), bump m (bump l t))"
    by (rule local_stepD [OF F(1) s valid_put [OF s], of j w t s1 t1 "bump l t"])
      (use F(2) run(1) p s ij in \<open>simp_all add: shared_put get_other\<close>)
  show ?thesis using w v p put_swap [OF s ij] bump_swap by simp
qed

text \<open>A step that comes last can come first.\<close>

lemma local_steps_move:
  assumes "\<And>x. x \<in> insert y (set xs) \<Longrightarrow> local_step (Q x) x (F x) \<and> Q x (get x s)" and "y \<notin> set xs" and "distinct xs" and "valid s"
    and "res_fold F (xs @ [y]) (s, t) = Inr q"
  shows "res_fold F (y # xs) (s, t) = Inr q"
  using assms
proof (induction xs arbitrary: s t)
  case (Cons x xs)
  note l = Cons.prems(1)
  obtain s1 t1 where r: "F x (s, t) = Inr (s1, t1)" "res_fold F (xs @ [y]) (s1, t1) = Inr q"
    using Cons.prems(5) by (auto simp: res_simps)
  have k: "valid s1" "\<forall>j. j \<noteq> x \<longrightarrow> get j s1 = get j s" using local_step_keeps [of "Q x" x "F x" s] l [of x] Cons.prems(4) r(1) by auto
  have "res_fold F (y # xs) (s1, t1) = Inr q"
  proof (rule Cons.IH [OF _ _ _ k(1) r(2)])
    show "local_step (Q z) z (F z) \<and> Q z (get z s1)" if "z \<in> insert y (set xs)" for z
      using l [of z] that k(2) Cons.prems(2,3) by (metis distinct.simps(2) insertE insert_iff list.simps(15))
  qed (use Cons.prems(2,3) in simp_all)
  then obtain p where p: "F y (s1, t1) = Inr p" "res_fold F xs p = Inr q" by (auto simp: res_simps)
  have "res_bind (F y (s, t)) (F x) = Inr p"
    by (rule local_steps_swap [of "Q x" x "F x" s "Q y" y]) (use l Cons.prems(2,4) r(1) p(1) in auto)
  then show ?case using p(2) by (auto simp: res_simps)
qed simp

theorem local_steps_any_order:
  assumes "\<And>x. x \<in> set xs \<Longrightarrow> local_step (Q x) x (F x) \<and> Q x (get x s)" and "distinct xs" and "mset ys = mset xs" and "valid s"
    and "res_fold F xs (s, t) = Inr q"
  shows "res_fold F ys (s, t) = Inr q"
  using assms
proof (induction ys arbitrary: xs s t)
  case (Cons y ys)
  have "y \<in> set xs" using Cons.prems(3) by (metis list.set_intros(1) mset_eq_setD)
  then obtain as bs where xs: "xs = as @ y # bs" by (metis split_list)
  note l = Cons.prems(1)
  obtain p where p: "res_fold F (as @ [y]) (s, t) = Inr p" "res_fold F bs p = Inr q"
    using Cons.prems(5) unfolding xs by (auto simp: res_simps)
  have "res_fold F (y # as) (s, t) = Inr p"
    by (rule local_steps_move [where Q = Q, OF _ _ _ Cons.prems(4) p(1)]) (use l Cons.prems(2) xs in auto)
  then obtain s1 t1 where r: "F y (s, t) = Inr (s1, t1)" "res_fold F (as @ bs) (s1, t1) = Inr q" using p(2) by (auto simp: res_simps)
  have k: "valid s1" "\<forall>j. j \<noteq> y \<longrightarrow> get j s1 = get j s"
    using local_step_keeps [of "Q y" y "F y" s] l [OF \<open>y \<in> set xs\<close>] Cons.prems(4) r(1) by auto
  have "res_fold F ys (s1, t1) = Inr q"
  proof (rule Cons.IH [OF _ _ _ k(1) r(2)])
    show "local_step (Q z) z (F z) \<and> Q z (get z s1)" if "z \<in> set (as @ bs)" for z
      using l [of z] that k(2) Cons.prems(2) xs by auto
    show "distinct (as @ bs)" "mset ys = mset (as @ bs)" using Cons.prems(2,3) xs by auto
  qed
  then show ?case using r(1) by simp
qed simp

end

section \<open>The slices of the front\<close>

type_synonym front_slice = "u64 list \<times> u64 list list \<times> (u64, u64) multimap \<times> packet list"

definition front_shape :: "nat \<Rightarrow> mmi \<Rightarrow> bool" where
  "front_shape n f \<longleftrightarrow> length (read_request_queue f) = n \<and> length (read_ready_queues f) = n \<and> length (id_map f) = n \<and>
     length (res_in (memory_switch f)) = n"

definition front_get :: "nat \<Rightarrow> mmi \<Rightarrow> front_slice" where
  "front_get i f = (read_request_queue f ! i, read_ready_queues f ! i, id_map f ! i, res_in (memory_switch f) ! i)"

definition front_put :: "nat \<Rightarrow> front_slice \<Rightarrow> mmi \<Rightarrow> mmi" where
  "front_put i = (\<lambda>(q, r, m, p) f. f\<lparr>read_request_queue := (read_request_queue f)[i := q], read_ready_queues := (read_ready_queues f)[i := r],
     id_map := (id_map f)[i := m], memory_switch := (memory_switch f)\<lparr>res_in := (res_in (memory_switch f))[i := p]\<rparr>\<rparr>)"

definition add_requests :: "u64 \<Rightarrow> TestValue \<Rightarrow> TestValue" where
  "add_requests k tv = tv\<lparr>memory_req_cnt := memory_req_cnt tv + k\<rparr>"

lemma add_requests_swap: "add_requests k (add_requests l tv) = add_requests l (add_requests k tv)"
  by (simp add: add_requests_def ac_simps)

interpretation fr: indexed_state "front_shape n" "\<lambda>i. i < n" id2core front_get front_put add_requests for n
  by unfold_locales
    (auto simp: front_shape_def front_get_def front_put_def add_requests_swap list_update_swap split: prod.splits)

lemma ReadCallback_local:
  assumes "i < n" and "n < 2 ^ 31"
  shows "fr.local_op n i (ReadCallback (of_nat i) a)"
  unfolding fr.local_op_def
proof (intro allI impI)
  fix f f' g
  assume s: "front_shape n f" "front_shape n f'" "id2core f = id2core f'" "front_get i f = front_get i f'" and r: "ReadCallback (of_nat i) a f = Inr g"
  have u: "unat (of_nat i :: u64) = i" using assms by (simp add: unat_of_nat_less)
  have c: "core_of f = core_of f'" using s(3) by (simp add: core_of_def fun_eq_iff)
  have l: "length (read_ready_queues f) = n" "length (id_map f) = n" "length (res_in (memory_switch f)) = n"
    "length (read_ready_queues f') = n" "length (id_map f') = n" "length (res_in (memory_switch f')) = n" using s(1,2) by (simp_all add: front_shape_def)
  have e: "read_request_queue f ! i = read_request_queue f' ! i" "read_ready_queues f ! i = read_ready_queues f' ! i" "id_map f ! i = id_map f' ! i"
    "res_in (memory_switch f) ! i = res_in (memory_switch f') ! i" using s(4) by (simp_all add: front_get_def)
  obtain j where j: "mm_find a (id_map f ! i) = Some j" using r l assms(1) u by (auto simp: ReadCallback_def uget_def' split: option.splits)
  have sw: "use_memory_switch \<noteq> 0" by (simp add: use_memory_switch_def)
  have same: "(read_request_queue f)[i := read_request_queue f' ! i] = read_request_queue f" "(read_ready_queues f)[i := read_ready_queues f' ! i] = read_ready_queues f"
    "(id_map f)[i := id_map f' ! i] = id_map f" "(res_in (memory_switch f))[i := res_in (memory_switch f') ! i] = res_in (memory_switch f)"
    using e by (metis list_update_id)+
  let ?q = "read_request_queue f ! i" and ?r = "read_ready_queues f ! i" and ?m = "id_map f ! i" and ?p = "res_in (memory_switch f) ! i"
  show "\<exists>v. g = front_put i v f \<and> ReadCallback (of_nat i) a f' = Inr (front_put i v f')"
  proof (cases "core_of f j = of_nat i")
    case True
    then have "make_ready (of_nat i) j a f = Inr g" using r l assms(1) u j sw by (simp add: ReadCallback_def uget_def')
    then show ?thesis using True l assms(1) u j sw c e
      by (intro exI [of _ "(?q, ?r[unat j := insort a (?r ! unat j)], mm_erase_first a ?m, ?p)"])
        (auto simp: ReadCallback_def make_ready_def uget_def' uset_def' front_put_def same split: if_splits intro!: mmi.equality MemorySwitch.equality)
  next
    case False
    then show ?thesis using r l assms(1) u j sw c e
      by (intro exI [of _ "(?q, ?r, ?m, ?p @ [(core_of f j, a)])"])
        (auto simp: ReadCallback_def sendRes_def push_packet_def uget_def' uset_def' front_put_def same split: if_splits intro!: mmi.equality MemorySwitch.equality)
  qed
qed

lemma call_local:
  assumes "i < n" and "n < 2 ^ 31"
  shows "fr.local_op n i (call_event (ReadCallback (of_nat i)) (WriteCallback (of_nat i)) e)"
  using ReadCallback_local [OF assms] fr.local_op_id [of i n] assms(1)
  by (cases "fst e") (simp_all add: call_event_def WriteCallback_def fr.local_op_def)

section \<open>The slices of the interface\<close>

definition iface_shape :: "nat \<Rightarrow> MultiMemoryInterface \<Rightarrow> bool" where
  "iface_shape n mi \<longleftrightarrow> length (memory_system_list mi) = n \<and> front_shape n (front mi)"

definition iface_get :: "nat \<Rightarrow> MultiMemoryInterface \<Rightarrow> mmi MemorySystem \<times> front_slice" where
  "iface_get i mi = (memory_system_list mi ! i, front_get i (front mi))"

definition iface_put :: "nat \<Rightarrow> mmi MemorySystem \<times> front_slice \<Rightarrow> MultiMemoryInterface \<Rightarrow> MultiMemoryInterface" where
  "iface_put i = (\<lambda>(m, v) mi. mi\<lparr>memory_system_list := (memory_system_list mi)[i := m], front := front_put i v (front mi)\<rparr>)"

interpretation st: indexed_state "iface_shape n" "\<lambda>i. i < n" "\<lambda>mi. id2core (front mi)" iface_get iface_put add_requests for n
  by unfold_locales
    (auto simp: iface_shape_def iface_get_def iface_put_def add_requests_swap list_update_swap
      fr.get_same fr.get_other fr.put_put fr.put_swap fr.put_get fr.valid_put fr.shared_put split: prod.splits)

text \<open>What an iteration needs of the memory of its stack.\<close>

definition slice_ready :: "nat \<Rightarrow> mmi MemorySystem \<times> front_slice \<Rightarrow> bool" where
  "slice_ready i v \<longleftrightarrow> mem_inv (fst v) \<and> mem_may_tick (fst v) \<and>
     mem_call (fst v) = call_event (ReadCallback (of_nat i)) (WriteCallback (of_nat i))"

lemma submit_loop_count:
  "submit_loop accepts add q m c = Inr (q', m', c') \<Longrightarrow> submit_loop accepts add q m d = Inr (q', m', d + (c' - c))"
proof (induction q arbitrary: m c d)
  case (Cons a q)
  then obtain b where b: "accepts m a False = Inr b" by (auto simp: res_simps)
  show ?case
  proof (cases b)
    case True
    then obtain r m1 where m1: "add m a False = Inr (r, m1)" "submit_loop accepts add q m1 (c + 1) = Inr (q', m', c')"
      using Cons.prems b by (auto simp: res_simps)
    from Cons.IH [OF m1(2), of "d + 1"] show ?thesis using b True m1(1) by simp
  qed (use Cons.prems b in auto)
qed simp

lemma stack_tick_local:
  assumes i: "i < n" and n: "n < 2 ^ 31"
  shows "st.local_step n (slice_ready i) i (stack_tick (int i))"
  unfolding st.local_step_def
proof (intro allI impI)
  fix mi mi' g and tv tv' u :: TestValue
  assume s: "iface_shape n mi" "iface_shape n mi'" "id2core (front mi) = id2core (front mi')" "iface_get i mi = iface_get i mi'"
    and q: "slice_ready i (iface_get i mi)" and r: "stack_tick (int i) (mi, tv) = Inr (g, u)"
  let ?m = "memory_system_list mi ! i" and ?f = "front mi" and ?f' = "front mi'"
  have l: "length (memory_system_list mi) = n" "length (memory_system_list mi') = n" "front_shape n ?f" "front_shape n ?f'"
    using s(1,2) by (simp_all add: iface_shape_def)
  have m: "mem_inv ?m" "mem_may_tick ?m" and call: "mem_call ?m = call_event (ReadCallback (of_nat i)) (WriteCallback (of_nat i))"
    and same: "memory_system_list mi' ! i = ?m" "front_get i ?f = front_get i ?f'"
    using q s(4) by (simp_all add: slice_ready_def iface_get_def)
  obtain m1 where tick: "\<forall>u. mem_ClockTick ?m u = res_bind (res_fold (mem_call ?m) (mem_events ?m) u) (\<lambda>u'. Inr (m1, u'))"
    using mem.tick_law [OF m] by blast
  obtain f1 q' m2 c where f1: "res_fold (mem_call ?m) (mem_events ?m) ?f = Inr f1"
    and sub: "submit_loop mem_WillAcceptTransaction mem_AddTransaction (read_request_queue f1 ! i) m1 (memory_req_cnt tv) = Inr (q', m2, c)"
    and g: "i < length (read_request_queue f1)" "g = mi\<lparr>memory_system_list := (memory_system_list mi)[i := m2], front := f1\<lparr>read_request_queue := (read_request_queue f1)[i := q']\<rparr>\<rparr>"
      "u = tv\<lparr>memory_req_cnt := c\<rparr>"
    using r tick by (auto simp: stack_tick_def res_simps)
  have loc: "fr.local_op n i (res_fold (mem_call ?m) (mem_events ?m))"
    unfolding call by (rule fr.local_op_fold [OF i call_local [OF i n]])
  obtain v where v: "f1 = front_put i v ?f" "res_fold (mem_call ?m) (mem_events ?m) ?f' = Inr (front_put i v ?f')"
    by (rule fr.local_opD [OF loc l(3,4) s(3) same(2), of f1]) (use f1 in simp_all)
  obtain a b e p where vv: "v = (a, b, e, p)" by (cases v)
  let ?k = "c - memory_req_cnt tv"
  have lq: "length (read_request_queue ?f) = n" "length (read_request_queue ?f') = n" using l(3,4) by (simp_all add: front_shape_def)
  have "submit_loop mem_WillAcceptTransaction mem_AddTransaction a m1 (memory_req_cnt tv') = Inr (q', m2, memory_req_cnt tv' + ?k)"
    using submit_loop_count [OF sub] v(1) vv lq(1) i by (simp add: front_put_def)
  then have "stack_tick (int i) (mi', tv') = Inr (iface_put i (m2, q', b, e, p) mi', add_requests ?k tv')"
    using v(2) vv tick same(1) l(2) lq(2) i by (simp add: stack_tick_def vget_def vset_def front_put_def iface_put_def add_requests_def)
  moreover have "g = iface_put i (m2, q', b, e, p) mi" "u = add_requests ?k tv"
    using g v(1) vv by (simp_all add: front_put_def iface_put_def add_requests_def)
  ultimately show "\<exists>v k. g = iface_put i v mi \<and> u = add_requests k tv \<and> stack_tick (int i) (mi', tv') = Inr (iface_put i v mi', add_requests k tv')"
    by blast
qed

section \<open>Properties\<close>

text \<open>The tick with the stacks served in the order that the threads happen to run.\<close>

definition mmi_ClockTick_in :: "int list \<Rightarrow> MultiMemoryInterface \<Rightarrow> TestValue \<Rightarrow> (MultiMemoryInterface \<times> TestValue) res" where
  "mmi_ClockTick_in order mi tv =
     (let f = front mi
      in res_bind (if use_memory_switch \<noteq> 0 then
             res_bind (switch_ClockTick (memory_switch f)) (\<lambda>sw.
             res_bind (res_fold req_loop (urange (st_num f)) (f\<lparr>memory_switch := sw\<rparr>)) (\<lambda>f1.
               res_fold res_loop (urange (st_num f)) f1))
           else Inr f) (\<lambda>f2. res_fold stack_tick order (mi\<lparr>front := f2\<rparr>, tv)))"

lemma mi_inv_shape: "mi_inv n mi \<Longrightarrow> iface_shape n mi"
  by (auto simp: mi_inv_def mems_ok_def front_wf_def iface_shape_def front_shape_def switch_wf_def pass_wf_def side_wf_def)

lemma mmi_ClockTick_any_order:
  assumes inv: "mi_inv n mi" and t: "\<forall>m\<in>set (memory_system_list mi). mem_may_tick m" and order: "mset order = mset (irange (int n))"
  shows "mmi_ClockTick_in order mi tv = mmi_ClockTick mi tv \<and> is_ok (mmi_ClockTick mi tv)"
proof -
  have wf: "front_wf n (front mi)" and bal: "balanced n (out_reads_of mi) (front mi)" and n: "n < 2 ^ 31"
    using inv by (simp_all add: mi_inv_def front_wf_def)
  obtain f where f: "switch_phase (front mi) = Inr f" "front_wf n f" "balanced n (out_reads_of mi) f" "front_kept (front mi) f"
    by (rule switch_phase_ok [OF wf bal])
  let ?mi = "mi\<lparr>front := f\<rparr>"
  have inv0: "mi_inv n ?mi" using inv f by (simp add: mi_inv_def front_kept_def front_frame_def)
  obtain q where q: "mmi_ClockTick mi tv = Inr q" by (rule mmi_ClockTick_ok [OF inv t, of tv]) blast
  have "st_num f = of_nat n" "n < 2 ^ 64" using f(2) by (simp_all add: front_wf_def)
  then have u: "irange (uint (st_num f)) = map int [0..<n]" by (simp add: irange_def unat_of_nat_less flip: unat_eq_nat_uint)
  have seq: "res_fold (\<lambda>i. stack_tick (int i)) [0..<n] (?mi, tv) = Inr q"
    using q f(1) u by (simp add: mmi_ClockTick_def switch_phase_def use_memory_switch_def Let_def res_fold_map)
  have ready: "slice_ready i (iface_get i ?mi)" if "i < n" for i
    using inv t that by (simp add: slice_ready_def iface_get_def mi_inv_def mems_ok_def)
  have pos: "\<forall>x\<in>set order. 0 \<le> x" using mset_eq_setD [OF order] by simp
  have "mset (map nat order) = image_mset nat (mset (irange (int n)))" by (simp only: mset_map order)
  also have "\<dots> = mset [0..<n]" unfolding irange_nat mset_map [symmetric] by (simp add: comp_def)
  finally have "mset (map nat order) = mset [0..<n]" .
  from st.local_steps_any_order [where Q = slice_ready, OF _ _ this mi_inv_shape [OF inv0] seq]
  have "res_fold (\<lambda>i. stack_tick (int i)) (map nat order) (?mi, tv) = Inr q" using stack_tick_local [OF _ n] ready by simp
  moreover have "map int (map nat order) = order" using pos by (simp add: map_idI)
  ultimately have "res_fold stack_tick order (?mi, tv) = Inr q" using res_fold_map [of stack_tick int "map nat order" "(?mi, tv)"] by simp
  then show ?thesis using q f(1) by (simp add: mmi_ClockTick_in_def switch_phase_def use_memory_switch_def Let_def)
qed

text \<open>C7. The parallel loop over the memory stacks is deterministic. In every execution of an interface
  over eight stacks, whatever the order in which the threads serve the stacks, the tick succeeds and
  gives the queues, maps, memories and counters that the sequential loop gives.\<close>

theorem parallel_stacks_any_order:
  assumes "\<forall>i. mem_cfg_ok (cfg i)" and "MultiMemoryInterface_of 8 cfg = Inr mi0" and "mi_run mi0 req got mi"
    and "\<forall>m\<in>set (memory_system_list mi). mem_may_tick m" and "mset order = mset (irange 8)"
  shows "mmi_ClockTick_in order mi tv = mmi_ClockTick mi tv \<and> is_ok (mmi_ClockTick mi tv)"
proof -
  obtain mi1 where "MultiMemoryInterface_of 8 cfg = Inr mi1" "mi_inv 8 mi1" "id_num (front mi1) = 0"
    by (rule MultiMemoryInterface_of_ok [OF assms(1)])
  then have "mi_inv 8 mi0" "id_num (front mi0) = 0" using assms(2) by auto
  from mi_run_inv [OF assms(3) this] have "mi_inv 8 mi" by simp
  from mmi_ClockTick_any_order [OF this assms(4)] assms(5) show ?thesis by simp
qed

theorem parallel_stacks_any_order_witness:
  "\<exists>mi0 mi req. MultiMemoryInterface_of 8 (\<lambda>_. hbm2_config) = Inr mi0 \<and> mi_run mi0 req (\<lambda>i. 0) mi \<and>
     mmi_ClockTick_in [5, 2, 7, 0, 1, 6, 4, 3] mi TestValue_new = mmi_ClockTick mi TestValue_new \<and> is_ok (mmi_ClockTick mi TestValue_new)"
proof -
  obtain mi0 mi where r: "MultiMemoryInterface_of 8 (\<lambda>_. hbm2_config) = Inr mi0" "mi_run mi0 ((\<lambda>i. 0)(0 := 1)) (\<lambda>i. 0) mi"
    "id_num (front mi) = 1" "\<forall>m\<in>set (memory_system_list mi). mem_may_tick m" by (rule sample_mi_run)
  have "\<forall>i. mem_cfg_ok ((\<lambda>_. hbm2_config) (i :: int))" using hbm2_mem_ok by simp
  moreover have "mset [5, 2, 7, 0, 1, 6, 4, 3 :: int] = mset (irange 8)" by (simp add: irange_def upt_rec)
  ultimately show ?thesis using parallel_stacks_any_order [OF _ r(1,2,4)] r(1,2) by blast
qed

end
