(* ===== verification/Dram_Setup.thy ===== *)
theory Dram_Setup
  imports Dram_Backend
begin

text \<open>
  From a configuration file to a memory that never aborts: what the constructor of
  \<^verbatim>\<open>Config\<close> establishes, whatever the file says, for the well-formedness
  conditions that the theorems on controllers and memory systems start from.
\<close>

section \<open>What the initialisation leaves alone\<close>

definition same_layout :: "Config \<Rightarrow> Config \<Rightarrow> bool" where
  "same_layout c c' \<longleftrightarrow> channels c' = channels c \<and> ranks c' = ranks c \<and> bankgroups c' = bankgroups c \<and> banks_per_group c' = banks_per_group c \<and>
     banks c' = banks c \<and> rows c' = rows c \<and> columns c' = columns c \<and> BL c' = BL c \<and> AddressMapping c' = AddressMapping c \<and>
     shift_bits c' = shift_bits c \<and> ch_pos c' = ch_pos c \<and> ch_mask c' = ch_mask c"

lemma init_rest_layout: "same_layout c (InitOtherParams de r (InitPowerParams strtod r (InitTimingParams strtod r c)))"
  by (simp add: same_layout_def InitOtherParams_def InitPowerParams_def InitTimingParams_def Let_def AddressMapping_def fun_eq_iff)

lemma GetInteger_range: "GetInteger r sec nm d < 2 ^ 31"
  using signed_take_bit_int_less_exp [of 31 "ini_GetInteger r sec nm d"] by (simp add: GetInteger_def)

text \<open>Names for the intermediate objects of a constructor keep their records small.\<close>

lemma LetE: "(let x = a in f x) = y \<Longrightarrow> (\<And>x. x = a \<Longrightarrow> f x = y \<Longrightarrow> P) \<Longrightarrow> P"
  by (simp add: Let_def)

lemma res_bindE: "res_bind m k = Inr y \<Longrightarrow> (\<And>x. m = Inr x \<Longrightarrow> k x = Inr y \<Longrightarrow> P) \<Longrightarrow> P"
  by (auto simp: res_bind_eq_Inr)

lemma InitDRAMParams_banks: "InitDRAMParams r c = Inr c' \<Longrightarrow> banks c' = bankgroups c' * banks_per_group c' \<and> channels c' = channels c"
  unfolding InitDRAMParams_def
  by (elim res_bindE LetE) (simp only: sum.inject, drule sym, simp (no_asm_simp) split del: if_split)

lemma CalculateSize_banks:
  "CalculateSize c = Inr c' \<Longrightarrow> banks c' = banks c \<and> bankgroups c' = bankgroups c \<and> banks_per_group c' = banks_per_group c \<and> channels c' = channels c"
  by (auto simp: CalculateSize_def res_simps Let_def split: if_splits)

lemma SetAddressMapping_keeps: "SetAddressMapping c = Inr c' \<Longrightarrow> banks c' = banks c \<and> columns c' = columns c \<and> BL c' = BL c"
  by (auto simp: SetAddressMapping_def res_simps Let_def split: if_splits)

lemma InitSystemParams_channels: "InitSystemParams r c = Inr c' \<Longrightarrow> channels c' < 2 ^ 31"
  unfolding InitSystemParams_def
  by (elim res_bindE LetE) (simp only: sum.inject, drule sym, simp (no_asm_simp) add: GetInteger_range [simplified])

section \<open>Decoded addresses\<close>

text \<open>The steps of the constructor.\<close>

lemma Config_new_steps:
  assumes "Config_new strtod de raw reader dir = Inr cfg"
  obtains c3 c4 where "SetAddressMapping c3 = Inr c4" and "same_layout c4 cfg" and "banks c3 = bankgroups c3 * banks_per_group c3"
    and "channels c3 < 2 ^ 31"
proof -
  obtain c1 c2 c3 c4 where c: "InitSystemParams reader (raw\<lparr>output_dir := dir\<rparr>) = Inr c1" "InitDRAMParams reader c1 = Inr c2"
    "CalculateSize c2 = Inr c3" "SetAddressMapping c3 = Inr c4"
    "cfg = InitOtherParams de reader (InitPowerParams strtod reader (InitTimingParams strtod reader c4))"
    using assms by (auto simp: Config_new_def res_bind_eq_Inr split: if_splits)
  show thesis
    by (rule that [OF c(4)])
      (use c(5) init_rest_layout InitDRAMParams_banks [OF c(2)] CalculateSize_banks [OF c(3)] InitSystemParams_channels [OF c(1)] in simp_all)
qed

lemma decoded_fields:
  assumes "SetAddressMapping c = Inr c'" and "1 \<le> channels c" and "1 \<le> ranks c" and "1 \<le> bankgroups c" and "1 \<le> banks_per_group c"
  shows "0 \<le> channel (AddressMapping c' h) \<and> channel (AddressMapping c' h) < channels c"
    and "valid_bank c (rank (AddressMapping c' h), bankgroup (AddressMapping c' h), bank (AddressMapping c' h))"
  using AddressMapping_bounds [OF assms(1), of "''ch''" "channels c" h] AddressMapping_bounds [OF assms(1), of "''ra''" "ranks c" h]
    AddressMapping_bounds [OF assms(1), of "''bg''" "bankgroups c" h] AddressMapping_bounds [OF assms(1), of "''ba''" "banks_per_group c" h] assms(2-5)
  by (simp_all add: field_names_def width_of_def field_widths_of_def field_of_def)

lemma GetChannel_decoded: "channel (AddressMapping (sys_config s) h) < 2 ^ 31 \<Longrightarrow> GetChannel s h = channel (AddressMapping (sys_config s) h)"
  by (simp add: GetChannel_def AddressMapping_def Address6_def Let_def to_int_def) (rule signed_take_bit_int_eq_self, simp_all add: order_trans [OF _ uint_ge_0])

section \<open>Properties\<close>


text \<open>The configuration of an empty file: every parameter has its default value.\<close>

definition empty_ini :: INIReader where
  "empty_ini = \<lparr>ini_error = 0, ini_values = [], ini_sections = []\<rparr>"

lemma empty_get [simp]:
  "ini_Get empty_ini sec nm d = d" "ini_GetInteger empty_ini sec nm n = n" "ini_GetBoolean empty_ini sec nm b = b" "ini_error empty_ini = 0"
  by (simp_all add: ini_Get_def ini_GetInteger_def ini_GetBoolean_def empty_ini_def strtol_def starts_digit_def)

lemma empty_integer [simp]: "- (2 ^ 31) \<le> n \<Longrightarrow> n < 2 ^ 31 \<Longrightarrow> GetInteger empty_ini sec nm n = n"
  by (simp add: GetInteger_def signed_take_bit_int_eq_self)

lemma empty_system:
  obtains c1 where "InitSystemParams empty_ini c = Inr c1" and "channels c1 = 1" and "channel_size c1 = 1024" and "bus_width c1 = 64"
    and "address_mapping c1 = ''chrobabgraco''"
  by (simp add: InitSystemParams_def Let_def)

lemma empty_dram:
  obtains c2 where "InitDRAMParams empty_ini c = Inr c2" and "channels c2 = channels c" and "bankgroups c2 = 2" and "banks_per_group c2 = 2" and "banks c2 = 4"
    and "rows c2 = 65536" and "columns c2 = 1024" and "device_width c2 = 8" and "BL c2 = 8" and "channel_size c2 = channel_size c" and "bus_width c2 = bus_width c"
    and "address_mapping c2 = address_mapping c"
  by (simp add: InitDRAMParams_def GetDRAMProtocol_def Let_def IsHMC_def IsGDDR_def IsHBM_def)

lemma empty_config:
  obtains cfg where "Config_new strtod de raw empty_ini dir = Inr cfg" and "channels cfg = 1" and "ranks cfg = 1" and "bankgroups cfg = 2" and "banks_per_group cfg = 2"
proof -
  obtain c1 where c1: "InitSystemParams empty_ini (raw\<lparr>output_dir := dir\<rparr>) = Inr c1" "channels c1 = 1" "channel_size c1 = 1024" "bus_width c1 = 64"
    "address_mapping c1 = ''chrobabgraco''" by (rule empty_system)
  obtain c2 where c2: "InitDRAMParams empty_ini c1 = Inr c2" "channels c2 = channels c1" "bankgroups c2 = 2" "banks_per_group c2 = 2" "banks c2 = 4"
    "rows c2 = 65536" "columns c2 = 1024" "device_width c2 = 8" "BL c2 = 8" "channel_size c2 = channel_size c1" "bus_width c2 = bus_width c1"
    "address_mapping c2 = address_mapping c1" by (rule empty_dram)
  have c3: "CalculateSize c2 = Inr (c2\<lparr>devices_per_rank := 8, ranks := 1, channel_size := 2048\<rparr>)" (is "_ = Inr ?c3")
    using c1 c2 by (simp add: CalculateSize_def megs_per_rank_of_def idiv_def signed_divide_int_def Let_def)
  have lg: "LogBase2 1 = 0" "LogBase2 2 = 1" "LogBase2 65536 = 16" "LogBase2 1024 = 10" "LogBase2 8 = 3"
    using LogBase2_power [of 0] LogBase2_power [of 1] LogBase2_power [of 16] LogBase2_power [of 10] LogBase2_power [of 3] by simp_all
  obtain c4 where "SetAddressMapping ?c3 = Inr c4" "channels c4 = 1" "ranks c4 = 1" "bankgroups c4 = 2" "banks_per_group c4 = 2"
    using c1 c2 by (simp add: SetAddressMapping_def field_widths_of_def map_at_def field_mask_def lg Let_def)
  then show thesis using c1(1) c2(1) c3 init_rest_layout [of c4 de empty_ini strtod]
    by (intro that [of "InitOtherParams de empty_ini (InitPowerParams strtod empty_ini (InitTimingParams strtod empty_ini c4))"])
      (simp_all add: Config_new_def same_layout_def)
qed


end
