(* ===== verification/Dram_Main.thy ===== *)
theory Dram_Main
  imports Dram_Clock
begin

text \<open>
  \<^verbatim>\<open>dramsim3/src/main.cc\<close> and the constructors of \<^verbatim>\<open>cpu.h\<close> and
  \<^verbatim>\<open>cpu.cc\<close>: the stand-alone memory simulator, from its parsed command line to its exit
  code. The argument parser is a library, so its outcome is an argument; so are the files and the
  generator \<^verbatim>\<open>std::mt19937_64\<close>. A member that a constructor does not initialise is an
  argument too. Lemmas: the three clients share one contract, so a run of any of them never
  aborts; the client that replays a trace offers its entries in order, with one deviation at the end.
\<close>

section \<open>Constructors\<close>

definition CPU_new :: "(string \<Rightarrow> real option) \<Rightarrow> (string \<Rightarrow> bool) \<Rightarrow> Config \<Rightarrow> INIReader \<Rightarrow> string \<Rightarrow> CPU res" where
  "CPU_new strtod dir_exist raw reader out_dir =
     res_bind (MemorySystem_new strtod dir_exist raw reader out_dir ReadCallBack WriteCallBack) (\<lambda>m.
       Inr \<lparr>memory_system = m, cpu_clk = 0\<rparr>)"

definition RandomCPU_new :: "(nat \<Rightarrow> u64) \<Rightarrow> 'g \<Rightarrow> CPU \<Rightarrow> 'g RandomCPU" where
  "RandomCPU_new unset g c =
     \<lparr>random_cpu = c, last_addr = unset 0, last_write = False, random_gen = g, random_get_next = True\<rparr>"

definition StreamCPU_new :: "(nat \<Rightarrow> u64) \<Rightarrow> 'g \<Rightarrow> CPU \<Rightarrow> 'g StreamCPU" where
  "StreamCPU_new unset g c =
     \<lparr>stream_cpu = c, addr_a = unset 0, addr_b = unset 1, addr_c = unset 2, stream_offset = 0, stream_gen = g,
      inserted_a = False, inserted_b = False, inserted_c = False\<rparr>"

definition TraceBasedCPU_new :: "Transaction \<Rightarrow> trace_stream option \<Rightarrow> CPU \<Rightarrow> TraceBasedCPU res" where
  "TraceBasedCPU_new unset file c =
     (case file of
        None \<Rightarrow> Inl (AbruptExit ''cpu.cc'')
      | Some f \<Rightarrow> Inr \<lparr>trace_cpu = c, trace_file = f, trace_trans = unset, trace_get_next = True\<rparr>)"

definition cpu_PrintStats :: "CPU \<Rightarrow> CPU res" where
  "cpu_PrintStats c = res_bind (mem_PrintStats (memory_system c)) (\<lambda>m. Inr (c\<lparr>memory_system := m\<rparr>))"

section \<open>The main function\<close>

record dramsim_args =
  config_arg :: string
  num_cycles_arg :: u64
  output_dir_arg :: string
  stream_arg :: string
  trace_file_arg :: string

datatype parsed = Help | ParseError | Parsed dramsim_args

fun cpu_run :: "('c \<Rightarrow> 'c res) \<Rightarrow> nat \<Rightarrow> 'c \<Rightarrow> 'c res" where
  "cpu_run tick 0 c = Inr c"
| "cpu_run tick (Suc n) c = res_bind (tick c) (cpu_run tick n)"

definition run_client :: "('c \<Rightarrow> CPU) \<Rightarrow> ('c \<Rightarrow> 'c res) \<Rightarrow> u64 \<Rightarrow> 'c \<Rightarrow> int res" where
  "run_client cpu_of tick cycles c =
     res_bind (cpu_run tick (unat cycles) c) (\<lambda>c'. res_bind (cpu_PrintStats (cpu_of c')) (\<lambda>_. Inr 0))"

definition dramsim_main ::
  "(string \<Rightarrow> real option) \<Rightarrow> (string \<Rightarrow> bool) \<Rightarrow> Config \<Rightarrow> (string \<Rightarrow> string option) \<Rightarrow> (string \<Rightarrow> trace_stream option) \<Rightarrow>
   ('g \<Rightarrow> u64 \<times> 'g) \<Rightarrow> 'g \<Rightarrow> (nat \<Rightarrow> u64) \<Rightarrow> Transaction \<Rightarrow> parsed \<Rightarrow> int res" where
  "dramsim_main strtod dir_exist raw files traces draw g unset unset_trans parsed =
     (case parsed of
        Help \<Rightarrow> Inr 0
      | ParseError \<Rightarrow> Inr 1
      | Parsed a \<Rightarrow>
          if config_arg a = [] then Inr 1
          else
            let cpu = CPU_new strtod dir_exist raw (INIReader_new (files (config_arg a))) (output_dir_arg a); cycles = num_cycles_arg a in
            if trace_file_arg a \<noteq> [] then
              res_bind cpu (\<lambda>c. res_bind (TraceBasedCPU_new unset_trans (traces (trace_file_arg a)) c) (run_client trace_cpu trace_ClockTick cycles))
            else if stream_arg a = ''stream'' \<or> stream_arg a = ''s'' then
              res_bind cpu (\<lambda>c. run_client stream_cpu (stream_ClockTick draw) cycles (StreamCPU_new unset g c))
            else
              res_bind cpu (\<lambda>c. run_client random_cpu (random_ClockTick draw) cycles (RandomCPU_new unset g c)))"

section \<open>A client and its memory\<close>

text \<open>A client after \<open>k\<close> ticks: its memory is well formed, has ticked as often and calls the
  empty callbacks of the client.\<close>

definition cpu_live :: "Config \<Rightarrow> nat \<Rightarrow> CPU \<Rightarrow> bool" where
  "cpu_live cfg k c \<longleftrightarrow> mem_inv (memory_system c) \<and> mem_at cfg k (memory_system c) \<and>
     mem_call (memory_system c) = call_event ReadCallBack WriteCallBack"

text \<open>The times at which the configuration keeps two columns apart.\<close>

definition gap_at :: "Config \<Rightarrow> nat \<Rightarrow> bool" where
  "gap_at cfg k \<longleftrightarrow> (enable_hbm_dual_cmd cfg \<longrightarrow> rw_gap cfg (of_nat k))"

lemma cpu_clk_live [simp]: "cpu_live cfg k (c\<lparr>cpu_clk := x\<rparr>) = cpu_live cfg k c"
  by (simp add: cpu_live_def)

lemma empty_callbacks_ok: "res_fold (call_event ReadCallBack WriteCallBack) evs () = Inr ()"
  by (induction evs) (auto simp: call_event_def ReadCallBack_def WriteCallBack_def)

lemma cpu_memory_tick_ok:
  assumes "cpu_live cfg k c" and "gap_at cfg k"
  shows "\<exists>c'. cpu_memory_tick c = Inr c' \<and> cpu_live cfg (Suc k) c' \<and> cpu_clk c' = cpu_clk c \<and>
    mem_outs (memory_system c) = mset (mem_events (memory_system c)) + mem_outs (memory_system c')"
proof -
  let ?m = "memory_system c"
  have m: "mem_inv ?m" "mem_at cfg k ?m" "mem_call ?m = call_event ReadCallBack WriteCallBack" using assms(1) by (simp_all add: cpu_live_def)
  have "mem_may_tick ?m" using at_may_tick [OF m(2)] assms(2) by (simp add: gap_at_def)
  from mem.tick_ok [OF m(1) this, of "()" "\<lambda>_. True"] obtain m' u' where m': "mem_ClockTick ?m () = Inr (m', u')" "mem_inv m'" "mem_call m' = mem_call ?m"
    "mem_outs ?m = mset (mem_events ?m) + mem_outs m'" by (auto simp: m(3) empty_callbacks_ok)
  have "mem_at cfg (Suc k) m'" by (rule mem_tick_at [OF m(2) m'(1)])
  then show ?thesis using m' m(3) by (simp add: cpu_memory_tick_def cpu_live_def)
qed

lemma try_add_ok:
  assumes "cpu_live cfg k c"
  shows "\<exists>b c'. try_add a w c = Inr (b, c') \<and> cpu_live cfg k c' \<and> cpu_clk c' = cpu_clk c \<and>
    mem_outs (memory_system c') = (if b then add_mset (w, a) (mem_outs (memory_system c)) else mem_outs (memory_system c))"
proof -
  let ?m = "memory_system c"
  have m: "mem_inv ?m" "mem_at cfg k ?m" "mem_call ?m = call_event ReadCallBack WriteCallBack" using assms by (simp_all add: cpu_live_def)
  obtain b where b: "mem_WillAcceptTransaction ?m a w = Inr b" using mem.accepts_law [OF m(1)] by blast
  show ?thesis
  proof (cases b)
    case True
    then obtain m' where m': "mem_AddTransaction ?m a w = Inr (True, m')" "mem_inv m'" "mem_call m' = mem_call ?m"
      "mem_outs m' = add_mset (w, a) (mem_outs ?m)" using mem.add_law [OF m(1), of a w] b by auto
    then show ?thesis using b True mem_add_at [OF m(2) m'(1)] m(3) by (auto simp: try_add_def cpu_live_def)
  qed (use b assms in \<open>auto simp: try_add_def\<close>)
qed

text \<open>The contract that the three clients share: a tick takes a live client to a live client.\<close>

locale memory_client =
  fixes cpu_of :: "'c \<Rightarrow> CPU" and tick :: "'c \<Rightarrow> 'c res"
  assumes tick_live: "cpu_live cfg k (cpu_of c) \<Longrightarrow> gap_at cfg k \<Longrightarrow> \<exists>c'. tick c = Inr c' \<and> cpu_live cfg (Suc k) (cpu_of c')"
begin

lemma run_live:
  "cpu_live cfg k (cpu_of c) \<Longrightarrow> \<forall>j<k + n. gap_at cfg j \<Longrightarrow> \<exists>c'. cpu_run tick n c = Inr c' \<and> cpu_live cfg (k + n) (cpu_of c')"
proof (induction n arbitrary: c k)
  case (Suc n)
  obtain c1 where c1: "tick c = Inr c1" "cpu_live cfg (Suc k) (cpu_of c1)" using tick_live [OF Suc.prems(1)] Suc.prems(2) by auto
  from Suc.IH [OF c1(2)] Suc.prems(2) show ?case by (simp add: c1(1))
qed simp

lemma client_ok:
  assumes "cpu_live cfg 0 (cpu_of c)" and "\<forall>j<unat cycles. gap_at cfg j"
  shows "run_client cpu_of tick cycles c = Inr 0"
proof -
  obtain c' where c': "cpu_run tick (unat cycles) c = Inr c'" "cpu_live cfg (0 + unat cycles) (cpu_of c')"
    using run_live [OF assms(1), of "unat cycles"] assms(2) by auto
  obtain m where "mem_PrintStats (memory_system (cpu_of c')) = Inr m"
    using mem_PrintStats_ok c'(2) unfolding cpu_live_def by blast
  then show ?thesis by (simp add: run_client_def c'(1) cpu_PrintStats_def)
qed

end

interpretation random: memory_client random_cpu "random_ClockTick draw"
proof
  fix cfg k and r :: "'a RandomCPU"
  assume live: "cpu_live cfg k (random_cpu r)" and gap: "gap_at cfg k"
  obtain c where c: "cpu_memory_tick (random_cpu r) = Inr c" "cpu_live cfg (Suc k) c" using cpu_memory_tick_ok [OF live gap] by blast
  define r1 where "r1 = (if random_get_next r then let (a, g1) = draw (random_gen r); (b, g2) = draw g1
      in r\<lparr>last_addr := a, last_write := (b mod 3 = 0), random_gen := g2\<rparr> else r)"
  obtain b c' where "try_add (last_addr r1) (last_write r1) c = Inr (b, c')" "cpu_live cfg (Suc k) c'" using try_add_ok [OF c(2)] by blast
  then show "\<exists>c'. random_ClockTick draw r = Inr c' \<and> cpu_live cfg (Suc k) (random_cpu c')"
    unfolding random_ClockTick_def c(1) res_bind_Inr r1_def [symmetric] Let_def [of r1] by simp
qed

lemma stream_insert_ok: "cpu_live cfg k c \<Longrightarrow> \<exists>b c'. stream_insert i a w c = Inr (b, c') \<and> cpu_live cfg k c'"
  using try_add_ok [of cfg k c a w] by (auto simp: stream_insert_def)

interpretation stream: memory_client stream_cpu "stream_ClockTick draw"
proof
  fix cfg k and r :: "'a StreamCPU"
  assume live: "cpu_live cfg k (stream_cpu r)" and gap: "gap_at cfg k"
  obtain c where c: "cpu_memory_tick (stream_cpu r) = Inr c" "cpu_live cfg (Suc k) c" using cpu_memory_tick_ok [OF live gap] by blast
  define r1 where "r1 = (if stream_offset r \<ge> array_size \<or> cpu_clk c = 0 then
      let (a, g1) = draw (stream_gen r); (b, g2) = draw g1; (d, g3) = draw g2
      in r\<lparr>addr_a := a, addr_b := b, addr_c := d, stream_gen := g3, stream_offset := 0\<rparr> else r)"
  obtain ia c1 where a: "stream_insert (inserted_a r1) (addr_a r1 + stream_offset r1) False c = Inr (ia, c1)" "cpu_live cfg (Suc k) c1"
    using stream_insert_ok [OF c(2)] by blast
  obtain ib c2 where b: "stream_insert (inserted_b r1) (addr_b r1 + stream_offset r1) False c1 = Inr (ib, c2)" "cpu_live cfg (Suc k) c2"
    using stream_insert_ok [OF a(2)] by blast
  obtain ic c3 where d: "stream_insert (inserted_c r1) (addr_c r1 + stream_offset r1) True c2 = Inr (ic, c3)" "cpu_live cfg (Suc k) c3"
    using stream_insert_ok [OF b(2)] by blast
  show "\<exists>c'. stream_ClockTick draw r = Inr c' \<and> cpu_live cfg (Suc k) (stream_cpu c')"
    unfolding stream_ClockTick_def c(1) res_bind_Inr r1_def [symmetric] Let_def [of r1] using a(1) b(1) d by (simp add: Let_def)
qed

section \<open>Replaying a trace\<close>

text \<open>What a trace file makes a client offer, from the address of its last transaction on: its entries in
  order and, when white space follows the last one or there is none, one more read of the last address.\<close>

definition entry_offer :: "u64 \<times> string \<times> u64 \<Rightarrow> event" where
  "entry_offer = (\<lambda>(a, op, cyc). (op \<in> set write_ops, a))"

definition trace_offers :: "trace_stream \<Rightarrow> u64 \<Rightarrow> event list" where
  "trace_offers f x = map entry_offer (trace_stream.entries f) @
     (if trailing_space f \<or> trace_stream.entries f = [] then [(False, last (x # map fst (trace_stream.entries f)))] else [])"

definition trace_pending :: "TraceBasedCPU \<Rightarrow> event list" where
  "trace_pending r =
     (if eof (trace_file r) then []
      else (if trace_get_next r then [] else [(is_write (trace_trans r), t_addr (trace_trans r))]) @
        trace_offers (trace_file r) (t_addr (trace_trans r)))"

fun trace_reported :: "nat \<Rightarrow> TraceBasedCPU \<Rightarrow> event list" where
  "trace_reported 0 r = []"
| "trace_reported (Suc n) r = mem_events (memory_system (trace_cpu r)) @
     (case trace_ClockTick r of Inl _ \<Rightarrow> [] | Inr r' \<Rightarrow> trace_reported n r')"

text \<open>Either everything offered was added, or the last offer was dropped at the end of the file.\<close>

definition in_order :: "TraceBasedCPU \<Rightarrow> event list \<Rightarrow> TraceBasedCPU \<Rightarrow> bool" where
  "in_order r sent r' \<longleftrightarrow> trace_pending r = sent @ trace_pending r' \<or>
     eof (trace_file r') \<and> trace_pending r \<noteq> [] \<and> sent = butlast (trace_pending r)"

text \<open>The transaction that a tick works on.\<close>

definition trace_next :: "TraceBasedCPU \<Rightarrow> TraceBasedCPU" where
  "trace_next r =
     (if trace_get_next r then
        let (f, t) = extract_trans (trace_file r) (trace_trans r) in r\<lparr>trace_get_next := False, trace_file := f, trace_trans := t\<rparr>
      else r)"

lemma trace_next_pending:
  assumes "\<not> eof (trace_file r)"
  shows "trace_pending r = (is_write (trace_trans (trace_next r)), t_addr (trace_trans (trace_next r))) #
      trace_pending ((trace_next r)\<lparr>trace_get_next := True\<rparr>)"
    and "\<not> trace_get_next (trace_next r)"
  using assms by (auto simp: trace_next_def trace_pending_def trace_offers_def extract_trans_def entry_offer_def write_ops_def split: list.splits prod.splits)

lemma in_order_step:
  assumes "\<not> eof (trace_file r)" and "r1 = trace_next r"
  shows "in_order r [(is_write (trace_trans r1), t_addr (trace_trans r1))] (r1\<lparr>trace_get_next := True, trace_cpu := c\<rparr>)"
    and "in_order r [] (r1\<lparr>trace_get_next := False, trace_cpu := c\<rparr>)"
proof -
  note p = trace_next_pending [OF assms(1)]
  have u: "trace_pending (r1\<lparr>trace_get_next := b, trace_cpu := c\<rparr>) = trace_pending (r1\<lparr>trace_get_next := b\<rparr>)" for b
    by (simp add: trace_pending_def)
  show "in_order r [(is_write (trace_trans r1), t_addr (trace_trans r1))] (r1\<lparr>trace_get_next := True, trace_cpu := c\<rparr>)"
    unfolding in_order_def u using p(1) assms(2) by simp
  show "in_order r [] (r1\<lparr>trace_get_next := False, trace_cpu := c\<rparr>)"
  proof (cases "eof (trace_file r1)")
    case True
    then have "trace_pending (r1\<lparr>trace_get_next := True\<rparr>) = []" by (simp add: trace_pending_def)
    then show ?thesis using True p(1) assms(2) by (simp add: in_order_def)
  next
    case False
    then show ?thesis unfolding in_order_def u using p(1) assms(2) by (simp add: trace_pending_def)
  qed
qed

lemma trace_tick_in_order:
  assumes "cpu_live cfg k (trace_cpu r)" and "gap_at cfg k"
  shows "\<exists>r' sent. trace_ClockTick r = Inr r' \<and> cpu_live cfg (Suc k) (trace_cpu r') \<and> (eof (trace_file r) \<longrightarrow> eof (trace_file r')) \<and>
    in_order r sent r' \<and> mset (mem_events (memory_system (trace_cpu r))) + mem_outs (memory_system (trace_cpu r')) =
      mem_outs (memory_system (trace_cpu r)) + mset sent"
proof -
  obtain c where c: "cpu_memory_tick (trace_cpu r) = Inr c" "cpu_live cfg (Suc k) c"
    "mem_outs (memory_system (trace_cpu r)) = mset (mem_events (memory_system (trace_cpu r))) + mem_outs (memory_system c)"
    using cpu_memory_tick_ok [OF assms] by blast
  show ?thesis
  proof (cases "eof (trace_file r)")
    case True
    then show ?thesis using c by (intro exI [of _ "r\<lparr>trace_cpu := c\<lparr>cpu_clk := cpu_clk c + 1\<rparr>\<rparr>"] exI [of _ "[]"])
        (simp add: trace_ClockTick_def in_order_def trace_pending_def)
  next
    case False
    define r1 where "r1 = trace_next r"
    let ?t = "trace_trans r1"
    have tick: "trace_ClockTick r = res_bind (if added_cycle ?t \<le> cpu_clk c then
        res_bind (try_add (t_addr ?t) (is_write ?t) c) (\<lambda>(ok, c'). Inr (r1\<lparr>trace_get_next := ok\<rparr>, c')) else Inr (r1, c))
        (\<lambda>(r2, c2). Inr (r2\<lparr>trace_cpu := c2\<lparr>cpu_clk := cpu_clk c2 + 1\<rparr>\<rparr>))"
      unfolding trace_ClockTick_def c(1) res_bind_Inr r1_def trace_next_def using False by (simp add: Let_def cong: if_cong)
    have none: "r1\<lparr>trace_get_next := False\<rparr> = r1" using trace_next_pending(2) [OF False] by (simp add: r1_def)
    obtain b c' where a: "try_add (t_addr ?t) (is_write ?t) c = Inr (b, c')" "cpu_live cfg (Suc k) c'"
      "mem_outs (memory_system c') = (if b then add_mset (is_write ?t, t_addr ?t) (mem_outs (memory_system c)) else mem_outs (memory_system c))"
      using try_add_ok [OF c(2)] by blast
    show ?thesis
    proof (cases "added_cycle ?t \<le> cpu_clk c \<and> b")
      case True
      then show ?thesis using a c(3) False in_order_step(1) [OF False r1_def]
        by (intro exI [of _ "r1\<lparr>trace_get_next := True, trace_cpu := c'\<lparr>cpu_clk := cpu_clk c' + 1\<rparr>\<rparr>"] exI [of _ "[(is_write ?t, t_addr ?t)]"])
          (simp add: tick)
    next
      case none_added: False
      obtain c2 where c2: "trace_ClockTick r = Inr (r1\<lparr>trace_get_next := False, trace_cpu := c2\<rparr>)" "cpu_live cfg (Suc k) c2"
        "mem_outs (memory_system c2) = mem_outs (memory_system c)"
        using none_added a c(2) none unfolding tick by (cases "added_cycle ?t \<le> cpu_clk c") auto
      then show ?thesis using c(3) False in_order_step(2) [OF False r1_def, of c2] by fastforce
    qed
  qed
qed

interpretation trace: memory_client trace_cpu trace_ClockTick
  by unfold_locales (use trace_tick_in_order in blast)

lemma in_order_trans:
  assumes "in_order r a1 r1" and "in_order r1 a2 r2" and "eof (trace_file r1) \<longrightarrow> eof (trace_file r2)"
  shows "in_order r (a1 @ a2) r2"
proof (cases "eof (trace_file r1)")
  case True
  then have "trace_pending r1 = []" "trace_pending r2 = []" using assms(3) by (simp_all add: trace_pending_def)
  then show ?thesis using assms by (auto simp: in_order_def)
next
  case False
  then show ?thesis using assms(1,2) by (auto simp: in_order_def butlast_append)
qed

lemma mset_chain: "e + x1 = x + a1 \<Longrightarrow> r + x2 = x1 + a2 \<Longrightarrow> (e + r) + x2 = x + (a1 + a2 :: 'b multiset)"
  by (simp only: add.assoc) (simp add: add.assoc [symmetric])

lemma trace_run_in_order:
  "cpu_live cfg k (trace_cpu r) \<Longrightarrow> \<forall>j<k + n. gap_at cfg j \<Longrightarrow>
   \<exists>r' sent. cpu_run trace_ClockTick n r = Inr r' \<and> (eof (trace_file r) \<longrightarrow> eof (trace_file r')) \<and> in_order r sent r' \<and>
     mset (trace_reported n r) + mem_outs (memory_system (trace_cpu r')) = mem_outs (memory_system (trace_cpu r)) + mset sent"
proof (induction n arbitrary: r k)
  case 0
  then show ?case by (auto simp: in_order_def intro!: exI [of _ "[]"])
next
  case (Suc n)
  have "gap_at cfg k" using Suc.prems(2) by simp
  from trace_tick_in_order [OF Suc.prems(1) this] obtain r1 a1 where r1: "trace_ClockTick r = Inr r1" "cpu_live cfg (Suc k) (trace_cpu r1)" "eof (trace_file r) \<longrightarrow> eof (trace_file r1)"
    "in_order r a1 r1" "mset (mem_events (memory_system (trace_cpu r))) + mem_outs (memory_system (trace_cpu r1)) =
      mem_outs (memory_system (trace_cpu r)) + mset a1" by blast
  obtain r2 a2 where r2: "cpu_run trace_ClockTick n r1 = Inr r2" "eof (trace_file r1) \<longrightarrow> eof (trace_file r2)" "in_order r1 a2 r2"
    "mset (trace_reported n r1) + mem_outs (memory_system (trace_cpu r2)) = mem_outs (memory_system (trace_cpu r1)) + mset a2"
    using Suc.IH [OF r1(2)] Suc.prems(2) by auto
  have "mset (trace_reported (Suc n) r) + mem_outs (memory_system (trace_cpu r2)) = mem_outs (memory_system (trace_cpu r)) + mset (a1 @ a2)"
    using mset_chain [OF r1(5) r2(4)] by (simp add: r1(1))
  then show ?case using r1(1,3) r2(1,2) in_order_trans [OF r1(4) r2(3,2)] by auto
qed

text \<open>Without white space after it, the last entry is never added unless its cycle has come when it is read.\<close>

lemma trace_last_entry_lost:
  assumes "cpu_live cfg k (trace_cpu r)" and "\<forall>j<k + Suc n. gap_at cfg j" and "trace_get_next r" and "\<not> eof (trace_file r)"
    and "trace_stream.entries (trace_file r) = [(a, op, cyc)]" and "\<not> trailing_space (trace_file r)" and "cpu_clk (trace_cpu r) < cyc"
  shows "\<exists>r'. cpu_run trace_ClockTick (Suc n) r = Inr r' \<and>
    mset (trace_reported (Suc n) r) + mem_outs (memory_system (trace_cpu r')) = mem_outs (memory_system (trace_cpu r))"
proof -
  have "gap_at cfg k" using assms(2) by simp
  from cpu_memory_tick_ok [OF assms(1) this] obtain c where c: "cpu_memory_tick (trace_cpu r) = Inr c" "cpu_live cfg (Suc k) c"
    "cpu_clk c = cpu_clk (trace_cpu r)" "mem_outs (memory_system (trace_cpu r)) = mset (mem_events (memory_system (trace_cpu r))) + mem_outs (memory_system c)"
    by blast
  have nd: "\<not> cyc \<le> cpu_clk c" using assms(7) c(3) by simp
  obtain r1 where r1: "trace_ClockTick r = Inr r1" "eof (trace_file r1)" "trace_cpu r1 = c\<lparr>cpu_clk := cpu_clk c + 1\<rparr>"
    using assms(3-6) nd by (simp add: trace_ClockTick_def c(1) extract_trans_def)
  have "cpu_live cfg (Suc k) (trace_cpu r1)" "\<forall>j<Suc k + n. gap_at cfg j" using c(2) r1(3) assms(2) by simp_all
  from trace_run_in_order [OF this] obtain r2 sent where r2: "cpu_run trace_ClockTick n r1 = Inr r2" "in_order r1 sent r2"
    "mset (trace_reported n r1) + mem_outs (memory_system (trace_cpu r2)) = mem_outs (memory_system (trace_cpu r1)) + mset sent" by blast
  have "sent = []" using r2(2) r1(2) by (auto simp: in_order_def trace_pending_def)
  then show ?thesis using r2(1,3) r1(1,3) c(4) by (simp add: ac_simps)
qed

section \<open>Properties\<close>

lemma CPU_of_live:
  assumes "jedec_cfg_ok cfg"
  obtains c where "CPU_of cfg = Inr c" and "cpu_live cfg 0 c" and "mem_outs (memory_system c) = {#}"
proof -
  obtain m where m: "MemorySystem_of cfg ReadCallBack WriteCallBack = Inr m" "mem_inv m" "mem_outs m = {#}"
    "mem_call m = call_event ReadCallBack WriteCallBack"
    by (rule MemorySystem_of_ok [of cfg ReadCallBack WriteCallBack]) (use assms in \<open>auto simp: mem_cfg_ok_def\<close>)
  have "mem_at cfg 0 m" using built_at [OF m(1)] assms by (simp add: jedec_cfg_ok_def)
  then show thesis using m by (intro that [of "\<lparr>memory_system = m, cpu_clk = 0\<rparr>"]) (simp_all add: CPU_of_def cpu_live_def)
qed

lemma CPU_new_of: "Config_new strtod dir_exist raw reader out = Inr cfg \<Longrightarrow> CPU_new strtod dir_exist raw reader out = CPU_of cfg"
  by (simp add: CPU_new_def CPU_of_def MemorySystem_new_def)


lemma hbm2_output_ok: "jedec_cfg_ok (with_output d hbm2_config)" "k < 2 ^ 63 \<Longrightarrow> gap_at (with_output d hbm2_config) k"
  using hbm2_jedec_ok hbm2_gap by (simp_all add: with_output_ok gap_at_def)


text \<open>C15. A trace is replayed in order. After any number of cycles the transactions handed to the memory,
  which it has reported or still holds, are a prefix of what the file asks for: its entries in order and,
  when white space follows the last entry, one more read of the address of that entry. What is missing is
  still to come, except that the last transaction is dropped when the memory does not take it in the cycle in which the
  end of the file is seen.\<close>

theorem trace_replayed_in_order:
  assumes "jedec_cfg_ok cfg" and "CPU_of cfg = Inr c" and "TraceBasedCPU_new unset (Some f) c = Inr r" and "\<not> eof f" and "\<forall>j<n. gap_at cfg j"
  shows "\<exists>r' sent. cpu_run trace_ClockTick n r = Inr r' \<and>
    mset sent = mset (trace_reported n r) + mem_outs (memory_system (trace_cpu r')) \<and>
    (trace_offers f (t_addr unset) = sent @ trace_pending r' \<or> eof (trace_file r') \<and> sent = butlast (trace_offers f (t_addr unset)))"
proof -
  have r: "trace_cpu r = c" "trace_pending r = trace_offers f (t_addr unset)"
    using assms(3,4) by (auto simp: TraceBasedCPU_new_def trace_pending_def)
  have c: "cpu_live cfg 0 c" "mem_outs (memory_system c) = {#}" using CPU_of_live [OF assms(1)] assms(2) by auto
  from trace_run_in_order [of cfg 0 r n] obtain r' sent where "cpu_run trace_ClockTick n r = Inr r'" "in_order r sent r'"
    "mset (trace_reported n r) + mem_outs (memory_system (trace_cpu r')) = mset sent"
    using c r(1) assms(5) by auto
  then show ?thesis by (auto simp: in_order_def r(2))
qed

theorem trace_replayed_in_order_witness:
  "\<exists>c r r' sent. CPU_of hbm2_config = Inr c \<and>
    TraceBasedCPU_new \<lparr>t_addr = 0, added_cycle = 0, complete_cycle = 0, is_write = False\<rparr>
      (Some \<lparr>trace_stream.entries = [(64, ''READ'', 0), (128, ''WRITE'', 3)], trailing_space = True, eof = False\<rparr>) c = Inr r \<and>
    cpu_run trace_ClockTick 1000 r = Inr r' \<and>
    mset sent = mset (trace_reported 1000 r) + mem_outs (memory_system (trace_cpu r')) \<and>
    ([(False, 64), (True, 128), (False, 128)] = sent @ trace_pending r' \<or> eof (trace_file r') \<and> sent = [(False, 64), (True, 128)])"
proof -
  let ?f = "\<lparr>trace_stream.entries = [(64, ''READ'', 0), (128, ''WRITE'', 3)], trailing_space = True, eof = False\<rparr>"
  let ?u = "\<lparr>t_addr = 0, added_cycle = 0, complete_cycle = 0, is_write = False\<rparr>"
  obtain c where c: "CPU_of hbm2_config = Inr c" using CPU_of_live [OF hbm2_jedec_ok] by blast
  obtain r where r: "TraceBasedCPU_new ?u (Some ?f) c = Inr r" by (simp add: TraceBasedCPU_new_def)
  have "gap_at hbm2_config j" if "j < 1000" for j
    using that hbm2_output_ok(2) [of j "''./''"] by (simp add: with_output_def hbm2_config_def gap_at_def)
  then have g: "\<forall>j<1000. gap_at hbm2_config j" by simp
  have o: "trace_offers ?f (t_addr ?u) = [(False, 64), (True, 128), (False, 128)]"
    by (simp add: trace_offers_def entry_offer_def write_ops_def)
  have e: "\<not> eof ?f" by simp
  from trace_replayed_in_order [OF hbm2_jedec_ok c r e g] show ?thesis unfolding o using c r by simp
qed

end
