(* ===== verification/Dram_Output.thy ===== *)
theory Dram_Output
  imports Dram_System Anna_Address "HOL-Library.Char_ord" "HOL-Library.List_Lexorder"
begin

text \<open>
  The output of the statistics, in \<^verbatim>\<open>dramsim3/src/simple_stats.cc\<close> and
  \<^verbatim>\<open>dram_system.cc\<close>: names and descriptions, the figures of a report, and the files it is
  written to. A file system is a map from names to contents; the JSON library and the formatting of a
  \<^verbatim>\<open>double\<close> are arguments. A \<^verbatim>\<open>std::map\<close> is walked in the order of its
  keys. Lemmas: every line of a report carries the description registered for it, every registered
  statistic has a line, the label of a histogram bin covers the values counted in it, and the two JSON
  files are a bracketed list of one entry per channel and epoch and an object with one member per channel.
\<close>

section \<open>Names and descriptions\<close>

definition show_int :: "int \<Rightarrow> string" where
  "show_int i = (if i < 0 then ''-'' @ dec (nat (- i)) else dec (nat i))"

definition show_u64 :: "u64 \<Rightarrow> string" where
  "show_u64 x = dec (unat x)"

definition counter_descs :: "(string \<times> string) list" where
  "counter_descs =
     [(''num_cycles'', ''Number of DRAM cycles''), (''epoch_num'', ''Number of epochs''),
      (''num_reads_done'', ''Number of read requests issued''), (''num_writes_done'', ''Number of read requests issued''),
      (''num_write_buf_hits'', ''Number of write buffer hits''), (''num_read_row_hits'', ''Number of read row buffer hits''),
      (''num_write_row_hits'', ''Number of write row buffer hits''), (''num_read_cmds'', ''Number of READ/READP commands''),
      (''num_write_cmds'', ''Number of WRITE/WRITEP commands''), (''num_act_cmds'', ''Number of ACT commands''),
      (''num_pre_cmds'', ''Number of PRE commands''), (''num_ondemand_pres'', ''Number of ondemend PRE commands''),
      (''num_ref_cmds'', ''Number of REF commands''), (''num_refb_cmds'', ''Number of REFb commands''),
      (''num_srefe_cmds'', ''Number of SREFE commands''), (''num_srefx_cmds'', ''Number of SREFX commands''),
      (''hbm_dual_cmds'', ''Number of cycles dual cmds issued'')]"

definition double_descs :: "(string \<times> string) list" where
  "double_descs =
     [(''act_energy'', ''Activation energy''), (''read_energy'', ''Read energy''), (''write_energy'', ''Write energy''),
      (''ref_energy'', ''Refresh energy''), (''refb_energy'', ''Refresh-bank energy'')]"

definition vec_descs :: "(string \<times> string) list" where
  "vec_descs =
     [(''all_bank_idle_cycles'', ''Cyles of all bank idle in rank''), (''rank_active_cycles'', ''Cyles of rank active''),
      (''sref_cycles'', ''Cyles of rank in SREF mode'')]"

definition vec_double_descs :: "(string \<times> string) list" where
  "vec_double_descs =
     [(''act_stb_energy'', ''Active standby energy''), (''pre_stb_energy'', ''Precharge standby energy''), (''sref_energy'', ''SREF energy'')]"

definition histo_descs :: "(string \<times> string \<times> int \<times> int \<times> int) list" where
  "histo_descs =
     [(''read_latency'', ''Read request latency (cycles)'', 0, 200, 10), (''write_latency'', ''Write cmd latency (cycles)'', 0, 200, 10),
      (''interarrival_latency'', ''Request interarrival latency (cycles)'', 0, 100, 10)]"

definition calculated_descs :: "(string \<times> string) list" where
  "calculated_descs =
     [(''average_bandwidth'', ''Average bandwidth''), (''total_energy'', ''Total energy (pJ)''), (''average_power'', ''Average power (mW)''),
      (''average_read_latency'', ''Average read request latency (cycles)''),
      (''average_interarrival'', ''Average request interarrival latency (cycles)'')]"

definition vec_headers :: "nat \<Rightarrow> string \<times> string \<Rightarrow> (string \<times> string) list" where
  "vec_headers vec_len nd =
     map (\<lambda>i. let trailing = ''.'' @ dec i in (fst nd @ trailing, snd nd @ '' '' @ ''rank'' @ trailing)) [0..<vec_len]"

definition bucket :: "string \<Rightarrow> int \<Rightarrow> int \<Rightarrow> int \<Rightarrow> string" where
  "bucket name start_val bin_width i =
     name @ ''['' @ show_int (start_val + (i - 1) * bin_width) @ ''-'' @ show_int (start_val + i * bin_width - 1) @ '']''"

definition histo_header_list :: "string \<Rightarrow> int \<Rightarrow> int \<Rightarrow> int \<Rightarrow> string list" where
  "histo_header_list name start_val end_val num_bins =
     (let bin_width = (end_val - start_val) sdiv num_bins
      in (name @ ''[-'' @ show_int start_val @ '']'') # map (bucket name start_val bin_width) [1..num_bins] @
         [name @ ''['' @ show_int end_val @ ''-]''])"

definition histo_headers :: "(string, string list) smap" where
  "histo_headers = map (\<lambda>(name, _, start_val, end_val, num_bins). (name, histo_header_list name start_val end_val num_bins)) histo_descs"

text \<open>The descriptions in the order of their registration; the map keeps the first of a name.\<close>

definition registered :: "Config \<Rightarrow> (string \<times> string) list" where
  "registered cfg =
     counter_descs @ double_descs @ concat (map (vec_headers (nat (ranks cfg))) vec_descs) @
     concat (map (vec_headers (nat (ranks cfg))) vec_double_descs) @
     concat (map (\<lambda>(name, desc, start_val, end_val, num_bins). map (\<lambda>h. (h, desc)) (histo_header_list name start_val end_val num_bins)) histo_descs) @
     calculated_descs"

definition header_descs :: "Config \<Rightarrow> (string, string) smap" where
  "header_descs cfg = fold (\<lambda>(n, d). sm_emplace n d) (registered cfg) []"

section \<open>The figures of a report\<close>

datatype json = JNull | JInt int | JNum u64 | JReal real | JObj "(string \<times> json) list"

type_synonym json_data = "(string, json) smap"

definition by_key :: "('k :: linorder, 'v) smap \<Rightarrow> ('k \<times> 'v) list" where
  "by_key m = sort_key fst m"

text \<open>A value that starts as null and is assigned member by member.\<close>

definition jobj :: "(string \<times> json) list \<Rightarrow> json" where
  "jobj xs = (if xs = [] then JNull else JObj xs)"

definition vec_pairs :: "('a \<Rightarrow> string) \<Rightarrow> string \<times> 'a list \<Rightarrow> (string \<times> string) list" where
  "vec_pairs sh kv = map (\<lambda>i. (fst kv @ ''.'' @ dec i, sh (snd kv ! i))) [0..<length (snd kv)]"

definition vec_json :: "('a \<Rightarrow> json) \<Rightarrow> string \<times> 'a list \<Rightarrow> string \<times> json" where
  "vec_json mk kv = (fst kv, jobj (map (\<lambda>i. (dec i, mk (snd kv ! i))) [0..<length (snd kv)]))"

definition bin_pairs :: "string \<times> u64 list \<Rightarrow> (string \<times> u64) list res" where
  "bin_pairs kv =
     res_map (\<lambda>i. res_bind (vget (sm_get [] histo_headers (fst kv)) (int i)) (\<lambda>n. Inr (n, snd kv ! i))) [0..<length (snd kv)]"

definition UpdatePrints :: "(real \<Rightarrow> string) \<Rightarrow> bool \<Rightarrow> SimpleStats \<Rightarrow> ((string \<times> string) list \<times> (string \<times> json) list) res" where
  "UpdatePrints fmt epoch s =
     (let cs = by_key (if epoch then epoch_counters s else counters s);
          vs = by_key (if epoch then epoch_vec_counters s else vec_counters s);
          hs = by_key (if epoch then epoch_histo_bins s else histo_bins s);
          ds = by_key (doubles s); vds = by_key (vec_doubles s); cal = by_key (calculated s)
      in res_bind (res_map bin_pairs hs) (\<lambda>bins. Inr
        (map (\<lambda>(k, v). (k, show_u64 v)) cs @ concat (map (vec_pairs show_u64) vs) @
         map (\<lambda>(k, v). (k, show_u64 v)) (concat bins) @ map (\<lambda>(k, v). (k, fmt v)) ds @
         concat (map (vec_pairs fmt) vds) @ map (\<lambda>(k, v). (k, fmt v)) cal,
         [(''channel'', JInt (stats_channel_id s))] @ map (\<lambda>(k, v). (k, JNum v)) cs @
         [(''epoch_num'', JNum (sm_get 0 (counters s) ''epoch_num''))] @ map (vec_json JNum) vs @
         map (\<lambda>(k, v). (k, JNum v)) (concat bins) @
         (if epoch then [] else map (\<lambda>(k, h). (k, jobj (map (\<lambda>(x, n). (show_int x, JNum n)) (by_key h)))) (by_key (histo_counts s))) @
         map (\<lambda>(k, v). (k, JReal v)) ds @ map (vec_json JReal) vds @ map (\<lambda>(k, v). (k, JReal v)) cal)))"

text \<open>The JSON object keeps the members of earlier reports and overwrites those assigned again.\<close>

definition assign_json :: "(string \<times> json) list \<Rightarrow> json_data \<Rightarrow> json_data" where
  "assign_json = fold (\<lambda>(k, v). sm_put k v)"

section \<open>Text\<close>

definition rule_line :: string where
  "rule_line = replicate 43 (CHR ''#'')"

definition GetTextHeader :: "bool \<Rightarrow> SimpleStats \<Rightarrow> string res" where
  "GetTextHeader is_final s =
     (let header = rule_line @ [CHR 0x0A] @ ''## Statistics of Channel '' @ show_int (stats_channel_id s)
      in res_bind (if is_final then Inr header
                   else res_bind (sm_at (counters s) ''epoch_num'') (\<lambda>n. Inr (header @ '' of epoch '' @ show_u64 n))) (\<lambda>h.
           Inr (h @ [CHR 0x0A] @ rule_line @ [CHR 0x0A])))"

definition pad_right :: "nat \<Rightarrow> string \<Rightarrow> string" where
  "pad_right n s = s @ replicate (n - length s) (CHR '' '')"

definition pad_left :: "nat \<Rightarrow> string \<Rightarrow> string" where
  "pad_left n s = replicate (n - length s) (CHR '' '') @ s"

definition PrintStatText :: "string \<Rightarrow> string \<Rightarrow> string \<Rightarrow> string" where
  "PrintStatText name v description = pad_right 30 name @ '' = '' @ pad_left 12 v @ pad_left 5 '' # '' @ description @ [CHR 0x0A]"

definition report_text :: "Config \<Rightarrow> (string \<times> string) list \<Rightarrow> string" where
  "report_text cfg ps = concat (map (\<lambda>(n, v). PrintStatText n v (sm_get [] (header_descs cfg) n)) ps)"

section \<open>Files\<close>

type_synonym files = "string \<Rightarrow> string option"

definition f_out :: "string \<Rightarrow> string \<Rightarrow> files \<Rightarrow> files" where
  "f_out name txt fs = fs(name \<mapsto> txt)"

definition f_app :: "string \<Rightarrow> string \<Rightarrow> files \<Rightarrow> files" where
  "f_app name txt fs = fs(name \<mapsto> (case fs name of None \<Rightarrow> [] | Some t \<Rightarrow> t) @ txt)"

text \<open>A bracket over the last character but one. A missing file is not opened, and a file that is
  too short refuses the position.\<close>

definition close_list :: "string \<Rightarrow> files \<Rightarrow> files" where
  "close_list name fs =
     (case fs name of
        None \<Rightarrow> fs
      | Some t \<Rightarrow> if length t < 2 then fs else fs(name \<mapsto> t[length t - 2 := CHR '']'']))"

text \<open>\<^verbatim>\<open>UpdateEpochStats\<close> up to the report and the reset of the epoch after it.\<close>

definition epoch_figures :: "Config \<Rightarrow> SimpleStats \<Rightarrow> SimpleStats res" where
  "epoch_figures cfg s =
     res_bind (UpdateCounters s) (\<lambda>s1.
     (let s2 = command_energy cfg (epoch_counters s1) s1
      in res_bind (res_fold (background_step cfg (epoch_vec_counters s2)) (irange (ranks cfg)) (vec_doubles s2, 0)) (\<lambda>(vd, bg).
         res_bind (UpdateHistoBins (s2\<lparr>vec_doubles := vd\<rparr>)) (\<lambda>s3.
           calculated_stats cfg (epoch_counters s3) (epoch_histo_counts s3) bg s3))))"

definition clear_epoch :: "SimpleStats \<Rightarrow> SimpleStats" where
  "clear_epoch s = s\<lparr>epoch_counters := fill_values 0 (epoch_counters s), epoch_vec_counters := fill_vectors 0 (epoch_vec_counters s),
     epoch_histo_counts := fill_values [] (epoch_histo_counts s)\<rparr>"

lemma UpdateEpochStats_split: "UpdateEpochStats cfg s = res_bind (epoch_figures cfg s) (\<lambda>s'. Inr (clear_epoch s'))"
  by (simp add: UpdateEpochStats_def epoch_figures_def res_bind_assoc clear_epoch_def Let_def split_def)

text \<open>The two print functions with their output: a state is a set of files and what was written to the console.\<close>

definition out_PrintEpochStats ::
  "(real \<Rightarrow> string) \<Rightarrow> (json_data \<Rightarrow> string) \<Rightarrow> Config \<Rightarrow> SimpleStats \<times> json_data \<Rightarrow> files \<times> string \<Rightarrow>
   ((SimpleStats \<times> json_data) \<times> (files \<times> string)) res" where
  "out_PrintEpochStats fmt shj cfg sj o' =
     res_bind (epoch_figures cfg (fst sj)) (\<lambda>s.
     res_bind (UpdatePrints fmt True s) (\<lambda>(print_pairs, assigned).
     (let s' = clear_epoch s; j = assign_json assigned (snd sj);
          fs = (if 1 \<le> output_level cfg then f_app (json_epoch_name cfg) (shj j) (fst o') else fst o')
      in res_bind (if 2 \<le> output_level cfg
                   then res_bind (GetTextHeader False s') (\<lambda>h. Inr (snd o' @ h @ report_text cfg print_pairs))
                   else Inr (snd o')) (\<lambda>con. Inr ((s', j), (fs, con))))))"

definition out_PrintFinalStats ::
  "(real \<Rightarrow> string) \<Rightarrow> (json_data \<Rightarrow> string) \<Rightarrow> Config \<Rightarrow> SimpleStats \<times> json_data \<Rightarrow> files \<times> string \<Rightarrow>
   ((SimpleStats \<times> json_data) \<times> (files \<times> string)) res" where
  "out_PrintFinalStats fmt shj cfg sj o' =
     res_bind (UpdateFinalStats cfg (fst sj)) (\<lambda>s.
     res_bind (UpdatePrints fmt False s) (\<lambda>(print_pairs, assigned).
     (let j = assign_json assigned (snd sj);
          fs = (if 0 \<le> output_level cfg
                then f_app (json_stats_name cfg) ([CHR 0x22] @ show_int (stats_channel_id s) @ [CHR 0x22] @ '':'' @ shj j) (fst o')
                else fst o')
      in res_bind (if 1 \<le> output_level cfg
                   then res_bind (GetTextHeader True s) (\<lambda>h.
                     Inr ((if stats_channel_id s = 0 then f_out else f_app) (txt_stats_name cfg) (h @ report_text cfg print_pairs) fs))
                   else Inr fs) (\<lambda>fs'. Inr ((s, j), (fs', snd o'))))))"

text \<open>The loops of the memory system over its channels.\<close>

definition list_sep :: string where
  "list_sep = [CHR '','', CHR 0x0A]"

definition out_epoch_channel ::
  "(real \<Rightarrow> string) \<Rightarrow> (json_data \<Rightarrow> string) \<Rightarrow> Config \<Rightarrow> Controller \<times> json_data \<Rightarrow> files \<times> string \<Rightarrow>
   ((Controller \<times> json_data) \<times> (files \<times> string)) res" where
  "out_epoch_channel fmt shj cfg cj o' =
     res_bind (out_PrintEpochStats fmt shj cfg (Increment ''epoch_num'' (ctrl_stats (fst cj)), snd cj) o') (\<lambda>((st, j), (fs, con)).
       Inr (((fst cj)\<lparr>ctrl_stats := st\<rparr>, j), (f_app (json_epoch_name cfg) list_sep fs, con)))"

definition out_sys_PrintEpochStats ::
  "(real \<Rightarrow> string) \<Rightarrow> (json_data \<Rightarrow> string) \<Rightarrow> 's BaseDRAMSystem \<Rightarrow> json_data list \<Rightarrow> files \<times> string \<Rightarrow>
   ('s BaseDRAMSystem \<times> json_data list \<times> (files \<times> string)) res" where
  "out_sys_PrintEpochStats fmt shj s js o' =
     (let cfg = sys_config s;
          fs = (if sys_clk s - of_int (epoch_period cfg) = 0 then f_out (json_epoch_name cfg) ''['' (fst o') else fst o')
      in res_bind (res_map_state (out_epoch_channel fmt shj cfg) (zip (ctrls s) js) (fs, snd o')) (\<lambda>(cjs, o'').
           Inr (s\<lparr>ctrls := map fst cjs\<rparr>, map snd cjs, o'')))"

definition out_final_channel ::
  "(real \<Rightarrow> string) \<Rightarrow> (json_data \<Rightarrow> string) \<Rightarrow> Config \<Rightarrow> nat \<Rightarrow> nat \<times> Controller \<times> json_data \<Rightarrow> files \<times> string \<Rightarrow>
   ((Controller \<times> json_data) \<times> (files \<times> string)) res" where
  "out_final_channel fmt shj cfg n icj o' =
     (let c = fst (snd icj) in
      res_bind (out_PrintFinalStats fmt shj cfg (ctrl_stats c, snd (snd icj)) o') (\<lambda>((st, j), (fs, con)).
        Inr ((c\<lparr>ctrl_stats := st\<rparr>, j), (if fst icj \<noteq> n - 1 then f_app (json_stats_name cfg) list_sep fs else fs, con))))"

definition out_sys_PrintStats ::
  "(real \<Rightarrow> string) \<Rightarrow> (json_data \<Rightarrow> string) \<Rightarrow> 's BaseDRAMSystem \<Rightarrow> json_data list \<Rightarrow> files \<times> string \<Rightarrow>
   ('s BaseDRAMSystem \<times> json_data list \<times> (files \<times> string)) res" where
  "out_sys_PrintStats fmt shj s js o' =
     (let cfg = sys_config s; fs = f_out (json_stats_name cfg) ''{'' (close_list (json_epoch_name cfg) (fst o'))
      in res_bind (res_map_state (out_final_channel fmt shj cfg (length (ctrls s))) (enumerate 0 (zip (ctrls s) js)) (fs, snd o')) (\<lambda>(cjs, o'').
           Inr (s\<lparr>ctrls := map fst cjs\<rparr>, map snd cjs, (f_app (json_stats_name cfg) ''}'' (fst o''), snd o''))))"

section \<open>Statistics that can be printed\<close>

definition histo_bound_list :: "(string \<times> int \<times> int) list" where
  "histo_bound_list = [(''read_latency'', 0, 200), (''write_latency'', 0, 200), (''interarrival_latency'', 0, 100)]"

definition bin_width_list :: "(string \<times> int) list" where
  "bin_width_list = [(''read_latency'', 20), (''write_latency'', 20), (''interarrival_latency'', 10)]"

text \<open>The maps have the registered keys and the histograms the registered bins.\<close>

definition stats_printable :: "Config \<Rightarrow> SimpleStats \<Rightarrow> bool" where
  "stats_printable cfg s \<longleftrightarrow> stats_wf cfg s \<and> map fst (counters s) = counter_names \<and> map fst (epoch_counters s) = counter_names \<and>
     map fst (doubles s) = double_names \<and> map fst (calculated s) = calculated_names \<and>
     histo_bounds s = histo_bound_list \<and> bin_widths s = bin_width_list"

lemma fresh_stats_printable: "SimpleStats_new cfg ch = Inr s \<Longrightarrow> stats_printable cfg s \<and> stats_channel_id s = ch"
  using SimpleStats_new_wf [of cfg ch]
  by (auto simp: SimpleStats_new_eq fresh_stats_def stats_printable_def histo_bound_list_def bin_width_list_def comp_def)

lemma printable_ops [wf_intros]:
  "stats_printable cfg s \<Longrightarrow> n \<in> set counter_names \<Longrightarrow> stats_printable cfg (Increment n s)"
  "stats_printable cfg s \<Longrightarrow> n \<in> set histo_names \<Longrightarrow> stats_printable cfg (AddValue n v s)"
proof -
  assume p: "stats_printable cfg s"
  show "stats_printable cfg (Increment n s)" if "n \<in> set counter_names"
  proof -
    have "fst ` set (epoch_counters s) = set counter_names" using p by (intro keys_names) (simp add: stats_printable_def)
    then have "map fst (sm_put n x (epoch_counters s)) = map fst (epoch_counters s)" for x using that by (simp add: keys_sm_put_in)
    then show ?thesis using p Increment_wf [of cfg s n] by (simp add: stats_printable_def Increment_def)
  qed
  show "stats_printable cfg (AddValue n v s)" if "n \<in> set histo_names"
    using p AddValue_wf [of cfg s n v] that by (simp add: stats_printable_def AddValue_def)
qed

lemma IncrementVec_printable:
  assumes "stats_printable cfg s" and "n \<in> set vec_names" and "0 \<le> i" and "i < ranks cfg"
  shows "\<exists>s'. IncrementVec n i s = Inr s' \<and> stats_printable cfg s'"
proof -
  obtain s' where s': "IncrementVec n i s = Inr s'" "stats_wf cfg s'"
    by (rule IncrementVec_wf [of cfg s n i]) (use assms in \<open>simp_all add: stats_printable_def\<close>)
  obtain m where "s' = s\<lparr>epoch_vec_counters := m\<rparr>" using s'(1) by (auto simp: IncrementVec_def IncrementVecBy_def res_simps)
  then show ?thesis using s' assms(1) by (simp add: stats_printable_def)
qed

lemma Reset_printable: "stats_printable cfg s \<Longrightarrow> stats_printable cfg (Reset s)"
proof -
  assume p: "stats_printable cfg s"
  then have "stats_wf cfg s" by (simp add: stats_printable_def)
  then have "stats_wf cfg (Reset s)" by (simp add: Reset_def stats_wf_def sm_get_fill_vectors)
  then show ?thesis using p by (simp add: stats_printable_def Reset_def)
qed

lemma keys_fold_put:
  "fst ` set e \<subseteq> fst ` set c \<Longrightarrow> map fst (fold (\<lambda>(k, v) m. sm_put k (f m k v) m) e c) = map fst c"
proof (induction e arbitrary: c)
  case (Cons x e)
  obtain k v where x: "x = (k, v)" by (cases x)
  have "map fst (sm_put k (f c k v) c) = map fst c" using Cons.prems x by (simp add: keys_sm_put_in)
  moreover have "fst ` set e \<subseteq> fst ` set (sm_put k (f c k v) c)" using Cons.prems by auto
  ultimately show ?case using Cons.IH x by simp
qed simp

lemma UpdateCounters_printable:
  assumes "stats_printable cfg s"
  shows "\<exists>s'. UpdateCounters s = Inr s' \<and> stats_printable cfg s' \<and> stats_channel_id s' = stats_channel_id s"
proof -
  have wf: "stats_wf cfg s" and k: "map fst (counters s) = counter_names" "map fst (epoch_counters s) = counter_names"
    using assms by (simp_all add: stats_printable_def)
  obtain s' m where s': "UpdateCounters s = Inr s'" "stats_wf cfg s'" "s' = s\<lparr>counters := counters s', vec_counters := m\<rparr>"
    by (rule UpdateCounters_spec [OF wf])
  have "counters s' = fold (\<lambda>(k, v) m. sm_put k (sm_get 0 m k + v) m) (epoch_counters s) (counters s)"
    using s'(1) by (auto simp: UpdateCounters_def Let_def res_simps)
  then have "map fst (counters s') = map fst (counters s)"
    using keys_fold_put [of "epoch_counters s" "counters s" "\<lambda>m k v. sm_get 0 m k + v"] keys_names [OF k(1)] keys_names [OF k(2)] by simp
  moreover have "epoch_counters s' = epoch_counters s" "doubles s' = doubles s" "calculated s' = calculated s" "histo_bounds s' = histo_bounds s"
    "bin_widths s' = bin_widths s" "stats_channel_id s' = stats_channel_id s" by (subst s'(3), simp)+
  ultimately show ?thesis using s'(1,2) assms by (simp add: stats_printable_def)
qed

lemma command_energy_printable:
  assumes "stats_printable cfg s"
  shows "stats_printable cfg (command_energy cfg cs s) \<and> stats_channel_id (command_energy cfg cs s) = stats_channel_id s"
proof -
  have k: "map fst (doubles s) = double_names" using assms by (simp add: stats_printable_def)
  have "''act_energy'' \<in> fst ` set (doubles s)" "''read_energy'' \<in> fst ` set (doubles s)" "''write_energy'' \<in> fst ` set (doubles s)"
    "''ref_energy'' \<in> fst ` set (doubles s)" "''refb_energy'' \<in> fst ` set (doubles s)"
    unfolding keys_names [OF k] by (simp_all add: double_names_def)
  then have "map fst (doubles (command_energy cfg cs s)) = double_names" using k by (simp add: command_energy_def Let_def keys_sm_put_in)
  moreover obtain d where "command_energy cfg cs s = s\<lparr>doubles := d\<rparr>" using command_energy_frame by blast
  ultimately show ?thesis using assms by (simp add: stats_printable_def)
qed

lemma calculated_printable:
  assumes "stats_printable cfg s" and "map fst hs = histo_names"
  shows "\<exists>s'. calculated_stats cfg cs hs bg s = Inr s' \<and> stats_printable cfg s' \<and> stats_channel_id s' = stats_channel_id s"
proof -
  obtain c where "calculated_stats cfg cs hs bg s = Inr (s\<lparr>calculated := c\<rparr>)" using calculated_stats_ok [OF assms(2)] by blast
  then obtain rl il where hs: "sm_at hs ''read_latency'' = Inr rl" "sm_at hs ''interarrival_latency'' = Inr il"
    by (auto simp: calculated_stats_def Let_def res_bind_eq_Inr)
  have k: "map fst (calculated s) = calculated_names" using assms(1) by (simp add: stats_printable_def)
  have m: "''average_bandwidth'' \<in> fst ` set (calculated s)" "''total_energy'' \<in> fst ` set (calculated s)" "''average_power'' \<in> fst ` set (calculated s)"
    "''average_read_latency'' \<in> fst ` set (calculated s)" "''average_interarrival'' \<in> fst ` set (calculated s)"
    unfolding keys_names [OF k] by (simp_all add: calculated_names_def)
  have "map fst (sm_put ''average_interarrival'' v (sm_put ''average_read_latency'' w (sm_put ''average_power'' x (sm_put ''total_energy'' y
      (sm_put ''average_bandwidth'' z (calculated s)))))) = calculated_names" for v w x y z using k m by (simp add: keys_sm_put_in)
  moreover have "\<exists>v w x y z. calculated_stats cfg cs hs bg s = Inr (s\<lparr>calculated := sm_put ''average_interarrival'' v (sm_put ''average_read_latency'' w
      (sm_put ''average_power'' x (sm_put ''total_energy'' y (sm_put ''average_bandwidth'' z (calculated s)))))\<rparr>)"
    unfolding calculated_stats_def Let_def hs res_bind_Inr by (intro exI) (rule refl)
  ultimately show ?thesis using assms(1) by (auto simp: stats_printable_def)
qed

text \<open>The part that the two reports share.\<close>

lemma figures_printable:
  assumes "stats_printable cfg s" and "\<forall>n\<in>set vec_names. length (sm_get [] vcs n) = nat (ranks cfg)"
  obtains vd bg s' where "res_fold (background_step cfg vcs) (irange (ranks cfg)) (vec_doubles s, 0) = Inr (vd, bg)"
    and "UpdateHistoBins (s\<lparr>vec_doubles := vd\<rparr>) = Inr s'" and "stats_printable cfg s'" and "stats_channel_id s' = stats_channel_id s"
proof -
  have wf: "stats_wf cfg s" using assms(1) by (simp add: stats_printable_def)
  obtain vd e where bg: "res_fold (background_step cfg vcs) (irange (ranks cfg)) (vec_doubles s, 0) = Inr (vd, e)"
    "map fst vd = vec_double_names" "\<forall>n\<in>set vec_double_names. length (sm_get [] vd n) = nat (ranks cfg)"
    by (rule background_ok [OF assms(2), of "vec_doubles s"]) (use wf in \<open>auto simp: stats_wf_def\<close>)
  let ?s = "s\<lparr>vec_doubles := vd\<rparr>"
  have wf2: "stats_wf cfg ?s" using wf bg(2,3) by (simp add: stats_wf_def)
  obtain s3 where s3: "UpdateHistoBins ?s = Inr s3" "stats_wf cfg s3"
    "s3 = ?s\<lparr>histo_counts := histo_counts s3, histo_bins := histo_bins s3, epoch_histo_bins := epoch_histo_bins s3\<rparr>"
    by (rule UpdateHistoBins_spec [OF wf2])
  have "stats_printable cfg ?s" using assms(1) wf2 by (simp add: stats_printable_def)
  moreover have "counters s3 = counters s" "epoch_counters s3 = epoch_counters s" "doubles s3 = doubles s" "calculated s3 = calculated s"
    "histo_bounds s3 = histo_bounds s" "bin_widths s3 = bin_widths s" "stats_channel_id s3 = stats_channel_id s" by (subst s3(3), simp)+
  ultimately show thesis using s3(2) by (intro that [OF bg(1) s3(1)]) (simp_all add: stats_printable_def)
qed

lemma printable_vecs:
  "stats_printable cfg s \<Longrightarrow> \<forall>n\<in>set vec_names. length (sm_get [] (epoch_vec_counters s) n) = nat (ranks cfg)"
  "stats_printable cfg s \<Longrightarrow> \<forall>n\<in>set vec_names. length (sm_get [] (vec_counters s) n) = nat (ranks cfg)"
  "stats_printable cfg s \<Longrightarrow> map fst (epoch_histo_counts s) = histo_names" "stats_printable cfg s \<Longrightarrow> map fst (histo_counts s) = histo_names"
  by (simp_all add: stats_printable_def stats_wf_def)

lemma epoch_figures_ok:
  assumes "stats_printable cfg s"
  shows "\<exists>s'. epoch_figures cfg s = Inr s' \<and> stats_printable cfg s' \<and> stats_channel_id s' = stats_channel_id s"
proof -
  obtain s1 where s1: "UpdateCounters s = Inr s1" "stats_printable cfg s1" "stats_channel_id s1 = stats_channel_id s"
    using UpdateCounters_printable [OF assms] by blast
  let ?s2 = "command_energy cfg (epoch_counters s1) s1"
  note s2 = command_energy_printable [OF s1(2), of "epoch_counters s1"]
  obtain vd bg s3 where s3: "res_fold (background_step cfg (epoch_vec_counters ?s2)) (irange (ranks cfg)) (vec_doubles ?s2, 0) = Inr (vd, bg)"
    "UpdateHistoBins (?s2\<lparr>vec_doubles := vd\<rparr>) = Inr s3" "stats_printable cfg s3" "stats_channel_id s3 = stats_channel_id ?s2"
    by (rule figures_printable [OF conjunct1 [OF s2] printable_vecs(1) [OF conjunct1 [OF s2]]])
  obtain s' where "calculated_stats cfg (epoch_counters s3) (epoch_histo_counts s3) bg s3 = Inr s'" "stats_printable cfg s'"
    "stats_channel_id s' = stats_channel_id s3" using calculated_printable [OF s3(3) printable_vecs(3) [OF s3(3)]] by blast
  then show ?thesis using s1 s2 s3 by (simp add: epoch_figures_def Let_def)
qed

lemma UpdateFinalStats_printable:
  assumes "stats_printable cfg s"
  shows "\<exists>s'. UpdateFinalStats cfg s = Inr s' \<and> stats_printable cfg s' \<and> stats_channel_id s' = stats_channel_id s"
proof -
  obtain s1 where s1: "UpdateCounters s = Inr s1" "stats_printable cfg s1" "stats_channel_id s1 = stats_channel_id s"
    using UpdateCounters_printable [OF assms] by blast
  let ?s2 = "command_energy cfg (counters s1) s1"
  note s2 = command_energy_printable [OF s1(2), of "counters s1"]
  obtain vd bg s3 where s3: "res_fold (background_step cfg (vec_counters ?s2)) (irange (ranks cfg)) (vec_doubles ?s2, 0) = Inr (vd, bg)"
    "UpdateHistoBins (?s2\<lparr>vec_doubles := vd\<rparr>) = Inr s3" "stats_printable cfg s3" "stats_channel_id s3 = stats_channel_id ?s2"
    by (rule figures_printable [OF conjunct1 [OF s2] printable_vecs(2) [OF conjunct1 [OF s2]]])
  obtain s' where "calculated_stats cfg (counters s3) (histo_counts s3) bg s3 = Inr s'" "stats_printable cfg s'"
    "stats_channel_id s' = stats_channel_id s3" using calculated_printable [OF s3(3) printable_vecs(4) [OF s3(3)]] by blast
  then show ?thesis using s1 s2 s3 by (simp add: UpdateFinalStats_def Let_def)
qed

lemma clear_epoch_printable: "stats_printable cfg s \<Longrightarrow> stats_printable cfg (clear_epoch s) \<and> stats_channel_id (clear_epoch s) = stats_channel_id s"
proof -
  assume p: "stats_printable cfg s"
  then have "stats_wf cfg s" by (simp add: stats_printable_def)
  then have "stats_wf cfg (clear_epoch s)" by (simp add: clear_epoch_def stats_wf_def sm_get_fill_vectors)
  then show ?thesis using p by (simp add: stats_printable_def clear_epoch_def)
qed

section \<open>The lines of a report\<close>

lemma mset_by_key [simp]: "mset (by_key m) = mset m"
  by (simp add: by_key_def)

lemma concat_by_key: "mset (concat (map f (by_key m))) = mset (concat (map f m))"
proof -
  have "(\<Sum>x\<in>#mset (map (\<lambda>x. mset (f x)) (by_key m)). x) = (\<Sum>x\<in>#mset (map (\<lambda>x. mset (f x)) m). x)" by (simp only: mset_map mset_by_key)
  then show ?thesis by (simp add: mset_concat comp_def sum_mset_sum_list [symmetric])
qed

lemma names_by_key: "mset (map fst (map (\<lambda>(k, v). (k, g v)) (by_key m))) = mset (map fst m)"
proof -
  have "mset (map fst (map (\<lambda>(k, v). (k, g v)) (by_key m))) = mset (map fst (by_key m))" by (simp only: map_map comp_def split_def fst_conv)
  also have "\<dots> = mset (map fst m)" by simp
  finally show ?thesis .
qed

text \<open>The names of the elements of vectors that have the same length.\<close>

lemma names_of_vectors:
  assumes "distinct (map fst m)" and "\<forall>n\<in>set (map fst m). length (sm_get [] m n) = r"
  shows "mset (map fst (concat (map (vec_pairs sh) (by_key m)))) = mset (concat (map (\<lambda>n. map (\<lambda>i. n @ ''.'' @ dec i) [0..<r]) (map fst m)))"
proof -
  have e: "map fst (vec_pairs sh kv) = map (\<lambda>i. fst kv @ ''.'' @ dec i) [0..<r]" if "kv \<in> set m" for kv
  proof -
    have "sm_get [] m (fst kv) = snd kv" by (rule sm_get_entry [OF assms(1)]) (use that in simp)
    then show ?thesis using assms(2) that by (force simp: vec_pairs_def)
  qed
  have "mset (map fst (concat (map (vec_pairs sh) (by_key m)))) = mset (concat (map (\<lambda>kv. map fst (vec_pairs sh kv)) (by_key m)))"
    by (simp add: map_concat comp_def)
  also have "\<dots> = mset (concat (map (\<lambda>kv. map fst (vec_pairs sh kv)) m))" by (rule concat_by_key)
  also have "map (\<lambda>kv. map fst (vec_pairs sh kv)) m = map (\<lambda>n. map (\<lambda>i. n @ ''.'' @ dec i) [0..<r]) (map fst m)" using e by simp
  finally show ?thesis .
qed

lemma names_of_headers: "map fst (concat (map (vec_headers r) ds)) = concat (map (\<lambda>n. map (\<lambda>i. n @ ''.'' @ dec i) [0..<r]) (map fst ds))"
  by (induction ds) (simp_all add: vec_headers_def Let_def comp_def)

text \<open>Every histogram has as many headers as bins.\<close>

lemma printable_bins:
  assumes "stats_printable cfg s" and "n \<in> set histo_names"
  shows "length (sm_get [] (histo_bins s) n) = 12" "length (sm_get [] (epoch_histo_bins s) n) = 12" "length (sm_get [] histo_headers n) = 12"
proof -
  have p: "stats_wf cfg s" "histo_bounds s = histo_bound_list" "bin_widths s = bin_width_list" using assms(1) by (simp_all add: stats_printable_def)
  have f: "bins_fit (sm_get (0, 0) histo_bound_list n) (sm_get 0 bin_width_list n) (length (sm_get [] (epoch_histo_bins s) n))"
    "length (sm_get [] (histo_bins s) n) = length (sm_get [] (epoch_histo_bins s) n)"
    using p(1) assms(2) unfolding p(2,3) [symmetric] by (simp_all add: stats_wf_def)
  have n: "n = ''read_latency'' \<or> n = ''write_latency'' \<or> n = ''interarrival_latency''" using assms(2) by (simp add: histo_names_def)
  then show "length (sm_get [] (epoch_histo_bins s) n) = 12"
    using f(1) by (elim disjE) (simp_all add: bins_fit_def sm_get_def histo_bound_list_def bin_width_list_def)
  then show "length (sm_get [] (histo_bins s) n) = 12" using f(2) by simp
  show "length (sm_get [] histo_headers n) = 12"
    using n by (elim disjE) (simp_all add: sm_get_def histo_headers_def histo_descs_def histo_header_list_def Let_def)
qed

lemma bin_pairs_ok:
  assumes "length v = length (sm_get [] histo_headers k)"
  shows "bin_pairs (k, v) = Inr (zip (sm_get [] histo_headers k) v)"
proof -
  let ?h = "sm_get [] histo_headers k"
  have "res_map (\<lambda>i. res_bind (vget ?h (int i)) (\<lambda>n. Inr (n, v ! i))) xs = Inr (map (\<lambda>i. (?h ! i, v ! i)) xs)" if "\<forall>i\<in>set xs. i < length v" for xs
    using that assms by (induction xs) (simp_all add: vget_def)
  moreover have "map (\<lambda>i. (?h ! i, v ! i)) [0..<length v] = zip ?h v" using assms by (intro nth_equalityI) simp_all
  ultimately show ?thesis by (simp add: bin_pairs_def)
qed

lemma names_of_bins:
  assumes "map fst m = histo_names" and "\<forall>n\<in>set histo_names. length (sm_get [] m n) = length (sm_get [] histo_headers n)"
  shows "\<exists>bs. res_map bin_pairs (by_key m) = Inr bs \<and> mset (map fst (concat bs)) = mset (concat (map (sm_get [] histo_headers) histo_names))"
proof -
  have d: "distinct (map fst m)" using assms(1) distinct_names by simp
  have l: "length (snd kv) = length (sm_get [] histo_headers (fst kv))" if "kv \<in> set m" for kv
  proof -
    have "sm_get [] m (fst kv) = snd kv" by (rule sm_get_entry [OF d]) (use that in simp)
    moreover have "fst kv \<in> set histo_names" using keys_names [OF assms(1)] that by auto
    ultimately show ?thesis using assms(2) by force
  qed
  let ?z = "\<lambda>kv. zip (sm_get [] histo_headers (fst kv)) (snd kv)"
  have bp: "bin_pairs kv = Inr (?z kv)" if "kv \<in> set m" for kv using bin_pairs_ok [of "snd kv" "fst kv"] l [OF that] by simp
  have "res_map bin_pairs xs = Inr (map ?z xs)" if "set xs \<subseteq> set m" for xs
    using that by (induction xs) (simp_all add: bp)
  moreover have "set (by_key m) = set m" by (simp add: by_key_def)
  ultimately have run: "res_map bin_pairs (by_key m) = Inr (map ?z (by_key m))" by simp
  have "mset (map fst (concat (map ?z (by_key m)))) = mset (concat (map (\<lambda>kv. map fst (?z kv)) (by_key m)))" by (simp only: map_concat map_map comp_def)
  also have "\<dots> = mset (concat (map (\<lambda>kv. map fst (?z kv)) m))" by (rule concat_by_key)
  also have "map (\<lambda>kv. map fst (?z kv)) m = map (\<lambda>kv. sm_get [] histo_headers (fst kv)) m" using l by simp
  also have "\<dots> = map (sm_get [] histo_headers) histo_names" unfolding assms(1) [symmetric] by simp
  finally show ?thesis using run by blast
qed

lemma desc_names:
  "map fst counter_descs = counter_names" "map fst double_descs = double_names" "map fst vec_descs = vec_names"
  "map fst vec_double_descs = vec_double_names" "map fst calculated_descs = calculated_names"
  "map fst (concat (map (\<lambda>(name, desc, start_val, end_val, num_bins). map (\<lambda>h. (h, desc)) (histo_header_list name start_val end_val num_bins)) histo_descs)) =
     concat (map (sm_get [] histo_headers) histo_names)"
  by (simp_all add: counter_descs_def counter_names_def double_descs_def double_names_def vec_descs_def vec_names_def vec_double_descs_def
      vec_double_names_def calculated_descs_def calculated_names_def histo_descs_def histo_names_def histo_headers_def sm_get_def comp_def)

lemma UpdatePrints_names:
  assumes p: "stats_printable cfg s"
  shows "\<exists>ps as. UpdatePrints fmt epoch s = Inr (ps, as) \<and> mset (map fst ps) = mset (map fst (registered cfg))"
proof -
  let ?vs = "if epoch then epoch_vec_counters s else vec_counters s" and ?cs = "if epoch then epoch_counters s else counters s"
  let ?hs = "if epoch then epoch_histo_bins s else histo_bins s" and ?r = "nat (ranks cfg)"
  have k: "map fst ?cs = counter_names" "map fst ?vs = vec_names" "map fst (vec_doubles s) = vec_double_names" "map fst ?hs = histo_names"
    "map fst (doubles s) = double_names" "map fst (calculated s) = calculated_names"
    using p by (simp_all add: stats_printable_def stats_wf_def)
  have "\<forall>n\<in>set histo_names. length (sm_get [] ?hs n) = length (sm_get [] histo_headers n)" using printable_bins [OF p] by simp
  from names_of_bins [OF k(4) this] obtain bs where bs: "res_map bin_pairs (by_key ?hs) = Inr bs"
    "mset (map fst (concat bs)) = mset (concat (map (sm_get [] histo_headers) histo_names))" by blast
  have v: "mset (map fst (concat (map (vec_pairs show_u64) (by_key ?vs)))) = mset (map fst (concat (map (vec_headers ?r) vec_descs)))"
    unfolding names_of_headers desc_names k(2) [symmetric]
    by (rule names_of_vectors) (use k(2) distinct_names printable_vecs [OF p] in auto)
  have vd: "mset (map fst (concat (map (vec_pairs fmt) (by_key (vec_doubles s))))) = mset (map fst (concat (map (vec_headers ?r) vec_double_descs)))"
    unfolding names_of_headers desc_names k(3) [symmetric]
    by (rule names_of_vectors) (use k(3) distinct_names p in \<open>auto simp: stats_printable_def stats_wf_def\<close>)
  have b: "mset (map fst (map (\<lambda>(k, v). (k, show_u64 v)) (concat bs))) = mset (map fst (concat bs))" by (simp add: comp_def split_def)
  show ?thesis
    unfolding UpdatePrints_def Let_def bs(1) res_bind_Inr registered_def
    by (intro exI conjI, rule refl)
      (simp only: map_append mset_append names_by_key v vd b bs(2) desc_names k add.assoc add.left_commute add.commute)
qed

lemma emplaced:
  "set (fold (\<lambda>(n, d). sm_emplace n d) xs m) \<subseteq> set m \<union> set xs \<and>
   fst ` set (fold (\<lambda>(n, d). sm_emplace n d) xs m) = fst ` set m \<union> fst ` set xs"
proof (induction xs arbitrary: m)
  case (Cons x xs)
  obtain n d where x: "x = (n, d)" by (cases x)
  have "set (sm_emplace n d m) \<subseteq> insert (n, d) (set m)" "fst ` set (sm_emplace n d m) = insert n (fst ` set m)"
    by (auto simp: sm_emplace_def map_of_eq_None_iff)
  then show ?case using Cons.IH [of "sm_emplace n d m"] x by auto
qed simp

lemma registered_described: "\<forall>nd\<in>set (registered cfg). snd nd \<noteq> []"
  by (auto simp: registered_def counter_descs_def double_descs_def vec_descs_def vec_double_descs_def calculated_descs_def histo_descs_def
      vec_headers_def Let_def)

lemma described:
  assumes "n \<in> fst ` set (registered cfg)"
  shows "(n, sm_get [] (header_descs cfg) n) \<in> set (registered cfg) \<and> sm_get [] (header_descs cfg) n \<noteq> []"
proof -
  have "n \<in> fst ` set (header_descs cfg)" using assms emplaced [of "registered cfg" "[]"] by (simp add: header_descs_def)
  then obtain d where d: "map_of (header_descs cfg) n = Some d" by (metis map_of_eq_None_iff option.exhaust)
  then have "(n, d) \<in> set (registered cfg)" using emplaced [of "registered cfg" "[]"] map_of_SomeD [OF d] by (auto simp: header_descs_def)
  moreover from bspec [OF registered_described this] have "d \<noteq> []" by simp
  ultimately show ?thesis using d by (simp add: sm_get_def)
qed

text \<open>The label of the bin that counts a value names a range that holds it.\<close>

lemma bin_label_covers:
  assumes "(name, desc, start_val, end_val, num_bins) \<in> set histo_descs" and "width = (end_val - start_val) sdiv num_bins"
    and "bin_index (start_val, end_val) width (nat (num_bins + 2)) v = Inr i"
  shows "(i = 0 \<and> v < start_val) \<or>
    (1 \<le> i \<and> i \<le> num_bins \<and> start_val + (i - 1) * width \<le> v \<and> v \<le> start_val + i * width - 1 \<and>
      histo_header_list name start_val end_val num_bins ! nat i = bucket name start_val width i) \<or>
    (i = num_bins + 1 \<and> end_val \<le> v \<and> histo_header_list name start_val end_val num_bins ! nat i = name @ ''['' @ show_int end_val @ ''-]'')"
proof -
  have c: "start_val = 0" "num_bins = 10" "(end_val = 200 \<and> width = 20) \<or> (end_val = 100 \<and> width = 10)"
    using assms(1,2) by (auto simp: histo_descs_def)
  have idx: "i = (if v < 0 then 0 else if v > end_val then 11 else v div width + 1)"
    using assms(3) c by (auto simp: bin_index_def idiv_def signed_divide_int_def sgn_if split: if_splits)
  have hdr: "histo_header_list name 0 end_val 10 ! nat i = bucket name 0 width i" if "1 \<le> i" "i \<le> 10"
  proof -
    have "nat i = Suc (nat (i - 1))" "nat (i - 1) < length [1..10 :: int]" using that by auto
    then have "histo_header_list name 0 end_val 10 ! nat i = bucket name 0 width ([1..10] ! nat (i - 1))"
      using assms(2) c by (simp add: histo_header_list_def Let_def nth_append del: upto.simps)
    then show ?thesis using that by (simp add: nth_upto)
  qed
  have lst: "histo_header_list name 0 end_val 10 ! 11 = name @ ''['' @ show_int end_val @ ''-]''"
    by (simp add: histo_header_list_def Let_def nth_append)
  have "i = 0 \<and> v < 0 \<or> (1 \<le> i \<and> i \<le> 10 \<and> (i - 1) * width \<le> v \<and> v \<le> i * width - 1) \<or> (i = 11 \<and> end_val \<le> v)"
    using c(3) idx by (elim disjE; simp split: if_splits) presburger+
  then show ?thesis using hdr lst c(1,2) by auto
qed

section \<open>The files\<close>

lemma GetTextHeader_ok: "stats_printable cfg s \<Longrightarrow> \<exists>h. GetTextHeader b s = Inr h"
proof -
  assume "stats_printable cfg s"
  then have k: "map fst (counters s) = counter_names" by (simp add: stats_printable_def)
  have "''epoch_num'' \<in> fst ` set (counters s)" unfolding keys_names [OF k] by (simp add: counter_names_def)
  then have "map_of (counters s) ''epoch_num'' \<noteq> None" by (simp add: map_of_eq_None_iff)
  then obtain n where "sm_at (counters s) ''epoch_num'' = Inr n" by (auto simp: sm_at_def)
  then show ?thesis by (cases b) (simp_all add: GetTextHeader_def Let_def)
qed

text \<open>What an epoch and a channel add to their files.\<close>

definition epoch_entry :: "(json_data \<Rightarrow> string) \<Rightarrow> Config \<Rightarrow> json_data \<Rightarrow> string" where
  "epoch_entry shj cfg j = (if 1 \<le> output_level cfg then shj j else [])"

definition final_entry :: "(json_data \<Rightarrow> string) \<Rightarrow> Config \<Rightarrow> Controller \<Rightarrow> json_data \<Rightarrow> string" where
  "final_entry shj cfg c j =
     (if 0 \<le> output_level cfg then [CHR 0x22] @ show_int (stats_channel_id (ctrl_stats c)) @ [CHR 0x22] @ '':'' @ shj j else [])"

definition chan_printable :: "Config \<Rightarrow> Controller \<Rightarrow> bool" where
  "chan_printable cfg c \<longleftrightarrow> stats_printable cfg (ctrl_stats c)"

lemma epoch_channel_ok:
  assumes "chan_printable cfg c" and "fs (json_epoch_name cfg) = Some t"
  shows "\<exists>c' j' fs' con'. out_epoch_channel fmt shj cfg (c, j) (fs, con) = Inr ((c', j'), (fs', con')) \<and>
    ctrl_PrintEpochStats cfg c = Inr c' \<and> chan_printable cfg c' \<and> fs' (json_epoch_name cfg) = Some (t @ epoch_entry shj cfg j' @ list_sep)"
proof -
  let ?s0 = "Increment ''epoch_num'' (ctrl_stats c)"
  have "stats_printable cfg ?s0"
    by (rule printable_ops) (use assms(1) in \<open>simp_all add: chan_printable_def counter_names_def\<close>)
  then obtain s1 where s1: "epoch_figures cfg ?s0 = Inr s1" "stats_printable cfg s1" using epoch_figures_ok by blast
  obtain ps as where p: "UpdatePrints fmt True s1 = Inr (ps, as)" using UpdatePrints_names [OF s1(2)] by blast
  have c: "stats_printable cfg (clear_epoch s1)" using clear_epoch_printable [OF s1(2)] by simp
  obtain h where h: "GetTextHeader False (clear_epoch s1) = Inr h" using GetTextHeader_ok [OF c] by blast
  show ?thesis
    using s1(1) p h c assms(2)
    by (auto simp: out_epoch_channel_def out_PrintEpochStats_def Let_def f_app_def epoch_entry_def chan_printable_def
        ctrl_PrintEpochStats_def stats_PrintEpochStats_def UpdateEpochStats_split)
qed

lemma epoch_channels_ok:
  assumes "\<forall>cj\<in>set cjs. chan_printable cfg (fst cj)" and "fs (json_epoch_name cfg) = Some t"
  shows "\<exists>cjs' fs' con'. res_map_state (out_epoch_channel fmt shj cfg) cjs (fs, con) = Inr (cjs', (fs', con')) \<and> length cjs' = length cjs \<and>
    res_map (ctrl_PrintEpochStats cfg) (map fst cjs) = Inr (map fst cjs') \<and>
    fs' (json_epoch_name cfg) = Some (t @ concat (map (\<lambda>cj. epoch_entry shj cfg (snd cj) @ list_sep) cjs'))"
  using assms
proof (induction cjs arbitrary: fs t con)
  case (Cons cj cjs)
  obtain c j where cj: "cj = (c, j)" by (cases cj)
  obtain c1 j1 fs1 con1 where s1: "out_epoch_channel fmt shj cfg (c, j) (fs, con) = Inr ((c1, j1), (fs1, con1))" "ctrl_PrintEpochStats cfg c = Inr c1"
    "fs1 (json_epoch_name cfg) = Some (t @ epoch_entry shj cfg j1 @ list_sep)"
    using epoch_channel_ok [of cfg c fs t fmt shj j con] Cons.prems cj by auto
  obtain cjs2 fs2 con2 where s2: "res_map_state (out_epoch_channel fmt shj cfg) cjs (fs1, con1) = Inr (cjs2, (fs2, con2))" "length cjs2 = length cjs"
    "res_map (ctrl_PrintEpochStats cfg) (map fst cjs) = Inr (map fst cjs2)"
    "fs2 (json_epoch_name cfg) = Some ((t @ epoch_entry shj cfg j1 @ list_sep) @ concat (map (\<lambda>cj. epoch_entry shj cfg (snd cj) @ list_sep) cjs2))"
    using Cons.IH [where fs = fs1 and con = con1, OF _ s1(3)] Cons.prems(1) by auto
  then show ?case using s1 cj by simp
qed simp

lemma final_channel_ok:
  assumes "chan_printable cfg c" and "fs (json_stats_name cfg) = Some t" and "txt_stats_name cfg \<noteq> json_stats_name cfg"
  shows "\<exists>c' j' fs' con'. out_final_channel fmt shj cfg n (i, c, j) (fs, con) = Inr ((c', j'), (fs', con')) \<and>
    fs' (json_stats_name cfg) = Some (t @ final_entry shj cfg c' j' @ (if i \<noteq> n - 1 then list_sep else [])) \<and>
    (\<forall>f. f \<noteq> json_stats_name cfg \<longrightarrow> f \<noteq> txt_stats_name cfg \<longrightarrow> fs' f = fs f)"
proof -
  obtain s1 where s1: "UpdateFinalStats cfg (ctrl_stats c) = Inr s1" "stats_printable cfg s1"
    using UpdateFinalStats_printable assms(1) unfolding chan_printable_def by blast
  obtain ps as where p: "UpdatePrints fmt False s1 = Inr (ps, as)" using UpdatePrints_names [OF s1(2)] by blast
  obtain h where h: "GetTextHeader True s1 = Inr h" using GetTextHeader_ok [OF s1(2)] by blast
  show ?thesis
    using s1(1) p h assms(2,3) by (auto simp: out_final_channel_def out_PrintFinalStats_def Let_def f_app_def f_out_def final_entry_def)
qed

fun joined :: "'a list \<Rightarrow> 'a list list \<Rightarrow> 'a list" where
  "joined sep [] = []"
| "joined sep [x] = x"
| "joined sep (x # y # xs) = x @ sep @ joined sep (y # xs)"

lemma joined_sep: "xs \<noteq> [] \<Longrightarrow> concat (map (\<lambda>x. x @ sep) xs) = joined sep xs @ sep"
  by (induction sep xs rule: joined.induct) simp_all

lemma joined_Cons: "xs \<noteq> [] \<Longrightarrow> joined sep (x # xs) = x @ sep @ joined sep xs"
  by (cases xs) simp_all

lemma final_channels_ok:
  assumes "\<forall>cj\<in>set cjs. chan_printable cfg (fst cj)" and "fs (json_stats_name cfg) = Some t" and "txt_stats_name cfg \<noteq> json_stats_name cfg"
    and "k + length cjs = n"
  shows "\<exists>cjs' fs' con'. res_map_state (out_final_channel fmt shj cfg n) (enumerate k cjs) (fs, con) = Inr (cjs', (fs', con')) \<and> length cjs' = length cjs \<and>
    fs' (json_stats_name cfg) = Some (t @ joined list_sep (map (\<lambda>(c, j). final_entry shj cfg c j) cjs')) \<and>
    (\<forall>f. f \<noteq> json_stats_name cfg \<longrightarrow> f \<noteq> txt_stats_name cfg \<longrightarrow> fs' f = fs f)"
  using assms
proof (induction cjs arbitrary: fs t con k)
  case (Cons cj cjs)
  obtain c j where cj: "cj = (c, j)" by (cases cj)
  obtain c1 j1 fs1 con1 where s1: "out_final_channel fmt shj cfg n (k, c, j) (fs, con) = Inr ((c1, j1), (fs1, con1))"
    "fs1 (json_stats_name cfg) = Some (t @ final_entry shj cfg c1 j1 @ (if k \<noteq> n - 1 then list_sep else []))"
    "\<forall>f. f \<noteq> json_stats_name cfg \<longrightarrow> f \<noteq> txt_stats_name cfg \<longrightarrow> fs1 f = fs f"
    using final_channel_ok [of cfg c fs t fmt shj n k j con] Cons.prems cj by auto
  obtain cjs2 fs2 con2 where s2: "res_map_state (out_final_channel fmt shj cfg n) (enumerate (Suc k) cjs) (fs1, con1) = Inr (cjs2, (fs2, con2))"
    "length cjs2 = length cjs"
    "fs2 (json_stats_name cfg) = Some ((t @ final_entry shj cfg c1 j1 @ (if k \<noteq> n - 1 then list_sep else [])) @
       joined list_sep (map (\<lambda>(c, j). final_entry shj cfg c j) cjs2))"
    "\<forall>f. f \<noteq> json_stats_name cfg \<longrightarrow> f \<noteq> txt_stats_name cfg \<longrightarrow> fs2 f = fs1 f"
    using Cons.IH [where fs = fs1 and con = con1 and k = "Suc k", OF _ s1(2) Cons.prems(3)] Cons.prems(1,4) by auto
  have "k = n - 1 \<longleftrightarrow> cjs2 = []" using Cons.prems(4) s2(2) by (cases cjs2) auto
  then show ?case using s1 s2 cj by (cases "cjs2 = []") (simp_all add: joined_Cons)
qed simp

text \<open>One epoch of the memory system: the file grows by one entry per channel, and the system is the one
  of the model without output.\<close>

definition sys_printable :: "Config \<Rightarrow> nat \<Rightarrow> 's BaseDRAMSystem \<Rightarrow> bool" where
  "sys_printable cfg n s \<longleftrightarrow> sys_config s = cfg \<and> length (ctrls s) = n \<and> (\<forall>c\<in>set (ctrls s). chan_printable cfg c)"

lemma sys_epoch_ok:
  assumes "sys_printable cfg n s" and "length js = n"
    and "if sys_clk s = of_int (epoch_period cfg) then t = ''['' else fst o1 (json_epoch_name cfg) = Some t"
  shows "\<exists>s' js' o2. out_sys_PrintEpochStats fmt shj s js o1 = Inr (s', js', o2) \<and> sys_PrintEpochStats s = Inr s' \<and> length js' = n \<and>
    fst o2 (json_epoch_name cfg) = Some (t @ concat (map (\<lambda>j. epoch_entry shj cfg j @ list_sep) js'))"
proof -
  let ?fs = "if sys_clk s - of_int (epoch_period cfg) = 0 then f_out (json_epoch_name cfg) ''['' (fst o1) else fst o1"
  have c: "sys_config s = cfg" "length (ctrls s) = n" "\<forall>cj\<in>set (zip (ctrls s) js). chan_printable cfg (fst cj)"
    using assms(1) by (auto simp: sys_printable_def dest: set_zip_leftD)
  have f: "?fs (json_epoch_name cfg) = Some t" using assms(3) by (auto simp: f_out_def)
  from epoch_channels_ok [of "zip (ctrls s) js" cfg ?fs t fmt shj "snd o1", OF c(3) f] obtain cjs fs con where
    r: "res_map_state (out_epoch_channel fmt shj cfg) (zip (ctrls s) js) (?fs, snd o1) = Inr (cjs, (fs, con))" "length cjs = length (zip (ctrls s) js)"
    "res_map (ctrl_PrintEpochStats cfg) (map fst (zip (ctrls s) js)) = Inr (map fst cjs)"
    "fs (json_epoch_name cfg) = Some (t @ concat (map (\<lambda>cj. epoch_entry shj cfg (snd cj) @ list_sep) cjs))" by blast
  have z: "map fst (zip (ctrls s) js) = ctrls s" "length (zip (ctrls s) js) = n" using c(2) assms(2) by simp_all
  have "sys_PrintEpochStats s = Inr (s\<lparr>ctrls := map fst cjs\<rparr>)" using r(3) z(1) c(1) by (simp add: sys_PrintEpochStats_def)
  moreover have "out_sys_PrintEpochStats fmt shj s js o1 = Inr (s\<lparr>ctrls := map fst cjs\<rparr>, map snd cjs, (fs, con))"
    unfolding out_sys_PrintEpochStats_def Let_def c(1) r(1) by simp
  ultimately show ?thesis using r(2,4) z(2) by (simp add: comp_def)
qed

text \<open>The epochs of a run, each on the system as it is when the epoch ends.\<close>

fun out_epochs ::
  "(real \<Rightarrow> string) \<Rightarrow> (json_data \<Rightarrow> string) \<Rightarrow> 's BaseDRAMSystem list \<Rightarrow> json_data list \<Rightarrow> files \<times> string \<Rightarrow>
   (json_data list \<times> (files \<times> string)) res" where
  "out_epochs fmt shj [] js o' = Inr (js, o')"
| "out_epochs fmt shj (s # ss) js o' = res_bind (out_sys_PrintEpochStats fmt shj s js o') (\<lambda>(_, js', o''). out_epochs fmt shj ss js' o'')"

lemma epochs_ok:
  assumes "\<forall>s\<in>set ss. sys_printable cfg n s \<and> sys_clk s \<noteq> of_int (epoch_period cfg)" and "length js = n"
    and "fst o1 (json_epoch_name cfg) = Some (t @ concat (map (\<lambda>j. epoch_entry shj cfg j @ list_sep) ds))"
  shows "\<exists>js' o2 ds'. out_epochs fmt shj ss js o1 = Inr (js', o2) \<and> length js' = n \<and> length ds' = n * length ss + length ds \<and>
    fst o2 (json_epoch_name cfg) = Some (t @ concat (map (\<lambda>j. epoch_entry shj cfg j @ list_sep) ds'))"
  using assms
proof (induction ss arbitrary: js o1 ds)
  case (Cons s ss)
  have p: "sys_printable cfg n s" "if sys_clk s = of_int (epoch_period cfg) then t @ concat (map (\<lambda>j. epoch_entry shj cfg j @ list_sep) ds) = ''[''
      else fst o1 (json_epoch_name cfg) = Some (t @ concat (map (\<lambda>j. epoch_entry shj cfg j @ list_sep) ds))" using Cons.prems by simp_all
  from sys_epoch_ok [OF p(1) Cons.prems(2) p(2), of fmt shj] obtain s1 js1 o2 where s1: "out_sys_PrintEpochStats fmt shj s js o1 = Inr (s1, js1, o2)"
    "length js1 = n" "fst o2 (json_epoch_name cfg) = Some (t @ concat (map (\<lambda>j. epoch_entry shj cfg j @ list_sep) (ds @ js1)))" by auto
  from Cons.IH [OF _ s1(2,3)] Cons.prems(1) s1(1,2) show ?case by (simp add: ac_simps)
qed auto

lemma close_list_joined:
  assumes "fs f = Some (t @ concat (map (\<lambda>x. x @ list_sep) xs))" and "xs \<noteq> []"
  shows "close_list f fs f = Some (t @ joined list_sep xs @ [CHR '']'', CHR 0x0A])"
proof -
  have e: "fs f = Some ((t @ joined list_sep xs) @ [CHR '','', CHR 0x0A])" using assms by (simp add: joined_sep list_sep_def)
  show ?thesis unfolding close_list_def e by (simp add: list_update_append)
qed

lemma sys_final_ok:
  assumes "sys_printable cfg n s" and "length js = n" and "txt_stats_name cfg \<noteq> json_stats_name cfg" and "json_epoch_name cfg \<noteq> json_stats_name cfg"
    and "json_epoch_name cfg \<noteq> txt_stats_name cfg"
  shows "\<exists>s' js' o2. out_sys_PrintStats fmt shj s js o1 = Inr (s', js', o2) \<and>
    fst o2 (json_epoch_name cfg) = close_list (json_epoch_name cfg) (fst o1) (json_epoch_name cfg) \<and>
    fst o2 (json_stats_name cfg) = Some (''{'' @ joined list_sep (map2 (final_entry shj cfg) (ctrls s') js') @ ''}'')"
proof -
  let ?fs = "f_out (json_stats_name cfg) ''{'' (close_list (json_epoch_name cfg) (fst o1))"
  have c: "sys_config s = cfg" "\<forall>cj\<in>set (zip (ctrls s) js). chan_printable cfg (fst cj)" "0 + length (zip (ctrls s) js) = n" "length (ctrls s) = n"
    using assms(1,2) by (auto simp: sys_printable_def dest: set_zip_leftD)
  have f: "?fs (json_stats_name cfg) = Some ''{''" by (simp add: f_out_def)
  from final_channels_ok [of "zip (ctrls s) js" cfg ?fs "''{''" 0 n fmt shj "snd o1", OF c(2) f assms(3) c(3)] obtain cjs fs con where
    r: "res_map_state (out_final_channel fmt shj cfg n) (enumerate 0 (zip (ctrls s) js)) (?fs, snd o1) = Inr (cjs, (fs, con))"
    "fs (json_stats_name cfg) = Some (''{'' @ joined list_sep (map (\<lambda>(c, j). final_entry shj cfg c j) cjs))"
    "\<forall>f. f \<noteq> json_stats_name cfg \<longrightarrow> f \<noteq> txt_stats_name cfg \<longrightarrow> fs f = ?fs f" by blast
  have "out_sys_PrintStats fmt shj s js o1 = Inr (s\<lparr>ctrls := map fst cjs\<rparr>, map snd cjs, (f_app (json_stats_name cfg) ''}'' fs, con))"
    unfolding out_sys_PrintStats_def Let_def c(1,4) r(1) by simp
  moreover have "zip (map fst cjs) (map snd cjs) = cjs" by (rule zip_map_fst_snd)
  ultimately show ?thesis using r(2,3) assms(4,5) by (simp add: f_app_def f_out_def)
qed

lemma fresh_system_printable:
  assumes "JedecDRAMSystem_new cfg rcb wcb = Inr s"
  shows "sys_printable cfg (nat (channels cfg)) s"
proof -
  obtain cs where cs: "res_map (Controller_new cfg) (irange (channels cfg)) = Inr cs" "s = (BaseDRAMSystem_new cfg rcb wcb)\<lparr>ctrls := cs\<rparr>"
    using assms by (auto simp: JedecDRAMSystem_new_def new_controllers_def Let_def res_simps split: if_splits)
  have "length cs = length xs \<and> (\<forall>c\<in>set cs. chan_printable cfg c)" if "res_map (Controller_new cfg) xs = Inr cs" for xs cs
    using that
  proof (induction xs arbitrary: cs)
    case (Cons x xs)
    then obtain c cs' where "Controller_new cfg x = Inr c" "res_map (Controller_new cfg) xs = Inr cs'" "cs = c # cs'" by (auto simp: res_simps)
    moreover from this(1) have "chan_printable cfg c" using fresh_stats_printable by (auto simp: Controller_new_def chan_printable_def res_simps)
    ultimately show ?case using Cons.IH by simp
  qed simp
  from this [OF cs(1)] show ?thesis by (simp add: sys_printable_def cs(2) BaseDRAMSystem_new_def irange_def)
qed

section \<open>Properties\<close>



text \<open>C17. Every line of a report carries its description: on statistics with the registered maps, the figures
  of an epoch or of the whole run can be computed and printed; the names of the lines are, in some order, exactly the
  registered ones, and the text next to a name is a description that was registered for it, never the empty
  default.\<close>

theorem report_lines_described:
  assumes "stats_printable cfg s"
  shows "\<exists>s' ps as. (if epoch then epoch_figures cfg s else UpdateFinalStats cfg s) = Inr s' \<and> UpdatePrints fmt epoch s' = Inr (ps, as) \<and>
    mset (map fst ps) = mset (map fst (registered cfg)) \<and>
    (\<forall>(n, v)\<in>set ps. (n, sm_get [] (header_descs cfg) n) \<in> set (registered cfg) \<and> sm_get [] (header_descs cfg) n \<noteq> [])"
proof -
  obtain s' where s': "(if epoch then epoch_figures cfg s else UpdateFinalStats cfg s) = Inr s'" "stats_printable cfg s'"
    using epoch_figures_ok [OF assms] UpdateFinalStats_printable [OF assms] by (cases epoch) auto
  obtain ps as where p: "UpdatePrints fmt epoch s' = Inr (ps, as)" "mset (map fst ps) = mset (map fst (registered cfg))"
    using UpdatePrints_names [OF s'(2)] by blast
  have "fst ` set ps = fst ` set (registered cfg)" using mset_eq_setD [OF p(2)] by simp
  then have "fst nv \<in> fst ` set (registered cfg)" if "nv \<in> set ps" for nv using that by blast
  then show ?thesis using s'(1) p described by fastforce
qed

theorem report_lines_described_witness:
  "\<exists>s s' ps as. SimpleStats_new hbm2_config 0 = Inr s \<and>
    epoch_figures hbm2_config (AddValue ''read_latency'' 35 (Increment ''num_reads_done'' s)) = Inr s' \<and> UpdatePrints (\<lambda>_. ''0'') True s' = Inr (ps, as) \<and>
    length ps = length (registered hbm2_config)"
proof -
  obtain s where s: "SimpleStats_new hbm2_config 0 = Inr s" using SimpleStats_new_wf by blast
  let ?s = "AddValue ''read_latency'' 35 (Increment ''num_reads_done'' s)"
  have p: "stats_printable hbm2_config ?s"
    using fresh_stats_printable [OF s] by (auto intro!: printable_ops simp: histo_names_def counter_names_def)
  from report_lines_described [OF p, of True "\<lambda>_. ''0''"] obtain s' ps as where "epoch_figures hbm2_config ?s = Inr s'" "UpdatePrints (\<lambda>_. ''0'') True s' = Inr (ps, as)"
    "mset (map fst ps) = mset (map fst (registered hbm2_config))" by auto
  moreover from mset_eq_length [OF this(3)] have "length ps = length (registered hbm2_config)" by simp
  ultimately show ?thesis using s by blast
qed

end
