(* ===== verification/Spec2Isabelle.thy ===== *)
theory Spec2Isabelle
  imports Anna_Program Anna_Parallel Dram_Setup Dram_Main Dram_Output
begin

text \<open>
  The simulator of ANNA, an accelerator for approximate nearest neighbour search
  (\<^verbatim>\<open>src/multi_anna\<close>), and the cycle-accurate memory simulator DRAMsim3 below it
  (\<^verbatim>\<open>src/dramsim3/src\<close>). The theories of this directory model both, from the text of their
  input files to the figures of their reports; this root theory imports them all.

  \<^bold>\<open>The program.\<close> \<^verbatim>\<open>test.cpp\<close> loads the sizes of the clusters and the clusters that each query
  probes, lays the tables out in memory and builds a \<^verbatim>\<open>MultiANNA\<close> of eight cores.
  \<^verbatim>\<open>MultiANNA::Run\<close> groups the queries of a batch by cluster and deals the groups to the cores. A
  core is a pipeline of three modules: the cluster codebook module reads centroids, the fetch module reads
  metadata and encoded vectors, the similarity module counts cycles. The modules read through
  \<^verbatim>\<open>MemoryReader\<close>s, the readers send addresses to the \<^verbatim>\<open>MultiMemoryInterface\<close>, and
  that carries them through a switch to eight stacks, each a DRAMsim3 \<^verbatim>\<open>MemorySystem\<close>. A memory
  system has one controller per channel (or is a hybrid memory cube with one per vault); a controller owns
  the transaction queues, the command queues of the banks, the state of the banks with their timing, a refresh
  counter and statistics. Finished reads come back as callbacks. DRAMsim3 is also a program of its own,
  \<^verbatim>\<open>main.cc\<close>, in which one of three CPU models drives a memory system.

  \<^bold>\<open>Conventions.\<close> \<^verbatim>\<open>uint64_t\<close> is a 64-bit word, so its arithmetic wraps as in the source;
  \<^verbatim>\<open>int\<close> is an integer, with conversions to 32 bits written out; \<^verbatim>\<open>double\<close> is a real number.
  A class is a record and a method a function on it; a method that changes an object returns the new one. Every
  way to stop or to be undefined (an \<^verbatim>\<open>AbruptExit\<close>, a failed assertion, an index out of range, the
  front of an empty container, a missing key, a division by zero) is a value of the type \<open>error\<close>, so a
  theorem that an operation returns \<open>Inr\<close> says that none of them happens. Callbacks are functions on a
  client state that a memory system threads through its tick. Members that a constructor leaves unset are
  arguments. Definitions keep the names of the source, with a prefix where two classes share one
  (\<open>cpm_\<close>, \<open>efm_\<close>, \<open>scm_\<close>, \<open>core_\<close>, \<open>anna_\<close>, \<open>mmi_\<close>; \<open>bank_\<close>, \<open>ctrl_\<close>, \<open>jedec_\<close>, \<open>hmc_\<close>, \<open>mem_\<close>).

  \<^bold>\<open>Theories and sources.\<close>
  \<^item> \<open>Anna_Prelude\<close>: words, results, vectors, ordered maps, multimaps and the locale \<open>ring_counter\<close>.
  \<^item> \<open>Dram_Common\<close> (\<^verbatim>\<open>common.h/.cc\<close>), \<open>Dram_Config\<close> (\<^verbatim>\<open>configuration.h/.cc\<close>),
    \<open>Dram_Ini\<close> (\<^verbatim>\<open>INIReader.h\<close>), \<open>Dram_Timing\<close> (\<^verbatim>\<open>timing.h/.cc\<close>);
    \<open>Dram_Sample\<close> and \<open>Dram_Shipped\<close> hold the configuration \<^verbatim>\<open>HBM2_8Gb_x128.ini\<close> that the
    accelerator opens, and \<open>Dram_Setup\<close> what any configuration file establishes.
  \<^item> \<open>Dram_Bank\<close> (\<^verbatim>\<open>bankstate\<close>), \<open>Dram_Channel\<close> (\<^verbatim>\<open>channel_state\<close>),
    \<open>Dram_Refresh\<close> (\<^verbatim>\<open>refresh\<close>), \<open>Dram_Command_Queue\<close> (\<^verbatim>\<open>command_queue\<close>),
    \<open>Dram_Stats\<close> and \<open>Dram_Output\<close> (\<^verbatim>\<open>simple_stats\<close>), \<open>Dram_Controller\<close>
    (\<^verbatim>\<open>controller\<close>), \<open>Dram_System\<close> (\<^verbatim>\<open>dram_system\<close>), \<open>Dram_Hmc\<close> (\<^verbatim>\<open>hmc\<close>),
    \<open>Dram_Memory\<close> (\<^verbatim>\<open>memory_system\<close> and the ticks of \<^verbatim>\<open>cpu\<close>), \<open>Dram_Main\<close>
    (\<^verbatim>\<open>main.cc\<close> and the constructors of \<^verbatim>\<open>cpu\<close>).
  \<^item> \<open>Dram_Channel_Run\<close>, \<open>Dram_Controller_Run\<close>, \<open>Dram_Hmc_Run\<close>, \<open>Dram_Contract\<close>,
    \<open>Dram_Backend\<close>, \<open>Dram_Clock\<close>: executions of these components and the contract of a memory.
  \<^item> \<open>Anna_Config\<close> (\<^verbatim>\<open>config\<close>, \<^verbatim>\<open>query\<close>, the tables of \<^verbatim>\<open>test.cpp\<close>),
    \<open>Anna_Address\<close> (\<^verbatim>\<open>utils.hpp\<close>), \<open>Anna_Switch\<close> (\<^verbatim>\<open>memory_switch.hpp\<close>),
    \<open>Anna_Memory\<close> (\<^verbatim>\<open>multi_memory_interface.hpp\<close>), \<open>Anna_Reader\<close>
    (\<^verbatim>\<open>memory_reader.hpp\<close>), \<open>Anna_Modules\<close> (the three module headers), \<open>Anna_Core\<close>
    (\<^verbatim>\<open>multi_anna.hpp\<close>), \<open>Anna_Program\<close> (\<^verbatim>\<open>test.cpp\<close>).
  \<^item> \<open>Anna_Memory_Inv\<close>, \<open>Anna_Memory_Run\<close>, \<open>Anna_Parallel\<close>, \<open>Anna_Reader_Run\<close>,
    \<open>Anna_Modules_Run\<close>, \<open>Anna_Core_Run\<close>, \<open>Anna_Distribute\<close>, \<open>Anna_System\<close>,
    \<open>Anna_Pipeline\<close>, \<open>Anna_Run\<close>: invariants and executions of these.

  \<^bold>\<open>Interfaces.\<close> Each contract between components is a locale, interpreted on the model's own definitions:
  \<^item> \<open>ring_counter\<close>: a position that goes round; the queues of a channel (\<open>queue_ring\<close>), the ranks and the banks
    to refresh (\<open>rank_refresh\<close>, \<open>bank_refresh\<close>).
  \<^item> \<open>activation_window\<close>: at most so many activations in a window; the windows of four and of thirty-two
    (\<open>faw\<close>, \<open>taw\<close>).
  \<^item> \<open>memory_backend\<close>: what a client may rely on of a memory (a tick reports events that its state determines, what
    it holds is what was added and not yet reported, asking before adding is enough); the JEDEC system
    (\<open>jedec\<close>), the hybrid memory cube (\<open>hmc\<close>) and the front end over both (\<open>mem\<close>). The memory interface of
    the accelerator and the CPU models are proved against it.
  \<^item> \<open>memory_client\<close>: a driver whose tick keeps its memory live; the random, stream and trace CPUs.
  \<^item> \<open>indexed_state\<close>: iterations that work on disjoint slices commute; the callbacks (\<open>fr\<close>) and the whole
    iterations (\<open>st\<close>) of the parallel loop over the stacks.
  \<^item> \<open>core_property\<close>: a property that the steps of a core keep holds throughout a run; the pipeline invariant (\<open>pipe\<close>).

  \<^bold>\<open>What is shown.\<close>
  \<^item> No aborts: the whole program on the shipped configuration, the accelerator on any usable configuration, the
    memory interface, the stand-alone simulator, a channel, a controller and both memory systems.
  \<^item> Nothing lost: every probe of a query is dealt to one core; every read request is answered once; a reader
    is ready exactly when all its requests were answered; controllers, systems and the cube conserve transactions;
    an epoch of the statistics conserves events; a trace is replayed in order.
  \<^item> Memory timing: two issued commands respect every entry of the timing tables, the activation windows hold, the
    update of the earliest times refines a direct reading of the tables; refreshes block their rank.
  \<^item> Refinement and equivalence: the switch refines queues with a delay, a tick of a memory refines its list
    of events, the parallel loop over the stacks gives the sequential result in every order.
  \<^item> Progress: queues and refreshes go round, the switch delivers, the similarity module is ready after its cycles, a core
    with work left is never stuck.
  \<^item> Input and output: the INI parser and the CSV loader read back what is written, the shipped file gives the
    expected configuration, the address mappers are bijections, decoded addresses are in range, the JSON files
    and reports are well formed.
  \<^item> Behaviour that the code does not intend, proved as it is: overlapping address regions, vectors read one request late,
    a core without work that keeps the program from ending, a wrap-around for empty clusters, a refresh of a bank that
    leaves its timing, an exit from self refresh that aborts, an ideal memory that skips transactions, a last
    trace entry offered twice or lost.

  \<^bold>\<open>Bounds and fuel.\<close> Two loops of the cube carry fuel: the search for a link with room (the number
  of links) and the logic cycles within a DRAM cycle (its length in picoseconds); the fuel is shown to be enough, so
  an insertion and a tick are proved to return. The main loop of \<^verbatim>\<open>MultiANNA::Run\<close> has the
  number of ticks as fuel: whether it ends depends on the memory, and for a core without work it does not; the
  theorem on the whole program holds for every bound up to \<open>2 ^ 63\<close> ticks, at which the 64-bit clocks of the
  memories come near their wrap-around. The loops that split a read into blocks and queries into batches return
  \<open>OutOfFuel\<close> when a step makes no progress (it is 0 or wraps around), for which the source does not terminate. A tick of a controller that may issue two
  commands in a cycle (HBM) needs the column delays not to wrap (\<open>rw_gap\<close>, \<open>gap_at\<close>).

  \<^bold>\<open>Not modelled.\<close> The thermal model (\<^verbatim>\<open>thermal*\<close>, \<^verbatim>\<open>sp_ienv.c\<close>): it is compiled only with
  the option \<^verbatim>\<open>THERMAL\<close> and hands floating-point heat equations to the SuperLU library; the other
  compile-time options \<^verbatim>\<open>CMD_TRACE\<close> and \<^verbatim>\<open>ADDR_TRACE\<close> only write traces. The third-party headers (JSON, arguments,
  Catch, fmt), unit tests and plotting scripts. Making directories, opening files and printing in
  \<^verbatim>\<open>test.cpp\<close>. Rounding of floating-point numbers. The parallel loop is interleaved at the granularity of an
  iteration, which is exact for the disjoint slices shown in \<open>Anna_Parallel\<close>. That a run of the accelerator ends is
  not shown: it needs the liveness of the DRAM scheduling, and it is false for a core without work.
\<close>

end
